(* ===== verification/Frod_Prelude.thy ===== *)
theory Frod_Prelude
  imports Main "HOL-Library.Word"
begin

text \<open>
  Shared vocabulary of the development: the machine types the C sources use, the
  configuration constants of \<^verbatim>\<open>sizes.h\<close>, \<^verbatim>\<open>config.h\<close> and
  \<^verbatim>\<open>vmlayout.h\<close>, errors as values, reachability over a step relation, and the
  generic facts on words, counting loops and function updates that every component uses.
\<close>

unbundle bit_operations_syntax

named_theorems kernel_defs
named_theorems layout_defs

section \<open>Machine types\<close>

text \<open>
  The kernel is built for a 32-bit x86: \<^verbatim>\<open>int\<close>, \<^verbatim>\<open>long\<close>, pointers
  and \<^verbatim>\<open>size_t\<close> have 32 bits. A signed C integer is the same word read by
  \<^const>\<open>sint\<close>.
\<close>

type_synonym u8 = "8 word"
type_synonym u16 = "16 word"
type_synonym u32 = "32 word"
type_synonym u64 = "64 word"

type_synonym mem = "u32 \<Rightarrow> u8"

section \<open>Sizes, configuration and the layout of kernel memory\<close>

definition KB1 :: u32 where [layout_defs]: "KB1 = 0x400"
definition KB4 :: u32 where [layout_defs]: "KB4 = 0x1000"
definition MB1 :: u32 where [layout_defs]: "MB1 = 0x100000"
definition MB4 :: u32 where [layout_defs]: "MB4 = 0x400000"
definition MB256 :: u32 where [layout_defs]: "MB256 = 0x10000000"
definition GB1 :: u32 where [layout_defs]: "GB1 = 0x40000000"

definition MAX_CPUS :: u32 where [layout_defs]: "MAX_CPUS = 8"
definition HEAP_BLOCKS :: u32 where [layout_defs]: "HEAP_BLOCKS = 1024"
definition PROC_MAX_PID :: u32 where [layout_defs]: "PROC_MAX_PID = 1024"
definition UART_BAUD_RATE :: u16 where [layout_defs]: "UART_BAUD_RATE = 9600"
definition DEBUG :: nat where [layout_defs]: "DEBUG = 3"

definition BIOS_DATA_ADDR :: u32 where [layout_defs]: "BIOS_DATA_ADDR = KB1"
definition MAIN_BIOS_START :: u32 where [layout_defs]: "MAIN_BIOS_START = KB1 * 0x380"
definition MAIN_BIOS_END :: u32 where [layout_defs]: "MAIN_BIOS_END = MB1 - 1"
definition KERNEL_STACK_TOP :: u32 where [layout_defs]: "KERNEL_STACK_TOP = MB4"
definition KERNEL_STACK_SZ :: u32 where [layout_defs]: "KERNEL_STACK_SZ = KB4 * 2"
definition LAPIC_PHYS_VIRT_ADDR :: u32 where [layout_defs]:
  "LAPIC_PHYS_VIRT_ADDR = KERNEL_STACK_TOP - (KERNEL_STACK_SZ * MAX_CPUS) - KB4"
definition MODULE1_LOCATION :: u32 where [layout_defs]:
  "MODULE1_LOCATION = LAPIC_PHYS_VIRT_ADDR - KB4"
definition MAX_KERNEL_MEM :: u32 where [layout_defs]:
  "MAX_KERNEL_MEM = MODULE1_LOCATION - KB4"
definition PROC_VMM_START :: u32 where [layout_defs]: "PROC_VMM_START = MB256"
definition PROC_VMM_SIZE :: u32 where [layout_defs]: "PROC_VMM_SIZE = MB256"
definition PROC_VMM_END :: u32 where [layout_defs]:
  "PROC_VMM_END = PROC_VMM_START + PROC_VMM_SIZE"
definition HEAP_START :: u32 where [layout_defs]: "HEAP_START = PROC_VMM_END"
definition HEAP_SIZE :: u32 where [layout_defs]: "HEAP_SIZE = MB256"
definition HEAP_END :: u32 where [layout_defs]: "HEAP_END = HEAP_START + HEAP_SIZE"
definition KERNEL_MAX_VM :: u32 where [layout_defs]: "KERNEL_MAX_VM = HEAP_END"
definition USERMODE_START :: u32 where [layout_defs]: "USERMODE_START = GB1"
definition VM_VALID :: bool where [layout_defs]:
  "VM_VALID = (\<not> USERMODE_START < KERNEL_MAX_VM)"

section \<open>Errors as values\<close>

text \<open>
  \<^verbatim>\<open>PANIC\<close> prints its message and never returns; an access through an unmapped
  page ends in \<^verbatim>\<open>vmm_handle_page_fault\<close>, which panics too; an index outside an
  array is undefined behaviour of C and is kept as an error with the index. All are values of
  \<open>kerror\<close>, and a computation that can end so returns \<open>kerror + 'a\<close>.
\<close>

datatype kerror = Panic string | Page_fault u32 | Out_of_bounds u32

definition ebind :: "'e + 'a \<Rightarrow> ('a \<Rightarrow> 'e + 'b) \<Rightarrow> 'e + 'b" where
  "ebind r f = (case r of Inl e \<Rightarrow> Inl e | Inr x \<Rightarrow> f x)"

text \<open>A computation that may also run forever: \<open>(kerror + 'a) option\<close>.\<close>

definition oebind :: "('e + 'a) option \<Rightarrow> ('a \<Rightarrow> ('e + 'b) option) \<Rightarrow> ('e + 'b) option" where
  "oebind r f = (case r of None \<Rightarrow> None | Some (Inl e) \<Rightarrow> Some (Inl e) | Some (Inr x) \<Rightarrow> f x)"

section \<open>Loops that only advance an index\<close>

text \<open>\<^verbatim>\<open>while(c(i)) i++;\<close> on a 32-bit index: \<^const>\<open>None\<close> when no index
  stops it.\<close>

partial_function (option) while_inc :: "(u32 \<Rightarrow> bool) \<Rightarrow> u32 \<Rightarrow> u32 option" where
  "while_inc c i = (if c i then while_inc c (i + 1) else Some i)"

section \<open>Reachable states\<close>

inductive reachable :: "('s \<Rightarrow> bool) \<Rightarrow> ('s \<Rightarrow> 's \<Rightarrow> bool) \<Rightarrow> 's \<Rightarrow> bool" for init step where
  start: "init s \<Longrightarrow> reachable init step s"
| next_state: "reachable init step s \<Longrightarrow> step s t \<Longrightarrow> reachable init step t"

text \<open>
  The contract of every state machine of the kernel: an invariant that holds at the start
  and that each step keeps. What it gives the client is the invariant in every reachable
  state.
\<close>

locale invariant_system =
  fixes init :: "'s \<Rightarrow> bool"
    and step :: "'s \<Rightarrow> 's \<Rightarrow> bool"
    and invar :: "'s \<Rightarrow> bool"
  assumes invar_init: "init s \<Longrightarrow> invar s"
    and invar_step: "invar s \<Longrightarrow> step s t \<Longrightarrow> invar t"
begin

lemma reachable_invar: "reachable init step s \<Longrightarrow> invar s"
  by (induction rule: reachable.induct) (auto intro: invar_init invar_step)

lemma reachable_along:
  assumes "reachable init step s" and "\<And>t u. invar t \<Longrightarrow> P t \<Longrightarrow> step t u \<Longrightarrow> P u"
    and "\<And>t. init t \<Longrightarrow> P t"
  shows "P s"
  using assms(1)
proof (induction rule: reachable.induct)
  case (start s)
  then show ?case by (rule assms(3))
next
  case (next_state s t)
  then show ?case by (blast intro: assms(2) reachable_invar)
qed

end

section \<open>Generic facts\<close>

lemma ebind_simps [simp]:
  "ebind (Inl e) f = Inl e"
  "ebind (Inr x) f = f x"
  by (simp_all add: ebind_def)

lemma ebind_Inr_iff: "ebind r f = Inr y \<longleftrightarrow> (\<exists>x. r = Inr x \<and> f x = Inr y)"
  by (cases r) auto

lemma oebind_simps [simp]:
  "oebind None f = None"
  "oebind (Some (Inl e)) f = Some (Inl e)"
  "oebind (Some (Inr x)) f = f x"
  by (simp_all add: oebind_def)

text \<open>A counting loop of the sources increments a word below a word bound.\<close>

lemma unat_inc [simp]: "i < n \<Longrightarrow> unat (i + 1) = Suc (unat i)" for i n :: "'a::len word"
  by unat_arith

lemma count_up_measure [simp]: "i < n \<Longrightarrow> unat n - Suc (unat i) < unat n - unat i"
  for i n :: "'a::len word"
  by (simp add: word_less_nat_alt)

lemma word_le_cases_inc: "i < n \<Longrightarrow> i \<le> x \<longleftrightarrow> x = i \<or> i + 1 \<le> x"
  for i n x :: "'a::len word"
  by (auto simp: word_le_nat_alt word_unat_eq_iff)

lemma inc_le_iff_less: "i < n \<Longrightarrow> i + 1 \<le> x \<longleftrightarrow> i < x" for i n x :: "'a::len word"
  by (simp add: word_le_nat_alt word_less_nat_alt Suc_le_eq)

lemma upd_at_offset: "(m(d + i := x)) k = (if k - d = i then x else m k)"
  for d i k :: "'a::len word"
  by (auto simp: algebra_simps)

lemma unat_of_nat_small: "n < 2 ^ LENGTH('a) \<Longrightarrow> unat (of_nat n :: 'a::len word) = n"
  by (simp add: unat_of_nat)

lemma while_inc_Some:
  assumes "i \<le> N" and "\<And>j. i \<le> j \<Longrightarrow> j < N \<Longrightarrow> c j" and "\<not> c N"
  shows "while_inc c i = Some N"
  using assms(1,2)
proof (induction "unat N - unat i" arbitrary: i)
  case 0
  then have "i = N" by (simp add: word_le_nat_alt word_unat_eq_iff)
  then show ?case using assms(3) by (simp add: while_inc.simps [of c N])
next
  case (Suc x)
  then have i: "i < N" by (simp add: word_less_nat_alt)
  have "while_inc c (i + 1) = Some N"
    by (rule Suc.hyps) (use Suc i in \<open>auto simp: inc_le inc_le_iff_less [OF i]\<close>)
  with i Suc.prems(2) [of i] show ?case by (simp add: while_inc.simps [of c i])
qed

lemma while_inc_stops:
  assumes "i \<le> K" and "\<not> c K"
  obtains N where "i \<le> N" "N \<le> K" "while_inc c i = Some N" "\<not> c N"
    "\<And>j. i \<le> j \<Longrightarrow> j < N \<Longrightarrow> c j"
proof -
  define N where "N = (LEAST n. i \<le> n \<and> \<not> c n)"
  have N: "i \<le> N \<and> \<not> c N"
    unfolding N_def using assms by (intro LeastI [of "\<lambda>n. i \<le> n \<and> \<not> c n" K]) simp
  have below: "c j" if "i \<le> j" "j < N" for j
    using that not_less_Least [of j "\<lambda>n. i \<le> n \<and> \<not> c n"] unfolding N_def by blast
  have "N \<le> K"
    unfolding N_def using assms by (intro Least_le) simp
  with N below show thesis
    by (intro that [of N]) (auto intro: while_inc_Some)
qed

lemma of_nat_less_inc: "n + 1 < 2 ^ LENGTH('a) \<Longrightarrow> (of_nat n :: 'a::len word) < of_nat n + 1"
proof -
  assume n: "n + 1 < 2 ^ LENGTH('a)"
  have "unat (of_nat (n + 1) :: 'a word) = n + 1" using n by (rule unat_of_nat_small)
  moreover have "unat (of_nat n :: 'a word) = n" using n by (intro unat_of_nat_small) simp
  ultimately show ?thesis by (simp add: word_less_nat_alt add.commute)
qed

lemma sint_u8_bounds: "- 128 \<le> sint b" "sint b \<le> 127" for b :: u8
  using sint_greater_eq [of b] sint_less [of b] by simp_all

lemma unat_u32_less: "unat c < 4294967296" for c :: u32
proof -
  have "unat c < 2 ^ LENGTH(32)" by (rule unsigned_less)
  then show ?thesis by simp
qed

lemma unat_u16_less: "unat c < 65536" for c :: u16
proof -
  have "unat c < 2 ^ LENGTH(16)" by (rule unsigned_less)
  then show ?thesis by simp
qed

lemma unat_u8_less: "unat c < 256" for c :: u8
proof -
  have "unat c < 2 ^ LENGTH(8)" by (rule unsigned_less)
  then show ?thesis by simp
qed

lemma word_add_left_neq: "(a + i = a + j) = (i = j)" for a :: "'a::len word"
  by simp

lemma fun_upd_swap: "a \<noteq> b \<Longrightarrow> (f(a := x))(b := y) = (f(b := y))(a := x)"
  by (rule fun_upd_twist)

lemma unat_add_small:
  "unat a + unat b < 2 ^ LENGTH('a) \<Longrightarrow> unat (a + b) = unat a + unat b"
  for a b :: "'a::len word"
  by (simp add: unat_add_lem)

lemma ucast_low_byte: "ucast (x AND 0xFF) = (ucast x :: u8)" for x :: u32
proof -
  have "(0xFF :: u32) = mask 8" by (simp add: mask_eq_exp_minus_1)
  show ?thesis unfolding \<open>0xFF = mask 8\<close> by (intro bit_word_eqI) (auto simp: bit_simps)
qed

lemma VM_VALID_holds: "VM_VALID"
  by (simp add: layout_defs)

end
