(* ===== verification/Kernel_Memory.thy ===== *)
theory Kernel_Memory
  imports Frod_Prelude
begin

text \<open>
  Byte-addressed memory of 2^32 bytes and the little-endian accesses the compiled code makes
  through pointers to 16-, 32- and 64-bit integers. A pointer is its address; address
  arithmetic wraps at 2^32, as it does on the machine.
\<close>

definition load16 :: "mem \<Rightarrow> u32 \<Rightarrow> u16" where
  "load16 m a = ucast (m a) OR push_bit 8 (ucast (m (a + 1)))"

definition load32 :: "mem \<Rightarrow> u32 \<Rightarrow> u32" where
  "load32 m a = ucast (m a) OR push_bit 8 (ucast (m (a + 1)))
     OR push_bit 16 (ucast (m (a + 2))) OR push_bit 24 (ucast (m (a + 3)))"

definition load64 :: "mem \<Rightarrow> u32 \<Rightarrow> u64" where
  "load64 m a = ucast (load32 m a) OR push_bit 32 (ucast (load32 m (a + 4)))"

definition store16 :: "mem \<Rightarrow> u32 \<Rightarrow> u16 \<Rightarrow> mem" where
  "store16 m a v = m(a := ucast v, a + 1 := ucast (drop_bit 8 v))"

definition store32 :: "mem \<Rightarrow> u32 \<Rightarrow> u32 \<Rightarrow> mem" where
  "store32 m a v = m(a := ucast v, a + 1 := ucast (drop_bit 8 v),
     a + 2 := ucast (drop_bit 16 v), a + 3 := ucast (drop_bit 24 v))"

definition aligned4 :: "u32 \<Rightarrow> bool" where
  "aligned4 a \<longleftrightarrow> unat a mod 4 = 0"

text \<open>The bytes from \<open>a\<close> on, as many as \<open>n\<close>.\<close>

definition bytes_at :: "mem \<Rightarrow> u32 \<Rightarrow> nat \<Rightarrow> u8 list" where
  "bytes_at m a n = map (\<lambda>k. m (a + of_nat k)) [0..<n]"

text \<open>The contract of a typed view of memory: a store is read back, and it leaves every
  access to other addresses of the same alignment class alone.\<close>

locale typed_memory =
  fixes load :: "mem \<Rightarrow> u32 \<Rightarrow> 'v"
    and store :: "mem \<Rightarrow> u32 \<Rightarrow> 'v \<Rightarrow> mem"
    and slot :: "u32 \<Rightarrow> bool"
  assumes load_same: "load (store m a v) a = v"
    and load_other: "slot a \<Longrightarrow> slot b \<Longrightarrow> a \<noteq> b \<Longrightarrow> load (store m a v) b = load m b"
begin

lemma load_store:
  "slot a \<Longrightarrow> slot b \<Longrightarrow> load (store m a v) b = (if a = b then v else load m b)"
  by (simp add: load_same load_other)

lemma store_idem: "slot a \<Longrightarrow> slot b \<Longrightarrow> load (store (store m a v) a w) b = load (store m a w) b"
  by (simp add: load_store)

lemma store_swap:
  "slot a \<Longrightarrow> slot b \<Longrightarrow> slot c \<Longrightarrow> a \<noteq> b \<Longrightarrow>
     load (store (store m a v) b w) c = load (store (store m b w) a v) c"
  by (auto simp: load_store)

end

lemma bytes_at_simps [simp]:
  "bytes_at m a 0 = []"
  "length (bytes_at m a n) = n"
  by (simp_all add: bytes_at_def)

lemma nth_bytes_at [simp]: "k < n \<Longrightarrow> bytes_at m a n ! k = m (a + of_nat k)"
  by (simp add: bytes_at_def)

lemma bytes_at_Suc: "bytes_at m a (Suc n) = m a # bytes_at m (a + 1) n"
  by (simp add: bytes_at_def upt_conv_Cons map_Suc_upt [symmetric] comp_def add.assoc
      del: upt_Suc)

lemma unat_offset4: "aligned4 a \<Longrightarrow> i < 4 \<Longrightarrow> unat (a + i) = unat a + unat i"
proof (rule unat_add_small)
  assume "aligned4 a" and "i < 4"
  then have "unat a mod 4 = 0" and "unat i < 4"
    by (simp_all add: aligned4_def word_less_nat_alt)
  moreover have "unat a < 2 ^ 32"
    using unsigned_less [of a] by simp
  ultimately show "unat a + unat i < 2 ^ LENGTH(32)"
    by simp presburger
qed

lemma aligned4_offset_inj:
  assumes "aligned4 a" and "aligned4 b" and "i < 4" and "j < 4" and "a + i = b + j"
  shows "a = b"
proof -
  have "unat a + unat i = unat b + unat j"
    using assms unat_offset4 by metis
  moreover have "unat i < 4" "unat j < 4"
    using assms by (simp_all add: word_less_nat_alt)
  ultimately have "unat a = unat b"
    using assms(1,2) unfolding aligned4_def by presburger
  then show ?thesis by (simp add: word_unat_eq_iff)
qed

lemma aligned4_offset_neq:
  assumes "aligned4 a" and "aligned4 b" and "a \<noteq> b"
  shows "i < 4 \<Longrightarrow> j < 4 \<Longrightarrow> a + i \<noteq> b + j"
    and "j < 4 \<Longrightarrow> a \<noteq> b + j" and "i < 4 \<Longrightarrow> a + i \<noteq> b"
  using assms aligned4_offset_inj [of a b i j] aligned4_offset_inj [of a b 0 j]
    aligned4_offset_inj [of a b i 0] by auto

lemma load32_store32_same: "load32 (store32 m a v) a = v"
proof (rule bit_word_eqI)
  fix n assume n: "n < LENGTH(32)"
  then show "bit (load32 (store32 m a v) a) n = bit v n"
    unfolding load32_def store32_def
    by (cases "n < 8"; cases "n < 16"; cases "n < 24"; auto simp: bit_simps)
qed

lemma load32_store32_other:
  "aligned4 a \<Longrightarrow> aligned4 b \<Longrightarrow> a \<noteq> b \<Longrightarrow> load32 (store32 m a v) b = load32 m b"
  unfolding load32_def store32_def
  by (simp add: aligned4_offset_neq aligned4_offset_neq [symmetric])

lemma load16_store16_same: "load16 (store16 m a v) a = v"
proof (rule bit_word_eqI)
  fix n assume n: "n < LENGTH(16)"
  then show "bit (load16 (store16 m a v) a) n = bit v n"
    unfolding load16_def store16_def
    by (cases "n < 8"; auto simp: bit_simps)
qed

interpretation w32: typed_memory load32 store32 aligned4
  by unfold_locales (auto simp: load32_store32_same load32_store32_other)

interpretation w8: typed_memory "\<lambda>m a. m a" "\<lambda>m a v. m(a := v)" "\<lambda>_. True"
  by unfold_locales auto

end
