(* ===== verification/Pmm.thy ===== *)
theory Pmm
  imports Kernel_Memory
begin

text \<open>
  The physical memory manager, \<^verbatim>\<open>src/sys/pmm.c\<close>: a bitmap in memory, one bit per
  block of 4 KB. The state is the memory, the address of the bitmap and the number of
  blocks; later components extend this record. The bitmap is reached through its physical
  address: before paging that is what the code does, and afterwards the header of
  \<^verbatim>\<open>pmm.h\<close> requires the bitmap to be identity mapped.
\<close>

section \<open>State and operations\<close>

record pmm_state =
  pmem :: mem
  pmm_bitmap :: u32
  pmm_bitmap_sz :: u32

definition PMM_BLK_SZ :: u32 where
  "PMM_BLK_SZ = 4096"

definition bitmap_set :: "u32 \<Rightarrow> u32 \<Rightarrow> mem \<Rightarrow> mem" where
  "bitmap_set a b m = m(a + b div 8 := m (a + b div 8) OR push_bit (unat (b mod 8)) 1)"

definition bitmap_unset :: "u32 \<Rightarrow> u32 \<Rightarrow> mem \<Rightarrow> mem" where
  "bitmap_unset a b m = m(a + b div 8 := m (a + b div 8) AND NOT (push_bit (unat (b mod 8)) 1))"

definition bitmap_is_set :: "u32 \<Rightarrow> u32 \<Rightarrow> mem \<Rightarrow> bool" where
  "bitmap_is_set a b m \<longleftrightarrow> m (a + b div 8) AND push_bit (unat (b mod 8)) 1 \<noteq> 0"

definition align_downwards :: "u32 \<Rightarrow> u32 \<Rightarrow> u32" where
  "align_downwards a b = a - a mod b"

definition align_upwards :: "u32 \<Rightarrow> u32 \<Rightarrow> u32" where
  "align_upwards a b = (if a mod b \<noteq> 0 then (a div b) * b + b else a)"

definition pmm_is_taken :: "u32 \<Rightarrow> ('a) pmm_state_scheme \<Rightarrow> bool" where
  "pmm_is_taken block s = bitmap_is_set (pmm_bitmap s) block (pmem s)"

definition pmm_set_block :: "u32 \<Rightarrow> ('a) pmm_state_scheme \<Rightarrow> ('a) pmm_state_scheme" where
  "pmm_set_block b s = s\<lparr>pmem := bitmap_set (pmm_bitmap s) b (pmem s)\<rparr>"

function pmm_mark_loop :: "u32 \<Rightarrow> u32 \<Rightarrow> ('a) pmm_state_scheme \<Rightarrow> ('a) pmm_state_scheme" where
  "pmm_mark_loop i j s = (if i < j then pmm_mark_loop (i + 1) j (pmm_set_block i s) else s)"
  by pat_completeness auto
termination
  by (relation "measure (\<lambda>(i, j, s). unat j - unat i)") auto

definition pmm_mark_mem_taken :: "u32 \<Rightarrow> u32 \<Rightarrow> ('a) pmm_state_scheme \<Rightarrow> ('a) pmm_state_scheme" where
  "pmm_mark_mem_taken start end s =
     (let start = align_downwards start PMM_BLK_SZ;
          end = align_upwards end PMM_BLK_SZ
      in pmm_mark_loop (start div PMM_BLK_SZ) (end div PMM_BLK_SZ) s)"

function pmm_alloc_loop :: "u32 \<Rightarrow> ('a) pmm_state_scheme \<Rightarrow> u32 \<times> ('a) pmm_state_scheme" where
  "pmm_alloc_loop i s =
     (if i < pmm_bitmap_sz s then
        (if \<not> bitmap_is_set (pmm_bitmap s) i (pmem s)
         then (i * PMM_BLK_SZ, pmm_set_block i s)
         else pmm_alloc_loop (i + 1) s)
      else (0, s))"
  by pat_completeness auto
termination
  by (relation "measure (\<lambda>(i, s). unat (pmm_bitmap_sz s) - unat i)") auto

definition pmm_alloc_first :: "('a) pmm_state_scheme \<Rightarrow> u32 \<times> ('a) pmm_state_scheme" where
  "pmm_alloc_first s = pmm_alloc_loop 1 s"

definition pmm_free :: "u32 \<Rightarrow> ('a) pmm_state_scheme \<Rightarrow> ('a) pmm_state_scheme" where
  "pmm_free block s =
     (let num = block div PMM_BLK_SZ
      in s\<lparr>pmem := bitmap_unset (pmm_bitmap s) num (pmem s)\<rparr>)"

function pmm_mark_run :: "u32 \<Rightarrow> u32 \<Rightarrow> ('a) pmm_state_scheme \<Rightarrow> ('a) pmm_state_scheme" where
  "pmm_mark_run i found s =
     (if found > 0 then pmm_mark_run i (found - 1) (pmm_set_block (i - (found - 1)) s) else s)"
  by pat_completeness auto
termination
  by (relation "measure (\<lambda>(i, found, s). unat found)") (auto simp: measure_unat)

function pmm_alloc_n_loop ::
  "u32 \<Rightarrow> u32 \<Rightarrow> u32 \<Rightarrow> ('a) pmm_state_scheme \<Rightarrow> u32 \<times> ('a) pmm_state_scheme" where
  "pmm_alloc_n_loop n found i s =
     (if i < pmm_bitmap_sz s then
        (if \<not> bitmap_is_set (pmm_bitmap s) i (pmem s)
         then (if found + 1 = n
               then ((i - (n - 1)) * PMM_BLK_SZ, pmm_mark_run i (found + 1) s)
               else pmm_alloc_n_loop n (found + 1) (i + 1) s)
         else pmm_alloc_n_loop n 0 (i + 1) s)
      else (0, s))"
  by pat_completeness auto
termination
  by (relation "measure (\<lambda>(n, found, i, s). unat (pmm_bitmap_sz s) - unat i)") auto

definition pmm_alloc_first_n_blocks ::
  "u32 \<Rightarrow> ('a) pmm_state_scheme \<Rightarrow> u32 \<times> ('a) pmm_state_scheme" where
  "pmm_alloc_first_n_blocks n s = pmm_alloc_n_loop n 0 1 s"

text \<open>The memory map the boot loader leaves: packed entries, each \<^verbatim>\<open>size + 4\<close> bytes
  after the one before (\<^verbatim>\<open>multiboot_mmap\<close> of \<^verbatim>\<open>multiboot1.h\<close>).\<close>

definition mmap_size :: "mem \<Rightarrow> u32 \<Rightarrow> u32" where "mmap_size m p = load32 m p"
definition mmap_base_addr_l :: "mem \<Rightarrow> u32 \<Rightarrow> u32" where "mmap_base_addr_l m p = load32 m (p + 4)"
definition mmap_length_l :: "mem \<Rightarrow> u32 \<Rightarrow> u32" where "mmap_length_l m p = load32 m (p + 12)"
definition mmap_type :: "mem \<Rightarrow> u32 \<Rightarrow> u32" where "mmap_type m p = load32 m (p + 20)"
definition mmap_next :: "mem \<Rightarrow> u32 \<Rightarrow> u32" where "mmap_next m p = p + (mmap_size m p + 4)"

partial_function (option) pmm_max_loop :: "mem \<Rightarrow> u32 \<Rightarrow> u32 \<Rightarrow> u32 \<Rightarrow> u32 option" where
  "pmm_max_loop m stop mmap mx =
     (if mmap < stop then
        pmm_max_loop m stop (mmap_next m mmap)
          (if mmap_type m mmap = 1 then mmap_base_addr_l m mmap + mmap_length_l m mmap else mx)
      else Some mx)"

definition pmm_get_max_space :: "u32 \<Rightarrow> u32 \<Rightarrow> mem \<Rightarrow> u32 option" where
  "pmm_get_max_space mmap len m = pmm_max_loop m (mmap + len) mmap 0"

definition pmm_bytes :: "u32 \<Rightarrow> u32" where
  "pmm_bytes sz = (let bytes = sz div 8 in if sz mod 8 \<noteq> 0 then bytes + 1 else bytes)"

definition pmm_blocks_bitmap :: "u32 \<Rightarrow> u32" where
  "pmm_blocks_bitmap sz =
     (let blocks = pmm_bytes sz div PMM_BLK_SZ
      in if sz mod (PMM_BLK_SZ * 8) \<noteq> 0 then blocks + 1 else blocks)"

function pmm_zero_loop :: "u32 \<Rightarrow> u32 \<Rightarrow> u32 \<Rightarrow> mem \<Rightarrow> mem" where
  "pmm_zero_loop a bytes i m =
     (if i < bytes then pmm_zero_loop a bytes (i + 1) (m(a + i := 0)) else m)"
  by pat_completeness auto
termination
  by (relation "measure (\<lambda>(a, bytes, i, m). unat bytes - unat i)") auto

function pmm_mark_bitmap_loop :: "u32 \<Rightarrow> u32 \<Rightarrow> u32 \<Rightarrow> mem \<Rightarrow> mem" where
  "pmm_mark_bitmap_loop a blocks i m =
     (if i < blocks
      then pmm_mark_bitmap_loop a blocks (i + 1) (bitmap_set a (i + a div PMM_BLK_SZ) m) else m)"
  by pat_completeness auto
termination
  by (relation "measure (\<lambda>(a, blocks, i, m). unat blocks - unat i)") auto

partial_function (option) pmm_place_bitmap ::
  "u32 \<Rightarrow> u32 \<Rightarrow> ('a) pmm_state_scheme \<Rightarrow> ('a) pmm_state_scheme option" where
  "pmm_place_bitmap stop copy s =
     (let m = pmem s; bytes = pmm_bytes (pmm_bitmap_sz s);
          blocks = pmm_blocks_bitmap (pmm_bitmap_sz s);
          base = align_downwards (align_upwards (mmap_base_addr_l m copy) PMM_BLK_SZ) PMM_BLK_SZ;
          end = mmap_base_addr_l m copy + mmap_length_l m copy
      in if \<not> copy < stop then Some s
         else if mmap_type m copy = 1 \<and> mmap_length_l m copy div PMM_BLK_SZ \<ge> blocks
             \<and> (end - base) div PMM_BLK_SZ \<ge> blocks
         then Some (s\<lparr>pmm_bitmap := base,
                 pmem := pmm_mark_bitmap_loop base blocks 0 (pmm_zero_loop base bytes 0 m)\<rparr>)
         else pmm_place_bitmap stop (mmap_next m copy) s)"

partial_function (option) pmm_mark_while ::
  "(mem \<Rightarrow> u32) \<Rightarrow> u32 \<Rightarrow> ('a) pmm_state_scheme \<Rightarrow> ('a) pmm_state_scheme option" where
  "pmm_mark_while lim addr s =
     (if addr < lim (pmem s)
      then pmm_mark_while lim (addr + PMM_BLK_SZ) (pmm_set_block (addr div PMM_BLK_SZ) s)
      else Some s)"

partial_function (option) pmm_mark_reserved ::
  "u32 \<Rightarrow> u32 \<Rightarrow> u32 \<Rightarrow> u32 \<Rightarrow> ('a) pmm_state_scheme \<Rightarrow> ('a) pmm_state_scheme option" where
  "pmm_mark_reserved stop mx copy expected s =
     (if copy < stop \<and> mmap_base_addr_l (pmem s) copy < mx - 1 then
        Option.bind
          (if mmap_base_addr_l (pmem s) copy > expected
           then pmm_mark_while (\<lambda>m. mmap_base_addr_l m copy) (align_downwards expected PMM_BLK_SZ) s
           else Some s)
          (\<lambda>s1. Option.bind
            (if mmap_type (pmem s1) copy \<noteq> 1
                \<and> mmap_base_addr_l (pmem s1) copy + mmap_length_l (pmem s1) copy < mx - 1
             then pmm_mark_while (\<lambda>m. mmap_base_addr_l m copy + mmap_length_l m copy)
                    (align_downwards (mmap_base_addr_l (pmem s1) copy) PMM_BLK_SZ) s1
             else Some s1)
            (\<lambda>s2. pmm_mark_reserved stop mx (mmap_next (pmem s2) copy)
                (mmap_base_addr_l (pmem s2) copy + mmap_length_l (pmem s2) copy) s2))
      else Some s)"

definition init_pmm :: "u32 \<Rightarrow> u32 \<Rightarrow> ('a) pmm_state_scheme \<Rightarrow> (u32 \<times> ('a) pmm_state_scheme) option" where
  "init_pmm mmap len s =
     Option.bind (pmm_get_max_space mmap len (pmem s))
       (\<lambda>mx. let s0 = s\<lparr>pmm_bitmap_sz := mx div PMM_BLK_SZ\<rparr> in
         Option.bind (pmm_place_bitmap (mmap + len) mmap s0)
           (\<lambda>s1. map_option (\<lambda>s2. (mx, pmm_set_block 0 s2))
              (pmm_mark_reserved (mmap + len) mx mmap 0 s1)))"

declare pmm_mark_loop.simps [simp del] pmm_alloc_loop.simps [simp del]
  pmm_mark_run.simps [simp del] pmm_alloc_n_loop.simps [simp del]
  pmm_zero_loop.simps [simp del] pmm_mark_bitmap_loop.simps [simp del]

section \<open>The abstract view: a set of taken blocks\<close>

definition taken :: "('a) pmm_state_scheme \<Rightarrow> u32 set" where
  "taken s = {b. pmm_is_taken b s}"

text \<open>Block numbers stay below 2^20, so block addresses do not wrap; \<^verbatim>\<open>init_pmm\<close>
  establishes it, since it divides a 32-bit address by the block size.\<close>

definition pmm_inv :: "('a) pmm_state_scheme \<Rightarrow> bool" where
  "pmm_inv s \<longleftrightarrow> pmm_bitmap_sz s \<le> 0x100000"

text \<open>A run of \<open>n\<close> blocks from \<open>b\<close> on, and the search for the first free one.\<close>

definition run :: "u32 \<Rightarrow> u32 \<Rightarrow> u32 set" where
  "run b n = {c. unat b \<le> unat c \<and> unat c < unat b + unat n}"

definition free_run :: "u32 \<Rightarrow> u32 \<Rightarrow> ('a) pmm_state_scheme \<Rightarrow> bool" where
  "free_run b n s \<longleftrightarrow> 0 < b \<and> unat b + unat n \<le> unat (pmm_bitmap_sz s) \<and> run b n \<inter> taken s = {}"

text \<open>A small state for concrete runs: 16 blocks, block 0 and 1 taken.\<close>

definition pmm_example :: pmm_state where
  "pmm_example = \<lparr>pmem = (\<lambda>_. 0)(0x1000 := 3), pmm_bitmap = 0x1000, pmm_bitmap_sz = 16\<rparr>"

text \<open>What the rest of the kernel relies on when it asks for a frame.\<close>

locale frame_allocator =
  fixes alloc :: "'s \<Rightarrow> u32 \<times> 's"
    and free :: "u32 \<Rightarrow> 's \<Rightarrow> 's"
    and frames :: "'s \<Rightarrow> u32 set"
    and limit :: "'s \<Rightarrow> u32"
    and invar :: "'s \<Rightarrow> bool"
  assumes alloc_frame: "invar s \<Longrightarrow> alloc s = (p, s') \<Longrightarrow> p \<noteq> 0 \<Longrightarrow>
      p mod 4096 = 0 \<and> 0 < p div 4096 \<and> p div 4096 < limit s \<and> p div 4096 \<notin> frames s
      \<and> frames s' = insert (p div 4096) (frames s)"
    and alloc_none: "invar s \<Longrightarrow> alloc s = (0, s') \<Longrightarrow>
      s' = s \<and> (\<forall>b. 0 < b \<and> b < limit s \<longrightarrow> b \<in> frames s)"
    and alloc_keeps: "invar s \<Longrightarrow> alloc s = (p, s') \<Longrightarrow> invar s' \<and> limit s' = limit s"
    and free_frame: "invar s \<Longrightarrow> frames (free p s) = frames s - {p div 4096}"
    and free_keeps: "invar s \<Longrightarrow> invar (free p s) \<and> limit (free p s) = limit s"
begin

lemma alloc_mono: "invar s \<Longrightarrow> alloc s = (p, s') \<Longrightarrow> frames s \<subseteq> frames s'"
  using alloc_frame [of s p s'] alloc_none [of s s'] by (cases "p = 0") auto

lemma alloc_free_frames:
  assumes "invar s" and "alloc s = (p, s')" and "p \<noteq> 0"
  shows "frames (free p s') = frames s"
  using alloc_frame [OF assms] free_frame [of s' p] alloc_keeps [OF assms(1,2)] by auto

lemma alloc_twice_distinct:
  assumes "invar s" and "alloc s = (p, s1)" and "alloc s1 = (q, s2)" and "p \<noteq> 0" and "q \<noteq> 0"
  shows "p \<noteq> q"
  using alloc_frame [OF assms(1,2,4)] alloc_frame [OF _ assms(3,5)] alloc_keeps [OF assms(1,2)]
  by auto

end

section \<open>Lemmas\<close>

lemma bitmap_is_set_bit: "bitmap_is_set a b m \<longleftrightarrow> bit (m (a + b div 8)) (unat (b mod 8))"
  by (simp add: bitmap_is_set_def bit_iff_and_push_bit_not_eq_0)

lemma unat_mod_8_less: "unat (b mod 8) < 8" for b :: u32
  by (simp add: unat_mod_distrib)

lemma block_eq_iff: "b = c \<longleftrightarrow> b div 8 = c div 8 \<and> unat (b mod 8) = unat (c mod 8)" for b c :: u32
  by (metis div_mult_mod_eq word_unat_eq_iff)

lemma bitmap_is_set_set [simp]:
  "bitmap_is_set a b (bitmap_set a c m) \<longleftrightarrow> b = c \<or> bitmap_is_set a b m"
  using block_eq_iff [of b c] unat_mod_8_less [of b]
  by (auto simp: bitmap_is_set_bit bitmap_set_def bit_simps)

lemma bitmap_is_set_unset [simp]:
  "bitmap_is_set a b (bitmap_unset a c m) \<longleftrightarrow> b \<noteq> c \<and> bitmap_is_set a b m"
  using block_eq_iff [of b c] unat_mod_8_less [of b]
  by (auto simp: bitmap_is_set_bit bitmap_unset_def bit_simps)

lemma bitmap_unset_set:
  "\<not> bitmap_is_set a b m \<Longrightarrow> bitmap_unset a b (bitmap_set a b m) = m"
  unfolding bitmap_is_set_bit bitmap_unset_def bitmap_set_def fun_upd_upd
  by (rule ext) (auto intro!: bit_word_eqI simp: bit_simps)

lemma bitmap_set_other: "k \<noteq> a + b div 8 \<Longrightarrow> bitmap_set a b m k = m k"
  by (simp add: bitmap_set_def)

lemma pmm_set_block_simps [simp]:
  "pmm_bitmap (pmm_set_block b s) = pmm_bitmap s"
  "pmm_bitmap_sz (pmm_set_block b s) = pmm_bitmap_sz s"
  "pmm_is_taken c (pmm_set_block b s) \<longleftrightarrow> c = b \<or> pmm_is_taken c s"
  "taken (pmm_set_block b s) = insert b (taken s)"
  "pmm_inv (pmm_set_block b s) = pmm_inv s"
  by (auto simp: pmm_set_block_def pmm_is_taken_def taken_def pmm_inv_def)

lemma pmm_free_simps [simp]:
  "pmm_bitmap (pmm_free p s) = pmm_bitmap s"
  "pmm_bitmap_sz (pmm_free p s) = pmm_bitmap_sz s"
  "taken (pmm_free p s) = taken s - {p div 4096}"
  "pmm_inv (pmm_free p s) = pmm_inv s"
  by (auto simp: pmm_free_def pmm_is_taken_def taken_def pmm_inv_def PMM_BLK_SZ_def Let_def)

text \<open>The allocation loop stops at the first free block at or above its index.\<close>

lemma pmm_alloc_loop_cases:
  "(\<exists>b. i \<le> b \<and> b < pmm_bitmap_sz s \<and> b \<notin> taken s \<and> (\<forall>c. i \<le> c \<and> c < b \<longrightarrow> c \<in> taken s)
       \<and> pmm_alloc_loop i s = (b * PMM_BLK_SZ, pmm_set_block b s))
     \<or> (\<forall>c. i \<le> c \<and> c < pmm_bitmap_sz s \<longrightarrow> c \<in> taken s) \<and> pmm_alloc_loop i s = (0, s)"
proof (induction i s rule: pmm_alloc_loop.induct)
  case (1 i s)
  note unfold = pmm_alloc_loop.simps [of i s]
  consider (stop) "\<not> i < pmm_bitmap_sz s" | (free) "i < pmm_bitmap_sz s" "i \<notin> taken s"
    | (skip) "i < pmm_bitmap_sz s" "i \<in> taken s" by blast
  then show ?case
  proof cases
    case stop
    then show ?thesis by (auto simp: unfold)
  next
    case free
    then show ?thesis
      by (intro disjI1 exI [of _ i]) (auto simp: unfold taken_def pmm_is_taken_def)
  next
    case skip
    then have step: "pmm_alloc_loop i s = pmm_alloc_loop (i + 1) s"
      by (simp add: unfold taken_def pmm_is_taken_def)
    have le: "i \<le> c \<longleftrightarrow> c = i \<or> i + 1 \<le> c" for c
      by (rule word_le_cases_inc [OF skip(1)])
    show ?thesis
      using 1 skip unfolding step le
      by (auto simp: taken_def pmm_is_taken_def)
  qed
qed

text \<open>Block addresses do not wrap below 2^20 blocks.\<close>

lemma block_addr:
  fixes b :: u32
  assumes "b < 0x100000"
  shows "b * 4096 div 4096 = b" and "b * 4096 mod 4096 = 0" and "b \<noteq> 0 \<Longrightarrow> b * 4096 \<noteq> 0"
    and "unat (b * 4096) = unat b * 4096"
proof -
  have "unat b < 0x100000" using assms by (simp add: word_less_nat_alt)
  then have u: "unat (b * 4096) = unat b * 4096"
    by (simp add: unat_word_ariths)
  then show "unat (b * 4096) = unat b * 4096" .
  show "b * 4096 div 4096 = b" "b * 4096 mod 4096 = 0"
    by (simp_all add: word_unat_eq_iff u unat_div_distrib unat_mod_distrib)
  show "b * 4096 \<noteq> 0" if "b \<noteq> 0"
    using that u by (metis mult_is_0 unat_eq_0 zero_neq_numeral)
qed

lemma pmm_alloc_first_cases:
  assumes "pmm_inv s"
  obtains (frame) b where "0 < b" "b < pmm_bitmap_sz s" "b < 0x100000" "b \<notin> taken s"
      "\<And>c. 0 < c \<Longrightarrow> c < b \<Longrightarrow> c \<in> taken s"
      "pmm_alloc_first s = (b * 4096, pmm_set_block b s)"
  | (full) "\<And>c. 0 < c \<Longrightarrow> c < pmm_bitmap_sz s \<Longrightarrow> c \<in> taken s" "pmm_alloc_first s = (0, s)"
proof -
  have one: "1 \<le> c \<longleftrightarrow> 0 < c" for c :: u32
    by (simp add: word_le_nat_alt word_less_nat_alt Suc_le_eq)
  show thesis
    using pmm_alloc_loop_cases [of 1 s] assms unfolding one pmm_alloc_first_def [symmetric]
    by (elim disjE exE conjE)
      (auto simp: PMM_BLK_SZ_def pmm_inv_def intro: that dest: order_less_le_trans)
qed

interpretation pmm: frame_allocator pmm_alloc_first pmm_free taken pmm_bitmap_sz pmm_inv
proof unfold_locales
  fix s :: "('a) pmm_state_scheme" and p s'
  assume inv: "pmm_inv s"
  show "p mod 4096 = 0 \<and> 0 < p div 4096 \<and> p div 4096 < pmm_bitmap_sz s \<and> p div 4096 \<notin> taken s
      \<and> taken s' = insert (p div 4096) (taken s)" if "pmm_alloc_first s = (p, s')" "p \<noteq> 0"
    using that by (cases rule: pmm_alloc_first_cases [OF inv]) (auto simp: block_addr)
  show "s' = s \<and> (\<forall>b. 0 < b \<and> b < pmm_bitmap_sz s \<longrightarrow> b \<in> taken s)"
    if "pmm_alloc_first s = (0, s')"
    using that by (cases rule: pmm_alloc_first_cases [OF inv]) (auto dest: block_addr(3))
  show "pmm_inv s' \<and> pmm_bitmap_sz s' = pmm_bitmap_sz s" if "pmm_alloc_first s = (p, s')"
    using that by (cases rule: pmm_alloc_first_cases [OF inv]) (use inv in auto)
qed auto

text \<open>Marking loops.\<close>

lemma pmm_mark_loop_simps:
  "i \<le> j \<Longrightarrow> taken (pmm_mark_loop i j s) = taken s \<union> {i..<j}
     \<and> pmm_bitmap (pmm_mark_loop i j s) = pmm_bitmap s
     \<and> pmm_bitmap_sz (pmm_mark_loop i j s) = pmm_bitmap_sz s"
proof (induction i j s rule: pmm_mark_loop.induct)
  case (1 i j s)
  show ?case
  proof (cases "i < j")
    case True
    have "{i..<j} = insert i {i + 1..<j}"
      using True word_le_cases_inc [OF True] by auto
    with 1 True show ?thesis by (simp add: pmm_mark_loop.simps [of i j] inc_le)
  qed (simp add: pmm_mark_loop.simps [of i j])
qed

lemma pmm_mark_run_simps:
  "taken (pmm_mark_run i found s) = taken s \<union> {c. i - c < found}
     \<and> pmm_bitmap (pmm_mark_run i found s) = pmm_bitmap s
     \<and> pmm_bitmap_sz (pmm_mark_run i found s) = pmm_bitmap_sz s"
proof (induction i found s rule: pmm_mark_run.induct)
  case (1 i found s)
  show ?case
  proof (cases "found > 0")
    case True
    have "c < found \<longleftrightarrow> c = found - 1 \<or> c < found - 1" for c
      using True less_eq_dec_iff [of c found] by (auto simp: order_le_less)
    moreover have "i - c = found - 1 \<longleftrightarrow> c = i - (found - 1)" for c
      by (metis add_diff_cancel_left' diff_add_cancel)
    ultimately have "{c. i - c < found} = insert (i - (found - 1)) {c. i - c < found - 1}"
      by auto
    with 1 True show ?thesis by (simp add: pmm_mark_run.simps [of i found])
  next
    case False
    then have "found = 0" by (metis word_gt_0)
    then show ?thesis by (simp add: pmm_mark_run.simps [of i 0])
  qed
qed

lemma run_back: "found < i \<Longrightarrow> {c. i - c < found + 1} = run (i - found) (found + 1)"
  for i found :: u32
proof -
  assume f: "found < i"
  have i: "unat (i - found) = unat i - unat found" "unat (found + 1) = unat found + 1"
    using f by (simp_all add: unat_sub less_imp_le)
  have "i - c < found + 1 \<longleftrightarrow> unat i - unat found \<le> unat c \<and> unat c \<le> unat i" for c
  proof (cases "c \<le> i")
    case True
    then show ?thesis
      using f by (auto simp: word_less_nat_alt word_le_nat_alt i unat_sub)
  next
    case False
    then have "unat (i - c) = unat i + 4294967296 - unat c"
      by (simp add: unat_sub_if' word_le_nat_alt)
    then show ?thesis
      using False f unat_u32_less [of c] by (simp add: word_less_nat_alt word_le_nat_alt i)
  qed
  moreover have "unat i - unat found + (unat found + 1) = Suc (unat i)"
    using f by (simp add: word_less_nat_alt)
  ultimately show ?thesis
    by (simp add: run_def i less_Suc_eq_le)
qed

lemma run_extend: "found < i \<Longrightarrow> run (i - found) (found + 1) = insert i (run (i - found) found)"
  for i found :: u32
proof -
  assume f: "found < i"
  have i: "unat (i - found) = unat i - unat found" "unat (found + 1) = unat found + 1"
    using f by (simp_all add: unat_sub less_imp_le)
  have "unat i - unat found + (unat found + 1) = Suc (unat i)"
    using f by (simp add: word_less_nat_alt)
  moreover have "unat i - unat found + unat found = unat i"
    using f by (simp add: word_less_nat_alt)
  ultimately show ?thesis
    by (auto simp: run_def i less_Suc_eq_le le_less word_unat_eq_iff)
qed

text \<open>A free run of more than \<open>found\<close> blocks that starts at or after \<open>i - found\<close> cannot hold
  a taken block \<open>i\<close>, so it starts after \<open>i\<close>.\<close>

lemma free_run_after:
  assumes "free_run b n s" and "unat (i - found) \<le> unat b" and "found < i" and "found < n"
    and "i < pmm_bitmap_sz s \<longrightarrow> i \<in> taken s"
  shows "i < pmm_bitmap_sz s \<and> unat (i + 1) \<le> unat b"
proof (rule ccontr)
  assume no: "\<not> ?thesis"
  have len: "unat i < unat b + unat n"
    using assms(2-4) unat_sub [of found i] by (simp add: word_less_nat_alt word_le_nat_alt)
  then have sz: "i < pmm_bitmap_sz s"
    using assms(1) no by (auto simp: free_run_def word_less_nat_alt)
  then have "unat b \<le> unat i" using no by simp
  with len have "i \<in> run b n" by (simp add: run_def)
  with sz assms(1,5) show False by (auto simp: free_run_def)
qed

lemma pmm_alloc_n_loop_spec:
  assumes "found < n" and "found < i" and "run (i - found) found \<inter> taken s = {}"
  shows "(\<exists>b. free_run b n s \<and> unat (i - found) \<le> unat b
       \<and> (\<forall>b'. free_run b' n s \<and> unat (i - found) \<le> unat b' \<longrightarrow> unat b \<le> unat b')
       \<and> fst (pmm_alloc_n_loop n found i s) = b * PMM_BLK_SZ
       \<and> taken (snd (pmm_alloc_n_loop n found i s)) = taken s \<union> run b n)
     \<or> (\<forall>b. unat (i - found) \<le> unat b \<longrightarrow> \<not> free_run b n s) \<and> pmm_alloc_n_loop n found i s = (0, s)"
  using assms
proof (induction n found i s rule: pmm_alloc_n_loop.induct)
  case (1 n found i s)
  note unfold = pmm_alloc_n_loop.simps [of n found i s]
  note after = free_run_after [OF _ _ "1.prems"(2,1)]
  consider (stop) "\<not> i < pmm_bitmap_sz s" | (busy) "i < pmm_bitmap_sz s" "i \<in> taken s"
    | (hit) "i < pmm_bitmap_sz s" "i \<notin> taken s" "found + 1 = n"
    | (grow) "i < pmm_bitmap_sz s" "i \<notin> taken s" "found + 1 \<noteq> n" by blast
  then show ?case
  proof cases
    case stop
    then show ?thesis using after by (auto simp: unfold)
  next
    case busy
    have start: "unat (i - found) \<le> unat b" if "unat (i + 1) \<le> unat b" for b
      using that busy(1) "1.prems"(2) by (simp add: unat_sub less_imp_le)
    have step: "pmm_alloc_n_loop n found i s = pmm_alloc_n_loop n 0 (i + 1) s"
      using busy by (simp add: unfold taken_def pmm_is_taken_def)
    have next_b: "unat (i + 1) \<le> unat b" if "free_run b n s" "unat (i - found) \<le> unat b" for b
      using after [OF that] busy(2) by blast
    have "0 < n" "0 < i + 1" "run (i + 1 - 0) 0 \<inter> taken s = {}"
      using "1.prems"(1) busy(1) by (auto simp: word_less_nat_alt run_def)
    then have "(\<exists>b. free_run b n s \<and> unat (i + 1) \<le> unat b
       \<and> (\<forall>b'. free_run b' n s \<and> unat (i + 1) \<le> unat b' \<longrightarrow> unat b \<le> unat b')
       \<and> fst (pmm_alloc_n_loop n 0 (i + 1) s) = b * PMM_BLK_SZ
       \<and> taken (snd (pmm_alloc_n_loop n 0 (i + 1) s)) = taken s \<union> run b n)
     \<or> (\<forall>b. unat (i + 1) \<le> unat b \<longrightarrow> \<not> free_run b n s) \<and> pmm_alloc_n_loop n 0 (i + 1) s = (0, s)"
      using "1.IH"(2) [OF busy(1)] busy(2) by (simp add: taken_def pmm_is_taken_def)
    then show ?thesis
      unfolding step using next_b start by blast
  next
    case hit
    have "free_run (i - found) n s"
      using hit "1.prems" run_extend [OF "1.prems"(2)]
      by (auto simp: free_run_def unat_sub less_imp_le word_less_nat_alt)
    moreover have "pmm_alloc_n_loop n found i s
        = ((i - found) * PMM_BLK_SZ, pmm_mark_run i (found + 1) s)"
      using hit by (auto simp: unfold taken_def pmm_is_taken_def)
    ultimately show ?thesis
      using hit(3) run_back [OF "1.prems"(2)] pmm_mark_run_simps [of i "found + 1" s]
      by (intro disjI1 exI [of _ "i - found"]) simp
  next
    case grow
    then have step: "pmm_alloc_n_loop n found i s = pmm_alloc_n_loop n (found + 1) (i + 1) s"
      by (simp add: unfold taken_def pmm_is_taken_def)
    have diff: "(i + 1) - (found + 1) = i - found" by simp
    have "found + 1 < n" "found + 1 < i + 1"
      using grow "1.prems"(1,2) by (auto simp: word_less_nat_alt word_unat_eq_iff)
    with "1.IH"(1) [OF grow(1)] grow "1.prems"(3) run_extend [OF "1.prems"(2)] show ?thesis
      unfolding step diff by (simp add: taken_def pmm_is_taken_def)
  qed
qed

section \<open>Properties\<close>

text \<open>C5: \<^verbatim>\<open>pmm_alloc_first\<close> hands out the lowest free block other than block 0: its
  address is returned and exactly its bit is set. It returns NULL only when every block is
  taken, and then nothing changes.\<close>

theorem pmm_alloc_first_spec:
  assumes "pmm_inv s"
  shows "(\<exists>b. 0 < b \<and> b < pmm_bitmap_sz s \<and> b \<notin> taken s \<and> (\<forall>c. 0 < c \<and> c < b \<longrightarrow> c \<in> taken s)
       \<and> fst (pmm_alloc_first s) = b * PMM_BLK_SZ \<and> fst (pmm_alloc_first s) \<noteq> 0
       \<and> taken (snd (pmm_alloc_first s)) = insert b (taken s))
     \<or> (\<forall>c. 0 < c \<and> c < pmm_bitmap_sz s \<longrightarrow> c \<in> taken s) \<and> pmm_alloc_first s = (0, s)"
  using assms
proof (cases rule: pmm_alloc_first_cases)
  case (frame b)
  then show ?thesis
    by (intro disjI1 exI [of _ b]) (auto simp: PMM_BLK_SZ_def block_addr)
next
  case full
  then show ?thesis by auto
qed

theorem pmm_alloc_first_spec_witness:
  "pmm_inv pmm_example \<and>
   ((\<exists>b. 0 < b \<and> b < pmm_bitmap_sz pmm_example \<and> b \<notin> taken pmm_example
       \<and> (\<forall>c. 0 < c \<and> c < b \<longrightarrow> c \<in> taken pmm_example)
       \<and> fst (pmm_alloc_first pmm_example) = b * PMM_BLK_SZ \<and> fst (pmm_alloc_first pmm_example) \<noteq> 0
       \<and> taken (snd (pmm_alloc_first pmm_example)) = insert b (taken pmm_example))
     \<or> (\<forall>c. 0 < c \<and> c < pmm_bitmap_sz pmm_example \<longrightarrow> c \<in> taken pmm_example)
       \<and> pmm_alloc_first pmm_example = (0, pmm_example))"
proof -
  have inv: "pmm_inv pmm_example" by (simp add: pmm_inv_def pmm_example_def)
  show ?thesis using inv pmm_alloc_first_spec [OF inv] by blast
qed

text \<open>C25: freeing the block just allocated gives back the state before the allocation, bit for
  bit.\<close>

theorem pmm_alloc_free_roundtrip:
  assumes "pmm_inv s" and "pmm_alloc_first s = (p, s')" and "p \<noteq> 0"
  shows "pmm_free p s' = s"
  using assms(1)
proof (cases rule: pmm_alloc_first_cases)
  case (frame b)
  then have "p = b * 4096" and s': "s' = pmm_set_block b s" using assms(2) by auto
  then have "p div PMM_BLK_SZ = b" using frame(3) by (simp add: PMM_BLK_SZ_def block_addr)
  with frame(4) show ?thesis
    by (simp add: s' pmm_free_def pmm_set_block_def bitmap_unset_set taken_def pmm_is_taken_def)
next
  case full
  with assms show ?thesis by simp
qed

theorem pmm_alloc_free_roundtrip_witness:
  "pmm_free 0x2000 (pmm_example\<lparr>pmem := (\<lambda>_. 0)(0x1000 := 7)\<rparr>) = pmm_example"
proof (rule pmm_alloc_free_roundtrip)
  show "pmm_inv pmm_example" by (simp add: pmm_inv_def pmm_example_def)
  show "pmm_alloc_first pmm_example = (0x2000, pmm_example\<lparr>pmem := (\<lambda>_. 0)(0x1000 := 7)\<rparr>)"
    by (simp add: pmm_alloc_first_def pmm_alloc_loop.simps pmm_example_def bitmap_is_set_def
        pmm_set_block_def bitmap_set_def PMM_BLK_SZ_def fun_eq_iff)
qed simp

text \<open>C24: \<^verbatim>\<open>pmm_alloc_first_n_blocks\<close> returns the lowest run of \<open>n\<close> consecutive
  free blocks and takes exactly these; it returns NULL, and changes nothing, exactly when no
  such run exists.\<close>

theorem pmm_alloc_n_first_fit:
  assumes "0 < n"
  shows "(\<exists>b. free_run b n s \<and> (\<forall>b'. free_run b' n s \<longrightarrow> b \<le> b')
       \<and> fst (pmm_alloc_first_n_blocks n s) = b * PMM_BLK_SZ
       \<and> taken (snd (pmm_alloc_first_n_blocks n s)) = taken s \<union> run b n)
     \<or> (\<forall>b. \<not> free_run b n s) \<and> pmm_alloc_first_n_blocks n s = (0, s)"
proof -
  have "run 1 0 \<inter> taken s = {}" by (auto simp: run_def)
  moreover have "unat (1::u32) \<le> unat b" if "free_run b n s" for b
    using that by (simp add: free_run_def word_less_nat_alt Suc_le_eq)
  ultimately show ?thesis
    using pmm_alloc_n_loop_spec [of 0 n 1 s] assms
    unfolding pmm_alloc_first_n_blocks_def word_le_nat_alt diff_zero
    by (simp add: word_le_nat_alt) blast
qed

theorem pmm_alloc_n_first_fit_witness:
  "0 < (3::u32) \<and>
   ((\<exists>b. free_run b 3 pmm_example \<and> (\<forall>b'. free_run b' 3 pmm_example \<longrightarrow> b \<le> b')
       \<and> fst (pmm_alloc_first_n_blocks 3 pmm_example) = b * PMM_BLK_SZ
       \<and> taken (snd (pmm_alloc_first_n_blocks 3 pmm_example)) = taken pmm_example \<union> run b 3)
     \<or> (\<forall>b. \<not> free_run b 3 pmm_example)
       \<and> pmm_alloc_first_n_blocks 3 pmm_example = (0, pmm_example))"
  using pmm_alloc_n_first_fit [of 3 pmm_example] by simp

lemma align_downwards_block: "align_downwards a PMM_BLK_SZ div PMM_BLK_SZ = a div PMM_BLK_SZ"
proof -
  have "unat (a - a mod 4096) = unat a - unat a mod 4096"
    by (simp add: unat_sub word_le_nat_alt unat_mod_distrib)
  moreover have "(unat a - unat a mod 4096) div 4096 = unat a div 4096"
    by (simp add: minus_mod_eq_div_mult)
  ultimately show ?thesis
    by (simp add: align_downwards_def PMM_BLK_SZ_def word_unat_eq_iff unat_div_distrib)
qed

lemma align_upwards_block:
  assumes "e \<le> 0xFFFFF000"
  shows "unat (align_upwards e PMM_BLK_SZ div PMM_BLK_SZ) = (unat e + 4095) div 4096"
proof -
  define q r where "q = unat e div 4096" and "r = unat e mod 4096"
  have e: "unat e = 4096 * q + r" and r: "r < 4096"
    by (simp_all add: q_def r_def)
  have le: "unat e \<le> 0xFFFFF000" using assms by (simp add: word_le_nat_alt)
  have mod: "e mod 4096 = 0 \<longleftrightarrow> r = 0"
    by (simp add: r_def word_unat_eq_iff unat_mod_distrib)
  show ?thesis
  proof (cases "r = 0")
    case True
    then have "(unat e + 4095) div 4096 = q" by (intro div_nat_eqI) (simp_all add: e)
    then show ?thesis
      using True by (simp add: align_upwards_def PMM_BLK_SZ_def unat_div_distrib mod q_def)
  next
    case False
    then have "(unat e + 4095) div 4096 = q + 1"
      using r by (intro div_nat_eqI) (simp_all add: e)
    moreover have "unat (e div 4096 * 4096 + 4096) = (q + 1) * 4096"
    proof -
      have "q < 0xFFFFF" using le e False by linarith
      moreover have "unat (e div 4096) = q" by (simp add: q_def unat_div_distrib)
      ultimately show ?thesis by (simp add: unat_word_ariths)
    qed
    ultimately show ?thesis
      using False by (simp add: align_upwards_def PMM_BLK_SZ_def unat_div_distrib mod)
  qed
qed

lemma covering_blocks:
  fixes S E b :: nat
  assumes "S < E"
  shows "S div 4096 \<le> b \<and> b < (E + 4095) div 4096 \<longleftrightarrow> (\<exists>a. S \<le> a \<and> a < E \<and> b = a div 4096)"
proof -
  have "S div 4096 \<le> b \<longleftrightarrow> S < (b + 1) * 4096"
    using div_less_iff_less_mult [of 4096 S "b + 1"] by (simp add: less_Suc_eq_le)
  moreover have "b < (E + 4095) div 4096 \<longleftrightarrow> b * 4096 < E"
    using less_eq_div_iff_mult_less_eq [of 4096 "b + 1" "E + 4095"] by (simp add: Suc_le_eq)
  moreover have "b = a div 4096 \<longleftrightarrow> b * 4096 \<le> a \<and> a < (b + 1) * 4096" for a
    using less_eq_div_iff_mult_less_eq [of 4096 b a] div_less_iff_less_mult [of 4096 a "b + 1"]
    by auto
  moreover have "S < (b + 1) * 4096 \<and> b * 4096 < E \<longleftrightarrow>
      (\<exists>a. S \<le> a \<and> a < E \<and> b * 4096 \<le> a \<and> a < (b + 1) * 4096)"
    using assms by (auto intro!: exI [of _ "max S (b * 4096)"])
  ultimately show ?thesis by simp
qed

text \<open>\<^verbatim>\<open>pmm_mark_mem_taken\<close> takes exactly the blocks that hold an address of the
  region.\<close>

lemma pmm_mark_mem_taken_exact:
  assumes "start < end" and "end \<le> 0xFFFFF000"
  shows "taken (pmm_mark_mem_taken start end s)
     = taken s \<union> {b. \<exists>a. start \<le> a \<and> a < end \<and> b = a div PMM_BLK_SZ}"
proof -
  let ?i = "start div 4096" and ?j = "align_upwards end PMM_BLK_SZ div PMM_BLK_SZ"
  have lim: "unat start < unat end" using assms(1) by (simp add: word_less_nat_alt)
  have mem: "b \<in> {?i..<?j} \<longleftrightarrow> (\<exists>a. unat start \<le> a \<and> a < unat end \<and> unat b = a div 4096)" for b
    using covering_blocks [OF lim, of "unat b"]
    unfolding align_upwards_block [OF assms(2), symmetric]
    by (simp add: word_le_nat_alt word_less_nat_alt unat_div_distrib)
  have "b \<in> {?i..<?j} \<longleftrightarrow> (\<exists>a. start \<le> a \<and> a < end \<and> b = a div 4096)" for b
    unfolding mem
  proof
    assume "\<exists>a. unat start \<le> a \<and> a < unat end \<and> unat b = a div 4096"
    then obtain a where a: "unat start \<le> a" "a < unat end" "unat b = a div 4096" by blast
    then have "unat (of_nat a :: u32) = a"
      using unat_u32_less [of "end"] by (intro unat_of_nat_small) simp
    with a show "\<exists>a. start \<le> a \<and> a < end \<and> b = a div 4096"
      by (intro exI [of _ "of_nat a"])
        (simp add: word_le_nat_alt word_less_nat_alt word_unat_eq_iff unat_div_distrib)
  qed (auto simp: word_le_nat_alt word_less_nat_alt unat_div_distrib)
  moreover have "?i \<le> ?j"
    unfolding word_le_nat_alt align_upwards_block [OF assms(2)]
    using lim by (simp add: unat_div_distrib div_le_mono)
  moreover have "pmm_mark_mem_taken start end s = pmm_mark_loop ?i ?j s"
    by (simp add: pmm_mark_mem_taken_def Let_def align_downwards_block)
      (simp add: PMM_BLK_SZ_def)
  ultimately show ?thesis
    using pmm_mark_loop_simps [of ?i ?j s] by (auto simp: PMM_BLK_SZ_def)
qed

lemma pmm_mark_mem_taken_exact_witness:
  "taken (pmm_mark_mem_taken 0x1800 0x3001 pmm_example)
     = taken pmm_example \<union> {b. \<exists>a. 0x1800 \<le> a \<and> a < 0x3001 \<and> b = a div PMM_BLK_SZ}"
  by (rule pmm_mark_mem_taken_exact) simp_all

end
