(* ===== verification/Ports.thy ===== *)
theory Ports
  imports Frod_Prelude
begin

text \<open>
  The I/O ports of the machine, \<^verbatim>\<open>inb\<close> and \<^verbatim>\<open>outb\<close> of
  \<^verbatim>\<open>src/include/hal/hal.h\<close>. The devices behind the ports are a parameter: a record of
  what a read gives (a read may change the device) and what a write does. A recorder that
  keeps the writes in order is the device used to state what a driver sends.
\<close>

record 'd device =
  dev_in :: "u16 \<Rightarrow> 'd \<Rightarrow> u8 \<times> 'd"
  dev_out :: "u16 \<Rightarrow> u8 \<Rightarrow> 'd \<Rightarrow> 'd"

definition inb :: "'d device \<Rightarrow> u16 \<Rightarrow> 'd \<Rightarrow> u8 \<times> 'd" where
  "inb hw port d = dev_in hw port d"

definition outb :: "'d device \<Rightarrow> u16 \<Rightarrow> u8 \<Rightarrow> 'd \<Rightarrow> 'd" where
  "outb hw port v d = dev_out hw port v d"

text \<open>The recorder: the oracle answers the reads, the writes are appended to a log.\<close>

definition recorder :: "(u16 \<Rightarrow> u8) \<Rightarrow> (u16 \<times> u8) list device" where
  "recorder ans = \<lparr>dev_in = (\<lambda>p d. (ans p, d)), dev_out = (\<lambda>p v d. d @ [(p, v)])\<rparr>"

lemma recorder_simps [simp]:
  "inb (recorder ans) p d = (ans p, d)"
  "outb (recorder ans) p v d = d @ [(p, v)]"
  by (simp_all add: inb_def outb_def recorder_def)

end
