(* ===== verification/Isr.thy ===== *)
theory Isr
  imports Ports
begin

text \<open>
  Interrupt dispatch, \<^verbatim>\<open>src/arch/x86/isr.c\<close>. The table of 256 function pointers is a
  function from the vector to the name of the handler; the body of a registered handler is a
  parameter of the dispatchers, because it lives in the component that registers it.
\<close>

section \<open>State and operations\<close>

datatype isr_t = Null_isr | Dummy_int_handler | Irq_spurious | Vmm_handle_page_fault
  | Increment_tick | Ps2_handle_interrupt_1st | Ps2_handle_interrupt_2nd
  | Uart_interrupt_com1 | Syscall_handler

type_synonym isr_table = "u8 \<Rightarrow> isr_t"

record Registers =
  gs :: u32
  fs :: u32
  es :: u32
  ds :: u32
  edi :: u32
  esi :: u32
  ebp :: u32
  tampered_esp :: u32
  ebx :: u32
  edx :: u32
  ecx :: u32
  eax :: u32
  int_no :: u32
  err_code :: u32
  eip :: u32
  cs :: u32
  eflags :: u32

definition IRQ_PIT :: u8 where "IRQ_PIT = 32"
definition IRQ_KEYBOARD :: u8 where "IRQ_KEYBOARD = 33"
definition IRQ_COM1 :: u8 where "IRQ_COM1 = 36"
definition IRQ_PS2 :: u8 where "IRQ_PS2 = 44"
definition IRQ_SPURIOUS :: u8 where "IRQ_SPURIOUS = 63"
definition IRQ_TIMER :: u8 where "IRQ_TIMER = 64"
definition IRQ_ERROR :: u8 where "IRQ_ERROR = 65"
definition IRQ0 :: u8 where "IRQ0 = 32"
definition IRQ4 :: u8 where "IRQ4 = 36"

definition PIC_PORT_MASTER_CMD :: u16 where "PIC_PORT_MASTER_CMD = 0x20"
definition PIC_PORT_MASTER_DATA :: u16 where "PIC_PORT_MASTER_DATA = 0x21"
definition PIC_PORT_SLAVE_CMD :: u16 where "PIC_PORT_SLAVE_CMD = 0xA0"
definition PIC_PORT_SLAVE_DATA :: u16 where "PIC_PORT_SLAVE_DATA = 0xA1"
definition PIC_DATA_EOI :: u8 where "PIC_DATA_EOI = 0x20"

fun isr_install_loop :: "nat \<Rightarrow> isr_table \<Rightarrow> isr_table" where
  "isr_install_loop 0 t = t"
| "isr_install_loop (Suc n) t = isr_install_loop n (t(of_nat (255 - n) := Dummy_int_handler))"

definition isr_install :: "isr_table \<Rightarrow> isr_table" where
  "isr_install t = (isr_install_loop 256 t)(IRQ_SPURIOUS := Irq_spurious)"

definition register_interrupt_handler :: "u8 \<Rightarrow> isr_t \<Rightarrow> isr_table \<Rightarrow> isr_table" where
  "register_interrupt_handler n handler t = t(n := handler)"

definition dummy_int_handler :: "Registers \<Rightarrow> kerror + u32" where
  "dummy_int_handler regs = Inl (Panic ''Unhandled exception'')"

definition irq_spurious :: "Registers \<Rightarrow> kerror + u32" where
  "irq_spurious regs = Inr 0"

text \<open>The call through the function pointer: the two handlers of this file, or a handler of
  another component.\<close>

definition call_isr ::
  "(isr_t \<Rightarrow> Registers \<Rightarrow> 's \<Rightarrow> kerror + (u32 \<times> 's)) \<Rightarrow> isr_t \<Rightarrow> Registers \<Rightarrow> 's
     \<Rightarrow> kerror + (u32 \<times> 's)" where
  "call_isr body h regs s =
     (case h of
        Dummy_int_handler \<Rightarrow> ebind (dummy_int_handler regs) (\<lambda>r. Inr (r, s))
      | Irq_spurious \<Rightarrow> ebind (irq_spurious regs) (\<lambda>r. Inr (r, s))
      | _ \<Rightarrow> body h regs s)"

definition isr_handler ::
  "(isr_t \<Rightarrow> Registers \<Rightarrow> 's \<Rightarrow> kerror + (u32 \<times> 's)) \<Rightarrow> isr_table \<Rightarrow> Registers \<Rightarrow> 's
     \<Rightarrow> kerror + (u32 \<times> 's)" where
  "isr_handler body t regs s =
     (let n = ucast (int_no regs AND 0xFF)
      in if t n \<noteq> Null_isr then call_isr body (t n) regs s else Inl (Panic ''Unhandled''))"

text \<open>\<^verbatim>\<open>irq_handler\<close> acknowledges at the PICs first. It indexes the table with the whole
  32-bit \<^verbatim>\<open>int_no\<close>; \<open>regs_addr\<close> is the address of the register frame, which it
  returns when there is no handler.\<close>

definition irq_eoi :: "'d device \<Rightarrow> u32 \<Rightarrow> 'd \<Rightarrow> 'd" where
  "irq_eoi hw n d =
     outb hw PIC_PORT_MASTER_CMD PIC_DATA_EOI
       (if n \<ge> 40 then outb hw PIC_PORT_SLAVE_CMD PIC_DATA_EOI d else d)"

definition irq_handler ::
  "'d device \<Rightarrow> (isr_t \<Rightarrow> Registers \<Rightarrow> 'd \<Rightarrow> kerror + (u32 \<times> 'd)) \<Rightarrow> isr_table \<Rightarrow> u32 \<Rightarrow> Registers
     \<Rightarrow> 'd \<Rightarrow> kerror + (u32 \<times> 'd)" where
  "irq_handler hw body t regs_addr regs d =
     (let d1 = irq_eoi hw (int_no regs) d
      in if int_no regs \<ge> 256 then Inl (Out_of_bounds (int_no regs))
         else if t (ucast (int_no regs)) \<noteq> Null_isr
         then call_isr body (t (ucast (int_no regs))) regs d1
         else Inr (regs_addr, d1))"

section \<open>Properties\<close>

lemma isr_install_loop_spec:
  "n \<le> 256 \<Longrightarrow> isr_install_loop n t v = (if 256 - n \<le> unat v then Dummy_int_handler else t v)"
proof (induction n arbitrary: t)
  case 0
  then show ?case using unat_u8_less [of v] by simp
next
  case (Suc n)
  have "v = of_nat (255 - n) \<longleftrightarrow> unat v = 255 - n"
    by (auto simp: unat_of_nat_small word_unat_eq_iff)
  with Suc show ?case by auto
qed

lemma isr_install_all:
  "isr_install t v = (if v = IRQ_SPURIOUS then Irq_spurious else Dummy_int_handler)"
  by (simp add: isr_install_def isr_install_loop_spec)

definition zero_regs :: Registers where
  "zero_regs = \<lparr>gs = 0, fs = 0, es = 0, ds = 0, edi = 0, esi = 0, ebp = 0, tampered_esp = 0,
     ebx = 0, edx = 0, ecx = 0, eax = 0, int_no = 0, err_code = 0, eip = 0, cs = 0, eflags = 0\<rparr>"

text \<open>The states of the interrupt table the kernel can reach: installed once, then handlers
  registered in any order, never a NULL pointer.\<close>

inductive isr_step :: "isr_table \<Rightarrow> isr_table \<Rightarrow> bool" where
  "h \<noteq> Null_isr \<Longrightarrow> isr_step t (register_interrupt_handler n h t)"

interpretation isr_tab: invariant_system "\<lambda>t. \<exists>t0. t = isr_install t0" isr_step
  "\<lambda>t. \<forall>v. t v \<noteq> Null_isr"
  by unfold_locales (auto simp: isr_install_all register_interrupt_handler_def elim!: isr_step.cases split: if_splits)

text \<open>C26: in every state of the interrupt table that is reached from
  \<^verbatim>\<open>isr_install\<close> by registering handlers, no vector is without a handler: the
  \<open>Unhandled\<close> branch of \<^verbatim>\<open>isr_handler\<close> is dead, a registered handler is
  the one that runs, and the vectors nobody registered panic in the dummy handler.\<close>

theorem isr_dispatch_total:
  assumes "reachable (\<lambda>t. \<exists>t0. t = isr_install t0) isr_step t"
  shows "isr_handler body t regs s = call_isr body (t (ucast (int_no regs))) regs s
     \<and> t (ucast (int_no regs)) \<noteq> Null_isr"
  using isr_tab.reachable_invar [OF assms] by (simp add: isr_handler_def ucast_low_byte)

theorem isr_dispatch_total_witness:
  "isr_handler (\<lambda>h r s. Inr (7, s)) (register_interrupt_handler 14 Vmm_handle_page_fault
       (isr_install (\<lambda>_. Null_isr))) (zero_regs\<lparr>int_no := 14\<rparr>) () = Inr (7, ())"
proof -
  let ?t = "register_interrupt_handler 14 Vmm_handle_page_fault (isr_install (\<lambda>_. Null_isr))"
  have "reachable (\<lambda>t. \<exists>t0. t = isr_install t0) isr_step ?t"
    by (rule reachable.next_state [OF reachable.start]) (auto intro: isr_step.intros)
  from isr_dispatch_total [OF this, of "\<lambda>h r s. Inr (7, s)" "zero_regs\<lparr>int_no := 14\<rparr>" "()"]
  show ?thesis by (simp add: register_interrupt_handler_def call_isr_def)
qed

end
