(* ===== verification/Mmu.thy ===== *)
theory Mmu
  imports Pmm Isr
begin

text \<open>
  The part of the processor the virtual memory manager programs: CR3, the paging bit of CR0
  and the two-level page walk, with the write protection that \<^verbatim>\<open>paging_enable\<close> of
  \<^verbatim>\<open>src/arch/x86/memory_asm.s\<close> switches on for the kernel too. The accesses of the C
  code go through \<open>vload32\<close>, \<open>vstore32\<close> and \<open>vstore8\<close>; an access
  without a translation is a page fault, and \<^verbatim>\<open>vmm_handle_page_fault\<close> panics. The walk
  reads the tables as they are in memory: there is no TLB.
\<close>

record vmm_state = pmm_state +
  kernel_dir :: u32
  current_dir :: u32
  cr3 :: u32
  paging :: bool
  local_apic :: u32
  interrupt_handlers :: isr_table

definition X86_PAGE_PRESENT :: u32 where [kernel_defs]: "X86_PAGE_PRESENT = 0x01"
definition X86_PAGE_WRITABLE :: u32 where [kernel_defs]: "X86_PAGE_WRITABLE = 0x02"
definition X86_PAGE_USER :: u32 where [kernel_defs]: "X86_PAGE_USER = 0x04"
definition X86_PAGE_CACHE_DIS :: u32 where [kernel_defs]: "X86_PAGE_CACHE_DIS = 0x10"
definition X86_PAGE_FRAME :: u32 where [kernel_defs]: "X86_PAGE_FRAME = 0xFFFFF000"
definition X86_PAGEDIR_PRESENT :: u32 where [kernel_defs]: "X86_PAGEDIR_PRESENT = 0x01"
definition X86_PAGEDIR_WRITABLE :: u32 where [kernel_defs]: "X86_PAGEDIR_WRITABLE = 0x02"

definition page_frame :: "u32 \<Rightarrow> u32" where
  "page_frame e = e AND X86_PAGE_FRAME"

definition page_present :: "u32 \<Rightarrow> bool" where
  "page_present e \<longleftrightarrow> e AND X86_PAGE_PRESENT \<noteq> 0"

definition page_writable :: "u32 \<Rightarrow> bool" where
  "page_writable e \<longleftrightarrow> e AND X86_PAGE_WRITABLE \<noteq> 0"

definition page_allows :: "bool \<Rightarrow> u32 \<Rightarrow> bool" where
  "page_allows wr e \<longleftrightarrow> page_present e \<and> (wr \<longrightarrow> page_writable e)"

definition page_walk :: "bool \<Rightarrow> mem \<Rightarrow> u32 \<Rightarrow> u32 \<Rightarrow> u32 option" where
  "page_walk wr m dir va =
     (let pde = load32 m (page_frame dir + 4 * (va div MB4));
          pte = load32 m (page_frame pde + 4 * (va mod MB4 div KB4))
      in if page_allows wr pde \<and> page_allows wr pte then Some (page_frame pte + va mod KB4)
         else None)"

definition physical :: "bool \<Rightarrow> u32 \<Rightarrow> ('a) vmm_state_scheme \<Rightarrow> u32 option" where
  "physical wr va s = (if paging s then page_walk wr (pmem s) (cr3 s) va else Some va)"

definition vload32 :: "u32 \<Rightarrow> ('a) vmm_state_scheme \<Rightarrow> kerror + u32" where
  "vload32 va s =
     (case physical False va s of None \<Rightarrow> Inl (Page_fault va)
      | Some pa \<Rightarrow> Inr (load32 (pmem s) pa))"

definition vstore32 :: "u32 \<Rightarrow> u32 \<Rightarrow> ('a) vmm_state_scheme \<Rightarrow> kerror + ('a) vmm_state_scheme" where
  "vstore32 va v s =
     (case physical True va s of None \<Rightarrow> Inl (Page_fault va)
      | Some pa \<Rightarrow> Inr (s\<lparr>pmem := store32 (pmem s) pa v\<rparr>))"

definition vstore8 :: "u32 \<Rightarrow> u8 \<Rightarrow> ('a) vmm_state_scheme \<Rightarrow> kerror + ('a) vmm_state_scheme" where
  "vstore8 va v s =
     (case physical True va s of None \<Rightarrow> Inl (Page_fault va)
      | Some pa \<Rightarrow> Inr (s\<lparr>pmem := (pmem s)(pa := v)\<rparr>))"

text \<open>\<^verbatim>\<open>memset\<close> of \<^verbatim>\<open>string.c\<close> when its stores go through the page walk.\<close>

function vmemset_loop ::
  "u32 \<Rightarrow> u8 \<Rightarrow> u32 \<Rightarrow> u32 \<Rightarrow> ('a) vmm_state_scheme \<Rightarrow> kerror + ('a) vmm_state_scheme" where
  "vmemset_loop va c n i s =
     (if i < n then ebind (vstore8 (va + i) c s) (\<lambda>s. vmemset_loop va c n (i + 1) s) else Inr s)"
  by pat_completeness auto
termination
  by (relation "measure (\<lambda>(va, c, n, i, s). unat n - unat i)") auto

declare vmemset_loop.simps [simp del]

definition vmemset ::
  "u32 \<Rightarrow> u8 \<Rightarrow> u32 \<Rightarrow> ('a) vmm_state_scheme \<Rightarrow> kerror + ('a) vmm_state_scheme" where
  "vmemset va c n s = (if va = 0 then Inr s else vmemset_loop va c n 0 s)"

section \<open>Page arithmetic\<close>

lemma frame_mask: "X86_PAGE_FRAME = NOT (mask 12)"
  by (simp add: X86_PAGE_FRAME_def mask_eq_exp_minus_1)

lemma mod_page: "a mod 4096 = take_bit 12 a" for a :: u32
  by (simp add: take_bit_eq_mod)

lemma page_aligned_iff: "a mod 4096 = 0 \<longleftrightarrow> page_frame a = a" for a :: u32
proof
  assume "a mod 4096 = 0"
  then have "\<not> bit a n" if "n < 12" for n
    using that bit_take_bit_iff [of 12 a n] by (simp add: mod_page)
  then show "page_frame a = a"
    unfolding page_frame_def frame_mask by (intro bit_word_eqI) (auto simp: bit_simps)
next
  assume "page_frame a = a"
  then have "take_bit 12 a = take_bit 12 (a AND NOT (mask 12))"
    by (simp add: page_frame_def frame_mask)
  also have "\<dots> = 0" by (intro bit_word_eqI) (auto simp: bit_simps)
  finally show "a mod 4096 = 0" by (simp add: mod_page)
qed

lemma page_frame_idem [simp]: "page_frame (page_frame a) = page_frame a"
  by (simp add: page_frame_def and.assoc)

lemma page_frame_aligned [simp]: "page_frame a mod 4096 = 0"
  by (simp add: page_aligned_iff)

lemma small_flags: "f < 4096 \<Longrightarrow> page_frame f = 0" for f :: u32
proof -
  assume "f < 4096"
  then have "take_bit 12 f = f"
    by (simp add: flip: mod_page) (simp add: word_less_nat_alt word_unat_eq_iff unat_mod_distrib)
  then have "page_frame f = take_bit 12 f AND NOT (mask 12)"
    by (simp add: page_frame_def frame_mask)
  then show "page_frame f = 0"
    by (auto intro!: bit_word_eqI simp: bit_simps)
qed

lemma page_frame_or: "page_frame (a OR b) = page_frame a OR page_frame b"
  by (simp add: page_frame_def bit.conj_disj_distrib2)

lemma page_frame_entry: "p mod 4096 = 0 \<Longrightarrow> f < 4096 \<Longrightarrow> page_frame (p OR f) = p"
  by (simp add: page_frame_or small_flags) (simp add: page_aligned_iff)

lemma unat_page_frame: "unat (page_frame a) = 4096 * (unat a div 4096)"
proof -
  have "page_frame a = push_bit 12 (drop_bit 12 a)"
    unfolding page_frame_def frame_mask by (intro bit_word_eqI) (auto simp: bit_simps)
  then have "page_frame a + a mod 4096 = a"
    using bits_ident [of 12 a] by (simp add: mod_page)
  then have "page_frame a = 4096 * (a div 4096)"
    using mult_div_mod_eq [of 4096 a] by (metis add_right_cancel)
  moreover have "4096 * (unat a div 4096) \<le> unat a" by simp
  ultimately show ?thesis
    using unat_u32_less [of a] by (simp add: unat_word_ariths unat_div_distrib)
qed

lemma page_offset:
  fixes a off :: u32
  assumes "a mod 4096 = 0" and "off < 4096"
  shows "unat (a + off) = unat a + unat off"
    and "(a + off) div 4096 = a div 4096" and "(a + off) mod 4096 = off"
proof -
  have a: "unat a mod 4096 = 0" and off: "unat off < 4096"
    using assms by (simp_all add: word_less_nat_alt word_unat_eq_iff unat_mod_distrib)
  then obtain q where q: "unat a = 4096 * q" by (auto elim!: dvdE simp: mod_eq_0_iff_dvd)
  then have "q < 0x100000" using unat_u32_less [of a] by simp
  with q off show sum: "unat (a + off) = unat a + unat off"
    by (intro unat_add_small) simp
  show "(a + off) div 4096 = a div 4096"
    using q off by (simp add: word_unat_eq_iff unat_div_distrib sum)
  show "(a + off) mod 4096 = off"
    using q off by (simp add: word_unat_eq_iff unat_mod_distrib sum)
qed

lemma page_eq_div: "a mod 4096 = 0 \<Longrightarrow> b mod 4096 = 0 \<Longrightarrow> a div 4096 = b div 4096 \<longleftrightarrow> a = b"
  for a b :: u32
  by (metis add.right_neutral div_mult_mod_eq)

lemma entry_offset: "i < 1024 \<Longrightarrow> 4 * i < 4096 \<and> unat (4 * i) = 4 * unat i" for i :: u32
  by (simp add: word_less_nat_alt unat_word_ariths)

lemma entry_inj:
  fixes a b i j :: u32
  assumes "a mod 4096 = 0" "b mod 4096 = 0" "i < 1024" "j < 1024"
  shows "a + 4 * i = b + 4 * j \<longleftrightarrow> a = b \<and> i = j"
proof
  assume eq: "a + 4 * i = b + 4 * j"
  have "a div 4096 = b div 4096" and "4 * i = 4 * j"
    using page_offset [of a "4 * i"] page_offset [of b "4 * j"] assms eq entry_offset
    by metis+
  then have "a = b" and "4 * unat i = 4 * unat j"
    using assms page_eq_div [of a b] entry_offset by metis+
  then show "a = b \<and> i = j" by (simp add: word_unat_eq_iff)
qed simp

lemma entry_aligned4: "a mod 4096 = 0 \<Longrightarrow> i < 1024 \<Longrightarrow> aligned4 (a + 4 * i)" for a i :: u32
proof -
  assume a: "a mod 4096 = 0" and i: "i < 1024"
  have "unat a mod 4096 = 0" using a by (simp add: word_unat_eq_iff unat_mod_distrib)
  then have "4 dvd unat a" by (auto elim!: dvdE simp: mod_eq_0_iff_dvd)
  moreover have "unat (a + 4 * i) = unat a + 4 * unat i"
    using page_offset(1) [OF a, of "4 * i"] entry_offset [OF i] by simp
  ultimately show ?thesis by (simp add: aligned4_def mod_eq_0_iff_dvd)
qed

lemma entry_byte_page:
  fixes a i j :: u32
  assumes "a mod 4096 = 0" and "i < 1024" and "j < 4"
  shows "(a + 4 * i + j) div 4096 = a div 4096"
proof -
  have "unat (4 * i + j) = 4 * unat i + unat j"
    using assms by (simp add: word_less_nat_alt unat_word_ariths)
  then have "4 * i + j < 4096"
    using assms by (simp add: word_less_nat_alt)
  then show ?thesis
    using page_offset(2) [OF assms(1), of "4 * i + j"] by (simp add: add.assoc)
qed

lemma page_address_iff:
  fixes a k off :: u32
  assumes "a mod 4096 = 0" and "off < 4096"
  shows "k = a + off \<longleftrightarrow> k div 4096 = a div 4096 \<and> k mod 4096 = off"
  using page_offset [OF assms] assms(1) div_mult_mod_eq [of k 4096] div_mult_mod_eq [of a 4096]
  by auto

lemma index_measure: "i < 1024 \<Longrightarrow> 1023 - unat i < 1024 - unat i" for i :: u32
  by (simp add: word_less_nat_alt)

text \<open>Virtual addresses inside the recursive window: the last directory entry, then the
  table \<open>d\<close> as a page, then the byte \<open>off\<close> of it.\<close>

lemma window_address:
  fixes d off :: u32
  assumes "d < 1024" and "off < 4096"
  shows "(0xFFC00000 + d * 4096 + off) div MB4 = 1023"
    and "(0xFFC00000 + d * 4096 + off) mod MB4 div KB4 = d"
    and "(0xFFC00000 + d * 4096 + off) mod KB4 = off"
proof -
  have d: "unat d < 1024" and off: "unat off < 4096"
    using assms by (simp_all add: word_less_nat_alt)
  then have va: "unat (0xFFC00000 + d * 4096 + off) = 0xFFC00000 + (unat d * 4096 + unat off)"
    by (simp add: unat_word_ariths)
  define r where "r = unat d * 4096 + unat off"
  have r: "r < 0x400000" "r div 4096 = unat d" "r mod 4096 = unat off"
    using d off by (simp_all add: r_def)
  have "(0xFFC00000 + r) div 0x400000 = 1023"
    using r(1) by (intro div_nat_eqI) simp_all
  moreover from this have "(0xFFC00000 + r) mod 0x400000 = r"
    using minus_div_mult_eq_mod [of "0xFFC00000 + r" "0x400000"] by simp
  moreover have "(0xFFC00000 + r) mod 4096 = unat off"
    using mod_mult_self2 [of r 4096 "0xFFC00"] r(3) by (simp add: add.commute)
  ultimately show "(0xFFC00000 + d * 4096 + off) div MB4 = 1023"
    and "(0xFFC00000 + d * 4096 + off) mod MB4 div KB4 = d"
    and "(0xFFC00000 + d * 4096 + off) mod KB4 = off"
    using r(2) va unfolding r_def [symmetric] layout_defs word_unat_eq_iff
    by (simp_all only: unat_div_distrib unat_mod_distrib) simp_all
qed

end
