(* ===== verification/Vmm.thy ===== *)
theory Vmm
  imports Mmu
begin

text \<open>
  The virtual memory manager, \<^verbatim>\<open>src/sys/vmm.c\<close>. Once paging is on, the code reaches
  the page directory at \<^verbatim>\<open>dir_virtual\<close> and page table \<open>d\<close> at
  \<^verbatim>\<open>0xFFC00000 + d*KB4\<close>, both through the directory's last entry, which points to the
  directory itself.
\<close>

section \<open>Operations\<close>

definition VMM_ERR_PAGE_IN_USE :: int where "VMM_ERR_PAGE_IN_USE = -1"
definition VMM_ERR_NO_PAGEDIR_ENTRY :: int where "VMM_ERR_NO_PAGEDIR_ENTRY = -2"
definition VMM_SUCCESS :: int where "VMM_SUCCESS = 0"

definition dir_virtual :: u32 where [kernel_defs]: "dir_virtual = 0xFFFFF000"

definition ptable_virtual :: "u32 \<Rightarrow> u32" where [kernel_defs]:
  "ptable_virtual diri = 0xFFC00000 + diri * KB4"

definition ADDR2INDEX :: "u32 \<Rightarrow> u32 \<times> u32" where
  "ADDR2INDEX addr = (let addr = addr AND NOT 0xFFF in (addr div MB4, addr mod MB4 div KB4))"

definition vmm_return_kernel_dir :: "('a) vmm_state_scheme \<Rightarrow> u32" where
  "vmm_return_kernel_dir s = kernel_dir s"

definition vmm_get_physical_page ::
  "('a) vmm_state_scheme \<Rightarrow> kerror + (u32 \<times> ('a) vmm_state_scheme)" where
  "vmm_get_physical_page s =
     (let (ret, s1) = pmm_alloc_first s in ebind (vmemset ret 0 KB4 s1) (\<lambda>s2. Inr (ret, s2)))"

function vmm_identity_loop ::
  "u32 \<Rightarrow> u32 \<Rightarrow> ('a) vmm_state_scheme \<Rightarrow> kerror + ('a) vmm_state_scheme" where
  "vmm_identity_loop ptable i s =
     (if i < 1024 then
        ebind (vstore32 (ptable + 4 * i) (i * KB4) s) (\<lambda>s.
        ebind (vload32 (ptable + 4 * i) s) (\<lambda>e.
        ebind (vstore32 (ptable + 4 * i)
          (e OR (X86_PAGE_PRESENT OR X86_PAGE_WRITABLE OR X86_PAGE_USER)) s) (\<lambda>s.
        vmm_identity_loop ptable (i + 1) s)))
      else Inr s)"
  by pat_completeness auto
termination
  by (relation "measure (\<lambda>(ptable, i, s). 1024 - unat i)") (auto simp: index_measure)

declare vmm_identity_loop.simps [simp del]

definition lapic_new_address :: "u32 \<Rightarrow> ('a) vmm_state_scheme \<Rightarrow> ('a) vmm_state_scheme" where
  "lapic_new_address addr s = s\<lparr>local_apic := addr\<rparr>"

definition paging_enable :: "u32 \<Rightarrow> ('a) vmm_state_scheme \<Rightarrow> ('a) vmm_state_scheme" where
  "paging_enable dir s = s\<lparr>cr3 := dir, paging := True\<rparr>"

definition load_page_dir_addr :: "u32 \<Rightarrow> ('a) vmm_state_scheme \<Rightarrow> ('a) vmm_state_scheme" where
  "load_page_dir_addr dir s = s\<lparr>cr3 := dir\<rparr>"

definition vmm_init :: "('a) vmm_state_scheme \<Rightarrow> kerror + ('a) vmm_state_scheme" where
  "vmm_init s =
     ebind (vmm_get_physical_page s) (\<lambda>(dir, s). let s = s\<lparr>kernel_dir := dir\<rparr> in
     ebind (vmm_get_physical_page s) (\<lambda>(ptable, s).
     ebind (vmm_identity_loop ptable 0 s) (\<lambda>s.
     ebind (vstore32 (ptable + 4 * (LAPIC_PHYS_VIRT_ADDR div KB4))
       (0xFEE00000 OR (X86_PAGE_PRESENT OR X86_PAGE_WRITABLE OR X86_PAGE_CACHE_DIS OR X86_PAGE_USER)) s) (\<lambda>s.
     let s = lapic_new_address LAPIC_PHYS_VIRT_ADDR s;
         s = pmm_mark_mem_taken 0 MB4 s in
     ebind (vstore32 (kernel_dir s)
       (ptable OR (X86_PAGEDIR_PRESENT OR X86_PAGEDIR_WRITABLE OR X86_PAGE_USER)) s) (\<lambda>s.
     ebind (vstore32 (kernel_dir s + 4 * 1023)
       (kernel_dir s OR (X86_PAGEDIR_PRESENT OR X86_PAGEDIR_WRITABLE OR X86_PAGE_USER)) s) (\<lambda>s.
     let s = s\<lparr>interrupt_handlers :=
               register_interrupt_handler 14 Vmm_handle_page_fault (interrupt_handlers s)\<rparr>;
         s = s\<lparr>current_dir := kernel_dir s\<rparr>
     in Inr (paging_enable (current_dir s) s)))))))"

definition vmm_map_page ::
  "u32 \<Rightarrow> u32 \<Rightarrow> u32 \<Rightarrow> ('a) vmm_state_scheme \<Rightarrow> kerror + (int \<times> ('a) vmm_state_scheme)" where
  "vmm_map_page phys_addr virt_addr acl s =
     (let (diri, pagei) = ADDR2INDEX virt_addr; ptable = ptable_virtual diri in
      ebind (vload32 (dir_virtual + 4 * diri) s) (\<lambda>de.
      if de AND X86_PAGEDIR_PRESENT \<noteq> 0 then
        ebind (vload32 (ptable + 4 * pagei) s) (\<lambda>te.
        if te AND X86_PAGE_PRESENT \<noteq> 0 then Inr (VMM_ERR_PAGE_IN_USE, s)
        else ebind (vstore32 (ptable + 4 * pagei) (phys_addr OR X86_PAGE_PRESENT OR acl) s)
          (\<lambda>s. Inr (VMM_SUCCESS, s)))
      else
        let (new_ptable, s) = pmm_alloc_first s in
        ebind (vstore32 (dir_virtual + 4 * diri) (new_ptable OR X86_PAGEDIR_PRESENT OR acl) s) (\<lambda>s.
        ebind (vmemset ptable 0 KB4 s) (\<lambda>s.
        ebind (vstore32 (ptable + 4 * pagei) (phys_addr OR X86_PAGE_PRESENT OR acl) s) (\<lambda>s.
        Inr (VMM_SUCCESS, s))))))"

text \<open>The search for a present entry: the index where the loop stops, 1024 when none is.\<close>

function vmm_scan_loop :: "u32 \<Rightarrow> u32 \<Rightarrow> ('a) vmm_state_scheme \<Rightarrow> kerror + u32" where
  "vmm_scan_loop ptable i s =
     (if i < 1024 then
        ebind (vload32 (ptable + 4 * i) s) (\<lambda>e.
        if e AND X86_PAGE_PRESENT \<noteq> 0 then Inr i else vmm_scan_loop ptable (i + 1) s)
      else Inr i)"
  by pat_completeness auto
termination
  by (relation "measure (\<lambda>(ptable, i, s). 1024 - unat i)") (auto simp: index_measure)

declare vmm_scan_loop.simps [simp del]

definition vmm_unmap_page ::
  "u32 \<Rightarrow> ('a) vmm_state_scheme \<Rightarrow> kerror + (int \<times> ('a) vmm_state_scheme)" where
  "vmm_unmap_page vaddr s =
     (let (diri, pagei) = ADDR2INDEX vaddr; ptable = ptable_virtual diri in
      ebind (vload32 (dir_virtual + 4 * diri) s) (\<lambda>de.
      if de AND X86_PAGEDIR_PRESENT \<noteq> 0 then
        ebind (vload32 (ptable + 4 * pagei) s) (\<lambda>te.
        ebind (if te AND X86_PAGE_PRESENT \<noteq> 0 then vstore32 (ptable + 4 * pagei) 0 s else Inr s) (\<lambda>s.
        ebind (vmm_scan_loop ptable 0 s) (\<lambda>i.
        if i \<ge> 1024 then
          ebind (vload32 (dir_virtual + 4 * diri) s) (\<lambda>de.
          let s = pmm_free (de AND 0xFFFFF000) s in
          ebind (vstore32 (dir_virtual + 4 * diri) 0 s) (\<lambda>s. Inr (VMM_SUCCESS, s)))
        else Inr (VMM_SUCCESS, s))))
      else Inr (VMM_ERR_NO_PAGEDIR_ENTRY, s)))"

text \<open>\<^verbatim>\<open>vmm_create_address_space\<close> takes the address of the function
  \<^verbatim>\<open>pmm_alloc_first\<close> where a call was meant; the address, chosen by the linker, is the
  parameter \<open>fn\<close>. The result of \<^verbatim>\<open>vmm_map_page\<close> is not looked at.\<close>

function vmm_copy_dir_loop ::
  "u32 \<Rightarrow> u32 \<Rightarrow> ('a) vmm_state_scheme \<Rightarrow> kerror + ('a) vmm_state_scheme" where
  "vmm_copy_dir_loop virt i s =
     (if i < 1024 then
        ebind (vload32 (dir_virtual + 4 * i) s) (\<lambda>e.
        ebind (vstore32 (virt + 4 * i) e s) (\<lambda>s. vmm_copy_dir_loop virt (i + 1) s))
      else Inr s)"
  by pat_completeness auto
termination
  by (relation "measure (\<lambda>(virt, i, s). 1024 - unat i)") (auto simp: index_measure)

declare vmm_copy_dir_loop.simps [simp del]

definition vmm_create_address_space ::
  "u32 \<Rightarrow> u32 \<Rightarrow> ('a) vmm_state_scheme \<Rightarrow> kerror + (u32 \<times> ('a) vmm_state_scheme)" where
  "vmm_create_address_space fn virt s =
     (let addr_space = fn in
      ebind (vmm_map_page addr_space virt X86_PAGE_WRITABLE s) (\<lambda>(_, s).
      ebind (vmemset virt 0 KB4 s) (\<lambda>s.
      ebind (vmm_copy_dir_loop virt 0 s) (\<lambda>s.
      ebind (vstore32 (virt + 4 * 1023)
        (addr_space OR (X86_PAGEDIR_PRESENT OR X86_PAGEDIR_WRITABLE)) s) (\<lambda>s.
      Inr (addr_space, s))))))"

definition vmm_switch_pdir :: "u32 \<Rightarrow> ('a) vmm_state_scheme \<Rightarrow> ('a) vmm_state_scheme" where
  "vmm_switch_pdir pdir s =
     (let s = s\<lparr>current_dir := pdir\<rparr> in load_page_dir_addr (current_dir s) s)"

definition vmm_switch_kernel :: "('a) vmm_state_scheme \<Rightarrow> ('a) vmm_state_scheme" where
  "vmm_switch_kernel s =
     (let s = s\<lparr>current_dir := kernel_dir s\<rparr> in load_page_dir_addr (current_dir s) s)"

definition vmm_handle_page_fault :: "Registers \<Rightarrow> kerror + u32" where
  "vmm_handle_page_fault regs = Inl (Panic ''Page fault'')"

section \<open>The abstract view: a finite map from pages to table entries\<close>

definition pde :: "('a) vmm_state_scheme \<Rightarrow> u32 \<Rightarrow> u32" where
  "pde s d = load32 (pmem s) (page_frame (cr3 s) + 4 * d)"

definition ptbl :: "('a) vmm_state_scheme \<Rightarrow> u32 \<Rightarrow> u32" where
  "ptbl s d = page_frame (pde s d)"

definition pte :: "('a) vmm_state_scheme \<Rightarrow> u32 \<Rightarrow> u32 \<Rightarrow> u32" where
  "pte s d i = load32 (pmem s) (ptbl s d + 4 * i)"

definition bitmap_page :: "('a) vmm_state_scheme \<Rightarrow> u32 \<Rightarrow> bool" where
  "bitmap_page s p \<longleftrightarrow> (\<exists>b < pmm_bitmap_sz s. (pmm_bitmap s + b div 8) div 4096 = p)"

definition mappings :: "('a) vmm_state_scheme \<Rightarrow> (u32 \<times> u32) \<Rightarrow> u32 option" where
  "mappings s v =
     (if fst v < 1023 \<and> snd v < 1024 \<and> page_present (pde s (fst v))
         \<and> page_present (pte s (fst v) (snd v))
      then Some (pte s (fst v) (snd v)) else None)"

text \<open>The invariant: the directory maps itself, every present table is writable and sits in a
  frame of its own that the frame allocator holds, and no table shares a page with the
  allocator's bitmap, whose own pages are never handed out.\<close>

definition vmm_inv :: "('a) vmm_state_scheme \<Rightarrow> bool" where
  "vmm_inv s \<longleftrightarrow>
     paging s \<and> pmm_inv s \<and> page_present (pde s 1023) \<and> ptbl s 1023 = page_frame (cr3 s)
     \<and> (\<forall>d < 1024. page_present (pde s d) \<longrightarrow> page_writable (pde s d)
          \<and> ptbl s d div 4096 < pmm_bitmap_sz s \<and> ptbl s d div 4096 \<in> taken s
          \<and> \<not> bitmap_page s (ptbl s d div 4096))
     \<and> (\<forall>d < 1024. \<forall>e < 1024. page_present (pde s d) \<and> page_present (pde s e)
          \<and> ptbl s d = ptbl s e \<longrightarrow> d = e)
     \<and> (\<forall>p < pmm_bitmap_sz s. bitmap_page s p \<longrightarrow> p \<in> taken s)"

section \<open>Accesses through the recursive entry\<close>

lemma vmm_invD:
  assumes "vmm_inv s"
  shows "paging s" "pmm_inv s" "page_present (pde s 1023)" "ptbl s 1023 = page_frame (cr3 s)"
    "\<And>d. d < 1024 \<Longrightarrow> page_present (pde s d) \<Longrightarrow> page_writable (pde s d)"
    "\<And>d. d < 1024 \<Longrightarrow> page_present (pde s d) \<Longrightarrow> ptbl s d div 4096 < pmm_bitmap_sz s"
    "\<And>d. d < 1024 \<Longrightarrow> page_present (pde s d) \<Longrightarrow> ptbl s d div 4096 \<in> taken s"
    "\<And>d. d < 1024 \<Longrightarrow> page_present (pde s d) \<Longrightarrow> \<not> bitmap_page s (ptbl s d div 4096)"
    "\<And>d e. d < 1024 \<Longrightarrow> e < 1024 \<Longrightarrow> page_present (pde s d) \<Longrightarrow> page_present (pde s e) \<Longrightarrow>
       ptbl s d = ptbl s e \<Longrightarrow> d = e"
    "\<And>p. p < pmm_bitmap_sz s \<Longrightarrow> bitmap_page s p \<Longrightarrow> p \<in> taken s"
  using assms unfolding vmm_inv_def by blast+

lemma vmm_invI:
  assumes "paging s" "pmm_inv s" "page_present (pde s 1023)" "ptbl s 1023 = page_frame (cr3 s)"
    "\<And>d. d < 1024 \<Longrightarrow> page_present (pde s d) \<Longrightarrow> page_writable (pde s d)
       \<and> ptbl s d div 4096 < pmm_bitmap_sz s \<and> ptbl s d div 4096 \<in> taken s
       \<and> \<not> bitmap_page s (ptbl s d div 4096)"
    "\<And>d e. d < 1024 \<Longrightarrow> e < 1024 \<Longrightarrow> page_present (pde s d) \<Longrightarrow> page_present (pde s e) \<Longrightarrow>
       ptbl s d = ptbl s e \<Longrightarrow> d = e"
    "\<And>p. p < pmm_bitmap_sz s \<Longrightarrow> bitmap_page s p \<Longrightarrow> p \<in> taken s"
  shows "vmm_inv s"
  unfolding vmm_inv_def using assms by blast

lemma below_window: "e < 1023 \<Longrightarrow> e < 1024 \<and> e \<noteq> 1023" for e :: u32
  by (auto elim: order_less_trans)

lemma ptbl_aligned [simp]: "ptbl s d mod 4096 = 0"
  by (simp add: ptbl_def)

text \<open>What an access through the window needs: the directory is present and writable as its
  own last table.\<close>

definition self_map :: "('a) vmm_state_scheme \<Rightarrow> bool" where
  "self_map s \<longleftrightarrow> paging s \<and> page_present (pde s 1023) \<and> page_writable (pde s 1023)
     \<and> ptbl s 1023 = page_frame (cr3 s)"

lemma vmm_inv_self_map: "vmm_inv s \<Longrightarrow> self_map s"
  by (simp add: self_map_def vmm_invD)

lemma physical_window:
  assumes "self_map s" and "d < 1024" and "off < 4096"
  shows "physical wr (0xFFC00000 + d * 4096 + off) s
     = (if page_allows wr (pde s d) then Some (ptbl s d + off) else None)"
  using assms(1)
  unfolding physical_def page_walk_def Let_def window_address [OF assms(2,3)] pde_def [symmetric]
    ptbl_def [symmetric]
  by (simp add: page_allows_def self_map_def) (simp add: pde_def ptbl_def)

lemma physical_ptable:
  assumes "self_map s" and "d < 1024" and "i < 1024"
  shows "physical wr (ptable_virtual d + 4 * i) s
     = (if page_allows wr (pde s d) then Some (ptbl s d + 4 * i) else None)"
  using physical_window [OF assms(1,2), of "4 * i"] entry_offset [OF assms(3)]
  by (simp add: ptable_virtual_def KB4_def)

lemma physical_dir:
  assumes "self_map s" and "d < 1024"
  shows "physical wr (dir_virtual + 4 * d) s = Some (page_frame (cr3 s) + 4 * d)"
  using physical_ptable [OF assms(1), of 1023 d wr] assms
  by (simp add: dir_virtual_def ptable_virtual_def KB4_def page_allows_def self_map_def)

lemma vload32_dir: "self_map s \<Longrightarrow> d < 1024 \<Longrightarrow> vload32 (dir_virtual + 4 * d) s = Inr (pde s d)"
  by (simp add: vload32_def physical_dir pde_def)

lemma vstore32_dir: "self_map s \<Longrightarrow> d < 1024 \<Longrightarrow> vstore32 (dir_virtual + 4 * d) v s
    = Inr (s\<lparr>pmem := store32 (pmem s) (page_frame (cr3 s) + 4 * d) v\<rparr>)"
  by (simp add: vstore32_def physical_dir)

lemma vload32_ptable: "self_map s \<Longrightarrow> d < 1024 \<Longrightarrow> i < 1024 \<Longrightarrow> page_present (pde s d) \<Longrightarrow>
    vload32 (ptable_virtual d + 4 * i) s = Inr (pte s d i)"
  by (simp add: vload32_def physical_ptable pte_def page_allows_def)

lemma vstore32_ptable: "vmm_inv s \<Longrightarrow> d < 1024 \<Longrightarrow> i < 1024 \<Longrightarrow> page_present (pde s d) \<Longrightarrow>
    vstore32 (ptable_virtual d + 4 * i) v s
      = Inr (s\<lparr>pmem := store32 (pmem s) (ptbl s d + 4 * i) v\<rparr>)"
  by (simp add: vstore32_def physical_ptable vmm_inv_self_map page_allows_def vmm_invD(5))

section \<open>Writes inside one page\<close>

definition only_page :: "u32 \<Rightarrow> ('a) vmm_state_scheme \<Rightarrow> ('a) vmm_state_scheme \<Rightarrow> bool" where
  "only_page p s s' \<longleftrightarrow> s' = s\<lparr>pmem := pmem s'\<rparr> \<and> (\<forall>k. k div 4096 \<noteq> p \<longrightarrow> pmem s' k = pmem s k)"

lemma only_page_fields:
  assumes "only_page p s s'"
  shows "paging s' = paging s" "cr3 s' = cr3 s" "pmm_bitmap s' = pmm_bitmap s"
    "pmm_bitmap_sz s' = pmm_bitmap_sz s" "pmm_inv s' = pmm_inv s" "bitmap_page s' = bitmap_page s"
proof -
  have "s' = s\<lparr>pmem := pmem s'\<rparr>" using assms by (simp add: only_page_def)
  then obtain m where "s' = s\<lparr>pmem := m\<rparr>" by blast
  then show "paging s' = paging s" "cr3 s' = cr3 s" "pmm_bitmap s' = pmm_bitmap s"
    "pmm_bitmap_sz s' = pmm_bitmap_sz s" "pmm_inv s' = pmm_inv s" "bitmap_page s' = bitmap_page s"
    by (simp_all add: pmm_inv_def bitmap_page_def fun_eq_iff)
qed

lemma load32_same_page:
  fixes a i :: u32
  assumes "a mod 4096 = 0" and "i < 1024" and "\<And>k. k div 4096 = a div 4096 \<Longrightarrow> m k = m' k"
  shows "load32 m (a + 4 * i) = load32 m' (a + 4 * i)"
proof -
  have "m (a + 4 * i + j) = m' (a + 4 * i + j)" if "j < 4" for j
    using entry_byte_page [OF assms(1,2) that] assms(3) by simp
  from this [of 0] this [of 1] this [of 2] this [of 3] show ?thesis
    by (simp add: load32_def)
qed

lemma load32_other_page:
  fixes a i :: u32
  assumes "a mod 4096 = 0" and "i < 1024" and "\<And>k. k div 4096 \<noteq> p \<Longrightarrow> m' k = m k"
    and "a div 4096 \<noteq> p"
  shows "load32 m' (a + 4 * i) = load32 m (a + 4 * i)"
  using assms by (intro load32_same_page) auto

lemma load32_zero_page:
  fixes a i :: u32
  assumes "a mod 4096 = 0" and "i < 1024" and "\<And>k. k div 4096 = a div 4096 \<Longrightarrow> m k = 0"
  shows "load32 m (a + 4 * i) = 0"
  using load32_same_page [OF assms(1,2), of m "\<lambda>_. 0"] assms(3) by (simp add: load32_def)

lemma store32_other_page:
  fixes a i :: u32
  assumes "a mod 4096 = 0" and "i < 1024" and "k div 4096 \<noteq> a div 4096"
  shows "store32 m (a + 4 * i) v k = m k"
proof -
  have "k \<noteq> a + 4 * i + j" if "j < 4" for j
    using entry_byte_page [OF assms(1,2) that] assms(3) by auto
  from this [of 0] this [of 1] this [of 2] this [of 3] show ?thesis
    by (simp add: store32_def)
qed

lemma taken_other_page:
  assumes "only_page p s s'" and "\<not> bitmap_page s p" and "b < pmm_bitmap_sz s"
  shows "b \<in> taken s' \<longleftrightarrow> b \<in> taken s"
proof -
  have "pmem s' (pmm_bitmap s + b div 8) = pmem s (pmm_bitmap s + b div 8)"
    using assms unfolding only_page_def bitmap_page_def by blast
  then show ?thesis
    by (simp add: taken_def pmm_is_taken_def bitmap_is_set_def only_page_fields [OF assms(1)])
qed

text \<open>A write inside page table \<open>d\<close> keeps the directory, the other tables and the
  invariant.\<close>

lemma table_write:
  assumes inv: "vmm_inv s" and d: "d < 1023" "page_present (pde s d)"
    and upd: "only_page (ptbl s d div 4096) s s'"
  shows table_write_pde: "\<And>e. e < 1024 \<Longrightarrow> pde s' e = pde s e"
    and table_write_ptbl: "\<And>e. e < 1024 \<Longrightarrow> ptbl s' e = ptbl s e"
    and table_write_pte: "\<And>e j. e < 1024 \<Longrightarrow> j < 1024 \<Longrightarrow> e \<noteq> d \<Longrightarrow> page_present (pde s e)
          \<Longrightarrow> pte s' e j = pte s e j"
    and table_write_inv: "vmm_inv s'"
proof -
  note I = vmm_invD [OF inv] and flds = only_page_fields [OF upd]
  have d': "d < 1024" "d \<noteq> 1023"
    using d(1) by (auto elim: order_less_trans)
  have mem: "k div 4096 \<noteq> ptbl s d div 4096 \<Longrightarrow> pmem s' k = pmem s k" for k
    using upd by (simp add: only_page_def)
  have other: "ptbl s e div 4096 \<noteq> ptbl s d div 4096"
    if "e < 1024" "e \<noteq> d" "page_present (pde s e)" for e
    using I(9) [OF that(1) d'(1) that(3) d(2)] that(2) by (auto simp: page_eq_div)
  show pde: "pde s' e = pde s e" if "e < 1024" for e
    unfolding pde_def flds
    using other [of 1023] d' I(3,4) mem that by (intro load32_other_page) auto
  show ptbl: "ptbl s' e = ptbl s e" if "e < 1024" for e
    using pde [OF that] by (simp add: ptbl_def)
  show "pte s' e j = pte s e j" if "e < 1024" "j < 1024" "e \<noteq> d" "page_present (pde s e)" for e j
    unfolding pte_def ptbl [OF that(1)]
    using other [OF that(1,3,4)] mem that(2) by (intro load32_other_page) auto
  have taken: "b < pmm_bitmap_sz s \<Longrightarrow> b \<in> taken s' \<longleftrightarrow> b \<in> taken s" for b
    using taken_other_page [OF upd] I(8) [OF d'(1) d(2)] by blast
  show "vmm_inv s'"
    unfolding vmm_inv_def flds
    using I taken by (auto simp: pde ptbl)
qed

lemma only_page_store32:
  "a mod 4096 = 0 \<Longrightarrow> i < 1024 \<Longrightarrow> only_page (a div 4096) s (s\<lparr>pmem := store32 (pmem s) (a + 4 * i) v\<rparr>)"
  by (simp add: only_page_def store32_other_page)

lemma pte_store32:
  assumes "vmm_inv s" and "d < 1023" and "page_present (pde s d)" and "i < 1024" and "j < 1024"
  shows "pte (s\<lparr>pmem := store32 (pmem s) (ptbl s d + 4 * i) v\<rparr>) d j = (if i = j then v else pte s d j)"
proof -
  let ?s = "s\<lparr>pmem := store32 (pmem s) (ptbl s d + 4 * i) v\<rparr>"
  have "d < 1024" using assms(2) by (rule order_less_trans) simp
  then have "ptbl ?s d = ptbl s d"
    using table_write_ptbl [OF assms(1-3) only_page_store32 [OF ptbl_aligned assms(4)]] by blast
  then show ?thesis
    using w32.load_store [of "ptbl s d + 4 * i" "ptbl s d + 4 * j"] assms(4,5)
      entry_inj [of "ptbl s d" "ptbl s d" i j]
    by (simp add: pte_def entry_aligned4)
qed

lemma load_entry:
  fixes a i j :: u32
  assumes "a mod 4096 = 0" and "i < 1024" and "j < 1024"
  shows "load32 (store32 m (a + 4 * i) v) (a + 4 * j) = (if i = j then v else load32 m (a + 4 * j))"
  using assms entry_inj [OF assms(1) assms] by (simp add: w32.load_store entry_aligned4)

text \<open>\<^verbatim>\<open>memset\<close> of a whole page, while the stores leave the translation alone.\<close>

lemma vmemset_page_loop:
  assumes "\<And>s off. Q s \<Longrightarrow> off < 4096 \<Longrightarrow> physical True (va + off) s = Some (f + off)"
    and "\<And>s off. Q s \<Longrightarrow> off < 4096 \<Longrightarrow> Q (s\<lparr>pmem := (pmem s)(f + off := 0)\<rparr>)"
    and f: "f mod 4096 = 0" and "Q s" and "i \<le> 4096"
  shows "vmemset_loop va 0 KB4 i s
     = Inr (s\<lparr>pmem := (\<lambda>k. if k div 4096 = f div 4096 \<and> i \<le> k mod 4096 then 0 else pmem s k)\<rparr>)"
  using assms(4,5)
proof (induction "4096 - unat i" arbitrary: i s)
  case 0
  then have "i = 4096" by (simp add: word_le_nat_alt word_unat_eq_iff)
  moreover have "\<not> 4096 \<le> k mod 4096" for k :: u32
    using mod_less_divisor [of 4096 "unat k"]
    by (simp add: word_le_nat_alt unat_mod_distrib)
  ultimately show ?case by (simp add: vmemset_loop.simps [of _ _ 4096 4096] KB4_def)
next
  case (Suc x)
  then have i: "i < 4096" by (simp add: word_less_nat_alt)
  let ?s = "s\<lparr>pmem := (pmem s)(f + i := 0)\<rparr>"
  have "vmemset_loop va 0 KB4 (i + 1) ?s
     = Inr (?s\<lparr>pmem := (\<lambda>k. if k div 4096 = f div 4096 \<and> i + 1 \<le> k mod 4096 then 0 else pmem ?s k)\<rparr>)"
    using Suc.hyps(2) i Suc.prems(1) assms(2) by (intro Suc.hyps(1)) (auto simp: inc_le)
  moreover have "(\<lambda>k. if k div 4096 = f div 4096 \<and> i + 1 \<le> k mod 4096 then 0 else pmem ?s k)
     = (\<lambda>k. if k div 4096 = f div 4096 \<and> i \<le> k mod 4096 then 0 else pmem s k)"
    unfolding word_le_cases_inc [OF i]
    by (rule ext) (use page_address_iff [OF f i] in auto)
  ultimately show ?case
    using i assms(1) [OF Suc.prems(1) i]
    by (simp add: vmemset_loop.simps [of _ _ _ i] KB4_def vstore8_def)
qed

lemma vmemset_ptable_loop:
  fixes s :: "('a) vmm_state_scheme"
  assumes inv: "vmm_inv s" and d: "d < 1023" "page_present (pde s d)"
  shows "vmemset_loop (ptable_virtual d) 0 KB4 0 s
     = Inr (s\<lparr>pmem := (\<lambda>k. if k div 4096 = ptbl s d div 4096 then 0 else pmem s k)\<rparr>)"
proof -
  have d': "d < 1024" using below_window [OF d(1)] by simp
  define Q :: "('a) vmm_state_scheme \<Rightarrow> bool"
    where "Q = (\<lambda>t. vmm_inv t \<and> page_present (pde t d) \<and> ptbl t d = ptbl s d)"
  have "physical True (ptable_virtual d + off) t = Some (ptbl s d + off)" if "Q t" "off < 4096" for t off
    using that physical_window [OF vmm_inv_self_map d' that(2), of t True] vmm_invD(5) [of t d] d'
    by (simp add: Q_def ptable_virtual_def KB4_def page_allows_def)
  moreover have "Q (t\<lparr>pmem := (pmem t)(ptbl s d + off := 0)\<rparr>)" if "Q t" "off < 4096" for t off
  proof -
    have "only_page (ptbl t d div 4096) t (t\<lparr>pmem := (pmem t)(ptbl s d + off := 0)\<rparr>)"
      using that page_offset(2) [OF ptbl_aligned that(2), of t d] by (auto simp: only_page_def Q_def)
    with that show ?thesis
      using table_write [OF _ d(1), of t "t\<lparr>pmem := (pmem t)(ptbl s d + off := 0)\<rparr>"] d'
      by (simp add: Q_def)
  qed
  ultimately show ?thesis
    using vmemset_page_loop [of Q "ptable_virtual d" "ptbl s d" s 0] inv d by (simp add: Q_def)
qed

lemma ptable_virtual_nonzero:
  assumes "d < 1023"
  shows "ptable_virtual d \<noteq> 0"
proof -
  have "unat (d * 4096) = unat d * 4096" "unat d < 1023"
    using assms by (simp_all add: word_less_nat_alt unat_word_ariths)
  then have "unat (ptable_virtual d) = 0xFFC00000 + unat d * 4096"
    by (simp add: ptable_virtual_def KB4_def unat_word_ariths)
  then show ?thesis by (auto simp: word_unat_eq_iff)
qed

lemma vmemset_ptable:
  assumes "vmm_inv s" and "d < 1023" and "page_present (pde s d)"
  shows "vmemset (ptable_virtual d) 0 KB4 s
     = Inr (s\<lparr>pmem := (\<lambda>k. if k div 4096 = ptbl s d div 4096 then 0 else pmem s k)\<rparr>)"
  using vmemset_ptable_loop [OF assms] ptable_virtual_nonzero [OF assms(2)] by (simp add: vmemset_def)

section \<open>A new page table\<close>

text \<open>What the allocator's mark on a free block leaves alone.\<close>

lemma bitmap_write:
  assumes inv: "vmm_inv s" and s': "s' = s\<lparr>pmem := m\<rparr>"
    and mem: "\<And>k. \<not> bitmap_page s (k div 4096) \<Longrightarrow> m k = pmem s k"
  shows "\<And>e. e < 1024 \<Longrightarrow> pde s' e = pde s e"
    and "\<And>e j. e < 1024 \<Longrightarrow> j < 1024 \<Longrightarrow> page_present (pde s e) \<Longrightarrow> pte s' e j = pte s e j"
    and "self_map s'"
proof -
  note I = vmm_invD [OF inv]
  have tab: "load32 m (ptbl s e + 4 * j) = load32 (pmem s) (ptbl s e + 4 * j)"
    if "e < 1024" "j < 1024" "page_present (pde s e)" for e j
    using mem I(8) [OF that(1,3)] that(2) by (intro load32_same_page) auto
  show pde: "pde s' e = pde s e" if "e < 1024" for e
    using tab [of 1023 e] I(3,4) that by (simp add: pde_def s')
  then have ptbl: "ptbl s' e = ptbl s e" if "e < 1024" for e
    using that by (simp add: ptbl_def)
  show "pte s' e j = pte s e j" if "e < 1024" "j < 1024" "page_present (pde s e)" for e j
    using tab [OF that] ptbl [OF that(1)] by (simp add: pte_def s')
  show "self_map s'"
    using vmm_inv_self_map [OF inv] pde [of 1023] ptbl [of 1023] by (simp add: self_map_def s')
qed

lemma set_block_keeps:
  assumes inv: "vmm_inv s" and b: "b < pmm_bitmap_sz s"
  shows "\<And>e. e < 1024 \<Longrightarrow> pde (pmm_set_block b s) e = pde s e"
    and "\<And>e j. e < 1024 \<Longrightarrow> j < 1024 \<Longrightarrow> page_present (pde s e) \<Longrightarrow> pte (pmm_set_block b s) e j = pte s e j"
    and "vmm_inv (pmm_set_block b s)"
proof -
  note I = vmm_invD [OF inv]
  let ?s = "pmm_set_block b s"
  have mem: "bitmap_set (pmm_bitmap s) b (pmem s) k = pmem s k" if "\<not> bitmap_page s (k div 4096)" for k
    using that b by (intro bitmap_set_other) (auto simp: bitmap_page_def)
  note keep = bitmap_write [OF inv pmm_set_block_def [of b s], OF mem]
  show pde: "pde ?s e = pde s e" if "e < 1024" for e using keep(1) that by blast
  show "pte ?s e j = pte s e j" if "e < 1024" "j < 1024" "page_present (pde s e)" for e j
    using keep(2) that by blast
  have eqs: "cr3 ?s = cr3 s" "paging ?s = paging s" "bitmap_page ?s = bitmap_page s"
    by (simp_all add: pmm_set_block_def bitmap_page_def fun_eq_iff)
  have ptbl: "ptbl ?s e = ptbl s e" if "e < 1024" for e
    using pde [OF that] by (simp add: ptbl_def)
  show "vmm_inv ?s"
    unfolding vmm_inv_def eqs using I by (auto simp: pde ptbl)
qed

text \<open>A write to a directory entry.\<close>

lemma dir_write:
  assumes d: "d < 1024" and s': "s' = s\<lparr>pmem := store32 (pmem s) (page_frame (cr3 s) + 4 * d) v\<rparr>"
  shows "only_page (page_frame (cr3 s) div 4096) s s'"
    and "\<And>e. e < 1024 \<Longrightarrow> pde s' e = (if e = d then v else pde s e)"
    and "\<And>e. e < 1024 \<Longrightarrow> ptbl s' e = (if e = d then page_frame v else ptbl s e)"
    and "\<And>e j. e < 1024 \<Longrightarrow> j < 1024 \<Longrightarrow> e \<noteq> d \<Longrightarrow> ptbl s e \<noteq> page_frame (cr3 s)
       \<Longrightarrow> pte s' e j = pte s e j"
proof -
  show op: "only_page (page_frame (cr3 s) div 4096) s s'"
    unfolding s' using d by (intro only_page_store32) auto
  note flds = only_page_fields [OF op]
  show pde: "pde s' e = (if e = d then v else pde s e)" if "e < 1024" for e
    unfolding pde_def flds using that d entry_inj [of "page_frame (cr3 s)" "page_frame (cr3 s)" d e]
      w32.load_store [of "page_frame (cr3 s) + 4 * d" "page_frame (cr3 s) + 4 * e"]
    by (simp add: s' entry_aligned4)
  show ptbl: "ptbl s' e = (if e = d then page_frame v else ptbl s e)" if "e < 1024" for e
    using pde [OF that] by (simp add: ptbl_def)
  show "pte s' e j = pte s e j"
    if "e < 1024" "j < 1024" "e \<noteq> d" "ptbl s e \<noteq> page_frame (cr3 s)" for e j
  proof -
    have "ptbl s e div 4096 \<noteq> page_frame (cr3 s) div 4096"
      using that(4) by (simp add: page_eq_div)
    moreover have "ptbl s' e = ptbl s e" using ptbl [OF that(1)] that(3) by simp
    moreover have "k div 4096 \<noteq> page_frame (cr3 s) div 4096 \<Longrightarrow> pmem s' k = pmem s k" for k
      using op by (simp add: only_page_def)
    ultimately show ?thesis
      unfolding pte_def using that(2) load32_other_page [OF ptbl_aligned] by metis
  qed
qed

lemma ptbl_not_dir:
  "vmm_inv s \<Longrightarrow> e < 1023 \<Longrightarrow> page_present (pde s e) \<Longrightarrow> ptbl s e \<noteq> page_frame (cr3 s)"
  using vmm_invD(3,4) [of s] vmm_invD(9) [of s e 1023] below_window [of e] by auto

text \<open>A directory entry that points to a frame the allocator has just handed out.\<close>

lemma new_table:
  assumes inv: "vmm_inv s" and d: "d < 1023" "\<not> page_present (pde s d)"
    and fresh: "b \<in> taken s" "b < pmm_bitmap_sz s" "\<not> bitmap_page s b"
      "\<forall>e < 1024. page_present (pde s e) \<longrightarrow> ptbl s e div 4096 \<noteq> b"
    and v: "page_present v" "page_writable v" "page_frame v div 4096 = b"
    and s': "s' = s\<lparr>pmem := store32 (pmem s) (page_frame (cr3 s) + 4 * d) v\<rparr>"
  shows "\<And>e. e < 1024 \<Longrightarrow> pde s' e = (if e = d then v else pde s e)"
    and "\<And>e j. e < 1023 \<Longrightarrow> j < 1024 \<Longrightarrow> e \<noteq> d \<Longrightarrow> page_present (pde s e)
       \<Longrightarrow> pte s' e j = pte s e j"
    and "vmm_inv s'"
proof -
  note I = vmm_invD [OF inv]
  have d': "d < 1024" "d \<noteq> 1023" using d(1) by (auto elim: order_less_trans)
  note W = dir_write [OF d'(1) s']
  note pde = W(2) and ptbl = W(3) and flds = only_page_fields [OF W(1)]
  show "pde s' e = (if e = d then v else pde s e)" if "e < 1024" for e by (rule pde [OF that])
  show "pte s' e j = pte s e j" if "e < 1023" "j < 1024" "e \<noteq> d" "page_present (pde s e)" for e j
    using that ptbl_not_dir [OF inv that(1,4)] below_window [OF that(1)] by (intro W(4)) auto
  have taken: "x < pmm_bitmap_sz s \<Longrightarrow> x \<in> taken s' \<longleftrightarrow> x \<in> taken s" for x
    using taken_other_page [OF W(1)] I(8) [of 1023] I(3,4) by simp
  have tables: "page_writable (pde s' e) \<and> ptbl s' e div 4096 < pmm_bitmap_sz s
      \<and> ptbl s' e div 4096 \<in> taken s' \<and> \<not> bitmap_page s (ptbl s' e div 4096)"
    if "e < 1024" "page_present (pde s' e)" for e
    using that I(5-8) [of e] fresh(1-3) v taken by (auto simp: pde ptbl)
  have inj: "e = f" if "e < 1024" "f < 1024" "page_present (pde s' e)" "page_present (pde s' f)"
    "ptbl s' e = ptbl s' f" for e f
    using that I(9) [of e f] fresh(4) v(3)
    by (auto simp: pde ptbl split: if_splits)
  show "vmm_inv s'"
  proof (rule vmm_invI)
    show "page_present (pde s' 1023)" "ptbl s' 1023 = page_frame (cr3 s')"
      using I(3,4) d' by (simp_all add: pde ptbl flds)
    show "p \<in> taken s'" if "p < pmm_bitmap_sz s'" "bitmap_page s' p" for p
      using that I(10) taken by (simp add: flds)
  qed (use I(1,2) tables inj in \<open>simp_all add: flds\<close>)
qed

text \<open>A table that is given back and taken out of the directory.\<close>

lemma drop_table:
  assumes inv: "vmm_inv s" and d: "d < 1023" "page_present (pde s d)"
    and s1: "s1 = pmm_free (ptbl s d) s"
    and s': "s' = s1\<lparr>pmem := store32 (pmem s1) (page_frame (cr3 s1) + 4 * d) 0\<rparr>"
  shows "self_map s1"
    and "\<And>e. e < 1024 \<Longrightarrow> pde s1 e = pde s e"
    and "\<And>e. e < 1024 \<Longrightarrow> pde s' e = (if e = d then 0 else pde s e)"
    and "\<And>e j. e < 1023 \<Longrightarrow> j < 1024 \<Longrightarrow> e \<noteq> d \<Longrightarrow> page_present (pde s e)
       \<Longrightarrow> pte s' e j = pte s e j"
    and "vmm_inv s'"
    and "ptbl s d div 4096 \<notin> taken s'"
proof -
  note I = vmm_invD [OF inv]
  have d': "d < 1024" "d \<noteq> 1023" using d(1) by (auto elim: order_less_trans)
  let ?b = "ptbl s d div 4096"
  have b: "?b < pmm_bitmap_sz s" by (rule I(6) [OF d'(1) d(2)])
  have s1': "s1 = s\<lparr>pmem := bitmap_unset (pmm_bitmap s) ?b (pmem s)\<rparr>"
    by (simp add: s1 pmm_free_def PMM_BLK_SZ_def Let_def)
  have mem: "bitmap_unset (pmm_bitmap s) ?b (pmem s) k = pmem s k"
    if "\<not> bitmap_page s (k div 4096)" for k
    using that b by (auto simp: bitmap_unset_def bitmap_page_def)
  note K = bitmap_write [OF inv s1', OF mem]
  show "self_map s1" and pde1: "\<And>e. e < 1024 \<Longrightarrow> pde s1 e = pde s e" using K by blast+
  have flds1: "cr3 s1 = cr3 s" "paging s1 = paging s" "bitmap_page s1 = bitmap_page s"
      "pmm_bitmap_sz s1 = pmm_bitmap_sz s" "pmm_inv s1 = pmm_inv s" "taken s1 = taken s - {?b}"
    by (simp_all add: s1' bitmap_page_def fun_eq_iff pmm_inv_def)
      (simp add: s1 flip: s1')
  have ptbl1: "ptbl s1 e = ptbl s e" if "e < 1024" for e using pde1 [OF that] by (simp add: ptbl_def)
  note W = dir_write [OF d'(1) s']
  note flds = only_page_fields [OF W(1)]
  show pde: "pde s' e = (if e = d then 0 else pde s e)" if "e < 1024" for e
    using W(2) [OF that] pde1 [OF that] by simp
  have ptbl: "ptbl s' e = (if e = d then 0 else ptbl s e)" if "e < 1024" for e
    using pde [OF that] by (simp add: ptbl_def page_frame_def)
  show "pte s' e j = pte s e j" if "e < 1023" "j < 1024" "e \<noteq> d" "page_present (pde s e)" for e j
    using that ptbl_not_dir [OF inv that(1,4)] K(2) [of e j] W(4) [of e j] ptbl1 [of e] flds1(1)
      below_window [OF that(1)] by simp
  have np: "\<not> page_present 0" by (simp add: page_present_def)
  have taken: "x < pmm_bitmap_sz s \<Longrightarrow> x \<in> taken s' \<longleftrightarrow> x \<in> taken s \<and> x \<noteq> ?b" for x
    using taken_other_page [OF W(1)] I(8) [of 1023] I(3,4) flds1 by simp
  then show "?b \<notin> taken s'" using b by simp
  have other: "ptbl s e div 4096 \<noteq> ?b" if "e < 1024" "e \<noteq> d" "page_present (pde s e)" for e
    using I(9) [OF that(1) d'(1) that(3) d(2)] that(2) by (auto simp: page_eq_div)
  show "vmm_inv s'"
  proof (rule vmm_invI)
    show "page_present (pde s' 1023)" "ptbl s' 1023 = page_frame (cr3 s')"
      using I(3,4) d' by (simp_all add: pde ptbl flds flds1)
    show "p \<in> taken s'" if "p < pmm_bitmap_sz s'" "bitmap_page s' p" for p
      using that I(10) taken I(8) [OF d'(1) d(2)] by (auto simp: flds flds1)
    show "page_writable (pde s' e) \<and> ptbl s' e div 4096 < pmm_bitmap_sz s'
      \<and> ptbl s' e div 4096 \<in> taken s' \<and> \<not> bitmap_page s' (ptbl s' e div 4096)"
      if "e < 1024" "page_present (pde s' e)" for e
      using that I(5-8) [of e] taken other [of e] np by (auto simp: pde ptbl flds flds1 split: if_splits)
    show "e = f" if "e < 1024" "f < 1024" "page_present (pde s' e)" "page_present (pde s' f)"
      "ptbl s' e = ptbl s' f" for e f
      using that I(9) [of e f] np by (auto simp: pde ptbl split: if_splits)
  qed (use I(1,2) in \<open>simp_all add: flds flds1\<close>)
qed

section \<open>\<^verbatim>\<open>vmm_map_page\<close> implements map update\<close>

text \<open>The page a virtual address belongs to, as the pair of indexes the code computes.\<close>

lemma ADDR2INDEX_eq: "ADDR2INDEX a = (a div MB4, a mod MB4 div KB4)"
proof -
  define q where "q = unat a div 4096"
  have fr: "a AND NOT 0xFFF = page_frame a" by (simp add: page_frame_def frame_mask mask_eq_exp_minus_1)
  have f: "unat (page_frame a) = 4096 * q"
    unfolding q_def by (rule unat_page_frame)
  have "unat (page_frame a) div 0x400000 = unat a div 0x400000"
    using div_mult_mult1 [of 4096 q 1024] div_mult2_eq [of "unat a" 4096 1024]
    unfolding f by (simp add: q_def)
  moreover have "unat (page_frame a) mod 0x400000 div 4096 = unat a mod 0x400000 div 4096"
  proof -
    have "4096 * q mod 0x400000 = 4096 * (q mod 1024)"
      using mult_mod_right [of 4096 q 1024] by simp
    moreover have "unat a mod 0x400000 = 4096 * (q mod 1024) + unat a mod 4096"
      using mod_mult2_eq [of "unat a" 4096 1024] by (simp add: q_def)
    ultimately show ?thesis unfolding f by simp
  qed
  ultimately show ?thesis
    unfolding ADDR2INDEX_def fr Let_def
    by (simp add: layout_defs word_unat_eq_iff unat_div_distrib unat_mod_distrib)
qed

lemma ADDR2INDEX_same_page: "ADDR2INDEX a = ADDR2INDEX b \<longleftrightarrow> a div 4096 = b div 4096"
proof -
  have ix: "ADDR2INDEX x = (x div 4096 div 1024, x div 4096 mod 1024)" for x
    using div_mult2_eq [of "unat x" 4096 1024] mod_mult2_eq [of "unat x" 4096 1024]
    by (simp add: ADDR2INDEX_eq layout_defs word_unat_eq_iff unat_div_distrib unat_mod_distrib)
  define x y where "x = a div 4096" and "y = b div 4096"
  have "x = y" if "x div 1024 = y div 1024" "x mod 1024 = y mod 1024"
    using div_mult_mod_eq [of x 1024] div_mult_mod_eq [of y 1024] that by metis
  then show ?thesis unfolding ix by (auto simp: x_def [symmetric] y_def [symmetric])
qed

lemma ADDR2INDEX_bounds:
  assumes "ADDR2INDEX a = (d, i)"
  shows "d < 1024" and "i < 1024"
proof -
  have "unat a < 1024 * 0x400000" using unat_u32_less [of a] by simp
  then show "d < 1024"
    using assms by (auto simp: ADDR2INDEX_eq layout_defs word_less_nat_alt unat_div_distrib
        intro: less_mult_imp_div_less)
  have "unat a mod 0x400000 < 1024 * 4096"
    using mod_less_divisor [of "0x400000" "unat a"] by simp
  then show "i < 1024"
    using assms by (auto simp: ADDR2INDEX_eq layout_defs word_less_nat_alt unat_div_distrib
        unat_mod_distrib intro: less_mult_imp_div_less)
qed

lemma alloc_fresh:
  assumes inv: "vmm_inv s" and p: "pmm_alloc_first s = (p, s1)" "p \<noteq> 0"
  shows "s1 = pmm_set_block (p div 4096) s" and "p mod 4096 = 0" and "p div 4096 < pmm_bitmap_sz s"
    and "p div 4096 \<notin> taken s"
  using p by (cases rule: pmm_alloc_first_cases [OF vmm_invD(2) [OF inv]]; auto simp: block_addr)+

lemma map_in_table:
  assumes inv: "vmm_inv s" and d: "d < 1023" "page_present (pde s d)" and i: "i < 1024"
    and v: "page_present v" and s': "s' = s\<lparr>pmem := store32 (pmem s) (ptbl s d + 4 * i) v\<rparr>"
  shows "vmm_inv s'" and "mappings s' = (mappings s)((d, i) \<mapsto> v)"
proof -
  have op: "only_page (ptbl s d div 4096) s s'"
    unfolding s' by (rule only_page_store32 [OF ptbl_aligned i])
  note keep = table_write [OF inv d op]
  show "vmm_inv s'" by (rule keep(4))
  show "mappings s' = (mappings s)((d, i) \<mapsto> v)"
  proof (rule ext)
    fix w :: "u32 \<times> u32"
    obtain e j where w: "w = (e, j)" by (cases w)
    have "pte s' d j = (if i = j then v else pte s d j)" if "j < 1024"
      unfolding s' by (rule pte_store32 [OF inv d i that])
    moreover have "e < 1023 \<Longrightarrow> e < 1024" by (erule order_less_trans) simp
    ultimately show "mappings s' w = ((mappings s)((d, i) \<mapsto> v)) w"
      using keep(1) [of e] keep(3) [of e j] d v i by (cases "e = d") (auto simp: mappings_def w)
  qed
qed

lemma flag_entry:
  "page_present (p OR X86_PAGE_PRESENT OR acl)"
  "acl AND X86_PAGE_WRITABLE \<noteq> 0 \<Longrightarrow> page_writable (p OR X86_PAGE_PRESENT OR acl)"
  by (simp_all add: page_present_def page_writable_def bit.conj_disj_distrib2 or_eq_0_iff)
    (simp add: X86_PAGE_PRESENT_def)

lemma page_frame_flags:
  "p mod 4096 = 0 \<Longrightarrow> acl < 4096 \<Longrightarrow> page_frame (p OR X86_PAGE_PRESENT OR acl) = p"
  using small_flags [of X86_PAGE_PRESENT] small_flags [of acl]
  by (simp add: page_frame_or page_aligned_iff) (simp add: X86_PAGE_PRESENT_def)

lemma map_new_table:
  assumes inv: "vmm_inv s" and d: "d < 1023" "\<not> page_present (pde s d)" and i: "i < 1024"
    and al: "pmm_alloc_first s = (p, s1)" "p \<noteq> 0"
    and acl: "acl < 4096" "acl AND X86_PAGE_WRITABLE \<noteq> 0"
  obtains s3 where
    "ebind (vstore32 (dir_virtual + 4 * d) (p OR X86_PAGEDIR_PRESENT OR acl) s1)
       (vmemset (ptable_virtual d) 0 KB4) = Inr s3"
    "vmm_inv s3" "page_present (pde s3 d)" "mappings s3 = mappings s"
    "\<And>e. e < 1024 \<Longrightarrow> ptbl s3 e = (if e = d then p else ptbl s e)"
    "\<And>e. e < 1024 \<Longrightarrow> e \<noteq> d \<Longrightarrow> pde s3 e = pde s e"
    "\<And>b. b < pmm_bitmap_sz s \<Longrightarrow> b \<in> taken s3 \<longleftrightarrow> b \<in> taken s \<or> b = p div 4096"
    "pmm_bitmap_sz s3 = pmm_bitmap_sz s"
    "\<And>k. \<not> bitmap_page s (k div 4096) \<Longrightarrow> \<forall>e < 1024. page_present (pde s3 e) \<longrightarrow> ptbl s3 e div 4096 \<noteq> k div 4096
       \<Longrightarrow> pmem s3 k = pmem s k"
proof -
  have d': "d < 1024" "d \<noteq> 1023" using d(1) by (auto elim: order_less_trans)
  note al' = alloc_fresh [OF inv al] and I = vmm_invD [OF inv]
  note keep1 = set_block_keeps [OF inv al'(3), folded al'(1)]
  define v where "v = p OR X86_PAGE_PRESENT OR acl"
  have v: "page_present v" "page_writable v" "page_frame v div 4096 = p div 4096"
    unfolding v_def using flag_entry(1) flag_entry(2) [OF acl(2)] page_frame_flags [OF al'(2) acl(1)]
    by simp_all
  define s2 where "s2 = s1\<lparr>pmem := store32 (pmem s1) (page_frame (cr3 s1) + 4 * d) v\<rparr>"
  have "\<not> bitmap_page s (p div 4096)" using I(10) al'(3,4) by blast
  then have bp: "\<not> bitmap_page s1 (p div 4096)"
    by (simp add: al'(1) bitmap_page_def pmm_set_block_def)
  have tbl: "\<forall>e < 1024. page_present (pde s1 e) \<longrightarrow> ptbl s1 e div 4096 \<noteq> p div 4096"
    using I(7) al'(4) keep1(1) unfolding ptbl_def by metis
  have nt: "p div 4096 \<in> taken s1" "p div 4096 < pmm_bitmap_sz s1" "\<not> page_present (pde s1 d)"
    using al'(3) d keep1(1) [OF d'(1)] by (simp_all add: al'(1))
  note keep2 = new_table [OF keep1(3) d(1) nt(3,1,2) bp tbl v s2_def]
  define s3 where "s3 = s2\<lparr>pmem := (\<lambda>k. if k div 4096 = ptbl s2 d div 4096 then 0 else pmem s2 k)\<rparr>"
  have pres2: "page_present (pde s2 d)" using keep2(1) [OF d'(1)] v(1) by simp
  have op: "only_page (ptbl s2 d div 4096) s2 s3" by (simp add: s3_def only_page_def)
  note keep3 = table_write [OF keep2(3) d(1) pres2 op]
  show thesis
  proof (rule that)
    show "ebind (vstore32 (dir_virtual + 4 * d) (p OR X86_PAGEDIR_PRESENT OR acl) s1)
       (vmemset (ptable_virtual d) 0 KB4) = Inr s3"
      using vmemset_ptable [OF keep2(3) d(1) pres2]
      by (simp add: vstore32_dir [OF vmm_inv_self_map [OF keep1(3)] d'(1)] s3_def s2_def v_def
          X86_PAGEDIR_PRESENT_def X86_PAGE_PRESENT_def)
    show "vmm_inv s3" by (rule keep3(4))
    show "pmm_bitmap_sz s3 = pmm_bitmap_sz s" by (simp add: s3_def s2_def al'(1))
    show "pmem s3 k = pmem s k" if k: "\<not> bitmap_page s (k div 4096)"
      "\<forall>e < 1024. page_present (pde s3 e) \<longrightarrow> ptbl s3 e div 4096 \<noteq> k div 4096" for k
    proof -
      have "k \<noteq> pmm_bitmap s + p div 4096 div 8" using k(1) al'(3) by (auto simp: bitmap_page_def)
      then have "pmem s1 k = pmem s k" by (simp add: al'(1) pmm_set_block_def bitmap_set_def)
      moreover have "ptbl s3 1023 = page_frame (cr3 s1)" "page_present (pde s3 1023)"
        using vmm_invD(3,4) [OF keep3(4)] by (simp_all add: s3_def s2_def)
      then have "page_frame (cr3 s1) div 4096 \<noteq> k div 4096" using k(2) by force
      then have "pmem s2 k = pmem s1 k"
        using only_page_store32 [OF page_frame_aligned d'(1), of "cr3 s1" s1 v] by (simp add: s2_def only_page_def)
      moreover have "pmem s3 k = pmem s2 k"
        using k(2) keep3(1,2) [OF d'(1)] pres2 d'(1) by (auto simp: s3_def)
      ultimately show ?thesis by simp
    qed
    show "b \<in> taken s3 \<longleftrightarrow> b \<in> taken s \<or> b = p div 4096" if b: "b < pmm_bitmap_sz s" for b
    proof -
      note I1 = vmm_invD [OF keep1(3)] and W = dir_write(1) [OF d'(1) s2_def]
      have sz: "pmm_bitmap_sz s1 = pmm_bitmap_sz s" "pmm_bitmap_sz s2 = pmm_bitmap_sz s" by (simp_all add: s2_def al'(1))
      have "b \<in> taken s3 \<longleftrightarrow> b \<in> taken s2"
        using taken_other_page [OF op] vmm_invD(8) [OF keep2(3) d'(1) pres2] b sz by simp
      also have "\<dots> \<longleftrightarrow> b \<in> taken s1" using taken_other_page [OF W] I1(8) [of 1023] I1(3,4) b sz by simp
      also have "\<dots> \<longleftrightarrow> b \<in> taken s \<or> b = p div 4096" using b al'(3) by (auto simp: al'(1))
      finally show ?thesis .
    qed
    show "pde s3 e = pde s e" if "e < 1024" "e \<noteq> d" for e
      using keep3(1) keep2(1) keep1(1) that by simp
    show "ptbl s3 e = (if e = d then p else ptbl s e)" if "e < 1024" for e
      using keep3(2) keep2(1) keep1(1) page_frame_flags [OF al'(2) acl(1)] that by (simp add: ptbl_def v_def)
    show pres3: "page_present (pde s3 d)" using keep3(1) [OF d'(1)] pres2 by simp
    show "mappings s3 = mappings s"
    proof (rule ext)
      fix w :: "u32 \<times> u32"
      obtain e j where w: "w = (e, j)" by (cases w)
      have "pte s3 d j = 0" if "j < 1024"
        unfolding pte_def keep3(2) [OF d'(1)]
        by (rule load32_zero_page [OF ptbl_aligned that]) (simp add: s3_def)
      moreover have "\<not> page_present 0" by (simp add: page_present_def)
      moreover have "e < 1023 \<Longrightarrow> e < 1024" by (erule order_less_trans) simp
      ultimately show "mappings s3 w = mappings s w"
        using d keep1(1,2) [of e] keep2(1,2) [of e] keep3(1,3) [of e]
        by (cases "e = d") (auto simp: mappings_def w)
    qed
  qed
qed

lemma vmm_map_page_update:
  assumes "vmm_inv s" and "ADDR2INDEX virt = (d, i)" and "d < 1023"
    and "acl < 4096" and "acl AND X86_PAGE_WRITABLE \<noteq> 0"
    and "page_present (pde s d) \<or> fst (pmm_alloc_first s) \<noteq> 0"
  shows "case mappings s (d, i) of
      Some _ \<Rightarrow> vmm_map_page phys virt acl s = Inr (VMM_ERR_PAGE_IN_USE, s)
    | None \<Rightarrow> (\<exists>s'. vmm_map_page phys virt acl s = Inr (VMM_SUCCESS, s') \<and> vmm_inv s'
        \<and> mappings s' = (mappings s)((d, i) \<mapsto> phys OR X86_PAGE_PRESENT OR acl))"
proof (cases "page_present (pde s d)")
  case True
  note ix = ADDR2INDEX_bounds [OF assms(2)]
  show ?thesis
    using True map_in_table [OF assms(1,3) True ix(2) flag_entry(1) refl, of phys acl] assms(1-3) ix
    by (auto simp: vmm_map_page_def vmm_inv_self_map vload32_dir vload32_ptable vstore32_ptable mappings_def
        page_present_def X86_PAGEDIR_PRESENT_def X86_PAGE_PRESENT_def split: option.split)
next
  case False
  note ix = ADDR2INDEX_bounds [OF assms(2)]
  obtain p s1 where al: "pmm_alloc_first s = (p, s1)" by fastforce
  with False assms(6) have p: "p \<noteq> 0" by simp
  obtain s3 where s3: "ebind (vstore32 (dir_virtual + 4 * d) (p OR X86_PAGEDIR_PRESENT OR acl) s1)
       (vmemset (ptable_virtual d) 0 KB4) = Inr s3"
    "vmm_inv s3" "page_present (pde s3 d)" "mappings s3 = mappings s"
    by (rule map_new_table [OF assms(1,3) False ix(2) al p assms(4,5)])
  obtain s2 where s2: "vstore32 (dir_virtual + 4 * d) (p OR X86_PAGEDIR_PRESENT OR acl) s1 = Inr s2"
    "vmemset (ptable_virtual d) 0 KB4 s2 = Inr s3"
    using s3(1) by (auto simp: ebind_Inr_iff)
  have "mappings s (d, i) = None" using False by (simp add: mappings_def)
  then show ?thesis
    using False al s2 map_in_table [OF s3(2) assms(3) s3(3) ix(2) flag_entry(1) refl, of phys acl]
      assms(1-3) ix s3
    by (auto simp: vmm_map_page_def vmm_inv_self_map vload32_dir vstore32_ptable page_present_def
        X86_PAGEDIR_PRESENT_def X86_PAGE_PRESENT_def)
qed

text \<open>\<^verbatim>\<open>vmm_map_page\<close> makes sure that there is a page table, and then writes at most one
  entry of it. The page tables are those from before and at most one more, in the frame the
  allocator would hand out.\<close>

lemma vmm_map_page_steps:
  assumes "vmm_inv s" and "ADDR2INDEX virt = (d, i)" and "d < 1023"
    and "acl < 4096" and "acl AND X86_PAGE_WRITABLE \<noteq> 0"
    and "page_present (pde s d) \<or> fst (pmm_alloc_first s) \<noteq> 0"
    and "vmm_map_page phys virt acl s = Inr (r, s')"
  obtains t where "vmm_inv t" "page_present (pde t d)"
    "s' = t \<or> s' = t\<lparr>pmem := store32 (pmem t) (ptbl t d + 4 * i) (phys OR X86_PAGE_PRESENT OR acl)\<rparr>"
    "\<And>e. e < 1024 \<Longrightarrow> page_present (pde t e) \<Longrightarrow> (page_present (pde s e) \<and> ptbl t e = ptbl s e)
       \<or> (ptbl t e = fst (pmm_alloc_first s) \<and> fst (pmm_alloc_first s) \<noteq> 0)"
    "\<And>b. b < pmm_bitmap_sz s \<Longrightarrow> b \<in> taken t \<longleftrightarrow> b \<in> taken s \<or> \<not> page_present (pde s d) \<and> b = fst (pmm_alloc_first s) div 4096"
    "pmm_bitmap_sz t = pmm_bitmap_sz s"
    "\<And>k. \<not> bitmap_page s (k div 4096) \<Longrightarrow> \<forall>e < 1024. page_present (pde t e) \<longrightarrow> ptbl t e div 4096 \<noteq> k div 4096
       \<Longrightarrow> pmem t k = pmem s k"
proof (cases "page_present (pde s d)")
  case True
  note ix = ADDR2INDEX_bounds [OF assms(2)]
  have "s' = s \<or> s' = s\<lparr>pmem := store32 (pmem s) (ptbl s d + 4 * i) (phys OR X86_PAGE_PRESENT OR acl)\<rparr>"
    using True assms(1-3,7) ix
    by (auto simp: vmm_map_page_def vmm_inv_self_map vload32_dir vload32_ptable vstore32_ptable
        page_present_def X86_PAGEDIR_PRESENT_def X86_PAGE_PRESENT_def split: if_splits)
  then show thesis using True assms(1) by (intro that [of s]) auto
next
  case False
  note ix = ADDR2INDEX_bounds [OF assms(2)]
  obtain p s1 where al: "pmm_alloc_first s = (p, s1)" by fastforce
  with False assms(6) have p: "p \<noteq> 0" by simp
  obtain s3 where s3: "ebind (vstore32 (dir_virtual + 4 * d) (p OR X86_PAGEDIR_PRESENT OR acl) s1)
       (vmemset (ptable_virtual d) 0 KB4) = Inr s3"
    "vmm_inv s3" "page_present (pde s3 d)"
    "\<And>e. e < 1024 \<Longrightarrow> ptbl s3 e = (if e = d then p else ptbl s e)" "\<And>e. e < 1024 \<Longrightarrow> e \<noteq> d \<Longrightarrow> pde s3 e = pde s e"
    "\<And>b. b < pmm_bitmap_sz s \<Longrightarrow> b \<in> taken s3 \<longleftrightarrow> b \<in> taken s \<or> b = p div 4096" "pmm_bitmap_sz s3 = pmm_bitmap_sz s"
    "\<And>k. \<not> bitmap_page s (k div 4096) \<Longrightarrow> \<forall>e < 1024. page_present (pde s3 e) \<longrightarrow> ptbl s3 e div 4096 \<noteq> k div 4096
       \<Longrightarrow> pmem s3 k = pmem s k"
    by (rule map_new_table [OF assms(1,3) False ix(2) al p assms(4,5)]) (rule that)
  obtain s2 where s2: "vstore32 (dir_virtual + 4 * d) (p OR X86_PAGEDIR_PRESENT OR acl) s1 = Inr s2"
    "vmemset (ptable_virtual d) 0 KB4 s2 = Inr s3"
    using s3(1) by (auto simp: ebind_Inr_iff)
  have "s' = s3\<lparr>pmem := store32 (pmem s3) (ptbl s3 d + 4 * i) (phys OR X86_PAGE_PRESENT OR acl)\<rparr>"
    using False al s2 assms(1-3,7) ix s3(2,3)
    by (auto simp: vmm_map_page_def vmm_inv_self_map vload32_dir vstore32_ptable page_present_def
        X86_PAGEDIR_PRESENT_def X86_PAGE_PRESENT_def)
  moreover have "(page_present (pde s e) \<and> ptbl s3 e = ptbl s e) \<or> (ptbl s3 e = fst (pmm_alloc_first s) \<and> fst (pmm_alloc_first s) \<noteq> 0)"
    if "e < 1024" "page_present (pde s3 e)" for e
    using s3(4,5) [OF that(1)] that(2) al p by (cases "e = d") auto
  ultimately show thesis using s3(2,3,6,7,8) al False by (intro that [of s3]) auto
qed

lemma vmm_map_page_tables:
  assumes "vmm_inv s" and "ADDR2INDEX virt = (d, i)" and "d < 1023"
    and "acl < 4096" and "acl AND X86_PAGE_WRITABLE \<noteq> 0"
    and "page_present (pde s d) \<or> fst (pmm_alloc_first s) \<noteq> 0"
    and "vmm_map_page phys virt acl s = Inr (r, s')" and "e < 1024" and "page_present (pde s' e)"
  shows "(page_present (pde s e) \<and> ptbl s' e = ptbl s e)
     \<or> (ptbl s' e = fst (pmm_alloc_first s) \<and> fst (pmm_alloc_first s) \<noteq> 0)"
proof -
  obtain t where t: "vmm_inv t" "page_present (pde t d)"
    "s' = t \<or> s' = t\<lparr>pmem := store32 (pmem t) (ptbl t d + 4 * i) (phys OR X86_PAGE_PRESENT OR acl)\<rparr>"
    "page_present (pde t e) \<Longrightarrow> (page_present (pde s e) \<and> ptbl t e = ptbl s e)
       \<or> (ptbl t e = fst (pmm_alloc_first s) \<and> fst (pmm_alloc_first s) \<noteq> 0)"
    by (rule vmm_map_page_steps [OF assms(1-7)]) (use assms(8) in blast)
  have "pde s' e = pde t e"
    using t(3) table_write_pde [OF t(1) assms(3) t(2) only_page_store32 [OF ptbl_aligned ADDR2INDEX_bounds(2) [OF assms(2)]] assms(8)]
    by auto
  then show ?thesis using t(4) assms(9) by (simp add: ptbl_def)
qed

text \<open>The frames it takes: none, or one for a page table.\<close>

lemma vmm_map_page_frames:
  assumes "vmm_inv s" and "ADDR2INDEX virt = (d, i)" and "d < 1023"
    and "acl < 4096" and "acl AND X86_PAGE_WRITABLE \<noteq> 0"
    and "page_present (pde s d) \<or> fst (pmm_alloc_first s) \<noteq> 0"
    and "vmm_map_page phys virt acl s = Inr (r, s')"
  shows "b < pmm_bitmap_sz s \<Longrightarrow> b \<in> taken s' \<longleftrightarrow> b \<in> taken s \<or> \<not> page_present (pde s d) \<and> b = fst (pmm_alloc_first s) div 4096"
    and "page_present (pde s' d)"
proof -
  obtain t where t: "vmm_inv t" "page_present (pde t d)"
    "s' = t \<or> s' = t\<lparr>pmem := store32 (pmem t) (ptbl t d + 4 * i) (phys OR X86_PAGE_PRESENT OR acl)\<rparr>"
    "\<And>b. b < pmm_bitmap_sz s \<Longrightarrow> b \<in> taken t \<longleftrightarrow> b \<in> taken s \<or> \<not> page_present (pde s d) \<and> b = fst (pmm_alloc_first s) div 4096"
    "pmm_bitmap_sz t = pmm_bitmap_sz s"
    by (rule vmm_map_page_steps [OF assms]) (rule that)
  have d': "d < 1024" using assms(3) by (auto elim: order_less_trans)
  note op = only_page_store32 [OF ptbl_aligned ADDR2INDEX_bounds(2) [OF assms(2)]]
  show "page_present (pde s' d)" using t(2,3) table_write_pde [OF t(1) assms(3) t(2) op d'] by auto
  show "b \<in> taken s' \<longleftrightarrow> b \<in> taken s \<or> \<not> page_present (pde s d) \<and> b = fst (pmm_alloc_first s) div 4096" if "b < pmm_bitmap_sz s"
  proof -
    have "b \<in> taken (t\<lparr>pmem := store32 (pmem t) (ptbl t d + 4 * i) (phys OR X86_PAGE_PRESENT OR acl)\<rparr>) \<longleftrightarrow> b \<in> taken t"
      using that t(5) vmm_invD(8) [OF t(1) d' t(2)] by (intro taken_other_page [OF op]) simp_all
    then show ?thesis using t(3) t(4) [OF that] by auto
  qed
qed

text \<open>Memory outside the bitmap and the page tables stays as it is.\<close>

lemma vmm_map_page_data:
  assumes "vmm_inv s" and "ADDR2INDEX virt = (d, i)" and "d < 1023"
    and "acl < 4096" and "acl AND X86_PAGE_WRITABLE \<noteq> 0"
    and "page_present (pde s d) \<or> fst (pmm_alloc_first s) \<noteq> 0"
    and "vmm_map_page phys virt acl s = Inr (r, s')"
    and k: "\<not> bitmap_page s (k div 4096)" "\<forall>e < 1024. page_present (pde s' e) \<longrightarrow> ptbl s' e div 4096 \<noteq> k div 4096"
  shows "pmem s' k = pmem s k"
proof -
  obtain t where t: "vmm_inv t" "page_present (pde t d)"
    "s' = t \<or> s' = t\<lparr>pmem := store32 (pmem t) (ptbl t d + 4 * i) (phys OR X86_PAGE_PRESENT OR acl)\<rparr>"
    "\<forall>e < 1024. page_present (pde t e) \<longrightarrow> ptbl t e div 4096 \<noteq> k div 4096 \<Longrightarrow> pmem t k = pmem s k"
  proof (rule vmm_map_page_steps [OF assms(1-7)])
    fix t
    assume "vmm_inv t" "page_present (pde t d)"
      "s' = t \<or> s' = t\<lparr>pmem := store32 (pmem t) (ptbl t d + 4 * i) (phys OR X86_PAGE_PRESENT OR acl)\<rparr>"
      "\<And>k. \<not> bitmap_page s (k div 4096) \<Longrightarrow> \<forall>e < 1024. page_present (pde t e) \<longrightarrow> ptbl t e div 4096 \<noteq> k div 4096
         \<Longrightarrow> pmem t k = pmem s k"
    then show thesis using k(1) by (intro that [of t])
  qed
  have d': "d < 1024" using assms(3) by (auto elim: order_less_trans)
  note op = only_page_store32 [OF ptbl_aligned ADDR2INDEX_bounds(2) [OF assms(2)]]
  have pde: "pde s' e = pde t e" if "e < 1024" for e
    using t(3) table_write_pde [OF t(1) assms(3) t(2) op that] by auto
  then have same: "pmem t k = pmem s k" and "ptbl t d div 4096 \<noteq> k div 4096"
    using t(2,4) k(2) d' by (simp_all add: ptbl_def)
  then show ?thesis using t(3) op [of t d t "phys OR X86_PAGE_PRESENT OR acl"] by (auto simp: only_page_def)
qed

section \<open>\<^verbatim>\<open>vmm_unmap_page\<close> implements map removal\<close>

lemma unmap_in_table:
  assumes inv: "vmm_inv s" and d: "d < 1023" "page_present (pde s d)" and i: "i < 1024"
    and s': "s' = s\<lparr>pmem := store32 (pmem s) (ptbl s d + 4 * i) 0\<rparr>"
  shows "vmm_inv s'" and "page_present (pde s' d)" and "mappings s' = (mappings s)((d, i) := None)"
proof -
  have op: "only_page (ptbl s d div 4096) s s'"
    unfolding s' by (rule only_page_store32 [OF ptbl_aligned i])
  note keep = table_write [OF inv d op]
  show "vmm_inv s'" by (rule keep(4))
  show "page_present (pde s' d)" using keep(1) [of d] below_window [OF d(1)] d(2) by simp
  show "mappings s' = (mappings s)((d, i) := None)"
  proof (rule ext)
    fix w :: "u32 \<times> u32"
    obtain e j where w: "w = (e, j)" by (cases w)
    have "pte s' d j = (if i = j then 0 else pte s d j)" if "j < 1024"
      unfolding s' by (rule pte_store32 [OF inv d i that])
    then show "mappings s' w = ((mappings s)((d, i) := None)) w"
      using keep(1) [of e] keep(3) [of e j] d i below_window [of e]
      by (cases "e = d") (auto simp: mappings_def w page_present_def)
  qed
qed

lemma vmm_scan_loop_spec:
  assumes "self_map s" and "d < 1024" and "page_present (pde s d)" and "i \<le> 1024"
  obtains r where "vmm_scan_loop (ptable_virtual d) i s = Inr r" and "r \<le> 1024"
    and "r < 1024 \<Longrightarrow> page_present (pte s d r)"
    and "r = 1024 \<Longrightarrow> \<forall>j. i \<le> j \<and> j < 1024 \<longrightarrow> \<not> page_present (pte s d j)"
proof -
  have "\<exists>r. vmm_scan_loop (ptable_virtual d) i s = Inr r \<and> r \<le> 1024
      \<and> (r < 1024 \<longrightarrow> page_present (pte s d r))
      \<and> (r = 1024 \<longrightarrow> (\<forall>j. i \<le> j \<and> j < 1024 \<longrightarrow> \<not> page_present (pte s d j)))"
    using assms(4)
  proof (induction "1024 - unat i" arbitrary: i)
    case 0
    then have "i = 1024" by (simp add: word_le_nat_alt word_unat_eq_iff)
    then show ?case by (simp add: vmm_scan_loop.simps [of _ 1024]) (metis leD)
  next
    case (Suc x)
    then have i: "i < 1024" by (simp add: word_less_nat_alt)
    note step = vmm_scan_loop.simps [of "ptable_virtual d" i s] vload32_ptable [OF assms(1,2) i assms(3)]
    show ?case
    proof (cases "page_present (pte s d i)")
      case True
      with i show ?thesis
        by (intro exI [of _ i]) (auto simp: step page_present_def)
    next
      case False
      obtain r where "vmm_scan_loop (ptable_virtual d) (i + 1) s = Inr r \<and> r \<le> 1024
          \<and> (r < 1024 \<longrightarrow> page_present (pte s d r))
          \<and> (r = 1024 \<longrightarrow> (\<forall>j. i + 1 \<le> j \<and> j < 1024 \<longrightarrow> \<not> page_present (pte s d j)))"
      proof -
        have "x = 1024 - unat (i + 1)" using Suc.hyps(2) i by simp
        moreover have "i + 1 \<le> 1024" using i by (rule inc_le)
        ultimately show ?thesis using that Suc.hyps(1) by blast
      qed
      with i False show ?thesis
        unfolding word_le_cases_inc [OF i]
        by (intro exI [of _ r]) (auto simp: step page_present_def)
    qed
  qed
  then show thesis using that by blast
qed

lemma vmm_unmap_page_remove:
  assumes "vmm_inv s" and "ADDR2INDEX virt = (d, i)" and "d < 1023"
  shows "if page_present (pde s d) then
      (\<exists>s'. vmm_unmap_page virt s = Inr (VMM_SUCCESS, s') \<and> vmm_inv s'
        \<and> mappings s' = (mappings s)((d, i) := None)
        \<and> ((\<forall>j. mappings s' (d, j) = None) \<longrightarrow>
             \<not> page_present (pde s' d) \<and> ptbl s d div PMM_BLK_SZ \<notin> taken s'))
    else vmm_unmap_page virt s = Inr (VMM_ERR_NO_PAGEDIR_ENTRY, s)"
proof (cases "page_present (pde s d)")
  case False
  then show ?thesis
    using assms below_window [OF assms(3)]
    by (simp add: vmm_unmap_page_def vload32_dir vmm_inv_self_map page_present_def
        X86_PAGEDIR_PRESENT_def X86_PAGE_PRESENT_def)
next
  case True
  note ix = ADDR2INDEX_bounds [OF assms(2)] and sm = vmm_inv_self_map [OF assms(1)]
  define s1 where "s1 = (if page_present (pte s d i)
      then s\<lparr>pmem := store32 (pmem s) (ptbl s d + 4 * i) 0\<rparr> else s)"
  have s1: "vmm_inv s1" "page_present (pde s1 d)" "mappings s1 = (mappings s)((d, i) := None)"
    "ptbl s1 d = ptbl s d"
    using unmap_in_table [OF assms(1,3) True ix(2) refl] assms(1) True
      table_write_ptbl [OF assms(1,3) True only_page_store32 [OF ptbl_aligned ix(2)]] ix(1)
    by (auto simp: s1_def mappings_def fun_eq_iff)
  have clear: "(if pte s d i AND X86_PAGE_PRESENT \<noteq> 0
      then vstore32 (ptable_virtual d + 4 * i) 0 s else Inr s) = Inr s1"
    using vstore32_ptable [OF assms(1) ix True] by (simp add: s1_def page_present_def)
  note sm1 = vmm_inv_self_map [OF s1(1)]
  obtain r where r: "vmm_scan_loop (ptable_virtual d) 0 s1 = Inr r" "r \<le> 1024"
    "r < 1024 \<Longrightarrow> page_present (pte s1 d r)"
    "r = 1024 \<Longrightarrow> \<forall>j. 0 \<le> j \<and> j < 1024 \<longrightarrow> \<not> page_present (pte s1 d j)"
    by (rule vmm_scan_loop_spec [OF sm1 ix(1) s1(2), of 0]) auto
  note run = vmm_unmap_page_def assms(2) vload32_dir [OF sm ix(1)] vload32_ptable [OF sm ix True]
    clear r(1) vload32_dir [OF sm1 ix(1)]
  have pres: "pde s d AND X86_PAGEDIR_PRESENT \<noteq> 0"
    using True by (simp add: page_present_def X86_PAGEDIR_PRESENT_def X86_PAGE_PRESENT_def)
  show ?thesis
  proof (cases "r < 1024")
    case more: True
    then have "mappings s1 (d, r) \<noteq> None"
      using r(3) s1(2) assms(3) by (simp add: mappings_def)
    then show ?thesis
      using more True pres s1(1,3) by (auto simp: run not_le split: if_splits)
  next
    case False
    then have r1024: "r = 1024" using r(2) by simp
    define s2 where "s2 = pmm_free (ptbl s1 d) s1"
    define s3 where "s3 = s2\<lparr>pmem := store32 (pmem s2) (page_frame (cr3 s2) + 4 * d) 0\<rparr>"
    note D = drop_table [OF s1(1) assms(3) s1(2) s2_def s3_def]
    have "pmm_free (pde s1 d AND 0xFFFFF000) s1 = s2"
      by (simp add: s2_def ptbl_def page_frame_def X86_PAGE_FRAME_def)
    then have "vmm_unmap_page virt s = Inr (VMM_SUCCESS, s3)"
      using pres r1024 vstore32_dir [OF D(1) ix(1), of 0] by (simp add: run s3_def)
    moreover have "mappings s3 = mappings s1"
    proof (rule ext)
      fix w :: "u32 \<times> u32"
      obtain e j where w: "w = (e, j)" by (cases w)
      show "mappings s3 w = mappings s1 w"
        using D(3) [of e] D(4) [of e j] r(4) [OF r1024] below_window [of e]
        by (cases "e = d") (auto simp: mappings_def w page_present_def)
    qed
    moreover have "\<not> page_present (pde s3 d)"
      using D(3) [OF ix(1)] by (simp add: page_present_def)
    ultimately show ?thesis
      using True D(5,6) s1(3,4) by (auto simp: PMM_BLK_SZ_def)
  qed
qed

section \<open>The contract of an address space\<close>

locale address_space =
  fixes map_page :: "u32 \<Rightarrow> u32 \<Rightarrow> u32 \<Rightarrow> 's \<Rightarrow> kerror + (int \<times> 's)"
    and unmap_page :: "u32 \<Rightarrow> 's \<Rightarrow> kerror + (int \<times> 's)"
    and page :: "u32 \<Rightarrow> 'p"
    and maps :: "'s \<Rightarrow> 'p \<Rightarrow> u32 option"
    and legal :: "u32 \<Rightarrow> u32 \<Rightarrow> 's \<Rightarrow> bool"
    and invar :: "'s \<Rightarrow> bool"
  assumes map_free: "invar s \<Longrightarrow> legal virt acl s \<Longrightarrow> maps s (page virt) = None \<Longrightarrow>
      \<exists>s'. map_page f virt acl s = Inr (VMM_SUCCESS, s') \<and> invar s'
        \<and> maps s' = (maps s)(page virt \<mapsto> f OR X86_PAGE_PRESENT OR acl)"
    and map_used: "invar s \<Longrightarrow> legal virt acl s \<Longrightarrow> maps s (page virt) \<noteq> None \<Longrightarrow>
      map_page f virt acl s = Inr (VMM_ERR_PAGE_IN_USE, s)"
    and unmap_mapped: "invar s \<Longrightarrow> maps s (page virt) \<noteq> None \<Longrightarrow>
      \<exists>s'. unmap_page virt s = Inr (VMM_SUCCESS, s') \<and> invar s' \<and> maps s' = (maps s)(page virt := None)"
begin

lemma map_unmap:
  assumes "invar s" and "legal virt acl s" and "maps s (page virt) = None"
  shows "\<exists>s1 s2. map_page f virt acl s = Inr (VMM_SUCCESS, s1) \<and> unmap_page virt s1 = Inr (VMM_SUCCESS, s2)
     \<and> invar s2 \<and> maps s2 = maps s"
proof -
  obtain s1 where s1: "map_page f virt acl s = Inr (VMM_SUCCESS, s1)" "invar s1"
    "maps s1 = (maps s)(page virt \<mapsto> f OR X86_PAGE_PRESENT OR acl)"
    using map_free [OF assms] by blast
  then obtain s2 where "unmap_page virt s1 = Inr (VMM_SUCCESS, s2)" "invar s2"
    "maps s2 = (maps s1)(page virt := None)"
    using unmap_mapped [of s1 virt] by auto
  with s1 assms(3) show ?thesis by (auto simp: fun_upd_idem)
qed

lemma map_keeps_others:
  assumes "invar s" and "legal virt acl s" and "map_page f virt acl s = Inr (r, s')" and "p \<noteq> page virt"
  shows "maps s' p = maps s p"
  using map_free [OF assms(1,2), of f] map_used [OF assms(1,2), of f] assms(3,4)
  by (cases "maps s (page virt)") auto

end

definition map_legal :: "u32 \<Rightarrow> u32 \<Rightarrow> ('a) vmm_state_scheme \<Rightarrow> bool" where
  "map_legal virt acl s \<longleftrightarrow>
     fst (ADDR2INDEX virt) < 1023 \<and> acl < 4096 \<and> acl AND X86_PAGE_WRITABLE \<noteq> 0
     \<and> (page_present (pde s (fst (ADDR2INDEX virt))) \<or> fst (pmm_alloc_first s) \<noteq> 0)"

interpretation pages: address_space vmm_map_page vmm_unmap_page ADDR2INDEX mappings map_legal vmm_inv
proof unfold_locales
  fix s :: "('a) vmm_state_scheme" and virt acl f
  obtain d i where ix: "ADDR2INDEX virt = (d, i)" by (cases "ADDR2INDEX virt")
  assume inv: "vmm_inv s"
  note upd = vmm_map_page_update [OF inv ix, of acl f]
  show "\<exists>s'. vmm_map_page f virt acl s = Inr (VMM_SUCCESS, s') \<and> vmm_inv s'
        \<and> mappings s' = (mappings s)(ADDR2INDEX virt \<mapsto> f OR X86_PAGE_PRESENT OR acl)"
    if "map_legal virt acl s" "mappings s (ADDR2INDEX virt) = None"
    using upd that by (simp add: map_legal_def ix)
  show "vmm_map_page f virt acl s = Inr (VMM_ERR_PAGE_IN_USE, s)"
    if "map_legal virt acl s" "mappings s (ADDR2INDEX virt) \<noteq> None"
    using upd that by (auto simp: map_legal_def ix)
  show "\<exists>s'. vmm_unmap_page virt s = Inr (VMM_SUCCESS, s') \<and> vmm_inv s'
      \<and> mappings s' = (mappings s)(ADDR2INDEX virt := None)"
    if "mappings s (ADDR2INDEX virt) \<noteq> None"
  proof -
    have "d < 1023" "page_present (pde s d)"
      using that by (auto simp: mappings_def ix split: if_splits)
    with vmm_unmap_page_remove [OF inv ix] show ?thesis by (auto simp: ix)
  qed
qed

lemma physical_mappings:
  assumes "vmm_inv s" and "ADDR2INDEX va = (d, i)" and "d < 1023"
  shows "physical wr va s =
     (case mappings s (d, i) of None \<Rightarrow> None
      | Some e \<Rightarrow> if wr \<longrightarrow> page_writable e then Some (page_frame e + va mod KB4) else None)"
proof -
  note ix = ADDR2INDEX_bounds [OF assms(2)]
  have va: "va div MB4 = d" "va mod MB4 div KB4 = i" using assms(2) by (simp_all add: ADDR2INDEX_eq)
  show ?thesis
    using vmm_invD(1) [OF assms(1)] vmm_invD(5) [OF assms(1) ix(1)] assms(3) ix
    by (auto simp: physical_def page_walk_def va page_allows_def mappings_def Let_def
        simp flip: pde_def ptbl_def pte_def)
qed

section \<open>\<^verbatim>\<open>vmm_init\<close>\<close>

text \<open>While \<^verbatim>\<open>vmm_init\<close> runs, paging is off and the pages of the bitmap are never
  handed out.\<close>

definition boot_inv :: "('a) vmm_state_scheme \<Rightarrow> bool" where
  "boot_inv s \<longleftrightarrow> \<not> paging s \<and> pmm_inv s \<and> (\<forall>p < pmm_bitmap_sz s. bitmap_page s p \<longrightarrow> p \<in> taken s)"

lemma physical_off: "\<not> paging s \<Longrightarrow> physical wr va s = Some va"
  by (simp add: physical_def)

lemma access_off:
  assumes "\<not> paging s"
  shows "vload32 a s = Inr (load32 (pmem s) a)" "vstore32 a v s = Inr (s\<lparr>pmem := store32 (pmem s) a v\<rparr>)"
  using assms by (simp_all add: vload32_def vstore32_def physical_off)

lemma boot_inv_write:
  assumes "boot_inv s" and "only_page p s s'" and "\<not> bitmap_page s p"
  shows "boot_inv s'"
  using assms(1) taken_other_page [OF assms(2,3)] only_page_fields [OF assms(2)]
  by (simp add: boot_inv_def)

lemma boot_page:
  assumes inv: "boot_inv s" and free: "0 < c" "c < pmm_bitmap_sz s" "c \<notin> taken s"
  obtains P s' where "vmm_get_physical_page s = Inr (P, s')" "P mod 4096 = 0"
    "P div 4096 < pmm_bitmap_sz s" "P div 4096 \<notin> taken s" "\<not> bitmap_page s (P div 4096)"
    "s' = s\<lparr>pmem := pmem s'\<rparr>" "boot_inv s'"
    "\<forall>p < pmm_bitmap_sz s. p \<in> taken s' \<longleftrightarrow> p \<in> taken s \<or> p = P div 4096"
    "\<forall>k. k div 4096 = P div 4096 \<longrightarrow> pmem s' k = 0"
    "\<forall>k. k div 4096 \<noteq> P div 4096 \<and> \<not> bitmap_page s (k div 4096) \<longrightarrow> pmem s' k = pmem s k"
    "0 < P div 4096" "P div 4096 \<le> c"
proof -
  have I: "\<not> paging s" "pmm_inv s" "\<And>p. p < pmm_bitmap_sz s \<Longrightarrow> bitmap_page s p \<Longrightarrow> p \<in> taken s"
    using inv by (auto simp: boot_inv_def)
  obtain b where b: "0 < b" "b < pmm_bitmap_sz s" "b < 0x100000" "b \<notin> taken s"
    "pmm_alloc_first s = (b * 4096, pmm_set_block b s)" "b \<le> c"
    using free by (cases rule: pmm_alloc_first_cases [OF I(2)]) (auto simp: not_le [symmetric])
  let ?P = "b * 4096" and ?s1 = "pmm_set_block b s"
  have P: "?P mod 4096 = 0" "?P div 4096 = b" "?P \<noteq> 0" using block_addr [OF b(3)] b(1) by auto
  have bp: "\<not> bitmap_page s b" using I(3) b(2,4) by blast
  have fld: "paging ?s1 = paging s" "bitmap_page ?s1 = bitmap_page s"
    by (simp_all add: pmm_set_block_def bitmap_page_def fun_eq_iff)
  define s' where "s' = ?s1\<lparr>pmem := (\<lambda>k. if k div 4096 = b then 0 else pmem ?s1 k)\<rparr>"
  have op: "only_page b ?s1 s'" by (simp add: s'_def only_page_def)
  have "vmemset ?P 0 KB4 ?s1 = Inr s'"
    using vmemset_page_loop [of "\<lambda>t. \<not> paging t" ?P ?P ?s1 0] P I(1) fld(1)
    by (simp add: vmemset_def physical_off s'_def)
  then have "vmm_get_physical_page s = Inr (?P, s')"
    by (simp add: vmm_get_physical_page_def b(5))
  moreover have "s' = s\<lparr>pmem := pmem s'\<rparr>" by (simp add: s'_def pmm_set_block_def)
  moreover have "boot_inv ?s1" using inv fld by (simp add: boot_inv_def)
  then have "boot_inv s'" by (rule boot_inv_write [OF _ op]) (simp add: fld bp)
  moreover have "x \<in> taken s' \<longleftrightarrow> x \<in> taken s \<or> x = b" if "x < pmm_bitmap_sz s" for x
    using taken_other_page [OF op, of x] that bp by (auto simp: fld)
  moreover have "pmem s' k = pmem s k" if "k div 4096 \<noteq> b" "\<not> bitmap_page s (k div 4096)" for k
  proof -
    have "k \<noteq> pmm_bitmap s + b div 8" using that(2) b(2) by (auto simp: bitmap_page_def)
    then show ?thesis using that(1) by (simp add: s'_def pmm_set_block_def bitmap_set_other)
  qed
  ultimately show thesis
    using P bp b(1,2,4,6) by (intro that [of ?P s']) (auto simp: s'_def)
qed

lemma identity_loop_spec:
  assumes "\<not> paging s" and P: "P mod 4096 = 0" and "i \<le> 1024"
  shows "\<exists>m. vmm_identity_loop P i s = Inr (s\<lparr>pmem := m\<rparr>)
     \<and> (\<forall>k. k div 4096 \<noteq> P div 4096 \<longrightarrow> m k = pmem s k)
     \<and> (\<forall>j < 1024. load32 m (P + 4 * j) = (if i \<le> j then j * KB4 OR 7 else load32 (pmem s) (P + 4 * j)))"
  using assms(1,3)
proof (induction "1024 - unat i" arbitrary: i s)
  case 0
  then have "i = 1024" by (simp add: word_le_nat_alt word_unat_eq_iff)
  then show ?case by (intro exI [of _ "pmem s"]) (auto simp: vmm_identity_loop.simps [of _ 1024])
next
  case (Suc x)
  then have i: "i < 1024" by (simp add: word_less_nat_alt)
  let ?a = "P + 4 * i"
  let ?s = "s\<lparr>pmem := store32 (store32 (pmem s) ?a (i * KB4)) ?a (i * KB4 OR 7)\<rparr>"
  have "x = 1024 - unat (i + 1)" "i + 1 \<le> 1024" using Suc.hyps(2) i by (simp_all add: inc_le)
  then obtain m where m: "vmm_identity_loop P (i + 1) ?s = Inr (?s\<lparr>pmem := m\<rparr>)"
    "\<And>k. k div 4096 \<noteq> P div 4096 \<Longrightarrow> m k = pmem ?s k"
    "\<And>j. j < 1024 \<Longrightarrow> load32 m (P + 4 * j)
       = (if i + 1 \<le> j then j * KB4 OR 7 else load32 (pmem ?s) (P + 4 * j))"
    using Suc.hyps(1) [of "i + 1" ?s] Suc.prems(1) by auto
  have "vmm_identity_loop P i s = vmm_identity_loop P (i + 1) ?s"
    using i Suc.prems(1)
    by (simp add: vmm_identity_loop.simps [of P i] access_off w32.load_same kernel_defs)
  moreover have "load32 m (P + 4 * j) = (if i \<le> j then j * KB4 OR 7 else load32 (pmem s) (P + 4 * j))"
    if "j < 1024" for j
    using m(3) [OF that] entry_inj [OF P P i that] entry_aligned4 [OF P] i that
      word_le_cases_inc [OF i, of j]
    by (auto simp: w32.load_store)
  ultimately show ?case
    using m(1,2) i by (intro exI [of _ m]) (auto simp: store32_other_page [OF P i])
qed

lemma mark_loop_mem:
  fixes s :: "('a) vmm_state_scheme"
  assumes "j \<le> pmm_bitmap_sz s"
  shows "\<exists>m. pmm_mark_loop i j s = s\<lparr>pmem := m\<rparr> \<and> (\<forall>k. \<not> bitmap_page s (k div 4096) \<longrightarrow> m k = pmem s k)"
  using assms
proof (induction i j s rule: pmm_mark_loop.induct)
  case (1 i j s)
  show ?case
  proof (cases "i < j")
    case True
    have bp: "bitmap_page (pmm_set_block i s) = bitmap_page s"
      by (simp add: pmm_set_block_def bitmap_page_def fun_eq_iff)
    obtain m where m: "pmm_mark_loop (i + 1) j (pmm_set_block i s) = (pmm_set_block i s)\<lparr>pmem := m\<rparr>"
      "\<And>k. \<not> bitmap_page s (k div 4096) \<Longrightarrow> m k = pmem (pmm_set_block i s) k"
      using 1 True by (auto simp: bp)
    have "i < pmm_bitmap_sz s" using True 1(2) by simp
    then have "pmem (pmm_set_block i s) k = pmem s k" if "\<not> bitmap_page s (k div 4096)" for k
      unfolding pmm_set_block_def using that bitmap_set_other [of k "pmm_bitmap s" i "pmem s"]
      by (auto simp: bitmap_page_def)
    with m True show ?thesis
      by (intro exI [of _ m]) (simp add: pmm_mark_loop.simps [of i j] pmm_set_block_def)
  next
    case False
    then show ?thesis by (intro exI [of _ "pmem s"]) (simp add: pmm_mark_loop.simps [of i j])
  qed
qed

text \<open>The tables \<^verbatim>\<open>vmm_init\<close> leaves: directory \<open>D\<close> with table \<open>T\<close> in
  entry 0 and itself in entry 1023.\<close>

definition boot_table :: "u32 \<Rightarrow> u32" where
  "boot_table j = (if j = LAPIC_PHYS_VIRT_ADDR div KB4 then 0xFEE00017 else j * KB4 OR 7)"

lemma boot_table_entry:
  assumes "j < 1024"
  shows "page_present (boot_table j)" "page_writable (boot_table j)"
    "page_frame (boot_table j) = (if j = LAPIC_PHYS_VIRT_ADDR div KB4 then 0xFEE00000 else j * KB4)"
proof -
  have "page_frame (j * 4096 OR 7) = j * 4096"
  proof (intro page_frame_entry block_addr(2))
    show "j < 0x100000" using assms by (rule order_less_trans) simp
  qed simp
  then show "page_present (boot_table j)" "page_writable (boot_table j)"
    "page_frame (boot_table j) = (if j = LAPIC_PHYS_VIRT_ADDR div KB4 then 0xFEE00000 else j * KB4)"
    by (auto simp: boot_table_def page_present_def page_writable_def page_frame_def kernel_defs
        KB4_def bit.conj_disj_distrib2 or_eq_0_iff)
qed

lemma div_MB4_eq_0: "va div MB4 = 0 \<longleftrightarrow> \<not> MB4 \<le> va"
  by (simp add: MB4_def word_unat_eq_iff unat_div_distrib word_le_nat_alt div_eq_0_iff not_le)

lemma boot_tables:
  assumes inv: "boot_inv s" and sz: "1024 \<le> pmm_bitmap_sz s"
    and free: "0 < b" "b < pmm_bitmap_sz s" "b \<notin> taken s" "0 < c" "c < pmm_bitmap_sz s" "c \<notin> taken s"
      "b \<noteq> c"
  obtains D T s' where "vmm_init s = Inr s'" "D mod 4096 = 0" "T mod 4096 = 0" "D \<noteq> T"
    "\<forall>e < 1024. load32 (pmem s') (D + 4 * e) = (if e = 1023 then D OR 7 else if e = 0 then T OR 7 else 0)"
    "\<forall>j < 1024. load32 (pmem s') (T + 4 * j) = boot_table j"
    "\<forall>p < pmm_bitmap_sz s. p \<in> taken s' \<longleftrightarrow> p \<in> taken s \<or> p \<in> {D div 4096, T div 4096} \<or> p < 1024"
    "D div 4096 < pmm_bitmap_sz s" "T div 4096 < pmm_bitmap_sz s"
    "\<not> bitmap_page s (D div 4096)" "\<not> bitmap_page s (T div 4096)"
    "s' = s\<lparr>pmem := pmem s', kernel_dir := D, current_dir := D, cr3 := D, paging := True,
       local_apic := LAPIC_PHYS_VIRT_ADDR,
       interrupt_handlers := (interrupt_handlers s)(14 := Vmm_handle_page_fault)\<rparr>"
    "D div 4096 \<notin> taken s" "T div 4096 \<notin> taken s" "0 < D div 4096" "0 < T div 4096"
    "D div 4096 \<le> max b c" "T div 4096 \<le> max b c"
proof -
  obtain D s1 where 1: "vmm_get_physical_page s = Inr (D, s1)" "D mod 4096 = 0"
    "D div 4096 < pmm_bitmap_sz s" "D div 4096 \<notin> taken s" "\<not> bitmap_page s (D div 4096)"
    "s1 = s\<lparr>pmem := pmem s1\<rparr>" "boot_inv s1"
    "\<forall>p < pmm_bitmap_sz s. p \<in> taken s1 \<longleftrightarrow> p \<in> taken s \<or> p = D div 4096"
    "\<forall>k. k div 4096 = D div 4096 \<longrightarrow> pmem s1 k = 0"
    "\<forall>k. k div 4096 \<noteq> D div 4096 \<and> \<not> bitmap_page s (k div 4096) \<longrightarrow> pmem s1 k = pmem s k"
    "0 < D div 4096" "D div 4096 \<le> b"
    by (rule boot_page [OF inv free(1-3)]) (rule that; assumption)
  let ?s1 = "s1\<lparr>kernel_dir := D\<rparr>"
  obtain m1 where s1: "s1 = s\<lparr>pmem := m1\<rparr>" using 1(6) by blast
  have f1: "pmm_bitmap_sz ?s1 = pmm_bitmap_sz s" "bitmap_page ?s1 = bitmap_page s"
    "taken ?s1 = taken s1" "boot_inv ?s1 = boot_inv s1"
    by (simp_all add: s1 bitmap_page_def fun_eq_iff taken_def pmm_is_taken_def boot_inv_def pmm_inv_def)
  obtain x where x: "0 < x" "x < pmm_bitmap_sz ?s1" "x \<notin> taken ?s1" "x = b \<or> x = c"
    using 1(8) free unfolding f1 by blast
  have inv1: "boot_inv ?s1" using 1(7) by (simp only: f1)
  obtain T s2 where 2: "vmm_get_physical_page ?s1 = Inr (T, s2)" "T mod 4096 = 0"
    "T div 4096 < pmm_bitmap_sz ?s1" "T div 4096 \<notin> taken ?s1" "\<not> bitmap_page ?s1 (T div 4096)"
    "s2 = ?s1\<lparr>pmem := pmem s2\<rparr>" "boot_inv s2"
    "\<forall>p < pmm_bitmap_sz ?s1. p \<in> taken s2 \<longleftrightarrow> p \<in> taken ?s1 \<or> p = T div 4096"
    "\<forall>k. k div 4096 = T div 4096 \<longrightarrow> pmem s2 k = 0"
    "\<forall>k. k div 4096 \<noteq> T div 4096 \<and> \<not> bitmap_page ?s1 (k div 4096) \<longrightarrow> pmem s2 k = pmem ?s1 k"
    "0 < T div 4096" "T div 4096 \<le> x"
    by (rule boot_page [OF inv1 x(1-3)]) (rule that; assumption)
  define m2 where "m2 = pmem s2"
  have s2: "s2 = s\<lparr>pmem := m2, kernel_dir := D\<rparr>"
    by (subst 2(6)) (simp add: s1 m2_def)
  have DT: "D \<noteq> T" using 1(8) 2(4) 1(3) f1(3) by auto
  then have pages: "D div 4096 \<noteq> T div 4096" using 1(2) 2(2) by (simp add: page_eq_div)
  obtain m3 where m3: "vmm_identity_loop T 0 s2 = Inr (s2\<lparr>pmem := m3\<rparr>)"
    "\<And>k. k div 4096 \<noteq> T div 4096 \<Longrightarrow> m3 k = m2 k"
    "\<And>j. j < 1024 \<Longrightarrow> load32 m3 (T + 4 * j) = j * KB4 OR 7"
    using identity_loop_spec [of s2 T 0] 2(2,7) by (auto simp: boot_inv_def m2_def)
  define L where "L = LAPIC_PHYS_VIRT_ADDR div KB4"
  have L: "L < 1024" by (simp add: L_def layout_defs)
  define m4 where "m4 = store32 m3 (T + 4 * L) 0xFEE00017"
  define s4 where "s4 = s\<lparr>pmem := m4, kernel_dir := D, local_apic := LAPIC_PHYS_VIRT_ADDR\<rparr>"
  have bp4: "bitmap_page s4 = bitmap_page s" by (simp add: s4_def bitmap_page_def fun_eq_iff)
  obtain m5 where m5: "pmm_mark_loop 0 1024 s4 = s4\<lparr>pmem := m5\<rparr>"
    "\<And>k. \<not> bitmap_page s (k div 4096) \<Longrightarrow> m5 k = m4 k"
    using mark_loop_mem [of 1024 s4 0] sz bp4 by (auto simp: s4_def)
  define m6 where "m6 = store32 m5 (D + 4 * 0) (T OR 7)"
  define m7 where "m7 = store32 m6 (D + 4 * 1023) (D OR 7)"
  define s' where "s' = s\<lparr>pmem := m7, kernel_dir := D, current_dir := D, cr3 := D, paging := True,
       local_apic := LAPIC_PHYS_VIRT_ADDR,
       interrupt_handlers := (interrupt_handlers s)(14 := Vmm_handle_page_fault)\<rparr>"
  have mark: "pmm_mark_mem_taken 0 MB4 s4 = s4\<lparr>pmem := m5\<rparr>"
    using m5(1) by (simp add: pmm_mark_mem_taken_def align_downwards_def align_upwards_def
        PMM_BLK_SZ_def layout_defs)
  have np: "\<not> paging s" using inv by (simp add: boot_inv_def)
  have m75: "m7 k = m5 k" if "k div 4096 \<noteq> D div 4096" for k
    using store32_other_page [OF 1(2), of 1023 k] store32_other_page [OF 1(2), of 0 k] that
    by (simp add: m7_def m6_def)
  have st: "vstore32 (T + 4 * L) (0xFEE00000 OR (X86_PAGE_PRESENT OR X86_PAGE_WRITABLE
        OR X86_PAGE_CACHE_DIS OR X86_PAGE_USER)) (s2\<lparr>pmem := m3\<rparr>) = Inr (s2\<lparr>pmem := m4\<rparr>)"
    "lapic_new_address LAPIC_PHYS_VIRT_ADDR (s2\<lparr>pmem := m4\<rparr>) = s4"
    "vstore32 D (T OR (X86_PAGEDIR_PRESENT OR X86_PAGEDIR_WRITABLE OR X86_PAGE_USER)) (s4\<lparr>pmem := m5\<rparr>)
       = Inr (s4\<lparr>pmem := m6\<rparr>)"
    "vstore32 (D + 4 * 1023) (D OR (X86_PAGEDIR_PRESENT OR X86_PAGEDIR_WRITABLE OR X86_PAGE_USER))
       (s4\<lparr>pmem := m6\<rparr>) = Inr (s4\<lparr>pmem := m7\<rparr>)"
    using np by (simp_all add: access_off s2 s4_def m4_def m6_def m7_def kernel_defs lapic_new_address_def)
  have kd: "kernel_dir (s4\<lparr>pmem := m\<rparr>) = D" for m by (simp add: s4_def)
  have "vmm_init s = Inr (paging_enable D (s4\<lparr>pmem := m7,
      interrupt_handlers := (interrupt_handlers s4)(14 := Vmm_handle_page_fault), current_dir := D\<rparr>))"
    unfolding vmm_init_def Let_def L_def [symmetric]
    by (simp only: 1(1) 2(1) m3(1) st mark kd ebind_simps prod.case register_interrupt_handler_def)
      (simp add: kd [of m7, simplified])
  then have "vmm_init s = Inr s'" by (simp add: paging_enable_def s'_def s4_def)
  moreover have "load32 m7 (D + 4 * e) = (if e = 1023 then D OR 7 else if e = 0 then T OR 7 else 0)"
    if "e < 1024" for e
  proof -
    have "load32 m5 (D + 4 * e) = 0"
    proof (rule load32_zero_page [OF 1(2) that])
      fix k :: u32 assume k: "k div 4096 = D div 4096"
      then have "m5 k = m4 k" using m5(2) 1(5) by simp
      also have "\<dots> = m3 k" unfolding m4_def using k pages by (intro store32_other_page [OF 2(2) L]) simp
      also have "\<dots> = m2 k" using m3(2) k pages by simp
      also have "\<dots> = 0" using 1(5,9) 2(10) f1(2) k pages by (simp add: m2_def)
      finally show "m5 k = 0" .
    qed
    moreover have "load32 m6 (D + 4 * e) = (if 0 = e then T OR 7 else load32 m5 (D + 4 * e))"
      unfolding m6_def by (rule load_entry [OF 1(2) _ that]) simp
    moreover have "load32 m7 (D + 4 * e) = (if 1023 = e then D OR 7 else load32 m6 (D + 4 * e))"
      unfolding m7_def by (rule load_entry [OF 1(2) _ that]) simp
    ultimately show ?thesis by auto
  qed
  moreover have "load32 m7 (T + 4 * j) = boot_table j" if "j < 1024" for j
  proof -
    have "load32 m7 (T + 4 * j) = load32 m4 (T + 4 * j)"
    proof (rule load32_same_page [OF 2(2) that])
      fix k :: u32 assume k: "k div 4096 = T div 4096"
      then have "m7 k = m5 k" using pages m75 by simp
      with k show "m7 k = m4 k" using m5(2) 2(5) f1(2) by simp
    qed
    then show ?thesis
      unfolding m4_def boot_table_def L_def [symmetric]
      using m3(3) [OF that] by (auto simp: load_entry [OF 2(2) L that])
  qed
  moreover have "p \<in> taken s' \<longleftrightarrow> p \<in> taken s \<or> p \<in> {D div 4096, T div 4096} \<or> p < 1024"
    if p: "p < pmm_bitmap_sz s" for p
  proof -
    let ?k = "pmm_bitmap s + p div 8" and ?bit = "bitmap_is_set (pmm_bitmap s) p"
    have "bitmap_page s (?k div 4096)" using p by (auto simp: bitmap_page_def)
    then have k: "?k div 4096 \<noteq> D div 4096" "?k div 4096 \<noteq> T div 4096" using 1(5) 2(5) f1(2) by auto
    have "m7 ?k = m5 ?k" using k by (intro m75)
    moreover have "m4 ?k = m2 ?k"
      unfolding m4_def using k store32_other_page [OF 2(2) L] m3(2) by simp
    moreover have "taken (s4\<lparr>pmem := m5\<rparr>) = taken s4 \<union> {0..<1024}"
      using pmm_mark_loop_simps [of 0 1024 s4] m5(1) by simp
    then have "?bit m5 \<longleftrightarrow> ?bit m4 \<or> p < 1024"
      by (auto simp: taken_def pmm_is_taken_def s4_def)
    moreover have "?bit m2 \<longleftrightarrow> p \<in> taken s2" by (simp add: taken_def pmm_is_taken_def s2)
    moreover have "p \<in> taken s2 \<longleftrightarrow> p \<in> taken s1 \<or> p = T div 4096" using 2(8) p f1 by simp
    moreover have "p \<in> taken s1 \<longleftrightarrow> p \<in> taken s \<or> p = D div 4096" using 1(8) p by simp
    moreover have "p \<in> taken s' \<longleftrightarrow> ?bit m7" by (simp add: taken_def pmm_is_taken_def s'_def)
    ultimately show ?thesis by (auto simp: bitmap_is_set_def)
  qed
  moreover have "T div 4096 \<notin> taken s" using 2(3,4) 1(8) f1 by auto
  moreover have "D div 4096 \<le> max b c" "T div 4096 \<le> max b c" using 1(12) 2(12) x(4) by (auto simp: le_max_iff_disj)
  ultimately show thesis
    using 1(2,3,4,5,11) 2(2,3,5,11) DT f1(1,2) by (intro that [of s' D T]) (auto simp: s'_def)
qed

section \<open>Properties\<close>

text \<open>A state with paging on: the directory at 0x3000 maps only itself, the bitmap of 16 blocks
  stands at 0x1000 with blocks 0, 1 and 3 taken.\<close>

definition vmm_example :: vmm_state where
  "vmm_example = \<lparr>pmem = store32 ((\<lambda>_. 0)(0x1000 := 0x0B)) 0x3FFC 0x3003,
     pmm_bitmap = 0x1000, pmm_bitmap_sz = 16, kernel_dir = 0x3000, current_dir = 0x3000,
     cr3 = 0x3000, paging = True, local_apic = 0, interrupt_handlers = (\<lambda>_. Null_isr)\<rparr>"

lemma vmm_example_pde:
  assumes "d < 1024"
  shows "pde vmm_example d = (if d = 1023 then 0x3003 else 0)"
proof -
  let ?m = "(\<lambda>_. 0)(0x1000 := 0x0B) :: mem"
  have "load32 ?m (0x3000 + 4 * d) = 0"
    using assms by (intro load32_zero_page) auto
  then show ?thesis
    using w32.load_store [of "0x3000 + 4 * 1023" "0x3000 + 4 * d" ?m "0x3003"]
      entry_inj [of "0x3000" "0x3000" 1023 d] entry_aligned4 [of "0x3000" 1023]
      entry_aligned4 [of "0x3000" d] assms
    by (simp add: pde_def vmm_example_def page_frame_def X86_PAGE_FRAME_def)
qed

lemma example_bitmap_byte: "b < 2048 \<Longrightarrow> (0x1000 + b div 8) div 4096 = 1" for b :: u32
proof -
  assume "b < 2048"
  then have "b div 8 < 4096" by (simp add: word_less_nat_alt unat_div_distrib)
  then show ?thesis using page_offset(2) [of "0x1000" "b div 8"] by simp
qed

lemma vmm_example_bitmap_page: "bitmap_page vmm_example p \<longleftrightarrow> p = 1"
proof -
  have "b < 16 \<Longrightarrow> b < 2048" for b :: u32 by (erule order_less_trans) simp
  then show ?thesis
    unfolding bitmap_page_def using example_bitmap_byte
    by (auto simp: vmm_example_def intro: exI [of _ 0])
qed

lemma vmm_example_taken: "1 \<in> taken vmm_example" "3 \<in> taken vmm_example"
  by (simp_all add: taken_def pmm_is_taken_def bitmap_is_set_def vmm_example_def store32_def)

lemma vmm_example_ptbl: "ptbl vmm_example 1023 = 0x3000"
  by (simp add: ptbl_def vmm_example_pde page_frame_def X86_PAGE_FRAME_def)

lemma vmm_example_inv: "vmm_inv vmm_example"
proof (rule vmm_invI)
  have d: "d = 1023" if "d < 1024" "page_present (pde vmm_example d)" for d
    using that by (auto simp: vmm_example_pde page_present_def split: if_splits)
  show "page_present (pde vmm_example 1023)"
    by (simp add: vmm_example_pde page_present_def X86_PAGE_PRESENT_def)
  show "ptbl vmm_example 1023 = page_frame (cr3 vmm_example)"
    unfolding vmm_example_ptbl by (simp add: vmm_example_def page_frame_def X86_PAGE_FRAME_def)
  show "page_writable (pde vmm_example e) \<and> ptbl vmm_example e div 4096 < pmm_bitmap_sz vmm_example
      \<and> ptbl vmm_example e div 4096 \<in> taken vmm_example
      \<and> \<not> bitmap_page vmm_example (ptbl vmm_example e div 4096)"
    if "e < 1024" "page_present (pde vmm_example e)" for e
    unfolding d [OF that] vmm_example_ptbl vmm_example_bitmap_page
    using vmm_example_taken
    by (simp add: vmm_example_pde page_writable_def X86_PAGE_WRITABLE_def) (simp add: vmm_example_def)
  show "d = e" if "d < 1024" "e < 1024" "page_present (pde vmm_example d)"
    "page_present (pde vmm_example e)" for d e
    using that \<open>\<And>d. d < 1024 \<Longrightarrow> page_present (pde vmm_example d) \<Longrightarrow> d = 1023\<close> by metis
qed (use vmm_example_taken in \<open>simp_all add: vmm_example_bitmap_page\<close>,
    simp_all add: vmm_example_def pmm_inv_def)

lemma vmm_example_alloc: "fst (pmm_alloc_first vmm_example) \<noteq> 0"
proof -
  have "pmm_inv vmm_example" by (rule vmm_invD(2) [OF vmm_example_inv])
  moreover have "2 \<notin> taken vmm_example" "2 < pmm_bitmap_sz vmm_example"
    by (simp_all add: taken_def pmm_is_taken_def bitmap_is_set_def vmm_example_def store32_def)
  ultimately show ?thesis
    by (cases rule: pmm_alloc_first_cases) (auto dest: block_addr(3))
qed

lemma vmm_example_legal: "map_legal 0x00800000 X86_PAGE_WRITABLE vmm_example"
  using vmm_example_alloc by (simp add: map_legal_def ADDR2INDEX_eq layout_defs X86_PAGE_WRITABLE_def)

lemma vmm_example_unmapped: "mappings vmm_example v = None"
  using below_window [of "fst v"] by (auto simp: mappings_def vmm_example_pde page_present_def)

text \<open>The state after \<^verbatim>\<open>vmm_init\<close>: the directory and one page table, in two frames that
  were free, as low as there were any.\<close>

lemma boot_state:
  assumes "boot_inv s" and "1024 \<le> pmm_bitmap_sz s"
    and "0 < b" "b < pmm_bitmap_sz s" "b \<notin> taken s" and "0 < c" "c < pmm_bitmap_sz s" "c \<notin> taken s"
    and "b \<noteq> c"
  obtains D T s' where "vmm_init s = Inr s'" "vmm_inv s'"
    "mappings s' = (\<lambda>(d, j). if d = 0 \<and> j < 1024 then Some (boot_table j) else None)"
    "\<And>e. e < 1024 \<Longrightarrow> page_present (pde s' e) \<Longrightarrow> e = 1023 \<and> ptbl s' e = D \<or> e = 0 \<and> ptbl s' e = T"
    "\<forall>p < pmm_bitmap_sz s. p \<in> taken s' \<longleftrightarrow> p \<in> taken s \<or> p \<in> {D div 4096, T div 4096} \<or> p < 1024"
    "s' = s\<lparr>pmem := pmem s', kernel_dir := D, current_dir := D, cr3 := D, paging := True,
       local_apic := LAPIC_PHYS_VIRT_ADDR,
       interrupt_handlers := (interrupt_handlers s)(14 := Vmm_handle_page_fault)\<rparr>"
    "D div 4096 \<notin> taken s" "T div 4096 \<notin> taken s" "0 < D div 4096" "0 < T div 4096"
    "D div 4096 \<le> max b c" "T div 4096 \<le> max b c"
proof -
  obtain D T s' where I: "vmm_init s = Inr s'" "D mod 4096 = 0" "T mod 4096 = 0" "D \<noteq> T"
    "\<forall>e < 1024. load32 (pmem s') (D + 4 * e) = (if e = 1023 then D OR 7 else if e = 0 then T OR 7 else 0)"
    "\<forall>j < 1024. load32 (pmem s') (T + 4 * j) = boot_table j"
    "\<forall>p < pmm_bitmap_sz s. p \<in> taken s' \<longleftrightarrow> p \<in> taken s \<or> p \<in> {D div 4096, T div 4096} \<or> p < 1024"
    "D div 4096 < pmm_bitmap_sz s" "T div 4096 < pmm_bitmap_sz s"
    "\<not> bitmap_page s (D div 4096)" "\<not> bitmap_page s (T div 4096)"
    "s' = s\<lparr>pmem := pmem s', kernel_dir := D, current_dir := D, cr3 := D, paging := True,
       local_apic := LAPIC_PHYS_VIRT_ADDR,
       interrupt_handlers := (interrupt_handlers s)(14 := Vmm_handle_page_fault)\<rparr>"
    "D div 4096 \<notin> taken s" "T div 4096 \<notin> taken s" "0 < D div 4096" "0 < T div 4096"
    "D div 4096 \<le> max b c" "T div 4096 \<le> max b c"
    by (rule boot_tables [OF assms]) (rule that; assumption)
  define m where "m = pmem s'"
  have flds: "cr3 s' = D" "paging s'" "pmm_bitmap_sz s' = pmm_bitmap_sz s" "pmm_inv s'"
    "bitmap_page s' = bitmap_page s" "kernel_dir s' = D"
    "interrupt_handlers s' 14 = Vmm_handle_page_fault"
    using assms(1) unfolding I(12) [folded m_def]
    by (simp_all add: boot_inv_def pmm_inv_def bitmap_page_def fun_eq_iff)
  have D: "page_frame D = D" "page_frame (D OR 7) = D" "page_frame (T OR 7) = T"
    using I(2,3) page_frame_entry [of D 7] page_frame_entry [of T 7] by (simp_all add: page_aligned_iff)
  have pde: "pde s' e = (if e = 1023 then D OR 7 else if e = 0 then T OR 7 else 0)" if "e < 1024" for e
    using I(5) that by (simp add: pde_def flds D)
  have ptbl: "ptbl s' 1023 = D" "ptbl s' 0 = T" by (simp_all add: ptbl_def pde D)
  have pte: "pte s' 0 j = boot_table j" if "j < 1024" for j
    using I(6) that by (simp add: pte_def ptbl)
  have entry: "page_present (x OR 7)" "page_writable (x OR 7)" for x
    by (simp_all add: page_present_def page_writable_def kernel_defs bit.conj_disj_distrib2 or_eq_0_iff)
  have two: "e = 1023 \<or> e = 0" if "e < 1024" "page_present (pde s' e)" for e
    using that by (auto simp: pde page_present_def split: if_splits)
  have inv: "vmm_inv s'"
  proof (rule vmm_invI)
    show "page_present (pde s' 1023)" by (simp add: pde entry)
    show "ptbl s' 1023 = page_frame (cr3 s')" by (simp add: ptbl flds D)
    show "page_writable (pde s' e) \<and> ptbl s' e div 4096 < pmm_bitmap_sz s'
        \<and> ptbl s' e div 4096 \<in> taken s' \<and> \<not> bitmap_page s' (ptbl s' e div 4096)"
      if "e < 1024" "page_present (pde s' e)" for e
      using two [OF that] I(7-11) by (auto simp: pde entry ptbl flds)
    show "d = e" if "d < 1024" "e < 1024" "page_present (pde s' d)" "page_present (pde s' e)"
      "ptbl s' d = ptbl s' e" for d e
      using two [OF that(1,3)] two [OF that(2,4)] that(5) I(4) by (auto simp: ptbl)
    show "p \<in> taken s'" if "p < pmm_bitmap_sz s'" "bitmap_page s' p" for p
      using that assms(1) I(7) by (auto simp: flds boot_inv_def)
  qed (simp_all add: flds)
  have "mappings s' = (\<lambda>(d, j). if d = 0 \<and> j < 1024 then Some (boot_table j) else None)"
  proof (rule ext)
    fix v :: "u32 \<times> u32"
    obtain d j where v: "v = (d, j)" by fastforce
    show "mappings s' v = (\<lambda>(d, j). if d = 0 \<and> j < 1024 then Some (boot_table j) else None) v"
    proof (cases "d = 0")
      case True
      then show ?thesis using pte by (simp add: v mappings_def pde entry boot_table_entry)
    next
      case False
      then have "d < 1023 \<Longrightarrow> \<not> page_present (pde s' d)" using two [of d] below_window [of d] by blast
      then show ?thesis using False by (auto simp: v mappings_def)
    qed
  qed
  moreover have "e = 1023 \<and> ptbl s' e = D \<or> e = 0 \<and> ptbl s' e = T" if "e < 1024" "page_present (pde s' e)" for e
    using two [OF that] ptbl by auto
  ultimately show thesis using I inv by (intro that [of s' D T])
qed

lemma vmm_init_inv:
  assumes "boot_inv s" and "1024 \<le> pmm_bitmap_sz s"
    and "0 < b" "b < pmm_bitmap_sz s" "b \<notin> taken s" and "0 < c" "c < pmm_bitmap_sz s" "c \<notin> taken s"
    and "b \<noteq> c"
  shows "\<exists>s'. vmm_init s = Inr s' \<and> vmm_inv s' \<and> {0..<1024} \<subseteq> taken s'
     \<and> interrupt_handlers s' 14 = Vmm_handle_page_fault \<and> cr3 s' = kernel_dir s'
     \<and> (\<forall>va wr. va div MB4 < 1023 \<longrightarrow> physical wr va s' =
          (if MB4 \<le> va then None
           else if va div KB4 = LAPIC_PHYS_VIRT_ADDR div KB4 then Some (0xFEE00000 + va mod KB4)
           else Some va))"
proof -
  obtain D T s' where I: "vmm_init s = Inr s'" "vmm_inv s'"
    "mappings s' = (\<lambda>(d, j). if d = 0 \<and> j < 1024 then Some (boot_table j) else None)"
    "\<forall>p < pmm_bitmap_sz s. p \<in> taken s' \<longleftrightarrow> p \<in> taken s \<or> p \<in> {D div 4096, T div 4096} \<or> p < 1024"
    "s' = s\<lparr>pmem := pmem s', kernel_dir := D, current_dir := D, cr3 := D, paging := True,
       local_apic := LAPIC_PHYS_VIRT_ADDR,
       interrupt_handlers := (interrupt_handlers s)(14 := Vmm_handle_page_fault)\<rparr>"
    by (rule boot_state [OF assms]) (rule that; assumption)
  have flds: "cr3 s' = kernel_dir s'" "interrupt_handlers s' 14 = Vmm_handle_page_fault" by (subst (1 2) I(5), simp, subst I(5), simp)
  have "physical wr va s' = (if MB4 \<le> va then None
      else if va div KB4 = LAPIC_PHYS_VIRT_ADDR div KB4 then Some (0xFEE00000 + va mod KB4) else Some va)"
    if "va div MB4 < 1023" for va wr
  proof (cases "MB4 \<le> va")
    case True
    then have "va div MB4 \<noteq> 0" by (simp add: div_MB4_eq_0)
    then show ?thesis
      using True physical_mappings [OF I(2), of va _ _ wr] that I(3) by (simp add: ADDR2INDEX_eq)
  next
    case False
    then have "va mod MB4 = va" by (simp add: word_less_nat_alt word_unat_eq_iff unat_mod_distrib not_le)
    then have ix: "ADDR2INDEX va = (0, va div KB4)" "va div KB4 < 1024"
      using False ADDR2INDEX_bounds(2) [of va] by (simp_all add: ADDR2INDEX_eq div_MB4_eq_0)
    then have "mappings s' (0, va div KB4) = Some (boot_table (va div KB4))" using I(3) by simp
    then show ?thesis
      using physical_mappings [OF I(2) ix(1), of wr] ix(2) False div_mult_mod_eq [of va KB4]
      by (auto simp: boot_table_entry)
  qed
  moreover have "{0..<1024} \<subseteq> taken s'" using I(4) assms(2) by auto
  ultimately show ?thesis using I(1,2) flds by auto
qed

text \<open>C10: \<^verbatim>\<open>vmm_init\<close>, run with paging off on a machine of at least 4 MB with two free
  frames, ends with paging on, the table invariant, the page fault handler installed, the
  first 4 MB mapped onto themselves except the page of the local APIC, which shows the
  registers at 0xFEE00000, nothing else mapped outside the recursive window, and the frames of
  the first 4 MB taken.\<close>

theorem vmm_init_establishes:
  assumes "boot_inv s" and "1024 \<le> pmm_bitmap_sz s"
    and "0 < b" "b < pmm_bitmap_sz s" "b \<notin> taken s" and "0 < c" "c < pmm_bitmap_sz s" "c \<notin> taken s"
    and "b \<noteq> c"
  shows "\<exists>s'. vmm_init s = Inr s' \<and> vmm_inv s' \<and> {0..<1024} \<subseteq> taken s'
     \<and> interrupt_handlers s' 14 = Vmm_handle_page_fault \<and> cr3 s' = kernel_dir s'
     \<and> (\<forall>va wr. va div MB4 < 1023 \<longrightarrow> physical wr va s' =
          (if MB4 \<le> va then None
           else if va div KB4 = LAPIC_PHYS_VIRT_ADDR div KB4 then Some (0xFEE00000 + va mod KB4)
           else Some va))"
  by (rule vmm_init_inv [OF assms])

definition boot_example :: vmm_state where
  "boot_example = vmm_example\<lparr>pmem := (\<lambda>_. 0)(0x1000 := 3), pmm_bitmap_sz := 2048, paging := False\<rparr>"

theorem vmm_init_establishes_witness:
  "\<exists>s'. vmm_init boot_example = Inr s' \<and> vmm_inv s' \<and> physical True 0x00001234 s' = Some 0x1234
     \<and> physical False LAPIC_PHYS_VIRT_ADDR s' = Some 0xFEE00000"
proof -
  have eqs: "pmm_bitmap_sz boot_example = 2048" "1 \<in> taken boot_example" "2 \<notin> taken boot_example"
    "3 \<notin> taken boot_example" "bitmap_page boot_example p \<longleftrightarrow> p = 1" for p
    using example_bitmap_byte
    by (auto simp: boot_example_def vmm_example_def taken_def pmm_is_taken_def bitmap_is_set_def
        bitmap_page_def intro: exI [of _ 0])
  have "boot_inv boot_example"
    by (simp add: boot_inv_def eqs) (simp add: boot_example_def pmm_inv_def)
  from vmm_init_establishes [OF this, of 2 3] obtain s' where s': "vmm_init boot_example = Inr s'"
    "vmm_inv s'" "\<And>va wr. va div MB4 < 1023 \<Longrightarrow> physical wr va s' =
          (if MB4 \<le> va then None
           else if va div KB4 = LAPIC_PHYS_VIRT_ADDR div KB4 then Some (0xFEE00000 + va mod KB4)
           else Some va)"
    by (auto simp: eqs)
  have "physical True 0x00001234 s' = Some 0x1234"
    "physical False LAPIC_PHYS_VIRT_ADDR s' = Some 0xFEE00000"
    using s'(3) [of "0x1234" True] s'(3) [of LAPIC_PHYS_VIRT_ADDR False] by (simp_all add: layout_defs)
  with s'(1,2) show ?thesis by blast
qed

text \<open>C2: \<^verbatim>\<open>vmm_map_page\<close> refines map update. With the table invariant, for a page
  outside the recursive window, writable access bits and a frame left for a new page table
  if one is needed: a mapped page is refused with \<^verbatim>\<open>VMM_ERR_PAGE_IN_USE\<close> and nothing
  changes; otherwise the call succeeds without a fault, the invariant holds again, and the
  mappings are the old ones with just this page added.\<close>

theorem vmm_map_page_refines:
  assumes "vmm_inv s" and "map_legal virt acl s"
  shows "case mappings s (ADDR2INDEX virt) of
      Some _ \<Rightarrow> vmm_map_page phys virt acl s = Inr (VMM_ERR_PAGE_IN_USE, s)
    | None \<Rightarrow> (\<exists>s'. vmm_map_page phys virt acl s = Inr (VMM_SUCCESS, s') \<and> vmm_inv s'
        \<and> mappings s' = (mappings s)(ADDR2INDEX virt \<mapsto> phys OR X86_PAGE_PRESENT OR acl))"
  using pages.map_free [OF assms] pages.map_used [OF assms] by (auto split: option.split)

theorem vmm_map_page_refines_witness:
  "\<exists>s'. vmm_map_page 0x5000 0x00800000 X86_PAGE_WRITABLE vmm_example = Inr (VMM_SUCCESS, s')
     \<and> vmm_inv s' \<and> mappings s' = (mappings vmm_example)((2, 0) \<mapsto> 0x5003)"
  using vmm_map_page_refines [OF vmm_example_inv vmm_example_legal, of "0x5000"]
  by (simp add: vmm_example_unmapped ADDR2INDEX_eq layout_defs kernel_defs)

text \<open>C9: \<^verbatim>\<open>vmm_unmap_page\<close> refines map removal. With the table invariant, outside the
  recursive window: without a page table for the address it returns
  \<^verbatim>\<open>VMM_ERR_NO_PAGEDIR_ENTRY\<close> and nothing changes; otherwise it succeeds without a
  fault, the invariant holds again, just this page is gone from the mappings, and a page table
  that has no mapping left is out of the directory and back with the frame allocator.\<close>

theorem vmm_unmap_page_refines:
  assumes "vmm_inv s" and "ADDR2INDEX virt = (d, i)" and "d < 1023"
  shows "if page_present (pde s d) then
      (\<exists>s'. vmm_unmap_page virt s = Inr (VMM_SUCCESS, s') \<and> vmm_inv s'
        \<and> mappings s' = (mappings s)((d, i) := None)
        \<and> ((\<forall>j. mappings s' (d, j) = None) \<longrightarrow>
             \<not> page_present (pde s' d) \<and> ptbl s d div PMM_BLK_SZ \<notin> taken s'))
    else vmm_unmap_page virt s = Inr (VMM_ERR_NO_PAGEDIR_ENTRY, s)"
  by (rule vmm_unmap_page_remove [OF assms])

theorem vmm_unmap_page_refines_witness:
  "vmm_unmap_page 0x00800000 vmm_example = Inr (VMM_ERR_NO_PAGEDIR_ENTRY, vmm_example)"
  using vmm_unmap_page_refines [OF vmm_example_inv, of "0x00800000" 2 0]
  by (simp add: ADDR2INDEX_eq layout_defs vmm_example_pde page_present_def)

text \<open>Mapping a free page and unmapping it gives back the mappings from before, and both
  calls succeed.\<close>

lemma vmm_map_unmap_roundtrip:
  assumes "vmm_inv s" and "map_legal virt acl s" and "mappings s (ADDR2INDEX virt) = None"
  shows "\<exists>s1 s2. vmm_map_page phys virt acl s = Inr (VMM_SUCCESS, s1)
     \<and> vmm_unmap_page virt s1 = Inr (VMM_SUCCESS, s2) \<and> vmm_inv s2 \<and> mappings s2 = mappings s"
  by (rule pages.map_unmap [OF assms])

lemma vmm_map_unmap_roundtrip_witness:
  "\<exists>s1 s2. vmm_map_page 0x5000 0x00800000 X86_PAGE_WRITABLE vmm_example = Inr (VMM_SUCCESS, s1)
     \<and> vmm_unmap_page 0x00800000 s1 = Inr (VMM_SUCCESS, s2) \<and> vmm_inv s2
     \<and> mappings s2 = mappings vmm_example"
  by (rule vmm_map_unmap_roundtrip [OF vmm_example_inv vmm_example_legal vmm_example_unmapped])

text \<open>C23: what the processor sees after \<^verbatim>\<open>vmm_map_page\<close> of a page-aligned frame on a
  free page: every byte of the page is translated, for reads and writes, to the same byte of
  the frame, and no other translation outside the recursive window changes.\<close>

theorem vmm_map_page_translates:
  assumes "vmm_inv s" and "map_legal virt acl s" and "mappings s (ADDR2INDEX virt) = None"
    and "phys mod KB4 = 0"
  shows "\<exists>s'. vmm_map_page phys virt acl s = Inr (VMM_SUCCESS, s') \<and>
     (\<forall>va wr. va div MB4 < 1023 \<longrightarrow>
        physical wr va s' = (if va div KB4 = virt div KB4 then Some (phys + va mod KB4)
                             else physical wr va s))"
proof -
  let ?e = "phys OR X86_PAGE_PRESENT OR acl"
  obtain s' where s': "vmm_map_page phys virt acl s = Inr (VMM_SUCCESS, s')" "vmm_inv s'"
    "mappings s' = (mappings s)(ADDR2INDEX virt \<mapsto> ?e)"
    using pages.map_free [OF assms(1-3)] by blast
  have acl: "acl < 4096" "page_writable ?e"
    using assms(2) flag_entry(2) by (auto simp: map_legal_def)
  have "page_frame ?e = phys"
    using assms(4) acl(1) by (intro page_frame_flags) (simp_all add: KB4_def)
  then have "physical wr va s' = (if va div KB4 = virt div KB4 then Some (phys + va mod KB4)
      else physical wr va s)" if "va div MB4 < 1023" for va wr
    using physical_mappings [OF s'(2), of va _ _ wr] physical_mappings [OF assms(1), of va _ _ wr]
      that acl(2) s'(3) ADDR2INDEX_same_page [of va virt] by (simp add: ADDR2INDEX_eq KB4_def)
  with s'(1) show ?thesis by blast
qed

theorem vmm_map_page_translates_witness:
  "\<exists>s'. vmm_map_page 0x5000 0x00800000 X86_PAGE_WRITABLE vmm_example = Inr (VMM_SUCCESS, s')
     \<and> physical True 0x00800123 s' = Some 0x5123"
proof -
  have al: "(0x5000 :: u32) mod KB4 = 0" by (simp add: KB4_def)
  obtain s' where s': "vmm_map_page 0x5000 0x00800000 X86_PAGE_WRITABLE vmm_example = Inr (VMM_SUCCESS, s')"
    "\<And>va wr. va div MB4 < 1023 \<Longrightarrow> physical wr va s' =
       (if va div KB4 = 0x00800000 div KB4 then Some (0x5000 + va mod KB4) else physical wr va vmm_example)"
    using vmm_map_page_translates [OF vmm_example_inv vmm_example_legal vmm_example_unmapped al]
    by blast
  have "physical True 0x00800123 s' = Some 0x5123"
    using s'(2) [of "0x00800123" True] by (simp add: layout_defs)
  with s'(1) show ?thesis by blast
qed

text \<open>C40: a page cannot be mapped read-only where its page table is missing: the directory
  entry gets the same access bits, the table is then not writable for the kernel either, since
  \<^verbatim>\<open>paging_enable\<close> sets the write-protect bit, and clearing the new table faults.\<close>

theorem vmm_map_page_readonly_faults:
  assumes "vmm_inv s" and "ADDR2INDEX virt = (d, i)" and "d < 1023" and "\<not> page_present (pde s d)"
    and "fst (pmm_alloc_first s) \<noteq> 0" and "acl < 4096" and "acl AND X86_PAGE_WRITABLE = 0"
  shows "vmm_map_page phys virt acl s = Inl (Page_fault (ptable_virtual d))"
proof -
  obtain p s1 where al: "pmm_alloc_first s = (p, s1)" "p \<noteq> 0" using assms(5) by (metis prod.collapse)
  note al' = alloc_fresh [OF assms(1) al]
  note ix = ADDR2INDEX_bounds [OF assms(2)]
  note keep1 = set_block_keeps [OF assms(1) al'(3), folded al'(1)]
  define v where "v = p OR X86_PAGEDIR_PRESENT OR acl"
  define s2 where "s2 = s1\<lparr>pmem := store32 (pmem s1) (page_frame (cr3 s1) + 4 * d) v\<rparr>"
  note W = dir_write [OF ix(1) s2_def]
  have "page_frame p AND X86_PAGE_WRITABLE = p AND (X86_PAGE_FRAME AND X86_PAGE_WRITABLE)"
    by (simp add: page_frame_def and.assoc)
  then have "p AND X86_PAGE_WRITABLE = 0"
    using al'(2) by (simp add: page_aligned_iff) (simp add: kernel_defs)
  then have v: "\<not> page_allows True (pde s2 d)"
    using W(2) [OF ix(1)] assms(7)
    by (simp add: v_def page_allows_def page_writable_def bit.conj_disj_distrib2 or_eq_0_iff)
      (simp add: kernel_defs)
  have sm: "self_map s2"
    using vmm_inv_self_map [OF keep1(3)] W(2,3) [of 1023] below_window [OF assms(3)] only_page_fields [OF W(1)]
    by (auto simp: self_map_def)
  have "vmemset (ptable_virtual d) 0 KB4 s2 = Inl (Page_fault (ptable_virtual d))"
    using physical_window [OF sm ix(1), of 0 True] v ptable_virtual_nonzero [OF assms(3)]
    by (simp add: vmemset_def vmemset_loop.simps [of _ _ _ 0] KB4_def vstore8_def ptable_virtual_def)
  moreover have "pde s d AND X86_PAGEDIR_PRESENT = 0"
    using assms(4) by (simp add: page_present_def kernel_defs)
  ultimately show ?thesis
    using assms(2) al(1) vload32_dir [OF vmm_inv_self_map [OF assms(1)] ix(1)]
      vstore32_dir [OF vmm_inv_self_map [OF keep1(3)] ix(1), of v]
    by (simp add: vmm_map_page_def v_def s2_def)
qed

theorem vmm_map_page_readonly_faults_witness:
  "vmm_map_page 0x5000 0x00800000 X86_PAGE_USER vmm_example = Inl (Page_fault (ptable_virtual 2))"
proof (rule vmm_map_page_readonly_faults [OF vmm_example_inv, of _ _ 0])
  show "fst (pmm_alloc_first vmm_example) \<noteq> 0" by (rule vmm_example_alloc)
qed (simp_all add: ADDR2INDEX_eq layout_defs vmm_example_pde page_present_def kernel_defs)

end
