(* ===== verification/Kernel_String.thy ===== *)
theory Kernel_String
  imports Kernel_Memory
begin

text \<open>
  The string library, \<^verbatim>\<open>src/lib/string.c\<close>, over byte-addressed memory. A function
  that stops at a NUL byte searches memory without a bound, so it is a
  \<^theory_text>\<open>partial_function (option)\<close>: \<^const>\<open>None\<close> is a loop that never ends.
  \<^verbatim>\<open>char\<close> is signed on this target, so characters are compared through
  \<^const>\<open>sint\<close>.
\<close>

section \<open>The functions\<close>

function memcpy_loop :: "u32 \<Rightarrow> u32 \<Rightarrow> u32 \<Rightarrow> u32 \<Rightarrow> mem \<Rightarrow> mem" where
  "memcpy_loop d s num i m =
     (if i < num then memcpy_loop d s num (i + 1) (m(d + i := m (s + i))) else m)"
  by pat_completeness auto
termination
  by (relation "measure (\<lambda>(d, s, num, i, m). unat num - unat i)") auto

definition memcpy :: "u32 \<Rightarrow> u32 \<Rightarrow> u32 \<Rightarrow> mem \<Rightarrow> u32 \<times> mem" where
  "memcpy dst src num m =
     (if dst = 0 \<or> src = 0 then (dst, m) else (dst, memcpy_loop dst src num 0 m))"

definition memmove :: "u32 \<Rightarrow> u32 \<Rightarrow> u32 \<Rightarrow> mem \<Rightarrow> u32 \<times> mem" where
  "memmove dst src num m = memcpy dst src num m"

partial_function (option) strcpy_loop :: "u32 \<Rightarrow> u32 \<Rightarrow> u32 \<Rightarrow> mem \<Rightarrow> mem option" where
  "strcpy_loop dst src i m =
     (if m (src + i) \<noteq> 0 then strcpy_loop dst src (i + 1) (m(dst + i := m (src + i)))
      else Some (m(dst + i := m (src + i))))"

definition strcpy :: "u32 \<Rightarrow> u32 \<Rightarrow> mem \<Rightarrow> (u32 \<times> mem) option" where
  "strcpy dst src m =
     (if dst = 0 \<or> src = 0 then Some (dst, m)
      else map_option (Pair dst) (strcpy_loop dst src 0 m))"

function strncpy_copy :: "u32 \<Rightarrow> u32 \<Rightarrow> u32 \<Rightarrow> u32 \<Rightarrow> mem \<Rightarrow> u32 \<times> mem" where
  "strncpy_copy dst src num i m =
     (if i < num \<and> m (src + i) \<noteq> 0
      then strncpy_copy dst src num (i + 1) (m(dst + i := m (src + i))) else (i, m))"
  by pat_completeness auto
termination
  by (relation "measure (\<lambda>(d, s, num, i, m). unat num - unat i)") auto

function strncpy_pad :: "u32 \<Rightarrow> u32 \<Rightarrow> u32 \<Rightarrow> mem \<Rightarrow> mem" where
  "strncpy_pad dst num i m =
     (if i < num then strncpy_pad dst num (i + 1) (m(dst + i := 0)) else m)"
  by pat_completeness auto
termination
  by (relation "measure (\<lambda>(d, num, i, m). unat num - unat i)") simp_all

definition strncpy :: "u32 \<Rightarrow> u32 \<Rightarrow> u32 \<Rightarrow> mem \<Rightarrow> u32 \<times> mem" where
  "strncpy dst src num m =
     (if dst = 0 \<or> src = 0 then (dst, m)
      else let (i, m1) = strncpy_copy dst src num 0 m;
               m2 = strncpy_pad dst num i m1
           in (dst, m2(dst + (num - 1) := 0)))"

definition strlen :: "u32 \<Rightarrow> mem \<Rightarrow> u32 option" where
  "strlen str m = (if str = 0 then Some 0 else while_inc (\<lambda>ret. m (str + ret) \<noteq> 0) 0)"

definition strcat :: "u32 \<Rightarrow> u32 \<Rightarrow> mem \<Rightarrow> (u32 \<times> mem) option" where
  "strcat dst src m =
     (if dst = 0 \<or> src = 0 then Some (dst, m)
      else case while_inc (\<lambda>i. m (dst + i) \<noteq> 0) 0 of
             None \<Rightarrow> None
           | Some i \<Rightarrow> map_option (\<lambda>(_, m'). (dst, m')) (strcpy (dst + i) src m))"

function strncat_loop :: "u32 \<Rightarrow> u32 \<Rightarrow> u32 \<Rightarrow> u32 \<Rightarrow> u32 \<Rightarrow> mem \<Rightarrow> u32 \<times> mem" where
  "strncat_loop dst src num i j m =
     (if j < num \<and> m (src + j) \<noteq> 0
      then strncat_loop dst src num i (j + 1) (m(dst + (i + j) := m (src + j))) else (j, m))"
  by pat_completeness auto
termination
  by (relation "measure (\<lambda>(d, s, num, i, j, m). unat num - unat j)")
    auto

definition strncat :: "u32 \<Rightarrow> u32 \<Rightarrow> u32 \<Rightarrow> mem \<Rightarrow> (u32 \<times> mem) option" where
  "strncat dst src num m =
     (if dst = 0 \<or> src = 0 then Some (dst, m)
      else case while_inc (\<lambda>i. m (dst + i) \<noteq> 0) 0 of
             None \<Rightarrow> None
           | Some i \<Rightarrow> (let (j, m1) = strncat_loop dst src num i 0 m
                       in Some (dst, m1(dst + (i + j) := 0))))"

function memcmp_loop :: "u32 \<Rightarrow> u32 \<Rightarrow> u32 \<Rightarrow> u32 \<Rightarrow> mem \<Rightarrow> int" where
  "memcmp_loop p1 p2 num i m =
     (if i < num then
        (if m (p1 + i) \<noteq> m (p2 + i) then uint (m (p1 + i)) - uint (m (p2 + i))
         else memcmp_loop p1 p2 num (i + 1) m)
      else 0)"
  by pat_completeness auto
termination
  by (relation "measure (\<lambda>(p1, p2, num, i, m). unat num - unat i)")
    simp_all

definition STRING_NULL_ERROR :: int where
  "STRING_NULL_ERROR = 0xF00"

definition memcmp :: "u32 \<Rightarrow> u32 \<Rightarrow> u32 \<Rightarrow> mem \<Rightarrow> int" where
  "memcmp ptr1 ptr2 num m =
     (if ptr1 = 0 \<or> ptr2 = 0 then STRING_NULL_ERROR else memcmp_loop ptr1 ptr2 num 0 m)"

definition strcmp :: "u32 \<Rightarrow> u32 \<Rightarrow> mem \<Rightarrow> int option" where
  "strcmp str1 str2 m =
     (if str1 = 0 \<or> str2 = 0 then Some STRING_NULL_ERROR
      else map_option (\<lambda>i. sint (m (str1 + i)) - sint (m (str2 + i)))
        (while_inc (\<lambda>i. m (str1 + i) = m (str2 + i) \<and> m (str1 + i) \<noteq> 0) 0))"

function strncmp_loop :: "u32 \<Rightarrow> u32 \<Rightarrow> u32 \<Rightarrow> u32 \<Rightarrow> mem \<Rightarrow> u32" where
  "strncmp_loop str1 str2 num i m =
     (if i < num \<and> m (str1 + i) \<noteq> 0 \<and> m (str1 + i) = m (str2 + i)
      then strncmp_loop str1 str2 num (i + 1) m else i)"
  by pat_completeness auto
termination
  by (relation "measure (\<lambda>(s1, s2, num, i, m). unat num - unat i)")
    auto

definition strncmp :: "u32 \<Rightarrow> u32 \<Rightarrow> u32 \<Rightarrow> mem \<Rightarrow> int" where
  "strncmp str1 str2 num m =
     (if str1 = 0 \<or> str2 = 0 then STRING_NULL_ERROR
      else if num = 0 then 0
      else let i = strncmp_loop str1 str2 num 0 m
           in if i \<ge> num then 0 else sint (m (str1 + i)) - sint (m (str2 + i)))"

definition strchr :: "u32 \<Rightarrow> u8 \<Rightarrow> mem \<Rightarrow> u32 option" where
  "strchr str ch m =
     map_option (\<lambda>i. if m (str + i) = 0 then 0 else str) 
       (while_inc (\<lambda>i. m (str + i) \<noteq> 0 \<and> m (str + i) \<noteq> ch) 0)"

function memset_loop :: "u32 \<Rightarrow> u8 \<Rightarrow> u32 \<Rightarrow> u32 \<Rightarrow> mem \<Rightarrow> mem" where
  "memset_loop p val num i m =
     (if i < num then memset_loop p val num (i + 1) (m(p + i := val)) else m)"
  by pat_completeness auto
termination
  by (relation "measure (\<lambda>(p, v, num, i, m). unat num - unat i)") simp_all

definition memset :: "u32 \<Rightarrow> u8 \<Rightarrow> u32 \<Rightarrow> mem \<Rightarrow> u32 \<times> mem" where
  "memset ptr val num m = (if ptr = 0 then (ptr, m) else (ptr, memset_loop ptr val num 0 m))"

declare memcpy_loop.simps [simp del] strncpy_copy.simps [simp del] strncpy_pad.simps [simp del]
  strncat_loop.simps [simp del] memcmp_loop.simps [simp del] strncmp_loop.simps [simp del]
  memset_loop.simps [simp del]

section \<open>Strings in memory\<close>

text \<open>\<open>c_string m a xs\<close>: the bytes \<open>xs\<close>, none of them NUL, stand at \<open>a\<close> and a NUL follows.\<close>

definition c_string :: "mem \<Rightarrow> u32 \<Rightarrow> u8 list \<Rightarrow> bool" where
  "c_string m a xs \<longleftrightarrow> 0 \<notin> set xs \<and> length xs < 2 ^ 32 \<and> bytes_at m a (length xs) = xs
     \<and> m (a + of_nat (length xs)) = 0"

section \<open>Lemmas\<close>

lemma memset_loop_spec:
  "i \<le> num \<Longrightarrow> memset_loop p v num i m
     = (\<lambda>k. if i \<le> k - p \<and> k - p < num then v else m k)"
proof (induction p v num i m rule: memset_loop.induct)
  case (1 p v num i m)
  show ?case
  proof (cases "i < num")
    case True
    have "memset_loop p v num i m = memset_loop p v num (i + 1) (m(p + i := v))"
      using True by (simp add: memset_loop.simps [of p v num i])
    also have "\<dots> = (\<lambda>k. if i + 1 \<le> k - p \<and> k - p < num then v else (m(p + i := v)) k)"
      by (rule "1.IH") (use True in \<open>simp_all add: inc_le\<close>)
    finally show ?thesis
      using True by (auto simp: fun_eq_iff upd_at_offset inc_le_iff_less [OF True])
  next
    case False
    then show ?thesis by (auto simp: memset_loop.simps [of p v num i] fun_eq_iff)
  qed
qed

lemma memcpy_loop_spec:
  assumes "i \<le> num" and "\<And>j. i \<le> j \<Longrightarrow> j < num \<Longrightarrow> \<not> (i \<le> s + j - d \<and> s + j - d < j)"
  shows "memcpy_loop d s num i m
     = (\<lambda>k. if i \<le> k - d \<and> k - d < num then m (s + (k - d)) else m k)"
  using assms
proof (induction d s num i m rule: memcpy_loop.induct)
  case (1 d s num i m)
  show ?case
  proof (cases "i < num")
    case True
    note step = inc_le_iff_less [OF True]
    have fresh: "s + j - d \<noteq> i" if "i < j" "j < num" for j
      using "1.prems"(2) [of j] that less_imp_le [of i j] by auto
    have same: "(m(d + i := x)) (s + (k - d)) = m (s + (k - d))"
      if "i < k - d" "k - d < num" for k x
      unfolding upd_at_offset using fresh [OF that] by simp
    have "memcpy_loop d s num i m = memcpy_loop d s num (i + 1) (m(d + i := m (s + i)))"
      using True by (simp add: memcpy_loop.simps [of d s num i])
    also have "\<dots> = (\<lambda>k. if i + 1 \<le> k - d \<and> k - d < num
        then (m(d + i := m (s + i))) (s + (k - d)) else (m(d + i := m (s + i))) k)"
    proof (rule "1.IH")
      show "\<not> (i + 1 \<le> s + j - d \<and> s + j - d < j)" if "i + 1 \<le> j" "j < num" for j
        using "1.prems"(2) [of j] that by (auto simp: step)
    qed (use True in \<open>simp_all add: inc_le\<close>)
    also have "\<dots> = (\<lambda>k. if i < k - d \<and> k - d < num
        then m (s + (k - d)) else (m(d + i := m (s + i))) k)"
      using same by (simp add: fun_eq_iff step cong: conj_cong)
    finally show ?thesis
      using True by (auto simp: fun_eq_iff upd_at_offset)
  next
    case False
    then show ?thesis by (auto simp: memcpy_loop.simps [of d s num i] fun_eq_iff)
  qed
qed

text \<open>A destination that starts at most \<open>num\<close> bytes above the source would be read after it
  has been overwritten; every other placement, overlapping or not, is copied as it was.\<close>

lemma forward_safe:
  fixes dst src num j :: u32
  assumes "dst = src \<or> num \<le> dst - src" and "j < num"
  shows "\<not> (src + j - dst < j)"
proof -
  have "src + j - dst = j - (dst - src)"
    by (simp add: algebra_simps)
  moreover have "j < e \<Longrightarrow> \<not> j - e < j" for e :: u32
    by unat_arith
  ultimately show ?thesis
    using assms by (metis diff_self order_less_irrefl order_less_le_trans right_minus_eq diff_zero)
qed

lemma memcpy_loop_0:
  "dst = src \<or> num \<le> dst - src \<Longrightarrow> memcpy_loop dst src num 0 m
     = (\<lambda>k. if k - dst < num then m (src + (k - dst)) else m k)"
  using forward_safe [of dst src num] by (subst memcpy_loop_spec) auto

lemma strcpy_loop_memcpy:
  assumes "i \<le> N" and "N < N + 1"
    and "\<And>j. i \<le> j \<Longrightarrow> j < N + 1 \<Longrightarrow> \<not> (i \<le> s + j - d \<and> s + j - d < j)"
    and "\<And>j. i \<le> j \<Longrightarrow> j < N \<Longrightarrow> m (s + j) \<noteq> 0" and "m (s + N) = 0"
  shows "strcpy_loop d s i m = Some (memcpy_loop d s (N + 1) i m)"
  using assms(1,3-5)
proof (induction "unat N - unat i" arbitrary: i m)
  case 0
  then have "i = N" by (simp add: word_le_nat_alt word_unat_eq_iff)
  with 0 assms(2) show ?case
    by (simp add: strcpy_loop.simps [of d s N] memcpy_loop.simps [of d s "N + 1" N]
        memcpy_loop.simps [of d s "N + 1" "N + 1"] fun_eq_iff)
next
  case (Suc x)
  then have i: "i < N" by (simp add: word_less_nat_alt)
  then have i': "i < N + 1" using assms(2) by (rule order.strict_trans)
  let ?m = "m(d + i := m (s + i))"
  have same: "?m (s + j) = m (s + j)" if "i < j" "j < N + 1" for j
    using Suc.prems(2) [of j] that less_imp_le [of i j] by (auto simp: upd_at_offset)
  have "strcpy_loop d s (i + 1) ?m = Some (memcpy_loop d s (N + 1) (i + 1) ?m)"
  proof (rule Suc.hyps)
    show "x = unat N - unat (i + 1)" using Suc.hyps(2) i by simp
    show "i + 1 \<le> N" using i by (rule inc_le)
    show "\<not> (i + 1 \<le> s + j - d \<and> s + j - d < j)" if "i + 1 \<le> j" "j < N + 1" for j
      using Suc.prems(2) [of j] that by (auto simp: inc_le_iff_less [OF i])
    show "?m (s + j) \<noteq> 0" if "i + 1 \<le> j" "j < N" for j
      using Suc.prems(3) [of j] same [of j] that assms(2)
      by (auto simp: inc_le_iff_less [OF i] dest: order.strict_trans)
    show "?m (s + N) = 0"
      using same [of N] i assms(2) Suc.prems(4) by simp
  qed
  moreover have "strcpy_loop d s i m = strcpy_loop d s (i + 1) ?m"
    using Suc.prems(3) [of i] i by (simp add: strcpy_loop.simps [of d s i])
  ultimately show ?case
    using i' by (simp add: memcpy_loop.simps [of d s "N + 1" i])
qed

lemma c_stringD:
  assumes "c_string m a xs"
  defines "N \<equiv> of_nat (length xs) :: u32"
  shows "unat N = length xs" and "m (a + N) = 0"
    and "j < N \<Longrightarrow> unat j < length xs \<and> m (a + j) = xs ! unat j \<and> xs ! unat j \<noteq> 0"
proof -
  show N: "unat N = length xs"
    using assms by (simp add: c_string_def unat_of_nat_small)
  show "m (a + N) = 0"
    using assms by (simp add: c_string_def)
  assume "j < N"
  then have j: "unat j < length xs" using N by (simp add: word_less_nat_alt)
  have "bytes_at m a (length xs) ! unat j = m (a + j)"
    using j by simp
  then have "m (a + j) = xs ! unat j"
    using assms(1) by (simp add: c_string_def)
  moreover have "xs ! unat j \<noteq> 0"
    using assms(1) nth_mem [OF j] unfolding c_string_def by metis
  ultimately show "unat j < length xs \<and> m (a + j) = xs ! unat j \<and> xs ! unat j \<noteq> 0"
    using j by simp
qed

lemma c_stringI:
  assumes "length xs < 2 ^ 32" and "\<And>j. j < of_nat (length xs) \<Longrightarrow> m (a + j) = xs ! unat j"
    and "m (a + of_nat (length xs)) = 0" and "0 \<notin> set xs"
  shows "c_string m a xs"
proof -
  have "bytes_at m a (length xs) = xs"
  proof (rule nth_equalityI)
    fix k assume k: "k < length (bytes_at m a (length xs))"
    then have "unat (of_nat k :: u32) = k"
      using assms(1) by (simp add: unat_of_nat_small)
    moreover from this k assms(1) have "(of_nat k :: u32) < of_nat (length xs)"
      by (simp add: word_less_nat_alt unat_of_nat_small)
    ultimately show "bytes_at m a (length xs) ! k = xs ! k"
      using assms(2) [of "of_nat k"] k by simp
  qed simp
  with assms show ?thesis by (simp add: c_string_def)
qed

section \<open>Properties\<close>

text \<open>C37: \<^verbatim>\<open>memcpy\<close> delivers a snapshot of the source in the destination and changes
  nothing else, for every placement in which the destination does not start inside the
  source behind its first byte; the returned pointer is \<^verbatim>\<open>dst\<close>.\<close>

theorem memcpy_snapshot:
  assumes "dst \<noteq> 0" and "src \<noteq> 0" and "dst = src \<or> num \<le> dst - src"
  shows "memcpy dst src num m
     = (dst, \<lambda>k. if k - dst < num then m (src + (k - dst)) else m k)"
  using assms by (simp add: memcpy_def memcpy_loop_0)

theorem memcpy_snapshot_witness:
  "memcpy 0x2000 0x1000 0x10 (\<lambda>a. ucast a)
     = (0x2000, \<lambda>k. if k - 0x2000 < 0x10 then ucast (0x1000 + (k - 0x2000)) else ucast k)"
  by (rule memcpy_snapshot) simp_all

lemma strcpy_eq_memcpy:
  assumes "c_string m src xs" and "length xs + 1 < 2 ^ 32" and "dst \<noteq> 0" and "src \<noteq> 0"
    and "dst = src \<or> of_nat (length xs + 1) \<le> dst - src"
  shows "strcpy dst src m = Some (memcpy dst src (of_nat (length xs + 1)) m)"
proof -
  define N where "N = (of_nat (length xs) :: u32)"
  note str = c_stringD [OF assms(1), folded N_def]
  have N1: "of_nat (length xs + 1) = N + 1" by (simp add: N_def)
  have "N < N + 1"
    using assms(2) unfolding N_def by (intro of_nat_less_inc) simp
  then have "strcpy_loop dst src 0 m = Some (memcpy_loop dst src (N + 1) 0 m)"
    by (rule strcpy_loop_memcpy [rotated])
      (use str(2) forward_safe [OF assms(5) [unfolded N1]] in \<open>auto dest: str(3)\<close>)
  with assms(3,4) show ?thesis
    unfolding N1 by (simp add: strcpy_def memcpy_def)
qed

text \<open>\<^verbatim>\<open>strcpy\<close> of a NUL-terminated string returns \<^verbatim>\<open>dst\<close>; the same
  string then stands at \<^verbatim>\<open>dst\<close>, and no byte outside its length plus one is
  written.\<close>

lemma strcpy_correct:
  assumes "c_string m src xs" and "length xs + 1 < 2 ^ 32" and "dst \<noteq> 0" and "src \<noteq> 0"
    and "dst = src \<or> of_nat (length xs + 1) \<le> dst - src"
  shows "\<exists>m'. strcpy dst src m = Some (dst, m') \<and> c_string m' dst xs
     \<and> (\<forall>k. of_nat (length xs + 1) \<le> k - dst \<longrightarrow> m' k = m k)"
proof -
  define N where "N = (of_nat (length xs) :: u32)"
  have N1: "of_nat (length xs + 1) = N + 1" by (simp add: N_def)
  have lt: "N < N + 1"
    using assms(2) unfolding N_def by (intro of_nat_less_inc) simp
  let ?m = "\<lambda>k. if k - dst < N + 1 then m (src + (k - dst)) else m k"
  have "c_string ?m dst xs"
  proof (rule c_stringI)
    show "length xs < 2 ^ 32" using assms(2) by simp
    show "?m (dst + j) = xs ! unat j" if "j < of_nat (length xs)" for j
      using c_stringD(3) [OF assms(1) that] that order.strict_trans [OF _ lt, of j]
      by (simp add: N_def)
    show "?m (dst + of_nat (length xs)) = 0"
      using lt c_stringD(2) [OF assms(1)] by (simp add: N_def)
    show "0 \<notin> set xs" using assms(1) by (simp add: c_string_def)
  qed
  moreover have "strcpy dst src m = Some (dst, ?m)"
    using strcpy_eq_memcpy [OF assms] memcpy_loop_0 [OF assms(5)] assms(3,4)
    unfolding N1 by (simp add: memcpy_def)
  ultimately show ?thesis
    unfolding N1 by (intro exI [of _ ?m]) auto
qed

lemma strcpy_correct_witness:
  "\<exists>m'. strcpy 0x2000 0x1000 ((\<lambda>_. 0)(0x1000 := 104, 0x1001 := 105)) = Some (0x2000, m')
     \<and> c_string m' 0x2000 [104, 105]
     \<and> (\<forall>k. of_nat (length [104, 105 :: u8] + 1) \<le> k - 0x2000
          \<longrightarrow> m' k = ((\<lambda>_. 0)(0x1000 := 104, 0x1001 := 105)) k)"
  by (rule strcpy_correct) (simp_all add: c_string_def bytes_at_def)

lemma c_string_NUL_iff:
  assumes "c_string m a xs" and "j \<le> of_nat (length xs)"
  shows "m (a + j) = 0 \<longleftrightarrow> j = of_nat (length xs)"
  using assms c_stringD(2,3) [OF assms(1)] by (auto dest: le_neq_trans)

text \<open>Two strings agree up to the index where the comparison loop stops.\<close>

lemma strcmp_stop:
  assumes "c_string m a xs" and "c_string m b ys"
  obtains N where
    "while_inc (\<lambda>i. m (a + i) = m (b + i) \<and> m (a + i) \<noteq> 0) 0 = Some N"
    "N \<le> of_nat (length xs)" "N \<le> of_nat (length ys)"
    "m (a + N) = m (b + N) \<longleftrightarrow> xs = ys"
proof -
  let ?c = "\<lambda>i. m (a + i) = m (b + i) \<and> m (a + i) \<noteq> 0"
  have "\<not> ?c (of_nat (length xs))" using c_stringD(2) [OF assms(1)] by simp
  then obtain N where N: "N \<le> of_nat (length xs)" "while_inc ?c 0 = Some N" "\<not> ?c N"
    and below: "\<And>j. j < N \<Longrightarrow> ?c j"
    using while_inc_stops [of 0 "of_nat (length xs)" ?c] by auto
  have Ny: "N \<le> of_nat (length ys)"
    using below [of "of_nat (length ys)"] c_stringD(2) [OF assms(2)] by force
  have "xs = ys" if eq: "m (a + N) = m (b + N)"
  proof (rule nth_equalityI)
    have zero: "m (a + N) = 0" "m (b + N) = 0" using N(3) eq by auto
    then have "N = of_nat (length xs)" "N = of_nat (length ys)"
      using c_string_NUL_iff [OF assms(1) N(1)] c_string_NUL_iff [OF assms(2) Ny] by auto
    then show len: "length xs = length ys"
      using c_stringD(1) [OF assms(1)] c_stringD(1) [OF assms(2)] by metis
    fix k assume k: "k < length xs"
    then have j: "unat (of_nat k :: u32) = k" "(of_nat k :: u32) < N"
      using \<open>N = of_nat (length xs)\<close> c_stringD(1) [OF assms(1)] assms(1)
      by (simp_all add: word_less_nat_alt unat_of_nat_small c_string_def)
    then show "xs ! k = ys ! k"
      using c_stringD(3) [OF assms(1), of "of_nat k"] c_stringD(3) [OF assms(2), of "of_nat k"]
        below [of "of_nat k"] \<open>N = of_nat (length xs)\<close> \<open>N = of_nat (length ys)\<close> by simp
  qed
  moreover have "m (a + N) = m (b + N)" if "xs = ys"
    using N(1,3) c_stringD(2,3) [OF assms(1)] c_stringD(2,3) [OF assms(2)] that
    by (metis order_le_less)
  ultimately show thesis
    using N(1,2) Ny by (intro that [of N]) auto
qed

lemma strcmp_result:
  assumes "c_string m a xs" and "c_string m b ys" and "a \<noteq> 0" and "b \<noteq> 0"
  shows "\<exists>r. strcmp a b m = Some r \<and> (r = 0 \<longleftrightarrow> xs = ys) \<and> \<bar>r\<bar> \<le> 255 \<and> r \<noteq> STRING_NULL_ERROR"
proof -
  obtain N where N: "while_inc (\<lambda>i. m (a + i) = m (b + i) \<and> m (a + i) \<noteq> 0) 0 = Some N"
    "m (a + N) = m (b + N) \<longleftrightarrow> xs = ys"
    using strcmp_stop [OF assms(1,2)] .
  have "\<bar>sint (m (a + N)) - sint (m (b + N))\<bar> \<le> 255"
    using sint_u8_bounds [of "m (a + N)"] sint_u8_bounds [of "m (b + N)"] by arith
  with N assms(3,4) show ?thesis
    by (auto simp: strcmp_def STRING_NULL_ERROR_def signed_word_eqI)
qed

text \<open>C36: \<^verbatim>\<open>strcmp\<close> on two NUL-terminated strings returns, the result is 0 exactly for
  equal strings, and it lies between -255 and 255, so the value reserved for a NULL argument
  is never the result of a comparison.\<close>

theorem strcmp_correct:
  assumes "c_string m a xs" and "c_string m b ys" and "a \<noteq> 0" and "b \<noteq> 0"
  shows "\<exists>r. strcmp a b m = Some r \<and> (r = 0 \<longleftrightarrow> xs = ys) \<and> \<bar>r\<bar> \<le> 255 \<and> r \<noteq> STRING_NULL_ERROR"
  by (rule strcmp_result [OF assms])

theorem strcmp_correct_witness:
  "\<exists>r. strcmp 0x1000 0x2000 ((\<lambda>_. 0)(0x1000 := 104, 0x2000 := 105)) = Some r
     \<and> (r = 0 \<longleftrightarrow> [104] = [105 :: u8]) \<and> \<bar>r\<bar> \<le> 255 \<and> r \<noteq> STRING_NULL_ERROR"
  by (rule strcmp_correct) (simp_all add: c_string_def bytes_at_def)

lemma strncpy_pad_memset: "strncpy_pad d num i m = memset_loop d 0 num i m"
proof (induction d num i m rule: strncpy_pad.induct)
  case (1 d num i m)
  then show ?case
    by (simp add: strncpy_pad.simps [of d num i] memset_loop.simps [of d 0 num i] fun_upd_def)
qed

lemma strncpy_copy_memcpy:
  assumes "i \<le> K" and "K \<le> num"
    and "\<And>j. i \<le> j \<Longrightarrow> j \<le> K \<Longrightarrow> \<not> (i \<le> s + j - d \<and> s + j - d < j)"
    and "\<And>j. i \<le> j \<Longrightarrow> j < K \<Longrightarrow> m (s + j) \<noteq> 0" and "K = num \<or> m (s + K) = 0"
  shows "strncpy_copy d s num i m = (K, memcpy_loop d s K i m)"
  using assms(1,3-5)
proof (induction "unat K - unat i" arbitrary: i m)
  case 0
  then have "i = K" by (simp add: word_le_nat_alt word_unat_eq_iff)
  with 0 show ?case
    by (auto simp: strncpy_copy.simps [of d s num K] memcpy_loop.simps [of d s K K])
next
  case (Suc x)
  then have i: "i < K" by (simp add: word_less_nat_alt)
  let ?m = "m(d + i := m (s + i))"
  have same: "?m (s + j) = m (s + j)" if "i < j" "j \<le> K" for j
    using Suc.prems(2) [of j] that less_imp_le [of i j] by (auto simp: upd_at_offset)
  have "strncpy_copy d s num (i + 1) ?m = (K, memcpy_loop d s K (i + 1) ?m)"
  proof (rule Suc.hyps)
    show "x = unat K - unat (i + 1)" using Suc.hyps(2) i by simp
    show "i + 1 \<le> K" using i by (rule inc_le)
    show "\<not> (i + 1 \<le> s + j - d \<and> s + j - d < j)" if "i + 1 \<le> j" "j \<le> K" for j
      using Suc.prems(2) [of j] that by (auto simp: inc_le_iff_less [OF i])
    show "?m (s + j) \<noteq> 0" if "i + 1 \<le> j" "j < K" for j
      using Suc.prems(3) [of j] same [of j] that by (auto simp: inc_le_iff_less [OF i])
    show "K = num \<or> ?m (s + K) = 0"
      using same [of K] i Suc.prems(4) by auto
  qed
  moreover have "strncpy_copy d s num i m = strncpy_copy d s num (i + 1) ?m"
    using Suc.prems(3) [of i] order_less_le_trans [OF i assms(2)] i
    by (simp add: strncpy_copy.simps [of d s num i])
  ultimately show ?case
    using i by (simp add: memcpy_loop.simps [of d s K i])
qed

text \<open>Whatever the source, nothing outside the destination changes.\<close>

lemma strncpy_copy_other: "num \<le> k - d \<Longrightarrow> i \<le> num \<Longrightarrow> snd (strncpy_copy d s num i m) k = m k \<and> fst (strncpy_copy d s num i m) \<le> num"
proof (induction d s num i m rule: strncpy_copy.induct)
  case (1 d s num i m)
  show ?case
  proof (cases "i < num \<and> m (s + i) \<noteq> 0")
    case True
    then have "k \<noteq> d + i" "i + 1 \<le> num" using "1.prems" by (auto simp: inc_le)
    then show ?thesis using 1 True by (simp add: strncpy_copy.simps [of d s num i m] fun_upd_def)
  qed (use 1 in \<open>auto simp: strncpy_copy.simps [of d s num i m]\<close>)
qed

lemma strncpy_other:
  assumes "\<not> k - dst < num" and "0 < num"
  shows "snd (strncpy dst src num m) k = m k"
proof -
  have "num - 1 < num" using assms(2) by (simp add: word_less_nat_alt unat_sub_if')
  then have "k \<noteq> dst + (num - 1)" using assms(1) by auto
  then show ?thesis
    using assms strncpy_copy_other [of num k dst 0 src m]
    by (auto simp: strncpy_def strncpy_pad_memset memset_loop_spec Let_def split: prod.splits)
qed

lemma strncpy_eq:
  fixes num :: u32
  assumes "c_string m src xs" and "dst \<noteq> 0" and "src \<noteq> 0" and "dst = src \<or> num < dst - src"
  defines "K \<equiv> min num (of_nat (length xs))"
  shows "strncpy dst src num m = (dst, \<lambda>k.
     if k - dst = num - 1 \<or> K \<le> k - dst \<and> k - dst < num then 0
     else if k - dst < K then m (src + (k - dst)) else m k)"
proof -
  note str = c_stringD [OF assms(1)]
  have K: "K \<le> num" by (simp add: K_def)
  have safe: "\<not> (src + j - dst < j)" if "j \<le> K" for j
    using that K assms(4) forward_safe [of dst src "dst - src" j]
    by (auto dest: order_le_less_trans order_trans)
  have nz: "m (src + j) \<noteq> 0" if "j < K" for j
    using that str(3) [of j] by (simp add: K_def)
  have copy: "strncpy_copy dst src num 0 m = (K, memcpy_loop dst src K 0 m)"
    by (rule strncpy_copy_memcpy) (use str(2) safe nz in \<open>auto simp: K_def min_def\<close>)
  have "memcpy_loop dst src K 0 m = (\<lambda>k. if k - dst < K then m (src + (k - dst)) else m k)"
    using safe by (subst memcpy_loop_spec) auto
  with copy K assms(2,3) show ?thesis
    by (auto simp: strncpy_def strncpy_pad_memset memset_loop_spec fun_eq_iff upd_at_offset
        simp del: fun_upd_apply)
qed

text \<open>\<^verbatim>\<open>strncpy\<close> with a positive size leaves the longest prefix of the source
  that fits in \<^verbatim>\<open>num - 1\<close> bytes at \<^verbatim>\<open>dst\<close>, always NUL-terminated, and
  writes nothing outside the \<^verbatim>\<open>num\<close> bytes.\<close>

lemma strncpy_prefix:
  assumes "c_string m src xs" and "0 < num" and "dst \<noteq> 0" and "src \<noteq> 0"
    and "dst = src \<or> num < dst - src"
  shows "c_string (snd (strncpy dst src num m)) dst (take (unat num - 1) xs)
     \<and> (\<forall>k. num \<le> k - dst \<longrightarrow> snd (strncpy dst src num m) k = m k)"
proof -
  define N where "N = (of_nat (length xs) :: u32)"
  note res = strncpy_eq [OF assms(1,3-5), folded N_def]
  note str = c_stringD [OF assms(1), folded N_def]
  have n1: "unat num - 1 = unat (num - 1)"
    using assms(2) by (simp add: unat_minus_one)
  have pred: "j < num - 1 \<Longrightarrow> j < num" for j
    using assms(2) by unat_arith
  let ?L = "min (num - 1) N"
  have L: "of_nat (length (take (unat num - 1) xs)) = ?L"
    unfolding n1 using str(1) by (auto simp: N_def min_def word_le_nat_alt)
  have "c_string (snd (strncpy dst src num m)) dst (take (unat num - 1) xs)"
  proof (rule c_stringI)
    show "length (take (unat num - 1) xs) < 2 ^ 32"
      using assms(1) by (auto simp: c_string_def)
    show "0 \<notin> set (take (unat num - 1) xs)"
      using assms(1) by (auto simp: c_string_def dest: in_set_takeD)
    have "?L = num - 1 \<or> min num N \<le> ?L \<and> ?L < num"
      using pred by (auto simp: min_def)
    then show "snd (strncpy dst src num m) (dst + of_nat (length (take (unat num - 1) xs))) = 0"
      unfolding L res by auto
    show "snd (strncpy dst src num m) (dst + j) = take (unat num - 1) xs ! unat j"
      if "j < of_nat (length (take (unat num - 1) xs))" for j
    proof -
      have j: "j < num - 1" "j < N" using that unfolding L by simp_all
      have "unat j < unat num - 1" using j(1) unfolding n1 word_less_nat_alt .
      then show ?thesis using str(3) [OF j(2)] j pred by (auto simp: res not_le)
    qed
  qed
  moreover have "snd (strncpy dst src num m) k = m k" if "num \<le> k - dst" for k
    using that assms(2) less_eq_dec_iff [of num num] by (auto simp: res)
  ultimately show ?thesis by blast
qed

lemma strncpy_prefix_witness:
  "c_string (snd (strncpy 0x2000 0x1000 2 ((\<lambda>_. 0)(0x1000 := 104, 0x1001 := 105)))) 0x2000 [104]
     \<and> snd (strncpy 0x2000 0x1000 2 ((\<lambda>_. 0)(0x1000 := 104, 0x1001 := 105))) 0x1001 = 105"
  using strncpy_prefix
    [of "(\<lambda>_. 0)(0x1000 := 104, 0x1001 := 105)" "0x1000" "[104, 105]" 2 "0x2000"]
  by (simp add: c_string_def bytes_at_def)

section \<open>Where the code departs from what it promises\<close>

text \<open>With \<^verbatim>\<open>num = 0\<close>, \<^verbatim>\<open>strncpy\<close> still terminates "the string": it
  zeroes the byte in front of the destination.\<close>

lemma strncpy_zero_clobbers:
  "dst \<noteq> 0 \<Longrightarrow> src \<noteq> 0 \<Longrightarrow> strncpy dst src 0 m = (dst, m(dst - 1 := 0))"
  by (simp add: strncpy_def strncpy_copy.simps [of dst src 0 0] strncpy_pad.simps [of dst 0 0])

text \<open>\<^verbatim>\<open>memmove\<close> is \<^verbatim>\<open>memcpy\<close>, so an overlapping move upwards repeats the
  first byte instead of moving the second.\<close>

lemma memmove_overlap_loses_byte:
  "snd (memmove 0x101 0x100 2 ((\<lambda>_. 0)(0x100 := 1, 0x101 := 2))) 0x102 = 1"
  by (simp add: memmove_def memcpy_def memcpy_loop.simps)

text \<open>\<^verbatim>\<open>strchr\<close> returns the start of the string, not the place of the
  character.\<close>

lemma strchr_returns_start:
  assumes "c_string m s xs" and "ch \<in> set xs"
  shows "strchr s ch m = Some s"
proof -
  let ?c = "\<lambda>i. m (s + i) \<noteq> 0 \<and> m (s + i) \<noteq> ch"
  note str = c_stringD [OF assms(1)]
  obtain k where k: "k < length xs" "xs ! k = ch" using assms(2) by (auto simp: in_set_conv_nth)
  then have kw: "unat (of_nat k :: u32) = k" "(of_nat k :: u32) < of_nat (length xs)"
    using assms(1) by (simp_all add: c_string_def word_less_nat_alt unat_of_nat_small)
  then have "\<not> ?c (of_nat k)" using str(3) [of "of_nat k"] k by simp
  then obtain N where N: "N \<le> of_nat k" "while_inc ?c 0 = Some N" "\<not> ?c N"
    using while_inc_stops [of 0 "of_nat k" ?c] by auto
  have "m (s + N) \<noteq> 0" using str(3) [of N] N(1) kw(2) by auto
  with N(2) show ?thesis by (simp add: strchr_def)
qed

end
