(* ===== verification/Vmem.thy ===== *)
theory Vmem
  imports Vmm Kernel_String
begin

text \<open>
  Kernel accesses to mapped pages of data: what \<^verbatim>\<open>memset\<close>, \<^verbatim>\<open>memcpy\<close> and
  assignments through pointers do when the addresses go through the page walk. A page of data is
  a writable page whose frame holds neither a page table nor the bitmap of the frame allocator;
  there the accesses are those of physical memory, shifted from the page to its frame.
\<close>

section \<open>Operations\<close>

definition vload8 :: "u32 \<Rightarrow> ('a) vmm_state_scheme \<Rightarrow> kerror + u8" where
  "vload8 va s = (case physical False va s of None \<Rightarrow> Inl (Page_fault va) | Some pa \<Rightarrow> Inr (pmem s pa))"

definition vstore16 :: "u32 \<Rightarrow> u16 \<Rightarrow> ('a) vmm_state_scheme \<Rightarrow> kerror + ('a) vmm_state_scheme" where
  "vstore16 va v s = (case physical True va s of None \<Rightarrow> Inl (Page_fault va) | Some pa \<Rightarrow> Inr (s\<lparr>pmem := store16 (pmem s) pa v\<rparr>))"

text \<open>\<^verbatim>\<open>memcpy\<close> of \<^verbatim>\<open>string.c\<close> when its accesses go through the page walk.\<close>

function vmemcpy_loop ::
  "u32 \<Rightarrow> u32 \<Rightarrow> u32 \<Rightarrow> u32 \<Rightarrow> ('a) vmm_state_scheme \<Rightarrow> kerror + ('a) vmm_state_scheme" where
  "vmemcpy_loop d src n i s =
     (if i < n then
        ebind (vload8 (src + i) s) (\<lambda>b. ebind (vstore8 (d + i) b s) (\<lambda>s. vmemcpy_loop d src n (i + 1) s))
      else Inr s)"
  by pat_completeness auto
termination
  by (relation "measure (\<lambda>(d, src, n, i, s). unat n - unat i)") auto

declare vmemcpy_loop.simps [simp del]

definition vmemcpy :: "u32 \<Rightarrow> u32 \<Rightarrow> u32 \<Rightarrow> ('a) vmm_state_scheme \<Rightarrow> kerror + ('a) vmm_state_scheme" where
  "vmemcpy d src n s = (if d = 0 \<or> src = 0 then Inr s else vmemcpy_loop d src n 0 s)"

section \<open>What changes only memory\<close>

lemma vstore32_only_mem: "vstore32 a v s = Inr s' \<Longrightarrow> \<exists>m. s' = s\<lparr>pmem := m\<rparr>"
  by (auto simp: vstore32_def split: option.splits)

lemma vmemset_loop_only_mem: "vmemset_loop va c n i s = Inr s' \<Longrightarrow> \<exists>m. s' = s\<lparr>pmem := m\<rparr>"
proof (induction va c n i s arbitrary: s' rule: vmemset_loop.induct)
  case (1 va c n i s)
  show ?case
  proof (cases "i < n")
    case True
    with 1(2) obtain s1 where "vstore8 (va + i) c s = Inr s1" "vmemset_loop va c n (i + 1) s1 = Inr s'"
      by (auto simp: vmemset_loop.simps [of va c n i] ebind_Inr_iff)
    moreover from this(1) obtain m where "s1 = s\<lparr>pmem := m\<rparr>"
      by (auto simp: vstore8_def split: option.splits)
    ultimately show ?thesis using 1(1) [OF True, of s1 s'] by auto
  next
    case False
    with 1(2) have "s' = s\<lparr>pmem := pmem s\<rparr>" by (simp add: vmemset_loop.simps [of va c n i])
    then show ?thesis by blast
  qed
qed

lemma pmm_alloc_first_only_mem: "\<exists>m. snd (pmm_alloc_first s) = s\<lparr>pmem := m\<rparr>" for s :: "('a) vmm_state_scheme"
proof -
  have "snd (pmm_alloc_loop 1 s) = s \<or> (\<exists>b. snd (pmm_alloc_loop 1 s) = pmm_set_block b s)"
    using pmm_alloc_loop_cases [of 1 s] by auto
  moreover have "s = s\<lparr>pmem := pmem s\<rparr>" by simp
  ultimately show ?thesis unfolding pmm_alloc_first_def pmm_set_block_def by metis
qed

lemma vmm_map_page_only_mem:
  assumes "vmm_map_page p v acl s = Inr (r, s')"
  shows "\<exists>m. s' = s\<lparr>pmem := m\<rparr>"
proof -
  have id: "\<exists>m. s = s\<lparr>pmem := m\<rparr>" by (rule exI [of _ "pmem s"]) simp
  obtain q s1 where al: "pmm_alloc_first s = (q, s1)" by fastforce
  with pmm_alloc_first_only_mem [of s] obtain m where s1: "s1 = s\<lparr>pmem := m\<rparr>" by auto
  have ms: "\<exists>m. s3 = s2\<lparr>pmem := m\<rparr>" if "vmemset a c n s2 = Inr s3" for a c n s2 s3
  proof (cases "a = 0")
    case True
    with that have "s3 = s2\<lparr>pmem := pmem s2\<rparr>" by (simp add: vmemset_def)
    then show ?thesis by blast
  qed (use that in \<open>auto simp: vmemset_def intro: vmemset_loop_only_mem\<close>)
  show ?thesis
    using assms id al s1
    by (auto simp: vmm_map_page_def Let_def ebind_Inr_iff split: prod.splits if_splits
        dest!: vstore32_only_mem ms)
qed

section \<open>Pages of data\<close>

definition data_frame :: "('a) vmm_state_scheme \<Rightarrow> u32 \<Rightarrow> bool" where
  "data_frame s f \<longleftrightarrow> f mod 4096 = 0 \<and> \<not> bitmap_page s (f div 4096)
     \<and> (\<forall>d < 1024. page_present (pde s d) \<longrightarrow> ptbl s d \<noteq> f)"

definition data_page :: "('a) vmm_state_scheme \<Rightarrow> u32 \<Rightarrow> u32 \<Rightarrow> bool" where
  "data_page s va f \<longleftrightarrow> vmm_inv s \<and> va mod 4096 = 0 \<and> fst (ADDR2INDEX va) < 1023 \<and> data_frame s f
     \<and> (\<exists>e. mappings s (ADDR2INDEX va) = Some e \<and> page_writable e \<and> page_frame e = f)"

lemma data_write:
  assumes inv: "vmm_inv s" and f: "data_frame s f" and upd: "only_page (f div 4096) s s'"
  shows "vmm_inv s'" and "mappings s' = mappings s" and "\<And>d. d < 1024 \<Longrightarrow> pde s' d = pde s d" and "data_frame s' g = data_frame s g"
proof -
  note I = vmm_invD [OF inv] and flds = only_page_fields [OF upd]
  have mem: "k div 4096 \<noteq> f div 4096 \<Longrightarrow> pmem s' k = pmem s k" for k
    using upd by (simp add: only_page_def)
  have other: "ptbl s d div 4096 \<noteq> f div 4096" if "d < 1024" "page_present (pde s d)" for d
    using f that by (auto simp: data_frame_def page_eq_div)
  show pde: "pde s' d = pde s d" if "d < 1024" for d
    unfolding pde_def flds using other [of 1023] I(3,4) mem that by (intro load32_other_page) auto
  have ptbl: "ptbl s' d = ptbl s d" if "d < 1024" for d
    using pde [OF that] by (simp add: ptbl_def)
  have pte: "pte s' d j = pte s d j" if "d < 1024" "j < 1024" "page_present (pde s d)" for d j
    unfolding pte_def ptbl [OF that(1)] using other [OF that(1,3)] mem that(2) by (intro load32_other_page) auto
  have taken: "b < pmm_bitmap_sz s \<Longrightarrow> b \<in> taken s' \<longleftrightarrow> b \<in> taken s" for b
    using taken_other_page [OF upd] f by (simp add: data_frame_def)
  show "vmm_inv s'" unfolding vmm_inv_def flds using I taken by (auto simp: pde ptbl)
  show "mappings s' = mappings s"
    by (rule ext) (auto simp: mappings_def pde pte below_window)
  show "data_frame s' g = data_frame s g" by (auto simp: data_frame_def flds pde ptbl)
qed

lemma data_page_write:
  "data_page s va f \<Longrightarrow> only_page (f div 4096) s s' \<Longrightarrow> data_page s' va f"
  unfolding data_page_def using data_write [of s f s'] by auto

lemma data_page_frame: "data_page s va f \<Longrightarrow> f mod 4096 = 0 \<and> va mod 4096 = 0"
  by (simp add: data_page_def data_frame_def)

lemma page_index:
  fixes va off :: u32
  assumes "va mod 4096 = 0" and "off < 4096"
  shows "ADDR2INDEX (va + off) = ADDR2INDEX va"
  using page_offset(2) [OF assms] ADDR2INDEX_same_page by blast

lemma data_page_physical:
  assumes "data_page s va f" and "off < 4096"
  shows "physical wr (va + off) s = Some (f + off)"
proof -
  obtain d i where ix: "ADDR2INDEX va = (d, i)" by (cases "ADDR2INDEX va")
  have va: "va mod 4096 = 0" "d < 1023" "vmm_inv s" using assms(1) ix by (simp_all add: data_page_def)
  note idx = page_index [OF va(1) assms(2)]
  show ?thesis
    using physical_mappings [OF va(3), of "va + off" d i wr] idx ix va(2) assms(1) page_offset(3) [OF va(1) assms(2)]
    by (auto simp: data_page_def KB4_def)
qed

lemma only_page_byte:
  assumes "f mod 4096 = 0" and "off < 4096"
  shows "only_page (f div 4096) s (s\<lparr>pmem := (pmem s)(f + off := v)\<rparr>)"
  using page_offset(2) [OF assms] by (auto simp: only_page_def)

lemma data_page_vstore8:
  assumes "data_page s va f" and "off < 4096"
  shows "vstore8 (va + off) v s = Inr (s\<lparr>pmem := (pmem s)(f + off := v)\<rparr>)"
    and "data_page (s\<lparr>pmem := (pmem s)(f + off := v)\<rparr>) va f"
  using data_page_physical [OF assms] data_page_write [OF assms(1) only_page_byte] data_page_frame [OF assms(1)] assms(2)
  by (simp_all add: vstore8_def)

lemma data_page_word:
  assumes "data_page s va f" and "i < 1024"
  shows "vload32 (va + 4 * i) s = Inr (load32 (pmem s) (f + 4 * i))"
    and "vstore32 (va + 4 * i) v s = Inr (s\<lparr>pmem := store32 (pmem s) (f + 4 * i) v\<rparr>)"
    and "data_page (s\<lparr>pmem := store32 (pmem s) (f + 4 * i) v\<rparr>) va f"
  using data_page_physical [OF assms(1), of "4 * i"] entry_offset [OF assms(2)] data_page_frame [OF assms(1)]
    data_page_write [OF assms(1) only_page_store32 [OF _ assms(2)]]
  by (simp_all add: vload32_def vstore32_def)

text \<open>An index of a run of \<open>n\<close> bytes that starts at offset \<open>o\<close> and stays in the page.\<close>

lemma run_offset:
  fixes i n b :: u32
  assumes "i < n" and "unat b + unat n \<le> 4096"
  shows "b + i < 4096"
proof -
  have "unat i < unat n" using assms(1) by (simp add: word_less_nat_alt)
  moreover from this have "unat (b + i) = unat b + unat i" using assms(2) by (intro unat_add_small) simp
  ultimately show ?thesis using assms(2) by (simp add: word_less_nat_alt)
qed

lemma vmemset_data:
  assumes "data_page s va f" and "unat b + unat n \<le> 4096" and "i \<le> n"
  shows "vmemset_loop (va + b) c n i s = Inr (s\<lparr>pmem := memset_loop (f + b) c n i (pmem s)\<rparr>)
     \<and> data_page (s\<lparr>pmem := memset_loop (f + b) c n i (pmem s)\<rparr>) va f"
  using assms
proof (induction "unat n - unat i" arbitrary: i s)
  case 0
  then have "i = n" by (simp add: word_le_nat_alt word_unat_eq_iff)
  with 0 show ?case by (simp add: vmemset_loop.simps [of _ _ n n] memset_loop.simps [of _ _ n n])
next
  case (Suc x)
  have i: "i < n" using Suc.hyps(2) by (simp add: word_less_nat_alt)
  note st = data_page_vstore8 [OF Suc.prems(1) run_offset [OF i Suc.prems(2)], of c]
  show ?case
    using i st Suc.hyps(1) [of "i + 1", OF _ st(2) Suc.prems(2)] Suc.hyps(2)
    by (simp add: vmemset_loop.simps [of _ _ n i] memset_loop.simps [of _ _ n i] add.assoc inc_le)
qed

lemma vmemcpy_data:
  assumes "data_page s va f" and "unat b + unat n \<le> 4096" and "data_page s wa g" and "unat c + unat n \<le> 4096" and "i \<le> n"
  shows "vmemcpy_loop (va + b) (wa + c) n i s = Inr (s\<lparr>pmem := memcpy_loop (f + b) (g + c) n i (pmem s)\<rparr>)
     \<and> data_page (s\<lparr>pmem := memcpy_loop (f + b) (g + c) n i (pmem s)\<rparr>) va f"
  using assms
proof (induction "unat n - unat i" arbitrary: i s)
  case 0
  then have "i = n" by (simp add: word_le_nat_alt word_unat_eq_iff)
  with 0 show ?case by (simp add: vmemcpy_loop.simps [of _ _ n n] memcpy_loop.simps [of _ _ n n])
next
  case (Suc x)
  have i: "i < n" using Suc.hyps(2) by (simp add: word_less_nat_alt)
  note off = run_offset [OF i Suc.prems(2)] run_offset [OF i Suc.prems(4)]
  have ld: "vload8 (wa + (c + i)) s = Inr (pmem s (g + (c + i)))"
    using data_page_physical [OF Suc.prems(3) off(2)] by (simp add: vload8_def)
  note st = data_page_vstore8 [OF Suc.prems(1) off(1), of "pmem s (g + (c + i))"]
  have src: "data_page (s\<lparr>pmem := (pmem s)(f + (b + i) := pmem s (g + (c + i)))\<rparr>) wa g"
  proof -
    have op: "only_page (f div 4096) s (s\<lparr>pmem := (pmem s)(f + (b + i) := pmem s (g + (c + i)))\<rparr>)"
      using data_page_frame [OF Suc.prems(1)] off(1) by (intro only_page_byte) simp_all
    have "vmm_inv s" "data_frame s f" using Suc.prems(1) by (simp_all add: data_page_def)
    from data_write [OF this op] show ?thesis using Suc.prems(3) by (simp add: data_page_def)
  qed
  show ?case
    using i ld st Suc.hyps(1) [of "i + 1", OF _ st(2) Suc.prems(2) src Suc.prems(4)] Suc.hyps(2)
    by (simp add: vmemcpy_loop.simps [of _ _ n i] memcpy_loop.simps [of _ _ n i] add.assoc inc_le)
qed

section \<open>A fresh page\<close>

text \<open>The frame the allocator hands out, mapped where nothing was: a page of data.\<close>

lemma fresh_data_page:
  assumes inv: "vmm_inv s" and al: "pmm_alloc_first s = (f, s1)" "f \<noteq> 0"
    and legal: "map_legal virt acl s1" and free: "mappings s (ADDR2INDEX virt) = None" and virt: "virt mod 4096 = 0"
  obtains s2 where "vmm_map_page f virt acl s1 = Inr (VMM_SUCCESS, s2)" "data_page s2 virt f"
    "mappings s2 = (mappings s)(ADDR2INDEX virt \<mapsto> f OR X86_PAGE_PRESENT OR acl)"
    "\<exists>m. s2 = s\<lparr>pmem := m\<rparr>" "\<forall>wa g. data_page s wa g \<and> g div 4096 \<in> taken s \<longrightarrow> data_page s2 wa g"
proof -
  note al' = alloc_fresh [OF inv al] and I = vmm_invD [OF inv]
  note keep = set_block_keeps [OF inv al'(3), folded al'(1)]
  have maps: "mappings s1 = mappings s"
    by (rule ext) (auto simp: mappings_def keep(1,2) below_window)
  have acl: "acl < 4096" "acl AND X86_PAGE_WRITABLE \<noteq> 0" using legal by (simp_all add: map_legal_def)
  obtain d i where ix: "ADDR2INDEX virt = (d, i)" by (cases "ADDR2INDEX virt")
  with legal have d: "d < 1023" "page_present (pde s1 d) \<or> fst (pmm_alloc_first s1) \<noteq> 0" by (simp_all add: map_legal_def)
  obtain s2 where s2: "vmm_map_page f virt acl s1 = Inr (VMM_SUCCESS, s2)" "vmm_inv s2"
    "mappings s2 = (mappings s1)(ADDR2INDEX virt \<mapsto> f OR X86_PAGE_PRESENT OR acl)"
    using pages.map_free [OF keep(3) legal] free maps by auto
  obtain m1 m where "s1 = s\<lparr>pmem := m1\<rparr>" and s2m: "s2 = s1\<lparr>pmem := m\<rparr>"
    using vmm_map_page_only_mem [OF s2(1)] al'(1) by (auto simp: pmm_set_block_def)
  then have s2s: "s2 = s\<lparr>pmem := m\<rparr>" by simp
  have bm: "bitmap_page s2 = bitmap_page s" unfolding s2s by (simp add: bitmap_page_def fun_eq_iff)
  have tables: "page_present (pde s e) \<and> ptbl s2 e = ptbl s e \<or> ptbl s2 e \<noteq> g"
    if e: "e < 1024" "page_present (pde s2 e)" and g: "g div 4096 \<in> taken s1" for e g
    using vmm_map_page_tables [OF keep(3) ix d(1) acl d(2) s2(1) e]
  proof
    assume "page_present (pde s1 e) \<and> ptbl s2 e = ptbl s1 e"
    then show ?thesis using keep(1) [OF e(1)] by (auto simp: ptbl_def)
  next
    assume new: "ptbl s2 e = fst (pmm_alloc_first s1) \<and> fst (pmm_alloc_first s1) \<noteq> 0"
    then obtain q t where "pmm_alloc_first s1 = (q, t)" "q \<noteq> 0" by (cases "pmm_alloc_first s1") auto
    then show ?thesis using alloc_fresh(4) [OF keep(3)] new g by auto
  qed
  have "ptbl s2 e \<noteq> f" if "e < 1024" "page_present (pde s2 e)" for e
    using tables [OF that, of f] I(7) [OF that(1)] al'(4) by (auto simp: al'(1,3))
  moreover have "\<not> bitmap_page s (f div 4096)" using I(10) al'(3,4) by blast
  ultimately have "data_frame s2 f" using al'(2) bm by (auto simp: data_frame_def)
  moreover have "page_frame (f OR X86_PAGE_PRESENT OR acl) = f" by (rule page_frame_flags [OF al'(2) acl(1)])
  moreover have "page_writable (f OR X86_PAGE_PRESENT OR acl)" by (rule flag_entry(2) [OF acl(2)])
  ultimately have "data_page s2 virt f" using s2 virt d(1) ix by (simp add: data_page_def)
  moreover have "data_page s2 wa g" if g: "data_page s wa g" "g div 4096 \<in> taken s" for wa g
  proof -
    have "g div 4096 \<in> taken s1" using g(2) by (simp add: al'(1,3))
    then have "ptbl s2 e \<noteq> g" if "e < 1024" "page_present (pde s2 e)" for e
      using g(1) tables [OF that, of g] that(1) by (auto simp: data_page_def data_frame_def)
    then have "data_frame s2 g" using g(1) bm by (auto simp: data_page_def data_frame_def)
    moreover have "ADDR2INDEX wa \<noteq> ADDR2INDEX virt" using g(1) free by (auto simp: data_page_def)
    ultimately show ?thesis using g(1) s2(2,3) maps by (auto simp: data_page_def)
  qed
  moreover have "\<exists>m. s2 = s\<lparr>pmem := m\<rparr>" using s2s by blast
  moreover have "mappings s2 = (mappings s)(ADDR2INDEX virt \<mapsto> f OR X86_PAGE_PRESENT OR acl)"
    using s2(3) maps by simp
  ultimately show thesis using s2(1) by (intro that [of s2]) blast+
qed

text \<open>A write to one page of data leaves the others alone.\<close>

lemma data_page_other:
  "data_page s va f \<Longrightarrow> only_page (f div 4096) s s' \<Longrightarrow> data_page s wa g \<Longrightarrow> data_page s' wa g"
  unfolding data_page_def using data_write [of s f s'] by auto

lemma only_page_trans: "only_page p s t \<Longrightarrow> only_page p t u \<Longrightarrow> only_page p s u"
proof -
  assume st: "only_page p s t" and tu: "only_page p t u"
  have t: "t = s\<lparr>pmem := pmem t\<rparr>" and u: "u = t\<lparr>pmem := pmem u\<rparr>" using st tu by (simp_all add: only_page_def)
  have "u = s\<lparr>pmem := pmem t\<rparr>\<lparr>pmem := pmem u\<rparr>" by (subst u, subst t) (rule refl)
  then have "u = s\<lparr>pmem := pmem u\<rparr>" by simp
  with st tu show ?thesis by (simp add: only_page_def)
qed

lemma only_page_memset:
  assumes "f mod 4096 = 0" and "unat b + unat n \<le> 4096"
  shows "only_page (f div 4096) s (s\<lparr>pmem := memset_loop (f + b) c n 0 (pmem s)\<rparr>)"
  unfolding only_page_def
proof safe
  fix k :: u32 assume k: "k div 4096 \<noteq> f div 4096"
  have "\<not> k - (f + b) < n"
    using run_offset [OF _ assms(2), of "k - (f + b)"] page_offset(2) [OF assms(1), of "b + (k - (f + b))"] k by auto
  then show "pmem (s\<lparr>pmem := memset_loop (f + b) c n 0 (pmem s)\<rparr>) k = pmem s k" by (simp add: memset_loop_spec)
qed simp

section \<open>States that look the same to the memory managers\<close>

definition vmm_view :: "('a) vmm_state_scheme \<Rightarrow> ('b) vmm_state_scheme \<Rightarrow> bool" where
  "vmm_view s t \<longleftrightarrow> pmem s = pmem t \<and> paging s = paging t \<and> cr3 s = cr3 t
     \<and> pmm_bitmap s = pmm_bitmap t \<and> pmm_bitmap_sz s = pmm_bitmap_sz t"

lemma alloc_loop_view:
  assumes "pmem s = pmem t" and "pmm_bitmap s = pmm_bitmap t" and "pmm_bitmap_sz s = pmm_bitmap_sz t"
  shows "fst (pmm_alloc_loop i s) = fst (pmm_alloc_loop i t) \<and> pmem (snd (pmm_alloc_loop i s)) = pmem (snd (pmm_alloc_loop i t))"
  using assms
  by (induction i s rule: pmm_alloc_loop.induct)
    (simp add: pmm_alloc_loop.simps [of _ t] pmm_alloc_loop.simps [of _ s for s] pmm_set_block_def)

lemma vmm_view_simps:
  assumes "vmm_view s t"
  shows "vmm_inv s = vmm_inv t" "mappings s = mappings t" "data_page s = data_page t" "pde s = pde t"
    "taken s = taken t" "physical wr va s = physical wr va t" "vload32 va s = vload32 va t"
    "fst (pmm_alloc_first s) = fst (pmm_alloc_first t)" "map_legal va acl s = map_legal va acl t"
    "snd (pmm_alloc_first s) = s\<lparr>pmem := pmem (snd (pmm_alloc_first t))\<rparr>"
proof -
  have eq: "pmem s = pmem t" "paging s = paging t" "cr3 s = cr3 t" "pmm_bitmap s = pmm_bitmap t" "pmm_bitmap_sz s = pmm_bitmap_sz t"
    using assms by (simp_all add: vmm_view_def)
  show pde: "pde s = pde t" by (simp add: fun_eq_iff pde_def eq)
  have ptbl: "ptbl s = ptbl t" by (simp add: fun_eq_iff ptbl_def pde)
  have bm: "bitmap_page s = bitmap_page t" by (simp add: fun_eq_iff bitmap_page_def eq)
  show tk: "taken s = taken t" by (simp add: taken_def pmm_is_taken_def eq)
  have pm: "pmm_inv s = pmm_inv t" by (simp add: pmm_inv_def eq)
  show vi: "vmm_inv s = vmm_inv t" by (simp add: vmm_inv_def eq pde ptbl bm tk pm)
  show mp: "mappings s = mappings t" by (simp add: fun_eq_iff mappings_def pde pte_def ptbl eq)
  show "data_page s = data_page t" by (simp add: fun_eq_iff data_page_def data_frame_def vi mp bm pde ptbl)
  show ph: "physical wr va s = physical wr va t" by (simp add: physical_def eq)
  show "vload32 va s = vload32 va t" by (simp add: vload32_def eq physical_def split: option.split)
  have al: "fst (pmm_alloc_first s) = fst (pmm_alloc_first t)" "pmem (snd (pmm_alloc_first s)) = pmem (snd (pmm_alloc_first t))"
    using alloc_loop_view [of s t] eq by (simp_all add: pmm_alloc_first_def)
  show "fst (pmm_alloc_first s) = fst (pmm_alloc_first t)" by (rule al(1))
  show "map_legal va acl s = map_legal va acl t" by (simp add: map_legal_def pde al(1))
  obtain m where "snd (pmm_alloc_first s) = s\<lparr>pmem := m\<rparr>" using pmm_alloc_first_only_mem by blast
  with al(2) show "snd (pmm_alloc_first s) = s\<lparr>pmem := pmem (snd (pmm_alloc_first t))\<rparr>" by simp
qed

section \<open>A new address space on a page that is in use\<close>

lemma copy_dir_data:
  assumes "data_page s va f" and "i \<le> 1024"
  shows "\<exists>m. vmm_copy_dir_loop va i s = Inr (s\<lparr>pmem := m\<rparr>) \<and> data_page (s\<lparr>pmem := m\<rparr>) va f
     \<and> (\<forall>j < 1024. pde (s\<lparr>pmem := m\<rparr>) j = pde s j)
     \<and> (\<forall>j < 1024. load32 m (f + 4 * j) = (if i \<le> j then pde s j else load32 (pmem s) (f + 4 * j)))"
  using assms
proof (induction "1024 - unat i" arbitrary: i s)
  case 0
  then have "i = 1024" by (simp add: word_le_nat_alt word_unat_eq_iff)
  moreover have "s\<lparr>pmem := pmem s\<rparr> = s" by simp
  moreover have "\<not> 1024 \<le> j" if "j < 1024" for j :: u32 using that by simp
  ultimately show ?case
    using 0 by (intro exI [of _ "pmem s"]) (simp add: vmm_copy_dir_loop.simps [of va 1024])
next
  case (Suc x)
  have i: "i < 1024" using Suc.hyps(2) by (simp add: word_less_nat_alt)
  note inv = Suc.prems(1) [unfolded data_page_def]
  let ?s = "s\<lparr>pmem := store32 (pmem s) (f + 4 * i) (pde s i)\<rparr>"
  have f: "f mod 4096 = 0" using data_page_frame [OF Suc.prems(1)] by simp
  have keep: "\<And>j. j < 1024 \<Longrightarrow> pde ?s j = pde s j"
    using data_write(3) [OF _ _ only_page_store32 [OF f i]] inv by blast
  note st = data_page_word(2,3) [OF Suc.prems(1) i, of "pde s i"]
  obtain m where m: "vmm_copy_dir_loop va (i + 1) ?s = Inr (?s\<lparr>pmem := m\<rparr>)" "data_page (?s\<lparr>pmem := m\<rparr>) va f"
    "\<forall>j < 1024. pde (?s\<lparr>pmem := m\<rparr>) j = pde ?s j"
    "\<forall>j < 1024. load32 m (f + 4 * j) = (if i + 1 \<le> j then pde ?s j else load32 (pmem ?s) (f + 4 * j))"
  proof -
    have "x = 1024 - unat (i + 1)" using Suc.hyps(2) i by simp
    from Suc.hyps(1) [OF this st(2) inc_le [OF i]] that show thesis by blast
  qed
  have "load32 m (f + 4 * j) = (if i \<le> j then pde s j else load32 (pmem s) (f + 4 * j))" if "j < 1024" for j
    using m(4) that keep load_entry [OF f i that] by (auto simp: word_le_cases_inc [OF i])
  moreover have "vmm_copy_dir_loop va i s = Inr (s\<lparr>pmem := m\<rparr>)"
    using i st(1) m(1) vload32_dir [OF vmm_inv_self_map i, of s] inv by (simp add: vmm_copy_dir_loop.simps [of va i])
  ultimately show ?case using m(2,3) keep by (intro exI [of _ m]) simp
qed

text \<open>\<^verbatim>\<open>vmm_create_address_space\<close> for an address that is mapped already: the mapping
  stays, and the page is overwritten with a copy of the page directory.\<close>

lemma create_address_space_used:
  assumes "data_page s va f" and "va \<noteq> 0"
  shows "\<exists>m. vmm_create_address_space fn va s = Inr (fn, s\<lparr>pmem := m\<rparr>) \<and> data_page (s\<lparr>pmem := m\<rparr>) va f
     \<and> (\<forall>j < 1024. pde (s\<lparr>pmem := m\<rparr>) j = pde s j)
     \<and> (\<forall>j < 1024. load32 m (f + 4 * j) = (if j = 1023 then fn OR 3 else pde s j))"
proof -
  note inv = assms(1) [unfolded data_page_def]
  have f: "f mod 4096 = 0" using data_page_frame [OF assms(1)] by simp
  have "map_legal va X86_PAGE_WRITABLE s"
    using inv by (auto simp: map_legal_def mappings_def kernel_defs split: if_splits)
  then have map: "vmm_map_page fn va X86_PAGE_WRITABLE s = Inr (VMM_ERR_PAGE_IN_USE, s)"
    using inv by (intro pages.map_used) auto
  let ?s1 = "s\<lparr>pmem := memset_loop f 0 KB4 0 (pmem s)\<rparr>"
  have set: "vmemset va 0 KB4 s = Inr ?s1" "data_page ?s1 va f"
    using vmemset_data [OF assms(1), of 0 KB4 0 0] assms(2) by (simp_all add: vmemset_def KB4_def)
  have "only_page (f div 4096) s ?s1"
    unfolding only_page_def
  proof safe
    fix k :: u32 assume k: "k div 4096 \<noteq> f div 4096"
    have "\<not> k - f < 4096"
      using page_offset(2) [OF f, of "k - f"] k by auto
    then show "pmem ?s1 k = pmem s k" by (simp add: memset_loop_spec KB4_def)
  qed simp
  then have pde1: "\<And>j. j < 1024 \<Longrightarrow> pde ?s1 j = pde s j" using data_write(3) inv by blast
  obtain m where m: "vmm_copy_dir_loop va 0 ?s1 = Inr (?s1\<lparr>pmem := m\<rparr>)" "data_page (?s1\<lparr>pmem := m\<rparr>) va f"
    "\<forall>j < 1024. pde (?s1\<lparr>pmem := m\<rparr>) j = pde ?s1 j" "\<forall>j < 1024. load32 m (f + 4 * j) = pde ?s1 j"
    using copy_dir_data [OF set(2), of 0] by auto
  let ?s2 = "s\<lparr>pmem := m\<rparr>" and ?m = "store32 m (f + 4 * 1023) (fn OR 3)"
  have s2: "?s1\<lparr>pmem := m\<rparr> = ?s2" by simp
  note st = data_page_word(2,3) [OF m(2) [unfolded s2], of 1023 "fn OR 3", simplified]
  have "vmm_create_address_space fn va s = Inr (fn, s\<lparr>pmem := ?m\<rparr>)"
    using map set(1) m(1) st(1) by (simp add: vmm_create_address_space_def kernel_defs)
  moreover have "pde (s\<lparr>pmem := ?m\<rparr>) j = pde s j" if "j < 1024" for j
    using data_write(3) [OF _ _ only_page_store32 [OF f, of 1023 ?s2 "fn OR 3"] that] m(2,3) pde1 that by (simp add: s2 data_page_def)
  moreover have "load32 ?m (f + 4 * j) = (if j = 1023 then fn OR 3 else pde s j)" if "j < 1024" for j
    using load_entry [OF f, of 1023 j m "fn OR 3"] m(4) pde1 that by simp
  ultimately show ?thesis using st(2) by (intro exI [of _ ?m]) simp
qed

end
