(* ===== verification/Lock.thy ===== *)
theory Lock
  imports Frod_Prelude
begin

text \<open>
  The spinlock, \<^verbatim>\<open>src/sys/lock.c\<close>: once as the functions one processor runs, where a
  busy wait that nobody ends is \<^const>\<open>None\<close>, and once as an interleaving of any number of
  processors whose atomic steps are the locked exchanges of the code.
\<close>

section \<open>Operations\<close>

datatype lock_resource = LOCK_PROC | LOCK_VFS | LOCK_ATA | LOCK_CONSOLE | LOCK_HEAP | UNKNOWN

record spinlock =
  ID :: lock_resource
  locked :: u32
  call_stack :: u32
  lock_cpu :: u32

definition init_spinlock :: "spinlock \<Rightarrow> lock_resource \<Rightarrow> spinlock" where
  "init_spinlock l i = l\<lparr>locked := 0, ID := i, lock_cpu := 0\<rparr>"

text \<open>\<^verbatim>\<open>lock xchgl\<close> on the lock word: the old value and the lock with the new one.\<close>

definition alock :: "spinlock \<Rightarrow> u32 \<Rightarrow> u32 \<times> spinlock" where
  "alock l n_val = (locked l, l\<lparr>locked := n_val\<rparr>)"

text \<open>\<^verbatim>\<open>pushcli\<close> and \<^verbatim>\<open>popcli\<close> have empty bodies.\<close>

definition pushcli :: "spinlock \<Rightarrow> spinlock" where "pushcli l = l"
definition popcli :: "spinlock \<Rightarrow> spinlock" where "popcli l = l"

partial_function (option) spinlock_spin :: "spinlock \<Rightarrow> spinlock option" where
  "spinlock_spin l =
     (case alock l 1 of (old, l1) \<Rightarrow> if old \<noteq> 0 then spinlock_spin l1 else Some l1)"

definition spinlock_acquire :: "spinlock \<Rightarrow> spinlock option" where
  "spinlock_acquire l = spinlock_spin (pushcli l)"

definition spinlock_release :: "spinlock \<Rightarrow> spinlock" where
  "spinlock_release l = popcli (snd (alock l 0))"

section \<open>Processors that share the lock\<close>

datatype lock_pc = Outside | Spinning | Holding

type_synonym lock_state = "spinlock \<times> (nat \<Rightarrow> lock_pc)"

inductive lock_step :: "lock_state \<Rightarrow> lock_state \<Rightarrow> bool" where
  call: "pc c = Outside \<Longrightarrow> lock_step (l, pc) (pushcli l, pc(c := Spinning))"
| spin: "pc c = Spinning \<Longrightarrow> alock l 1 = (old, l1) \<Longrightarrow> old \<noteq> 0 \<Longrightarrow> lock_step (l, pc) (l1, pc)"
| take_lock: "pc c = Spinning \<Longrightarrow> alock l 1 = (old, l1) \<Longrightarrow> old = 0 \<Longrightarrow>
    lock_step (l, pc) (l1, pc(c := Holding))"
| release: "pc c = Holding \<Longrightarrow> lock_step (l, pc) (spinlock_release l, pc(c := Outside))"

inductive_cases lock_stepE: "lock_step (l, pc) t"

definition lock_init :: "lock_state \<Rightarrow> bool" where
  "lock_init s \<longleftrightarrow> (\<exists>l i. fst s = init_spinlock l i) \<and> (\<forall>c. snd s c = Outside)"

text \<open>The lock word tells whether some processor holds the lock, and no two do.\<close>

definition lock_inv :: "lock_state \<Rightarrow> bool" where
  "lock_inv s \<longleftrightarrow>
     (if locked (fst s) = 0 then \<forall>c. snd s c \<noteq> Holding
      else \<exists>c. snd s c = Holding \<and> (\<forall>d. snd s d = Holding \<longrightarrow> d = c))"

lemmas lock_defs = alock_def pushcli_def popcli_def spinlock_release_def init_spinlock_def

section \<open>Lemmas\<close>

lemma spinlock_spin_Some:
  assumes "spinlock_spin l = Some l1"
  shows "locked l = 0 \<and> l1 = l\<lparr>locked := 1\<rparr>"
proof (rule spinlock_spin.raw_induct [of "\<lambda>l l1. locked l = 0 \<and> l1 = l\<lparr>locked := 1\<rparr>", OF _ assms])
  fix f :: "spinlock \<Rightarrow> spinlock option" and l l1
  assume IH: "\<And>l l1. f l = Some l1 \<Longrightarrow> locked l = 0 \<and> l1 = l\<lparr>locked := 1\<rparr>"
    and body: "(case alock l 1 of (old, l1) \<Rightarrow> if old \<noteq> 0 then f l1 else Some l1) = Some l1"
  show "locked l = 0 \<and> l1 = l\<lparr>locked := 1\<rparr>"
    using IH [of "l\<lparr>locked := 1\<rparr>" l1] body by (auto simp: alock_def split: if_splits)
qed

lemma lock_step_inv:
  assumes "lock_inv s" and "lock_step s t"
  shows "lock_inv t"
  using assms(2)
proof (cases rule: lock_step.cases)
  case (call pc c l)
  then have "(pc(c := Spinning)) d = Holding \<longleftrightarrow> pc d = Holding" for d by auto
  with call assms(1) show ?thesis by (simp add: lock_inv_def pushcli_def split: if_splits)
next
  case (spin pc c l old l1)
  with assms(1) show ?thesis by (auto simp: lock_inv_def alock_def)
next
  case (take_lock pc c l old l1)
  with assms(1) show ?thesis by (auto simp: lock_inv_def alock_def)
next
  case (release pc c l)
  with assms(1) show ?thesis by (auto simp: lock_inv_def lock_defs split: if_splits)
qed

interpretation spin: invariant_system lock_init lock_step lock_inv
proof unfold_locales
  show "lock_inv s" if "lock_init s" for s
    using that by (auto simp: lock_init_def lock_inv_def init_spinlock_def)
qed (rule lock_step_inv)

section \<open>Properties\<close>

text \<open>\<^verbatim>\<open>spinlock_acquire\<close> returns exactly when the lock is free, and then the lock
  is taken; on a taken lock a processor alone spins forever.\<close>

lemma spinlock_acquire_iff_free:
  "spinlock_acquire l = (if locked l = 0 then Some (l\<lparr>locked := 1\<rparr>) else None)"
proof (cases "locked l = 0")
  case True
  then show ?thesis by (simp add: spinlock_acquire_def pushcli_def spinlock_spin.simps [of l] alock_def)
next
  case False
  then show ?thesis
    using spinlock_spin_Some [of l] by (cases "spinlock_spin l") (auto simp: spinlock_acquire_def pushcli_def)
qed

text \<open>C8: mutual exclusion. However the processors interleave, two of them never hold the
  lock at the same time, and while one holds it the lock word is not 0.\<close>

theorem lock_mutual_exclusion:
  assumes "reachable lock_init lock_step (l, pc)" and "pc c = Holding" and "pc d = Holding"
  shows "c = d \<and> locked l \<noteq> 0"
  using spin.reachable_invar [OF assms(1)] assms(2,3) by (auto simp: lock_inv_def split: if_splits)

definition lock_example :: spinlock where
  "lock_example = \<lparr>ID = UNKNOWN, locked = 7, call_stack = 0, lock_cpu = 3\<rparr>"

lemma lock_example_reach:
  "reachable lock_init lock_step (init_spinlock lock_example LOCK_HEAP\<lparr>locked := 1\<rparr>, (\<lambda>_. Outside)(2 := Holding))"
proof -
  let ?l = "init_spinlock lock_example LOCK_HEAP"
  have "reachable lock_init lock_step (?l, \<lambda>_. Outside)"
    by (rule reachable.start) (auto simp: lock_init_def)
  then have "reachable lock_init lock_step (?l, (\<lambda>_. Outside)(2 := Spinning))"
    using lock_step.call [of "\<lambda>_. Outside" 2 ?l] by (auto intro: reachable.next_state simp: pushcli_def)
  then show ?thesis
    using lock_step.take_lock [of "(\<lambda>_. Outside)(2 := Spinning)" 2 ?l 0 "?l\<lparr>locked := 1\<rparr>"]
    by (auto intro: reachable.next_state simp: alock_def init_spinlock_def)
qed

theorem lock_mutual_exclusion_witness:
  "(2 :: nat) = 2 \<and> locked (init_spinlock lock_example LOCK_HEAP\<lparr>locked := 1\<rparr>) \<noteq> 0"
  by (rule lock_mutual_exclusion [OF lock_example_reach]) simp_all

text \<open>C35: no deadlock on one lock. In every reachable state in which no processor holds the
  lock, any spinning processor takes it with its next exchange.\<close>

theorem lock_progress:
  assumes "reachable lock_init lock_step (l, pc)" and "pc c = Spinning" and "\<forall>d. pc d \<noteq> Holding"
  shows "lock_step (l, pc) (l\<lparr>locked := 1\<rparr>, pc(c := Holding))"
proof -
  have "locked l = 0"
    using spin.reachable_invar [OF assms(1)] assms(3) by (auto simp: lock_inv_def split: if_splits)
  then show ?thesis
    using assms(2) by (intro lock_step.take_lock) (auto simp: alock_def)
qed

theorem lock_progress_witness:
  "lock_step (init_spinlock lock_example LOCK_HEAP, (\<lambda>_. Outside)(0 := Spinning))
     (init_spinlock lock_example LOCK_HEAP\<lparr>locked := 1\<rparr>, (\<lambda>_. Outside)(0 := Spinning, 0 := Holding))"
proof (rule lock_progress)
  let ?l = "init_spinlock lock_example LOCK_HEAP"
  have "reachable lock_init lock_step (?l, \<lambda>_. Outside)"
    by (rule reachable.start) (auto simp: lock_init_def)
  then show "reachable lock_init lock_step (?l, (\<lambda>_. Outside)(0 := Spinning))"
    using lock_step.call [of "\<lambda>_. Outside" 0 ?l] by (auto intro: reachable.next_state simp: pushcli_def)
qed simp_all

end
