(* ===== verification/Heap.thy ===== *)
theory Heap
  imports Vmem Lock
begin

text \<open>
  The kernel heap, \<^verbatim>\<open>src/sys/heap.c\<close>: a circular list of blocks, each a 16-byte header
  followed by its payload. The headers are a store from addresses to records; a header the
  code has not written keeps what was in memory there. Growing the heap calls the frame
  allocator and the virtual memory manager. The search follows pointers, so it may run forever
  on a damaged list: that is \<^const>\<open>None\<close>.
\<close>

section \<open>State and operations\<close>

record LLMalloc =
  ll_next :: u32
  ll_prev :: u32
  ll_size :: u32
  ll_used :: u8
  ll_magic1 :: u16
  ll_magic2 :: u8

record heap_state = vmm_state +
  kheap_lock :: spinlock
  kern_heap :: u32
  blocks_allocked :: u32
  nodes :: "u32 \<Rightarrow> LLMalloc"

definition sizeof_LLMalloc :: u32 where "sizeof_LLMalloc = 16"

definition node_upd :: "u32 \<Rightarrow> (LLMalloc \<Rightarrow> LLMalloc) \<Rightarrow> ('a) heap_state_scheme \<Rightarrow> ('a) heap_state_scheme" where
  "node_upd a f s = s\<lparr>nodes := (nodes s)(a := f (nodes s a))\<rparr>"

function heap_map_loop :: "u32 \<Rightarrow> ('a) heap_state_scheme \<Rightarrow> kerror + ('a) heap_state_scheme" where
  "heap_map_loop i s =
     (if i < HEAP_BLOCKS then
        let (phys, s) = pmm_alloc_first s in
        ebind (vmm_map_page phys (HEAP_START + blocks_allocked s * 4096) X86_PAGE_WRITABLE s) (\<lambda>(r, s).
        if r \<noteq> 0 then Inl (Panic ''Unable to map page'')
        else heap_map_loop (i + 1) (s\<lparr>blocks_allocked := blocks_allocked s + 1\<rparr>))
      else Inr s)"
  by pat_completeness auto
termination
  by (relation "measure (\<lambda>(i, s). unat HEAP_BLOCKS - unat i)") auto

declare heap_map_loop.simps [simp del]

definition heap_get_new_block ::
  "u32 \<Rightarrow> ('a) heap_state_scheme \<Rightarrow> kerror + (u32 \<times> ('a) heap_state_scheme)" where
  "heap_get_new_block prev s =
     (let heap_start = HEAP_START + blocks_allocked s * 4096 in
      ebind (heap_map_loop 0 s) (\<lambda>s.
      let ret = heap_start;
          s = (if prev \<noteq> 0 then
                 node_upd prev (\<lambda>b. b\<lparr>ll_next := ret\<rparr>)
                   (node_upd ret (\<lambda>b. b\<lparr>ll_next := ll_next (nodes s prev), ll_prev := prev\<rparr>) s)
               else node_upd ret (\<lambda>b. b\<lparr>ll_next := ret, ll_prev := ret\<rparr>) s)
      in Inr (ret, node_upd ret (\<lambda>b. b\<lparr>ll_size := 4096 * HEAP_BLOCKS - sizeof_LLMalloc, ll_used := 0,
                ll_magic1 := 0xabcd, ll_magic2 := 0xef\<rparr>) s)))"

definition heap_init :: "('a) heap_state_scheme \<Rightarrow> (kerror + ('a) heap_state_scheme) option" where
  "heap_init s =
     Option.bind (spinlock_acquire (init_spinlock (kheap_lock s) LOCK_HEAP)) (\<lambda>l.
     Some (ebind (heap_get_new_block 0 (s\<lparr>kheap_lock := l, blocks_allocked := 0\<rparr>)) (\<lambda>(b, s).
       Inr (s\<lparr>kern_heap := b, kheap_lock := spinlock_release (kheap_lock s)\<rparr>))))"

definition block_fits :: "u32 \<Rightarrow> LLMalloc \<Rightarrow> bool" where
  "block_fits sz b \<longleftrightarrow> ll_used b = 0 \<and> ll_size b \<ge> sz"

partial_function (option) heap_search :: "(u32 \<Rightarrow> LLMalloc) \<Rightarrow> u32 \<Rightarrow> u32 \<Rightarrow> u32 \<Rightarrow> u32 option" where
  "heap_search ns end sz it =
     (if block_fits sz (ns it) then Some it
      else if ll_next (ns it) \<noteq> end then heap_search ns end sz (ll_next (ns it)) else Some end)"

definition heap_take :: "u32 \<Rightarrow> u32 \<Rightarrow> ('a) heap_state_scheme \<Rightarrow> ('a) heap_state_scheme" where
  "heap_take sz it s =
     (let s = node_upd it (\<lambda>b. b\<lparr>ll_used := 1\<rparr>) s; old = nodes s it in
      if ll_size old - sz > sizeof_LLMalloc then
        let n = it + sz + sizeof_LLMalloc;
            s = node_upd n (\<lambda>b. b\<lparr>ll_used := 0, ll_size := ll_size old - sizeof_LLMalloc - sz,
                  ll_next := ll_next old, ll_prev := it\<rparr>) s
        in node_upd it (\<lambda>b. b\<lparr>ll_next := n, ll_size := sz\<rparr>) s
      else s)"

definition heap_align :: "u32 \<Rightarrow> u32" where
  "heap_align sz = sz + sz mod 4"

partial_function (option) heap_malloc ::
  "u32 \<Rightarrow> ('a) heap_state_scheme \<Rightarrow> (kerror + (u32 \<times> ('a) heap_state_scheme)) option" where
  "heap_malloc sz s =
     (if heap_align sz > 4096 - sizeof_LLMalloc
      then Some (Inl (Panic ''We don't have memory pages that big''))
      else Option.bind (heap_search (nodes s) (kern_heap s) (heap_align sz) (kern_heap s)) (\<lambda>it.
        if block_fits (heap_align sz) (nodes s it)
        then Some (Inr (it + sizeof_LLMalloc, heap_take (heap_align sz) it s))
        else case heap_get_new_block it s of
            Inl e \<Rightarrow> Some (Inl e)
          | Inr r \<Rightarrow> heap_malloc (heap_align sz) (snd r)))"

text \<open>\<^verbatim>\<open>heap_free\<close> joins the block with a free neighbour on either side.\<close>

definition heap_join_next :: "u32 \<Rightarrow> ('a) heap_state_scheme \<Rightarrow> ('a) heap_state_scheme" where
  "heap_join_next free s =
     node_upd free (\<lambda>b. b\<lparr>ll_size := ll_size b + (ll_size (nodes s (ll_next b)) + sizeof_LLMalloc)\<rparr>) s"

definition heap_free :: "u32 \<Rightarrow> ('a) heap_state_scheme \<Rightarrow> kerror + ('a) heap_state_scheme" where
  "heap_free addr s =
     (let free = addr - sizeof_LLMalloc; b = nodes s free in
      if ll_used b \<noteq> 1 \<or> ll_magic1 b \<noteq> 0xabcd \<or> ll_magic2 b \<noteq> 0xef
      then Inl (Panic ''Heap magic value does not fit.'')
      else
        let (free, s) =
          (if ll_prev b \<noteq> free \<and> ll_used (nodes s (ll_prev b)) = 0
              \<and> ll_prev b + ll_size (nodes s (ll_prev b)) = free
           then
             let free = ll_prev b; s = heap_join_next free s; b = nodes s free in
             (free,
              if ll_prev b = ll_next b then node_upd free (\<lambda>b. b\<lparr>ll_next := free, ll_prev := free\<rparr>) s
              else node_upd free (\<lambda>b. b\<lparr>ll_next := ll_next (nodes s (ll_next b))\<rparr>) s)
           else (free, s));
          b = nodes s free in
        Inr (if ll_next b \<noteq> free \<and> ll_used (nodes s (ll_next b)) = 0 then
               let s = heap_join_next free s; b = nodes s free in
               if ll_next b = ll_prev b then node_upd free (\<lambda>b. b\<lparr>ll_next := free, ll_prev := free\<rparr>) s
               else node_upd free (\<lambda>b. b\<lparr>ll_next := ll_next (nodes s (ll_next b))\<rparr>) s
             else s))"

section \<open>The ring of blocks\<close>

fun chain :: "(u32 \<Rightarrow> LLMalloc) \<Rightarrow> u32 list \<Rightarrow> u32 \<Rightarrow> u32 \<Rightarrow> bool" where
  "chain ns [] a e \<longleftrightarrow> a = e"
| "chain ns (x # xs) a e \<longleftrightarrow> x = a \<and> chain ns xs (ll_next (ns a)) e"

definition block_bytes :: "(u32 \<Rightarrow> LLMalloc) \<Rightarrow> u32 \<Rightarrow> nat set" where
  "block_bytes ns x = {unat x ..< unat x + 16 + unat (ll_size (ns x))}"

definition heap_limit :: "('a) heap_state_scheme \<Rightarrow> nat" where
  "heap_limit s = unat HEAP_START + 4096 * unat (blocks_allocked s)"

text \<open>\<open>heap_ok s xs\<close>: the blocks \<open>xs\<close> form the ring from \<^verbatim>\<open>kern_heap\<close>, they
  do not overlap, header and payload included, and they lie in the mapped part of the heap.\<close>

definition heap_ok :: "('a) heap_state_scheme \<Rightarrow> u32 list \<Rightarrow> bool" where
  "heap_ok s xs \<longleftrightarrow>
     xs \<noteq> [] \<and> distinct xs \<and> chain (nodes s) xs (kern_heap s) (kern_heap s)
     \<and> blocks_allocked s \<le> 0x10000
     \<and> (\<forall>x \<in> set xs. unat HEAP_START \<le> unat x \<and> unat x + 16 + unat (ll_size (nodes s x)) \<le> heap_limit s)
     \<and> (\<forall>x \<in> set xs. \<forall>y \<in> set xs. x \<noteq> y \<longrightarrow> block_bytes (nodes s) x \<inter> block_bytes (nodes s) y = {})"

lemma chain_append: "chain ns (xs @ ys) a e \<longleftrightarrow> (\<exists>b. chain ns xs a b \<and> chain ns ys b e)"
  by (induction xs arbitrary: a) auto

lemma chain_cong: "(\<And>x. x \<in> set xs \<Longrightarrow> ll_next (ns x) = ll_next (ns' x)) \<Longrightarrow> chain ns xs a e = chain ns' xs a e"
  by (induction xs arbitrary: a) auto

lemma heap_search_chain:
  assumes "chain ns xs it e" and "xs \<noteq> []" and "e \<notin> set (tl xs)"
  shows "heap_search ns e sz it
     = Some (case find (\<lambda>x. block_fits sz (ns x)) xs of Some x \<Rightarrow> x | None \<Rightarrow> e)"
  using assms
proof (induction xs arbitrary: it)
  case (Cons x xs)
  show ?case
  proof (cases "xs = []")
    case False
    then have "ll_next (ns it) \<noteq> e" using Cons.prems by (cases xs) auto
    moreover have "e \<notin> set (tl xs)" using Cons.prems(3) False by (auto dest: list.set_sel(2))
    ultimately show ?thesis
      using Cons False by (auto simp: heap_search.simps [of ns e sz it])
  qed (use Cons.prems in \<open>auto simp: heap_search.simps [of ns e sz it]\<close>)
qed simp

section \<open>Taking a block\<close>

lemma heap_okD:
  assumes "heap_ok s xs" and "x \<in> set xs"
  shows "unat x + 16 + unat (ll_size (nodes s x)) \<le> heap_limit s" "heap_limit s \<le> 0x30000000"
    "unat HEAP_START \<le> unat x" "unat x \<in> block_bytes (nodes s) x"
  using assms by (auto simp: heap_ok_def block_bytes_def heap_limit_def layout_defs word_le_nat_alt)

lemma heap_ok_disjoint:
  "heap_ok s xs \<Longrightarrow> x \<in> set xs \<Longrightarrow> y \<in> set xs \<Longrightarrow> x \<noteq> y \<Longrightarrow>
     block_bytes (nodes s) x \<inter> block_bytes (nodes s) y = {}"
  by (simp add: heap_ok_def)

text \<open>Blocks may be replaced by blocks inside them.\<close>

lemma heap_ok_refine:
  assumes ok: "heap_ok s xs" and ring: "ys \<noteq> []" "distinct ys" "chain (nodes s') ys (kern_heap s') (kern_heap s')"
    and lim: "blocks_allocked s' = blocks_allocked s"
    and inside: "\<And>y. y \<in> set ys \<Longrightarrow> \<exists>x \<in> set xs. block_bytes (nodes s') y \<subseteq> block_bytes (nodes s) x"
    and apart: "\<And>y z x. y \<in> set ys \<Longrightarrow> z \<in> set ys \<Longrightarrow> y \<noteq> z \<Longrightarrow> x \<in> set xs \<Longrightarrow>
        block_bytes (nodes s') y \<subseteq> block_bytes (nodes s) x \<Longrightarrow>
        block_bytes (nodes s') z \<subseteq> block_bytes (nodes s) x \<Longrightarrow>
        block_bytes (nodes s') y \<inter> block_bytes (nodes s') z = {}"
  shows "heap_ok s' ys"
proof -
  have hl: "heap_limit s' = heap_limit s" by (simp add: heap_limit_def lim)
  have "unat HEAP_START \<le> unat y \<and> unat y + 16 + unat (ll_size (nodes s' y)) \<le> heap_limit s'"
    if "y \<in> set ys" for y
  proof -
    obtain x where x: "x \<in> set xs" "block_bytes (nodes s') y \<subseteq> block_bytes (nodes s) x"
      using inside \<open>y \<in> set ys\<close> by blast
    have "unat x \<le> unat y \<and>
        unat y + 16 + unat (ll_size (nodes s' y)) \<le> unat x + 16 + unat (ll_size (nodes s x))"
      using atLeastLessThan_subset_iff [OF x(2) [unfolded block_bytes_def]] by auto
    then show ?thesis using heap_okD [OF ok x(1)] hl by simp
  qed
  moreover have "block_bytes (nodes s') y \<inter> block_bytes (nodes s') z = {}"
    if yz: "y \<in> set ys" "z \<in> set ys" "y \<noteq> z" for y z
  proof -
    obtain x w where "x \<in> set xs" "block_bytes (nodes s') y \<subseteq> block_bytes (nodes s) x"
      "w \<in> set xs" "block_bytes (nodes s') z \<subseteq> block_bytes (nodes s) w"
      using inside yz(1,2) by metis
    then show ?thesis using apart yz heap_ok_disjoint [OF ok, of x w] by (cases "x = w") blast+
  qed
  ultimately show ?thesis using ok ring lim by (simp add: heap_ok_def)
qed

lemma heap_take_split:
  assumes ok: "heap_ok s (ps @ it # qs)" and fits: "block_fits sz (nodes s it)"
    and big: "ll_size (nodes s it) - sz > sizeof_LLMalloc" and n: "n = it + sz + sizeof_LLMalloc"
  shows "heap_ok (heap_take sz it s) (ps @ it # n # qs)" and "n \<notin> set (ps @ it # qs)"
    and "nodes (heap_take sz it s) it = (nodes s it)\<lparr>ll_used := 1, ll_next := n, ll_size := sz\<rparr>"
    and "\<And>y. y \<noteq> it \<Longrightarrow> y \<noteq> n \<Longrightarrow> nodes (heap_take sz it s) y = nodes s y"
proof -
  let ?s = "heap_take sz it s" and ?b = "nodes s it"
  have fit: "unat sz \<le> unat (ll_size ?b)" using fits by (simp add: block_fits_def word_le_nat_alt)
  have diff: "unat (ll_size ?b - sz) = unat (ll_size ?b) - unat sz"
    using fits by (intro unat_sub) (simp add: block_fits_def)
  then have room: "unat sz + 16 < unat (ll_size ?b)"
    using big fit by (simp add: sizeof_LLMalloc_def word_less_nat_alt)
  note it = heap_okD [OF ok, of it, simplified]
  have un: "unat n = unat it + unat sz + 16"
    using it room unfolding n sizeof_LLMalloc_def by (simp add: unat_word_ariths)
  have usz: "unat (ll_size ?b - sizeof_LLMalloc - sz) = unat (ll_size ?b) - 16 - unat sz"
    using room by (simp add: sizeof_LLMalloc_def unat_sub_if' word_le_nat_alt)
  have nit: "n \<noteq> it" using un by (auto simp: word_unat_eq_iff)
  have "unat n \<in> block_bytes (nodes s) it" using un room by (simp add: block_bytes_def)
  then show nin: "n \<notin> set (ps @ it # qs)"
    using heap_ok_disjoint [OF ok, of it n] heap_okD(4) [OF ok, of n] nit by auto
  have old: "(it + sz + sizeof_LLMalloc \<noteq> it) = True" using nit n by simp
  show nodes_it: "nodes ?s it = ?b\<lparr>ll_used := 1, ll_next := n, ll_size := sz\<rparr>"
    using big nit by (simp add: heap_take_def node_upd_def Let_def n)
  have nodes_n: "nodes ?s n = (nodes s n)\<lparr>ll_used := 0, ll_size := ll_size ?b - sizeof_LLMalloc - sz,
      ll_next := ll_next ?b, ll_prev := it\<rparr>"
    using big nit by (simp add: heap_take_def node_upd_def Let_def n)
  show others: "nodes ?s y = nodes s y" if "y \<noteq> it" "y \<noteq> n" for y
    using that by (simp add: heap_take_def node_upd_def Let_def n)
  have flds: "kern_heap ?s = kern_heap s" "blocks_allocked ?s = blocks_allocked s"
    by (simp_all add: heap_take_def node_upd_def Let_def)
  have bytes: "block_bytes (nodes ?s) it = {unat it ..< unat it + 16 + unat sz}"
    "block_bytes (nodes ?s) n = {unat it + 16 + unat sz ..< unat it + 16 + unat (ll_size ?b)}"
    "\<And>y. y \<noteq> it \<Longrightarrow> y \<noteq> n \<Longrightarrow> block_bytes (nodes ?s) y = block_bytes (nodes s) y"
    using room by (simp_all add: block_bytes_def nodes_it nodes_n un usz others ac_simps)
  have ring: "chain (nodes ?s) (ps @ it # n # qs) (kern_heap s) (kern_heap s)"
  proof -
    have "chain (nodes s) ps (kern_heap s) it" "chain (nodes s) qs (ll_next ?b) (kern_heap s)"
      using ok by (auto simp: heap_ok_def chain_append)
    moreover have "ll_next (nodes s x) = ll_next (nodes ?s x)" if "x \<in> set ps \<union> set qs" for x
      using that ok nin by (subst others) (auto simp: heap_ok_def)
    ultimately have "chain (nodes ?s) ps (kern_heap s) it"
      "chain (nodes ?s) qs (ll_next ?b) (kern_heap s)"
      using chain_cong [of ps "nodes s" "nodes ?s"] chain_cong [of qs "nodes s" "nodes ?s"] by auto
    then show ?thesis by (auto simp: chain_append nodes_it nodes_n)
  qed
  have sub: "block_bytes (nodes ?s) it \<subseteq> block_bytes (nodes s) it"
    "block_bytes (nodes ?s) n \<subseteq> block_bytes (nodes s) it"
    using room by (auto simp: bytes(1,2)) (auto simp: block_bytes_def)
  have self: "unat y \<in> block_bytes (nodes ?s) y" for y by (simp add: block_bytes_def)
  show "heap_ok ?s (ps @ it # n # qs)"
  proof (rule heap_ok_refine [OF ok])
    show "distinct (ps @ it # n # qs)" using ok nin by (auto simp: heap_ok_def)
    show "\<exists>x \<in> set (ps @ it # qs). block_bytes (nodes ?s) y \<subseteq> block_bytes (nodes s) x"
      if "y \<in> set (ps @ it # n # qs)" for y
      using that sub bytes(3) [of y] by (cases "y = it \<or> y = n") auto
    show "block_bytes (nodes ?s) y \<inter> block_bytes (nodes ?s) z = {}"
      if "y \<in> set (ps @ it # n # qs)" "z \<in> set (ps @ it # n # qs)" "y \<noteq> z" "x \<in> set (ps @ it # qs)"
        "block_bytes (nodes ?s) y \<subseteq> block_bytes (nodes s) x" "block_bytes (nodes ?s) z \<subseteq> block_bytes (nodes s) x"
      for y z x
    proof -
      have only: "w = it \<or> w = n \<or> w = x" if "w \<in> set (ps @ it # n # qs)"
        "block_bytes (nodes ?s) w \<subseteq> block_bytes (nodes s) x" for w
      proof (rule ccontr)
        assume w: "\<not> (w = it \<or> w = n \<or> w = x)"
        then have "block_bytes (nodes s) w \<inter> block_bytes (nodes s) x = {}"
          using heap_ok_disjoint [OF ok, of w x] that(1) \<open>x \<in> set (ps @ it # qs)\<close> by auto
        then show False using self [of w] that(2) w bytes(3) [of w] by auto
      qed
      have two: "block_bytes (nodes ?s) it \<inter> block_bytes (nodes ?s) n = {}" by (simp add: bytes)
      show ?thesis
      proof (cases "x = it")
        case True
        then show ?thesis using only that two by blast
      next
        case False
        then have dis: "block_bytes (nodes s) it \<inter> block_bytes (nodes s) x = {}"
          using heap_ok_disjoint [OF ok, of it x] that(4) by auto
        have "y \<noteq> it" "y \<noteq> n" "z \<noteq> it" "z \<noteq> n"
          using self [of y] self [of z] that(5,6) dis sub by blast+
        then show ?thesis using only that by blast
      qed
    qed
  qed (use ring flds in simp_all)
qed

lemma heap_take_whole:
  assumes ok: "heap_ok s xs" and big: "\<not> ll_size (nodes s it) - sz > sizeof_LLMalloc"
  shows "heap_ok (heap_take sz it s) xs" and "heap_take sz it s = node_upd it (\<lambda>b. b\<lparr>ll_used := 1\<rparr>) s"
proof -
  show eq: "heap_take sz it s = node_upd it (\<lambda>b. b\<lparr>ll_used := 1\<rparr>) s"
    using big by (simp add: heap_take_def node_upd_def Let_def)
  have sz: "ll_size (nodes (heap_take sz it s) x) = ll_size (nodes s x)"
    "ll_next (nodes (heap_take sz it s) x) = ll_next (nodes s x)" for x
    by (simp_all add: eq node_upd_def)
  then have "block_bytes (nodes (heap_take sz it s)) = block_bytes (nodes s)"
    by (simp add: block_bytes_def fun_eq_iff)
  moreover have "chain (nodes (heap_take sz it s)) xs a e = chain (nodes s) xs a e" for a e
    by (rule chain_cong) (simp add: sz)
  ultimately show "heap_ok (heap_take sz it s) xs"
    using ok sz by (simp add: heap_ok_def heap_limit_def) (simp add: eq node_upd_def)
qed

lemma heap_take_safe:
  assumes ok: "heap_ok s xs" and it: "it \<in> set xs" and fits: "block_fits sz (nodes s it)"
  obtains ys where "heap_ok (heap_take sz it s) ys" "set xs \<subseteq> set ys"
    "ll_used (nodes (heap_take sz it s) it) = 1" "sz \<le> ll_size (nodes (heap_take sz it s) it)"
    "\<forall>y \<in> set xs. y \<noteq> it \<longrightarrow> nodes (heap_take sz it s) y = nodes s y"
proof (cases "ll_size (nodes s it) - sz > sizeof_LLMalloc")
  case True
  obtain ps qs where xs: "xs = ps @ it # qs" using it by (auto simp: in_set_conv_decomp)
  note S = heap_take_split [OF ok [unfolded xs] fits True refl]
  then show thesis by (intro that) (auto simp: xs)
next
  case False
  note S = heap_take_whole [OF ok False]
  show thesis
    by (rule that [OF S(1)]) (use fits in \<open>auto simp: S(2) node_upd_def block_fits_def\<close>)
qed

section \<open>Growing the heap\<close>

lemma heap_map_loop_keeps:
  assumes "heap_map_loop i s = Inr s'" and "i \<le> HEAP_BLOCKS"
  shows "nodes s' = nodes s \<and> kern_heap s' = kern_heap s
     \<and> blocks_allocked s' = blocks_allocked s + (HEAP_BLOCKS - i)"
  using assms
proof (induction i s arbitrary: s' rule: heap_map_loop.induct)
  case (1 i s)
  show ?case
  proof (cases "i < HEAP_BLOCKS")
    case True
    obtain phys s1 where al: "pmm_alloc_first s = (phys, s1)" by fastforce
    with pmm_alloc_first_only_mem [of s] obtain m1 where s1: "s1 = s\<lparr>pmem := m1\<rparr>" by auto
    obtain s2 where s2: "vmm_map_page phys (HEAP_START + blocks_allocked s1 * 4096) X86_PAGE_WRITABLE s1
        = Inr (0, s2)"
      and rec: "heap_map_loop (i + 1) (s2\<lparr>blocks_allocked := blocks_allocked s2 + 1\<rparr>) = Inr s'"
      using 1(2) True al by (auto simp: heap_map_loop.simps [of i s] ebind_Inr_iff split: if_splits)
    obtain m2 where m2: "s2 = s1\<lparr>pmem := m2\<rparr>" using vmm_map_page_only_mem [OF s2] by blast
    have le: "i + 1 \<le> HEAP_BLOCKS" using True by (rule inc_le)
    show ?thesis
      using 1(1) [OF True al [symmetric] refl _ rec le, of 0] s1 m2 by simp
  next
    case False
    with 1(2,3) show ?thesis by (simp add: heap_map_loop.simps [of i s])
  qed
qed

lemma heap_grow:
  assumes ok: "heap_ok s (k # qs)" and room: "blocks_allocked s \<le> 0x10000 - HEAP_BLOCKS"
    and new: "heap_get_new_block k s = Inr (r, s')"
  shows "heap_ok s' (k # r # qs)" and "kern_heap s' = k" and "r \<notin> set (k # qs)"
    and "ll_used (nodes s' r) = 0" and "ll_size (nodes s' r) = 4096 * HEAP_BLOCKS - sizeof_LLMalloc"
    and "\<And>y. y \<noteq> r \<Longrightarrow> ll_used (nodes s' y) = ll_used (nodes s y)"
    and "\<And>y. y \<noteq> r \<Longrightarrow> ll_size (nodes s' y) = ll_size (nodes s y)"
proof -
  obtain s1 where s1: "heap_map_loop 0 s = Inr s1" and r: "r = HEAP_START + blocks_allocked s * 4096"
    using new by (auto simp: heap_get_new_block_def ebind_Inr_iff Let_def)
  have k: "k = kern_heap s" "k \<noteq> 0"
    using ok heap_okD(3) [OF ok, of k] by (auto simp: heap_ok_def layout_defs)
  note K = heap_map_loop_keeps [OF s1, simplified]
  have bl: "unat (blocks_allocked s) \<le> 0xFC00"
    using room by (simp add: layout_defs word_le_nat_alt)
  then have lim: "unat r = heap_limit s"
    by (simp add: r heap_limit_def layout_defs unat_word_ariths)
  have nin: "r \<notin> set (k # qs)" using heap_okD(1) [OF ok, of r] lim by auto
  then show "r \<notin> set (k # qs)" .
  have rk: "r \<noteq> k" using nin by auto
  have s': "s' = node_upd r (\<lambda>b. b\<lparr>ll_size := 4096 * HEAP_BLOCKS - sizeof_LLMalloc, ll_used := 0,
                ll_magic1 := 0xabcd, ll_magic2 := 0xef\<rparr>) (node_upd k (\<lambda>b. b\<lparr>ll_next := r\<rparr>)
                   (node_upd r (\<lambda>b. b\<lparr>ll_next := ll_next (nodes s1 k), ll_prev := k\<rparr>) s1))"
    using new s1 k(2) by (simp add: heap_get_new_block_def Let_def r)
  show kh: "kern_heap s' = k" using K k by (simp add: s' node_upd_def)
  have bl': "blocks_allocked s' = blocks_allocked s + 1024"
    using K by (simp add: s' node_upd_def layout_defs)
  have nx: "ll_next (nodes s' y) = (if y = r then ll_next (nodes s k) else if y = k then r
      else ll_next (nodes s y))" for y
    using K rk by (simp add: s' node_upd_def)
  show used: "ll_used (nodes s' r) = 0" and size: "ll_size (nodes s' r) = 4096 * HEAP_BLOCKS - sizeof_LLMalloc"
    and used': "\<And>y. y \<noteq> r \<Longrightarrow> ll_used (nodes s' y) = ll_used (nodes s y)"
    and size': "\<And>y. y \<noteq> r \<Longrightarrow> ll_size (nodes s' y) = ll_size (nodes s y)"
    using K rk by (simp_all add: s' node_upd_def)
  have hl: "heap_limit s' = heap_limit s + 0x400000" "unat (blocks_allocked s') \<le> 0x10000"
    using bl by (simp_all add: heap_limit_def bl' unat_word_ariths)
  have "chain (nodes s) qs (ll_next (nodes s k)) k" using ok k(1) by (simp add: heap_ok_def)
  moreover have "chain (nodes s) qs a e = chain (nodes s') qs a e" for a e
    using nin ok by (intro chain_cong) (auto simp: nx heap_ok_def)
  ultimately have ring: "chain (nodes s') (k # r # qs) k k" using nx rk by simp
  have bytes: "block_bytes (nodes s') r = {heap_limit s ..< heap_limit s + 0x400000}"
  proof -
    have "unat (ll_size (nodes s' r)) = 0x3FFFF0" by (simp add: size sizeof_LLMalloc_def layout_defs)
    then show ?thesis by (simp add: block_bytes_def lim add.commute)
  qed
  have bytes': "block_bytes (nodes s') y = block_bytes (nodes s) y" if "y \<noteq> r" for y
    using that by (simp add: block_bytes_def size')
  have below: "block_bytes (nodes s) y \<subseteq> {..<heap_limit s}" if "y \<in> set (k # qs)" for y
    using heap_okD(1) [OF ok that] by (auto simp: block_bytes_def)
  have apart: "block_bytes (nodes s') x \<inter> block_bytes (nodes s') y = {}"
    if xy: "x \<in> set (k # r # qs)" "y \<in> set (k # r # qs)" "x \<noteq> y" for x y
  proof -
    consider "x = r" "y \<in> set (k # qs)" | "y = r" "x \<in> set (k # qs)"
      | "x \<in> set (k # qs)" "y \<in> set (k # qs)"
      using xy by auto
    then show ?thesis
    proof cases
      case 1
      then show ?thesis using below [of y] nin bytes bytes' [of y] by fastforce
    next
      case 2
      then show ?thesis using below [of x] nin bytes bytes' [of x] by fastforce
    next
      case 3
      then show ?thesis
        using heap_ok_disjoint [OF ok 3 xy(3)] bytes' [of x] bytes' [of y] nin by metis
    qed
  qed
  have inside: "unat HEAP_START \<le> unat x \<and> unat x + 16 + unat (ll_size (nodes s' x)) \<le> heap_limit s'"
    if "x \<in> set (k # r # qs)" for x
  proof (cases "x = r")
    case True
    have "unat (ll_size (nodes s' r)) = 0x3FFFF0" by (simp add: size sizeof_LLMalloc_def layout_defs)
    with True show ?thesis by (simp add: lim hl(1)) (simp add: heap_limit_def)
  next
    case False
    then show ?thesis using that heap_okD(1,3) [OF ok, of x] size' [of x] by (auto simp: hl(1))
  qed
  show "heap_ok s' (k # r # qs)"
    using ok nin rk [symmetric] ring apart inside hl(2) unfolding heap_ok_def kh
    by (simp add: word_le_nat_alt del: chain.simps)
qed

section \<open>Properties\<close>

lemma heap_align_le:
  assumes "unat sz + 3 < 2 ^ 32"
  shows "unat sz \<le> unat (heap_align sz)"
proof -
  have "unat (sz mod 4) < 4" by (simp add: unat_mod_distrib)
  with assms have "unat (sz + sz mod 4) = unat sz + unat (sz mod 4)" by (intro unat_add_small) simp
  then show ?thesis by (simp add: heap_align_def)
qed

lemma heap_search_ring:
  "heap_ok s xs \<Longrightarrow> heap_search (nodes s) (kern_heap s) sz (kern_heap s)
     = Some (case find (\<lambda>x. block_fits sz (nodes s x)) xs of Some x \<Rightarrow> x | None \<Rightarrow> kern_heap s)"
  by (rule heap_search_chain) (auto simp: heap_ok_def neq_Nil_conv)

lemma heap_malloc_fit:
  assumes "heap_ok s xs" and "heap_align sz \<le> 4096 - sizeof_LLMalloc"
    and "find (\<lambda>x. block_fits (heap_align sz) (nodes s x)) xs = Some it"
  shows "heap_malloc sz s = Some (Inr (it + sizeof_LLMalloc, heap_take (heap_align sz) it s))"
    and "it \<in> set xs" and "block_fits (heap_align sz) (nodes s it)"
proof -
  show it: "it \<in> set xs" "block_fits (heap_align sz) (nodes s it)"
    using assms(3) by (auto simp: find_Some_iff)
  show "heap_malloc sz s = Some (Inr (it + sizeof_LLMalloc, heap_take (heap_align sz) it s))"
    using assms(2,3) it(2) heap_search_ring [OF assms(1), of "heap_align sz"]
    by (simp add: heap_malloc.simps [of sz s])
qed

text \<open>What a caller gets: memory of its own.\<close>

definition fresh_block :: "u32 \<Rightarrow> u32 \<Rightarrow> u32 list \<Rightarrow> ('a) heap_state_scheme \<Rightarrow> ('a) heap_state_scheme \<Rightarrow> bool" where
  "fresh_block p sz xs s s' \<longleftrightarrow>
     (\<exists>ys. heap_ok s' ys \<and> p - sizeof_LLMalloc \<in> set ys \<and> ll_used (nodes s' (p - sizeof_LLMalloc)) = 1
       \<and> {unat p ..< unat p + unat sz} \<subseteq> block_bytes (nodes s') (p - sizeof_LLMalloc)
       \<and> (\<forall>y \<in> set xs. ll_used (nodes s y) \<noteq> 0 \<longrightarrow>
            y \<in> set ys \<and> y \<noteq> p - sizeof_LLMalloc \<and> ll_used (nodes s' y) = ll_used (nodes s y)
            \<and> block_bytes (nodes s') y = block_bytes (nodes s) y
            \<and> {unat p ..< unat p + unat sz} \<inter> block_bytes (nodes s) y = {}))"

lemma heap_take_fresh:
  assumes ok: "heap_ok s xs" and it: "it \<in> set xs" and fits: "block_fits t (nodes s it)"
    and sz: "unat sz \<le> unat t"
  shows "fresh_block (it + sizeof_LLMalloc) sz xs s (heap_take t it s)"
proof -
  let ?s = "heap_take t it s"
  obtain ys where T: "heap_ok ?s ys" "set xs \<subseteq> set ys" "ll_used (nodes ?s it) = 1"
    "t \<le> ll_size (nodes ?s it)" "\<forall>y \<in> set xs. y \<noteq> it \<longrightarrow> nodes ?s y = nodes s y"
    by (rule heap_take_safe [OF ok it fits])
  have ity: "it \<in> set ys" using it T(2) by blast
  note L = heap_okD [OF T(1) ity]
  have u: "unat (it + sizeof_LLMalloc) = unat it + 16"
    using L by (subst unat_add_small) (simp_all add: sizeof_LLMalloc_def)
  have "unat sz \<le> unat (ll_size (nodes ?s it))" using T(4) sz by (simp add: word_le_nat_alt)
  then have sub: "{unat (it + sizeof_LLMalloc) ..< unat (it + sizeof_LLMalloc) + unat sz} \<subseteq> block_bytes (nodes ?s) it"
    by (auto simp: block_bytes_def u)
  have "y \<in> set ys \<and> y \<noteq> it \<and> ll_used (nodes ?s y) = ll_used (nodes s y)
      \<and> block_bytes (nodes ?s) y = block_bytes (nodes s) y
      \<and> {unat (it + sizeof_LLMalloc) ..< unat (it + sizeof_LLMalloc) + unat sz} \<inter> block_bytes (nodes s) y = {}"
    if y: "y \<in> set xs" "ll_used (nodes s y) \<noteq> 0" for y
  proof -
    have ne: "y \<noteq> it" using y(2) fits by (auto simp: block_fits_def)
    then have eq: "nodes ?s y = nodes s y" using T(5) y(1) by blast
    then have "block_bytes (nodes ?s) y = block_bytes (nodes s) y" by (simp add: block_bytes_def)
    moreover have "block_bytes (nodes ?s) it \<inter> block_bytes (nodes ?s) y = {}"
      using heap_ok_disjoint [OF T(1) ity, of y] y(1) T(2) ne by blast
    ultimately show ?thesis using eq ne y(1) T(2) sub by auto
  qed
  then show ?thesis
    unfolding fresh_block_def using T(1,3) ity sub by (intro exI [of _ ys]) simp
qed

text \<open>First fit. When some free block is large enough, \<^verbatim>\<open>heap_malloc\<close> returns the
  payload of the first such block of the list.\<close>

lemma heap_malloc_first_fit:
  assumes "heap_ok s xs" and "heap_align sz \<le> 4096 - sizeof_LLMalloc"
    and "x \<in> set xs" and "block_fits (heap_align sz) (nodes s x)"
  shows "\<exists>ps it qs s'. xs = ps @ it # qs \<and> (\<forall>y \<in> set ps. \<not> block_fits (heap_align sz) (nodes s y))
     \<and> block_fits (heap_align sz) (nodes s it)
     \<and> heap_malloc sz s = Some (Inr (it + sizeof_LLMalloc, s'))"
proof -
  obtain it where it: "find (\<lambda>x. block_fits (heap_align sz) (nodes s x)) xs = Some it"
    using assms(3,4) by (cases "find (\<lambda>x. block_fits (heap_align sz) (nodes s x)) xs") (auto simp: find_None_iff)
  then obtain i where i: "i < length xs" "it = xs ! i" "block_fits (heap_align sz) (nodes s it)"
    "\<forall>j < i. \<not> block_fits (heap_align sz) (nodes s (xs ! j))"
    by (auto simp: find_Some_iff)
  show ?thesis
    using heap_malloc_fit(1) [OF assms(1,2) it] i id_take_nth_drop [OF i(1)]
    by (intro exI [of _ "take i xs"] exI [of _ it] exI [of _ "drop (Suc i) xs"] exI)
      (auto simp: in_set_conv_nth)
qed


text \<open>The ring is determined by its headers.\<close>

lemma chain_unique:
  "chain ns xs a e \<Longrightarrow> chain ns ys a e \<Longrightarrow> e \<notin> set (tl xs) \<Longrightarrow> e \<notin> set (tl ys) \<Longrightarrow> xs \<noteq> [] \<Longrightarrow> ys \<noteq> [] \<Longrightarrow> xs = ys"
proof (induction xs arbitrary: a ys)
  case (Cons x xs)
  obtain y zs where ys: "ys = y # zs" using Cons.prems by (cases ys) auto
  then have eq: "x = a" "y = a" and c: "chain ns xs (ll_next (ns a)) e" "chain ns zs (ll_next (ns a)) e"
    using Cons.prems by simp_all
  consider "xs = []" "zs = []" | "xs = []" "zs \<noteq> []" | "xs \<noteq> []" "zs = []" | "xs \<noteq> []" "zs \<noteq> []" by blast
  then show ?case
  proof cases
    case 2
    then show ?thesis using c Cons.prems(4) ys by (cases zs) auto
  next
    case 3
    then show ?thesis using c Cons.prems(3) by (cases xs) auto
  next
    case 4
    then have "e \<notin> set (tl xs)" "e \<notin> set (tl zs)" using Cons.prems(3,4) ys by (auto dest: list.set_sel(2))
    then show ?thesis using Cons.IH [OF c] 4 eq ys by simp
  qed (use eq ys in simp_all)
qed simp

lemma heap_ok_unique: "heap_ok s xs \<Longrightarrow> heap_ok s ys \<Longrightarrow> xs = ys"
  by (rule chain_unique [of "nodes s" xs "kern_heap s" "kern_heap s" ys]) (auto simp: heap_ok_def neq_Nil_conv)

section \<open>The contract with the clients of the heap\<close>

text \<open>What a client relies on: memory it asks for is not memory that is in use, memory in use
  stays in use, and nothing of the client's own state changes.\<close>

locale allocator =
  fixes malloc :: "u32 \<Rightarrow> 's \<Rightarrow> (kerror + (u32 \<times> 's)) option"
    and ok :: "'s \<Rightarrow> bool"
    and fits :: "u32 \<Rightarrow> 's \<Rightarrow> bool"
    and owned :: "'s \<Rightarrow> u32 \<Rightarrow> bool"
    and rest :: "'s \<Rightarrow> 'r"
  assumes malloc_returns: "ok s \<Longrightarrow> fits sz s \<Longrightarrow> \<exists>p s'. malloc sz s = Some (Inr (p, s'))"
    and malloc_ok: "ok s \<Longrightarrow> fits sz s \<Longrightarrow> malloc sz s = Some (Inr (p, s')) \<Longrightarrow> ok s' \<and> p \<noteq> 0"
    and malloc_fresh: "ok s \<Longrightarrow> fits sz s \<Longrightarrow> malloc sz s = Some (Inr (p, s')) \<Longrightarrow> \<not> owned s p \<and> owned s' p"
    and malloc_keeps: "ok s \<Longrightarrow> fits sz s \<Longrightarrow> malloc sz s = Some (Inr (p, s')) \<Longrightarrow> owned s q \<Longrightarrow> owned s' q"
    and malloc_rest: "ok s \<Longrightarrow> fits sz s \<Longrightarrow> malloc sz s = Some (Inr (p, s')) \<Longrightarrow> rest s' = rest s"
begin

lemma malloc_obtains:
  assumes "ok s" and "fits sz s" and "\<forall>a \<in> A. owned s a"
  obtains p s' where "malloc sz s = Some (Inr (p, s'))" "ok s'" "p \<noteq> 0" "p \<notin> A" "\<forall>a \<in> insert p A. owned s' a" "rest s' = rest s"
proof -
  obtain p s' where m: "malloc sz s = Some (Inr (p, s'))" using malloc_returns assms(1,2) by blast
  show thesis
    by (rule that [OF m])
      (use assms m malloc_ok malloc_fresh malloc_keeps malloc_rest in \<open>blast+\<close>)
qed

end

definition heap_wf :: "('a) heap_state_scheme \<Rightarrow> bool" where
  "heap_wf s \<longleftrightarrow> (\<exists>xs. heap_ok s xs)"

definition heap_fits :: "u32 \<Rightarrow> ('a) heap_state_scheme \<Rightarrow> bool" where
  "heap_fits sz s \<longleftrightarrow> unat sz + 3 < 2 ^ 32 \<and> heap_align sz \<le> 4096 - sizeof_LLMalloc
     \<and> (\<exists>xs. heap_ok s xs \<and> (\<exists>x \<in> set xs. block_fits (heap_align sz) (nodes s x)))"

definition heap_owned :: "('a) heap_state_scheme \<Rightarrow> u32 \<Rightarrow> bool" where
  "heap_owned s p \<longleftrightarrow> (\<exists>xs. heap_ok s xs \<and> p - sizeof_LLMalloc \<in> set xs \<and> ll_used (nodes s (p - sizeof_LLMalloc)) \<noteq> 0)"

lemma heap_take_frame: "\<exists>ns. heap_take sz it s = s\<lparr>nodes := ns\<rparr>"
  by (auto simp: heap_take_def node_upd_def Let_def)

lemma heap_malloc_takes:
  assumes "heap_fits sz s"
  obtains xs it where "heap_malloc sz s = Some (Inr (it + sizeof_LLMalloc, heap_take (heap_align sz) it s))"
    "heap_ok s xs" "it \<in> set xs" "block_fits (heap_align sz) (nodes s it)"
proof -
  obtain xs x where xs: "heap_ok s xs" "x \<in> set xs" "block_fits (heap_align sz) (nodes s x)"
    using assms by (auto simp: heap_fits_def)
  then obtain it where it: "find (\<lambda>x. block_fits (heap_align sz) (nodes s x)) xs = Some it"
    by (cases "find (\<lambda>x. block_fits (heap_align sz) (nodes s x)) xs") (auto simp: find_None_iff)
  show thesis
    using heap_malloc_fit [OF xs(1) _ it] xs(1) assms by (intro that [of it xs]) (auto simp: heap_fits_def)
qed

lemma heap_malloc_fits_fresh:
  assumes "heap_fits sz s" and "heap_malloc sz s = Some (Inr (p, s'))" and "heap_ok s xs"
  shows "fresh_block p sz xs s s'"
proof -
  obtain ys it where it: "heap_malloc sz s = Some (Inr (it + sizeof_LLMalloc, heap_take (heap_align sz) it s))"
    "heap_ok s ys" "it \<in> set ys" "block_fits (heap_align sz) (nodes s it)"
    by (rule heap_malloc_takes [OF assms(1)])
  have find: "find (\<lambda>x. block_fits (heap_align sz) (nodes s x)) xs \<noteq> None"
  proof
    assume "find (\<lambda>x. block_fits (heap_align sz) (nodes s x)) xs = None"
    then have "\<forall>x \<in> set xs. \<not> block_fits (heap_align sz) (nodes s x)" by (auto simp: find_None_iff)
    moreover have "set ys = set xs" using heap_ok_unique [OF it(2) assms(3)] by simp
    ultimately show False using it(3,4) by simp
  qed
  then obtain jt where jt: "find (\<lambda>x. block_fits (heap_align sz) (nodes s x)) xs = Some jt" by auto
  note F = heap_malloc_fit [OF assms(3) _ jt]
  have "unat sz \<le> unat (heap_align sz)" using assms(1) by (intro heap_align_le) (simp add: heap_fits_def)
  then show ?thesis
    using heap_take_fresh [OF assms(3) F(2,3)] F(1) assms(1,2) by (simp add: heap_fits_def)
qed

interpretation kheap: allocator heap_malloc heap_wf heap_fits heap_owned heap_state.more
proof
  fix sz and s :: "('a) heap_state_scheme" and p s'
  assume ok: "heap_wf s" and fits: "heap_fits sz s"
  obtain xs it where T: "heap_malloc sz s = Some (Inr (it + sizeof_LLMalloc, heap_take (heap_align sz) it s))" "heap_ok s xs" "it \<in> set xs"
    by (rule heap_malloc_takes [OF fits])
  then show "\<exists>p s'. heap_malloc sz s = Some (Inr (p, s'))" by blast
  assume m: "heap_malloc sz s = Some (Inr (p, s'))"
  note fresh = heap_malloc_fits_fresh [OF fits m]
  have "unat it + 16 \<le> 0x30000000" "unat HEAP_START \<le> unat it" using heap_okD [OF T(2,3)] by simp_all
  then have "p \<noteq> 0" using T(1) m by (auto simp: sizeof_LLMalloc_def word_unat_eq_iff unat_word_ariths)
  then show "heap_wf s' \<and> p \<noteq> 0" using fresh [OF T(2)] by (auto simp: heap_wf_def fresh_block_def)
  show "\<not> heap_owned s p \<and> heap_owned s' p"
    using fresh fresh [OF T(2)] by (force simp: heap_owned_def fresh_block_def)
  show "heap_owned s' q" if "heap_owned s q" for q
    using that fresh by (force simp: heap_owned_def fresh_block_def)
  obtain ns where "heap_take (heap_align sz) it s = s\<lparr>nodes := ns\<rparr>" using heap_take_frame by blast
  then show "heap_state.more s' = heap_state.more s" using T(1) m by simp
qed

text \<open>A heap with one block of 4 MB, as \<^verbatim>\<open>heap_init\<close> leaves it, for concrete runs.\<close>

definition heap_example :: heap_state where
  "heap_example = \<lparr>pmem = pmem vmm_example, pmm_bitmap = 0x1000, pmm_bitmap_sz = 16,
     kernel_dir = 0x3000, current_dir = 0x3000, cr3 = 0x3000, paging = True, local_apic = 0,
     interrupt_handlers = (\<lambda>_. Null_isr), kheap_lock = lock_example, kern_heap = HEAP_START,
     blocks_allocked = 1024,
     nodes = (\<lambda>_. \<lparr>ll_next = 0, ll_prev = 0, ll_size = 0, ll_used = 0, ll_magic1 = 0, ll_magic2 = 0\<rparr>)
       (HEAP_START := \<lparr>ll_next = HEAP_START, ll_prev = HEAP_START, ll_size = 0x3FFFF0, ll_used = 0,
          ll_magic1 = 0xabcd, ll_magic2 = 0xef\<rparr>)\<rparr>"

lemma heap_example_ok: "heap_ok heap_example [HEAP_START]"
  by (simp add: heap_ok_def heap_example_def heap_limit_def layout_defs)

lemma heap_malloc_first_fit_witness:
  "\<exists>s'. heap_malloc 8 heap_example = Some (Inr (HEAP_START + 16, s'))"
proof -
  have "block_fits (heap_align 8) (nodes heap_example HEAP_START)" "heap_align 8 \<le> 4096 - sizeof_LLMalloc"
    by (simp_all add: block_fits_def heap_example_def heap_align_def sizeof_LLMalloc_def)
  then show ?thesis
    using heap_malloc_first_fit [OF heap_example_ok, of 8 HEAP_START]
    by (auto simp: Cons_eq_append_conv sizeof_LLMalloc_def)
qed


text \<open>\<^verbatim>\<open>heap_free\<close> does not mark the block as free: when it returns, the header
  that held the allocation is still marked as used, so the search of \<^verbatim>\<open>heap_malloc\<close>
  never takes that block again.\<close>

lemma heap_free_keeps_used:
  assumes "heap_free addr s = Inr s'"
  shows "ll_used (nodes s' (addr - sizeof_LLMalloc)) = 1"
  using assms
  by (auto simp: heap_free_def Let_def heap_join_next_def node_upd_def split: if_splits prod.splits)

lemma heap_free_keeps_used_witness:
  "\<exists>s'. heap_free (HEAP_START + 16)
       (node_upd HEAP_START (\<lambda>b. b\<lparr>ll_used := 1\<rparr>) heap_example) = Inr s'
     \<and> ll_used (nodes s' (HEAP_START + 16 - sizeof_LLMalloc)) = 1"
proof -
  have "\<exists>s'. heap_free (HEAP_START + 16) (node_upd HEAP_START (\<lambda>b. b\<lparr>ll_used := 1\<rparr>) heap_example) = Inr s'"
    by (simp add: heap_free_def Let_def node_upd_def heap_example_def sizeof_LLMalloc_def)
  then show ?thesis using heap_free_keeps_used by blast
qed

section \<open>Where the code departs from what it promises\<close>

text \<open>Sizes close to 2^32 wrap to a tiny allocation, and "aligning" 5 gives 6.\<close>

lemma heap_align_wraps: "heap_align 0xFFFFFFFF = 2" "heap_align 5 = 6"
  by (simp_all add: heap_align_def)

text \<open>The block that a split leaves behind has no magic values: on memory that was zero, a
  second allocation takes it, and freeing that allocation panics.\<close>

lemma heap_free_of_split_block_panics:
  "heap_free (HEAP_START + 40) (heap_take 8 (HEAP_START + 24) (heap_take 8 HEAP_START heap_example))
     = Inl (Panic ''Heap magic value does not fit.'')"
  by (simp add: heap_free_def heap_take_def Let_def node_upd_def heap_example_def sizeof_LLMalloc_def
      layout_defs)

end
