(* ===== verification/Frames.thy ===== *)
theory Frames
  imports Vmem
begin

text \<open>
  What the code above the memory managers counts on: how many frames are left, which pages keep
  their frames, and what a frame from \<^verbatim>\<open>pmm_alloc_first\<close> and a page from
  \<^verbatim>\<open>vmm_map_page\<close> change of it. The relation \<open>keeps\<close> composes along a sequence of calls.
\<close>

section \<open>Counting frames\<close>

definition free_frames :: "('a) pmm_state_scheme \<Rightarrow> u32 set" where
  "free_frames s = {b. 0 < b \<and> b < pmm_bitmap_sz s \<and> b \<notin> taken s}"

definition frames_left :: "('a) pmm_state_scheme \<Rightarrow> nat" where
  "frames_left s = card (free_frames s)"

lemma card_frames:
  fixes A :: "u32 set"
  assumes "\<And>n. lo \<le> n \<Longrightarrow> n < hi \<Longrightarrow> of_nat n \<in> A" and "hi \<le> 2 ^ 32"
  shows "hi - lo \<le> card A"
proof -
  have inj: "inj_on (of_nat :: nat \<Rightarrow> u32) {lo..<hi}"
    using assms(2) by (auto simp: inj_on_def word_unat_eq_iff unat_of_nat)
  have "card (of_nat ` {lo..<hi} :: u32 set) \<le> card A" using assms(1) by (intro card_mono) auto
  then show ?thesis by (simp add: card_image [OF inj])
qed

lemma frames_left_alloc:
  assumes "pmm_inv s" and "0 < frames_left s"
  obtains f s1 where "pmm_alloc_first s = (f, s1)" "f \<noteq> 0" "frames_left s1 = frames_left s - 1"
proof -
  obtain f s1 where al: "pmm_alloc_first s = (f, s1)" by fastforce
  have "f \<noteq> 0"
  proof
    assume "f = 0"
    with al pmm.alloc_none [OF assms(1)] have "free_frames s = {}" by (auto simp: free_frames_def)
    with assms(2) show False by (simp add: frames_left_def)
  qed
  moreover from pmm.alloc_frame [OF assms(1) al this] pmm.alloc_keeps [OF assms(1) al]
  have "free_frames s1 = free_frames s - {f div 4096}" "f div 4096 \<in> free_frames s" by (auto simp: free_frames_def)
  then have "frames_left s1 = frames_left s - 1" by (simp add: frames_left_def)
  ultimately show thesis using al by (intro that)
qed

lemma frames_left_map:
  assumes "vmm_inv s" and "map_legal virt acl s" and "vmm_map_page phys virt acl s = Inr (r, s')"
  shows "frames_left s \<le> frames_left s' + (if page_present (pde s (fst (ADDR2INDEX virt))) then 0 else 1)"
    and "page_present (pde s' (fst (ADDR2INDEX virt)))"
proof -
  obtain d i where ix: "ADDR2INDEX virt = (d, i)" by (cases "ADDR2INDEX virt")
  with assms(2) have L: "d < 1023" "acl < 4096" "acl AND X86_PAGE_WRITABLE \<noteq> 0" "page_present (pde s d) \<or> fst (pmm_alloc_first s) \<noteq> 0"
    by (simp_all add: map_legal_def)
  note F = vmm_map_page_frames [OF assms(1) ix L assms(3)]
  show "page_present (pde s' (fst (ADDR2INDEX virt)))" using F(2) ix by simp
  obtain m where m: "s' = s\<lparr>pmem := m\<rparr>" using vmm_map_page_only_mem [OF assms(3)] by blast
  have "free_frames s \<subseteq> free_frames s' \<union> (if page_present (pde s d) then {} else {fst (pmm_alloc_first s) div 4096})"
    using F(1) by (auto simp: free_frames_def m)
  then have "card (free_frames s) \<le> card (free_frames s' \<union> (if page_present (pde s d) then {} else {fst (pmm_alloc_first s) div 4096}))"
    by (intro card_mono) simp_all
  also have "\<dots> \<le> card (free_frames s') + card (if page_present (pde s d) then {} else {fst (pmm_alloc_first s) div 4096})"
    by (rule card_Un_le)
  finally show "frames_left s \<le> frames_left s' + (if page_present (pde s (fst (ADDR2INDEX virt))) then 0 else 1)"
    by (simp add: frames_left_def ix split: if_splits)
qed

text \<open>A page of data in a frame the allocator knows.\<close>

definition held_page :: "('a) vmm_state_scheme \<Rightarrow> u32 \<Rightarrow> u32 \<Rightarrow> bool" where
  "held_page s va f \<longleftrightarrow> data_page s va f \<and> f div 4096 < pmm_bitmap_sz s \<and> f div 4096 \<in> taken s"

lemma frames_view:
  assumes "vmm_view s t"
  shows "frames_left s = frames_left t" and "held_page s = held_page t"
proof -
  have "pmm_bitmap_sz s = pmm_bitmap_sz t" using assms by (simp add: vmm_view_def)
  then show "frames_left s = frames_left t" "held_page s = held_page t"
    by (simp_all add: frames_left_def free_frames_def held_page_def fun_eq_iff vmm_view_simps(3,5) [OF assms])
qed

section \<open>What a sequence of calls keeps\<close>

text \<open>\<open>keeps V n s s'\<close>: the tables are well formed, pages with a frame of their own keep it, no
  page outside \<open>V\<close> is mapped differently, and at most \<open>n\<close> frames have been taken.\<close>

definition keeps :: "(u32 \<times> u32) set \<Rightarrow> nat \<Rightarrow> ('a) vmm_state_scheme \<Rightarrow> ('a) vmm_state_scheme \<Rightarrow> bool" where
  "keeps V n s s' \<longleftrightarrow> vmm_inv s' \<and> (\<forall>wa g. held_page s wa g \<longrightarrow> held_page s' wa g)
     \<and> (\<forall>v. v \<notin> V \<longrightarrow> mappings s' v = mappings s v) \<and> frames_left s \<le> frames_left s' + n"

lemma keepsD:
  assumes "keeps V n s s'"
  shows "vmm_inv s'" and "held_page s wa g \<Longrightarrow> held_page s' wa g" and "v \<notin> V \<Longrightarrow> mappings s' v = mappings s v"
    and "frames_left s \<le> frames_left s' + n"
  using assms unfolding keeps_def by blast+

lemma keeps_refl: "vmm_inv s \<Longrightarrow> keeps V n s s"
  by (simp add: keeps_def)

lemma keeps_trans: "keeps V n s t \<Longrightarrow> keeps W k t u \<Longrightarrow> keeps (V \<union> W) (n + k) s u"
  by (fastforce simp: keeps_def)

lemma keeps_weaken: "keeps V n s t \<Longrightarrow> V \<subseteq> W \<Longrightarrow> n \<le> k \<Longrightarrow> keeps W k s t"
  by (fastforce simp: keeps_def)

lemma keeps_view:
  assumes "vmm_view s s1" and "vmm_view t t1"
  shows "keeps V n s t = keeps V n s1 t1"
  unfolding keeps_def vmm_view_simps(1,2) [OF assms(1)] vmm_view_simps(1,2) [OF assms(2)]
    frames_view [OF assms(1)] frames_view [OF assms(2)] ..

text \<open>No byte in the frame of such a page has changed.\<close>

definition same_data :: "('a) vmm_state_scheme \<Rightarrow> ('a) vmm_state_scheme \<Rightarrow> bool" where
  "same_data s s' \<longleftrightarrow> (\<forall>wa g k. held_page s wa g \<and> k div 4096 = g div 4096 \<longrightarrow> pmem s' k = pmem s k)"

lemma same_dataD: "same_data s s' \<Longrightarrow> held_page s wa g \<Longrightarrow> k div 4096 = g div 4096 \<Longrightarrow> pmem s' k = pmem s k"
  unfolding same_data_def by blast

lemma same_data_trans: "same_data s t \<Longrightarrow> keeps V n s t \<Longrightarrow> same_data t u \<Longrightarrow> same_data s u"
  unfolding same_data_def keeps_def by metis

text \<open>A write inside a page of data.\<close>

lemma keeps_write:
  assumes "data_page s va f" and "only_page (f div 4096) s s'"
  shows "keeps {} 0 s s'"
proof -
  have inv: "vmm_inv s" and f: "data_frame s f" using assms(1) by (simp_all add: data_page_def)
  note W = data_write [OF inv f assms(2)] and flds = only_page_fields [OF assms(2)]
  have tk: "b \<in> taken s' \<longleftrightarrow> b \<in> taken s" if "b < pmm_bitmap_sz s" for b
    using taken_other_page [OF assms(2) _ that] f by (simp add: data_frame_def)
  have "free_frames s' = free_frames s" using tk by (auto simp: free_frames_def flds)
  moreover have "held_page s' wa g" if "held_page s wa g" for wa g
    using that tk data_page_other [OF assms] by (simp add: held_page_def flds)
  ultimately show ?thesis using W(1,2) by (simp add: keeps_def frames_left_def)
qed

text \<open>A frame from the allocator that is not used.\<close>

lemma keeps_alloc:
  assumes inv: "vmm_inv s" and al: "pmm_alloc_first s = (f, s1)" "f \<noteq> 0"
  shows "keeps {} 1 s s1" and "mappings s1 = mappings s" and "same_data s s1"
proof -
  note al' = alloc_fresh [OF inv al]
  note keep = set_block_keeps [OF inv al'(3), folded al'(1)]
  show maps: "mappings s1 = mappings s"
    by (rule ext) (auto simp: mappings_def keep(1,2) below_window)
  have bm: "bitmap_page s1 = bitmap_page s" by (simp add: al'(1) bitmap_page_def pmm_set_block_def fun_eq_iff)
  have ptbl: "ptbl s1 e = ptbl s e" if "e < 1024" for e using keep(1) [OF that] by (simp add: ptbl_def)
  have "data_frame s1 g = data_frame s g" for g by (auto simp: data_frame_def bm keep(1) ptbl)
  then have "data_page s1 = data_page s" by (simp add: fun_eq_iff data_page_def keep(3) inv maps)
  then have "held_page s1 wa g" if "held_page s wa g" for wa g
    using that al'(3) by (simp add: held_page_def) (simp add: al'(1))
  moreover have "frames_left s \<le> frames_left s1 + 1"
  proof (cases "frames_left s = 0")
    case False
    then show ?thesis using frames_left_alloc [OF vmm_invD(2) [OF inv]] al(1) by (metis Suc_eq_plus1 Suc_pred' bot_nat_0.not_eq_extremum order_refl prod.inject)
  qed simp
  ultimately show "keeps {} 1 s s1" using maps keep(3) by (simp add: keeps_def)
  have "pmem s1 k = pmem s k" if "\<not> bitmap_page s (k div 4096)" for k
    using that al'(3) by (auto simp: al'(1) pmm_set_block_def bitmap_set_def bitmap_page_def)
  then show "same_data s s1" unfolding same_data_def held_page_def data_page_def data_frame_def by metis
qed

text \<open>Whether there is a frame or not.\<close>

lemma keeps_alloc_any:
  assumes inv: "vmm_inv s" and al: "pmm_alloc_first s = (f, s1)"
  shows "keeps {} 1 s s1"
proof (cases "f = 0")
  case True
  then have "s1 = s" using pmm.alloc_none [OF vmm_invD(2) [OF inv]] al by simp
  then show ?thesis using inv by (simp add: keeps_refl)
qed (use keeps_alloc [OF assms] in simp)

text \<open>With frames for the page and, if it is missing, for its page table, a frame can be taken and
  then mapped.\<close>

lemma alloc_map_legal:
  assumes inv: "vmm_inv s" and left: "(if page_present (pde s (fst (ADDR2INDEX va))) then 1 else 2) \<le> frames_left s"
    and "fst (ADDR2INDEX va) < 1023" and "acl < 4096" and "acl AND X86_PAGE_WRITABLE \<noteq> 0"
  obtains f s1 where "pmm_alloc_first s = (f, s1)" "f \<noteq> 0" "frames_left s1 = frames_left s - 1" "map_legal va acl s1"
    "pde s1 (fst (ADDR2INDEX va)) = pde s (fst (ADDR2INDEX va))"
proof -
  obtain d i where ix: "ADDR2INDEX va = (d, i)" by (cases "ADDR2INDEX va")
  have d: "d < 1023" "d < 1024" using assms(3) ix below_window [of d] by simp_all
  have "0 < frames_left s" using left by (auto split: if_splits)
  then obtain f s1 where al: "pmm_alloc_first s = (f, s1)" "f \<noteq> 0" "frames_left s1 = frames_left s - 1"
    by (rule frames_left_alloc [OF vmm_invD(2) [OF inv]])
  note al' = alloc_fresh [OF inv al(1,2)] and K = keeps_alloc [OF inv al(1,2)]
  have pde: "pde s1 d = pde s d" using set_block_keeps(1) [OF inv al'(3) d(2)] by (simp add: al'(1))
  have "fst (pmm_alloc_first s1) \<noteq> 0" if "\<not> page_present (pde s d)"
  proof -
    have "0 < frames_left s1" using that left al(3) ix by simp
    then show ?thesis using frames_left_alloc [OF vmm_invD(2) [OF keepsD(1) [OF K(1)]]] by (metis fst_conv)
  qed
  then have "map_legal va acl s1" using d pde assms(4,5) by (auto simp: map_legal_def ix)
  then show thesis using al pde ix by (intro that [of f s1]) simp_all
qed

text \<open>A frame that has just been taken, mapped where nothing was.\<close>

lemma fresh_page_keeps:
  assumes inv: "vmm_inv s" and al: "pmm_alloc_first s = (f, s1)" "f \<noteq> 0" and legal: "map_legal va acl s1"
    and none: "mappings s (ADDR2INDEX va) = None" and va: "va mod 4096 = 0"
  obtains s2 where "vmm_map_page f va acl s1 = Inr (VMM_SUCCESS, s2)"
    "keeps {ADDR2INDEX va} (if page_present (pde s (fst (ADDR2INDEX va))) then 1 else 2) s s2" "\<exists>m. s2 = s\<lparr>pmem := m\<rparr>"
    "page_present (pde s2 (fst (ADDR2INDEX va)))" "held_page s2 va f" "same_data s s2"
    "\<forall>wa g. data_page s wa g \<and> g div 4096 \<in> taken s \<longrightarrow> data_page s2 wa g"
proof -
  obtain d i where ix: "ADDR2INDEX va = (d, i)" by (cases "ADDR2INDEX va")
  let ?n = "if page_present (pde s d) then 1 else 2 :: nat"
  note al' = alloc_fresh [OF inv al] and K = keeps_alloc [OF inv al]
  have d: "d < 1023" "d < 1024" using legal ix below_window [of d] by (simp_all add: map_legal_def)
  have pde: "pde s1 d = pde s d" using set_block_keeps(1) [OF inv al'(3) d(2)] by (simp add: al'(1))
  have left: "frames_left s \<le> frames_left s1 + 1" using keepsD(4) [OF K(1)] .
  obtain s2 where s2: "vmm_map_page f va acl s1 = Inr (VMM_SUCCESS, s2)" "data_page s2 va f"
    "mappings s2 = (mappings s)(ADDR2INDEX va \<mapsto> f OR X86_PAGE_PRESENT OR acl)"
    "\<exists>m. s2 = s\<lparr>pmem := m\<rparr>" "\<forall>wa g. data_page s wa g \<and> g div 4096 \<in> taken s \<longrightarrow> data_page s2 wa g"
    by (rule fresh_data_page [OF inv al legal none va])
  note fl = frames_left_map [OF keepsD(1) [OF K(1)] legal s2(1), unfolded ix fst_conv]
  have tk: "b \<in> taken s2" if "b < pmm_bitmap_sz s" "b \<in> taken s1" for b
    using vmm_map_page_frames(1) [OF keepsD(1) [OF K(1)] ix d(1) _ _ _ s2(1), of b] that legal
    unfolding map_legal_def ix fst_conv al'(1) pmm_set_block_simps by blast
  have sz: "pmm_bitmap_sz s2 = pmm_bitmap_sz s" using s2(4) by auto
  have "f div 4096 \<in> taken s1" using al'(3) by (simp add: al'(1))
  then have held: "held_page s2 va f" using s2(2) tk [OF al'(3)] al'(3) by (simp add: held_page_def sz)
  have "held_page s2 wa g" if "held_page s wa g" for wa g
  proof -
    have "g div 4096 \<in> taken s1" using that al'(3) by (simp add: held_page_def al'(1))
    then show ?thesis using that s2(5) tk by (simp add: held_page_def sz)
  qed
  note held_all = this
  have "pmem s2 k = pmem s1 k" if h: "held_page s1 wa g" "k div 4096 = g div 4096" "held_page s2 wa g" for wa g k
  proof (rule vmm_map_page_data [OF keepsD(1) [OF K(1)] ix d(1) _ _ _ s2(1)])
    show "\<not> bitmap_page s1 (k div 4096)" using h by (simp add: held_page_def data_page_def data_frame_def)
    show "\<forall>e < 1024. page_present (pde s2 e) \<longrightarrow> ptbl s2 e div 4096 \<noteq> k div 4096"
      using h by (auto simp: held_page_def data_page_def data_frame_def page_eq_div)
  qed (use legal in \<open>simp_all add: map_legal_def ix\<close>)
  then have sd: "same_data s s2"
    using held_all keepsD(2) [OF K(1)] K(3) unfolding same_data_def by metis
  have "vmm_inv s2" using s2(2) by (simp add: data_page_def)
  moreover have "frames_left s \<le> frames_left s2 + ?n" using fl(1) left pde by (auto split: if_splits)
  ultimately have "keeps {ADDR2INDEX va} ?n s s2" using s2(3) held_all by (simp add: keeps_def)
  then show thesis using s2 held fl(2) ix sd by (intro that [of s2]) auto
qed

text \<open>The pattern of the kernel: take a frame, map it at an address, which may be in use already.\<close>

lemma alloc_and_map:
  assumes inv: "vmm_inv s" and left: "(if page_present (pde s (fst (ADDR2INDEX va))) then 1 else 2) \<le> frames_left s"
    and va: "va mod 4096 = 0" "fst (ADDR2INDEX va) < 1023"
  obtains f s1 r s2 where "pmm_alloc_first s = (f, s1)" "vmm_map_page f va X86_PAGE_WRITABLE s1 = Inr (r, s2)"
    "keeps {ADDR2INDEX va} (if page_present (pde s (fst (ADDR2INDEX va))) then 1 else 2) s s2" "\<exists>m. s2 = s\<lparr>pmem := m\<rparr>"
    "page_present (pde s2 (fst (ADDR2INDEX va)))"
    "mappings s (ADDR2INDEX va) = None \<Longrightarrow> r = VMM_SUCCESS \<and> held_page s2 va f"
    "mappings s (ADDR2INDEX va) \<noteq> None \<Longrightarrow> mappings s2 = mappings s" "same_data s s2" "f div 4096 \<notin> taken s"
proof -
  obtain d i where ix: "ADDR2INDEX va = (d, i)" by (cases "ADDR2INDEX va")
  let ?n = "if page_present (pde s d) then 1 else 2 :: nat"
  have d: "d < 1023" "?n \<le> frames_left s" using va(2) left ix by simp_all
  obtain f s1 where al: "pmm_alloc_first s = (f, s1)" "f \<noteq> 0" "frames_left s1 = frames_left s - 1"
    and legal: "map_legal va X86_PAGE_WRITABLE s1" and pde: "pde s1 d = pde s d"
    by (rule alloc_map_legal [OF inv left va(2), of X86_PAGE_WRITABLE]) (simp_all add: kernel_defs ix that)
  note al' = alloc_fresh [OF inv al(1,2)] and K = keeps_alloc [OF inv al(1,2)]
  show thesis
  proof (cases "mappings s (d, i)")
    case None
    then have none: "mappings s (ADDR2INDEX va) = None" using ix by simp
    obtain s2 where "vmm_map_page f va X86_PAGE_WRITABLE s1 = Inr (VMM_SUCCESS, s2)"
      "keeps {ADDR2INDEX va} (if page_present (pde s (fst (ADDR2INDEX va))) then 1 else 2) s s2" "\<exists>m. s2 = s\<lparr>pmem := m\<rparr>"
      "page_present (pde s2 (fst (ADDR2INDEX va)))" "held_page s2 va f" "same_data s s2"
      by (rule fresh_page_keeps [OF inv al(1,2) legal none va(1)])
    then show thesis using al(1) none al'(4) by (intro that [of f s1 VMM_SUCCESS s2]) simp_all
  next
    case (Some e)
    then have pres: "page_present (pde s d)" by (auto simp: mappings_def split: if_splits)
    have "vmm_map_page f va X86_PAGE_WRITABLE s1 = Inr (VMM_ERR_PAGE_IN_USE, s1)"
      using pages.map_used [OF keepsD(1) [OF K(1)] legal] Some ix K(2) by simp
    moreover have "\<exists>m. s1 = s\<lparr>pmem := m\<rparr>" using pmm_alloc_first_only_mem [of s] al(1) by simp
    ultimately show thesis
      using al(1) Some ix K pres pde al'(4) by (intro that [of f s1 VMM_ERR_PAGE_IN_USE s1]) (auto intro: keeps_weaken)
  qed
qed

end
