(* ===== verification/Gdt.thy ===== *)
theory Gdt
  imports Frod_Prelude
begin

text \<open>
  Segment descriptors and the task state segment, \<^verbatim>\<open>src/arch/x86/gdt.c\<close>. The state is
  the \<^verbatim>\<open>cpu_info\<close> of the executing processor and the registers the flush routines of
  \<^verbatim>\<open>flush.s\<close> load. The addresses of the fields of \<^verbatim>\<open>cpu_info\<close> are chosen by
  the compiler and the linker and are parameters.
\<close>

section \<open>State and operations\<close>

definition NUM_GDT_ENTRIES :: nat where "NUM_GDT_ENTRIES = 7"
definition KSTACKSZ :: u32 where "KSTACKSZ = KB4"

record gdt_entry =
  gdt_limit_low :: u16
  gdt_base_low :: u16
  gdt_base_middle :: u8
  gdt_access :: u8
  gdt_granularity :: u8
  gdt_base_high :: u8

record gdt_pointer =
  gp_limit :: u16
  gp_base :: u32

record tss_entry =
  tss_esp0 :: u32
  tss_ss0 :: u32
  tss_eflags :: u32
  tss_es :: u32
  tss_cs :: u32
  tss_ss :: u32
  tss_ds :: u32
  tss_fs :: u32
  tss_gs :: u32
  tss_rest :: "u32 list"

record cpu_info =
  cpu_id :: u8
  cpu_started :: u32
  cpu_num_cli :: int
  cpu_int_enabled :: bool
  cpu_boot_cpu :: bool
  cpu_gdt_entries :: "gdt_entry list"
  cpu_gdt_ptr :: gdt_pointer
  cpu_tss :: tss_entry
  cpu_cpu :: u32

text \<open>Where the fields of the executing processor's \<^verbatim>\<open>cpu_info\<close> are in memory.\<close>

record cpu_addrs =
  at_info :: u32
  at_gdt_entries :: u32
  at_gdt_ptr :: u32
  at_tss :: u32
  at_cpu :: u32

record seg_regs =
  reg_gdtr :: u32
  reg_gs :: u16
  reg_tr :: u16

definition sizeof_tss :: u32 where "sizeof_tss = 104"
definition PTR_SZ :: u32 where "PTR_SZ = 4"

definition gdt_set_gate :: "cpu_info \<Rightarrow> nat \<Rightarrow> u32 \<Rightarrow> u32 \<Rightarrow> u8 \<Rightarrow> u8 \<Rightarrow> cpu_info" where
  "gdt_set_gate c num base limit access gran =
     (let e = (cpu_gdt_entries c ! num)\<lparr>
            gdt_base_low := ucast (base AND 0xFFFF),
            gdt_base_middle := ucast (drop_bit 16 base AND 0xFF),
            gdt_base_high := ucast (drop_bit 24 base AND 0xFF),
            gdt_limit_low := ucast (limit AND 0xFFFF),
            gdt_granularity := ucast (drop_bit 16 limit AND 0x0F)\<rparr>;
          e = e\<lparr>gdt_granularity := gdt_granularity e OR (gran AND 0xF0), gdt_access := access\<rparr>
      in c\<lparr>cpu_gdt_entries := (cpu_gdt_entries c)[num := e]\<rparr>)"

text \<open>\<^verbatim>\<open>memset(&c->tss, 0, sizeof(c->tss))\<close>: the fields the code names, and the
  rest of the structure as seventeen words.\<close>

definition zero_tss :: tss_entry where
  "zero_tss = \<lparr>tss_esp0 = 0, tss_ss0 = 0, tss_eflags = 0, tss_es = 0, tss_cs = 0, tss_ss = 0,
     tss_ds = 0, tss_fs = 0, tss_gs = 0, tss_rest = replicate 17 0\<rparr>"

definition write_tss :: "cpu_addrs \<Rightarrow> cpu_info \<Rightarrow> nat \<Rightarrow> u16 \<Rightarrow> u32 \<Rightarrow> cpu_info" where
  "write_tss a c num ss0 esp0 =
     (let base = at_tss a; limit = base + sizeof_tss;
          c = gdt_set_gate c num base limit 0xe9 0x00
      in c\<lparr>cpu_tss := zero_tss\<lparr>tss_eflags := 0x0002, tss_ss0 := ucast ss0, tss_esp0 := esp0,
             tss_cs := 0x08 OR 0x03, tss_ss := 0x10 OR 0x03, tss_ds := 0x10 OR 0x03,
             tss_es := 0x10 OR 0x03, tss_fs := 0x10 OR 0x03, tss_gs := (6 * 8) OR 0x03\<rparr>\<rparr>)"

definition gdt_install :: "cpu_addrs \<Rightarrow> cpu_info \<times> seg_regs \<Rightarrow> cpu_info \<times> seg_regs" where
  "gdt_install a cr =
     (let (c, r) = cr;
          c = c\<lparr>cpu_gdt_ptr := (cpu_gdt_ptr c)\<lparr>gp_limit := 8 * of_nat NUM_GDT_ENTRIES - 1, gp_base := at_gdt_entries a\<rparr>\<rparr>;
          c = gdt_set_gate c 0 0 0 0 0;
          c = gdt_set_gate c 1 0 0xFFFFFFFF 0x9A 0xCF;
          c = gdt_set_gate c 2 0 0xFFFFFFFF 0x92 0xCF;
          c = gdt_set_gate c 3 0 0xFFFFFFFF 0xFA 0xCF;
          c = gdt_set_gate c 4 0 0xFFFFFFFF 0xF2 0xCF;
          c = write_tss a c 5 0x10 0;
          c = gdt_set_gate c 6 (at_cpu a) (at_cpu a + 4 * (PTR_SZ * 1)) 0x92 0xCF;
          r = r\<lparr>reg_gdtr := at_gdt_ptr a\<rparr>;
          r = r\<lparr>reg_gs := 6 * 8\<rparr>;
          c = c\<lparr>cpu_cpu := at_info a\<rparr>;
          r = r\<lparr>reg_tr := 0x28 OR 0x03\<rparr>
      in (c, r))"

definition change_tss :: "u32 \<Rightarrow> cpu_info \<Rightarrow> cpu_info" where
  "change_tss kstack c = c\<lparr>cpu_tss := (cpu_tss c)\<lparr>tss_esp0 := kstack + KSTACKSZ\<rparr>\<rparr>"

definition set_kernel_stack :: "u32 \<Rightarrow> cpu_info \<Rightarrow> cpu_info" where
  "set_kernel_stack stack c = c\<lparr>cpu_tss := (cpu_tss c)\<lparr>tss_esp0 := stack\<rparr>\<rparr>"

section \<open>What the processor reads in a descriptor\<close>

definition desc_base :: "gdt_entry \<Rightarrow> u32" where
  "desc_base e = ucast (gdt_base_low e) OR push_bit 16 (ucast (gdt_base_middle e))
     OR push_bit 24 (ucast (gdt_base_high e))"

definition desc_limit :: "gdt_entry \<Rightarrow> u32" where
  "desc_limit e = ucast (gdt_limit_low e) OR push_bit 16 (ucast (gdt_granularity e AND 0x0F))"

definition desc_flags :: "gdt_entry \<Rightarrow> u8" where
  "desc_flags e = gdt_granularity e AND 0xF0"

definition desc_dpl :: "gdt_entry \<Rightarrow> u8" where
  "desc_dpl e = drop_bit 5 (gdt_access e) AND 3"

text \<open>The last byte of the segment: the limit counts pages when the granularity bit is set.\<close>

definition desc_last :: "gdt_entry \<Rightarrow> u32" where
  "desc_last e = (if bit (gdt_granularity e) 7 then push_bit 12 (desc_limit e) OR 0xFFF else desc_limit e)"

text \<open>The contract of a descriptor format: what is packed is what is read back.\<close>

locale descriptor_format =
  fixes pack :: "'v \<Rightarrow> 'e \<Rightarrow> 'e" and unpack :: "'e \<Rightarrow> 'v" and legal :: "'v \<Rightarrow> bool"
  assumes unpack_pack: "legal v \<Longrightarrow> unpack (pack v e) = v"
begin

lemma table_update:
  assumes "legal v" and "i < length t"
  shows "unpack (t[i := pack v (t ! i)] ! i) = v"
    and "j \<noteq> i \<Longrightarrow> t[i := pack v (t ! i)] ! j = t ! j"
  using assms by (simp_all add: unpack_pack)

lemma pack_inj: "legal v \<Longrightarrow> legal w \<Longrightarrow> pack v e = pack w e' \<Longrightarrow> v = w"
  by (metis unpack_pack)

end

definition gdt_pack :: "u32 \<times> u32 \<times> u8 \<times> u8 \<Rightarrow> gdt_entry \<Rightarrow> gdt_entry" where
  "gdt_pack v e = (case v of (base, limit, access, gran) \<Rightarrow>
     e\<lparr>gdt_base_low := ucast (base AND 0xFFFF), gdt_base_middle := ucast (drop_bit 16 base AND 0xFF),
       gdt_base_high := ucast (drop_bit 24 base AND 0xFF), gdt_limit_low := ucast (limit AND 0xFFFF),
       gdt_granularity := ucast (drop_bit 16 limit AND 0x0F) OR (gran AND 0xF0), gdt_access := access\<rparr>)"

definition gdt_unpack :: "gdt_entry \<Rightarrow> u32 \<times> u32 \<times> u8 \<times> u8" where
  "gdt_unpack e = (desc_base e, desc_limit e, gdt_access e, desc_flags e)"

definition gdt_legal :: "u32 \<times> u32 \<times> u8 \<times> u8 \<Rightarrow> bool" where
  "gdt_legal v = (case v of (base, limit, access, gran) \<Rightarrow> limit AND 0xFFFFF = limit \<and> gran AND 0xF0 = gran)"

section \<open>Properties\<close>

lemma gdt_set_gate_pack:
  "gdt_set_gate c num base limit access gran =
     c\<lparr>cpu_gdt_entries := (cpu_gdt_entries c)[num := gdt_pack (base, limit, access, gran) (cpu_gdt_entries c ! num)]\<rparr>"
  by (simp add: gdt_set_gate_def gdt_pack_def Let_def)

lemma masks:
  "(0xFFFF :: u32) = mask 16" "(0xFF :: u32) = mask 8" "(0x0F :: u32) = mask 4" "(0xFFFFF :: u32) = mask 20"
  "(0x0F :: u8) = mask 4" "(0xF0 :: u8) = NOT (mask 4)"
  by (simp_all add: mask_eq_exp_minus_1)

lemma desc_base_pack: "desc_base (gdt_pack (base, limit, access, gran) e) = base"
proof (rule bit_word_eqI)
  fix n assume "n < LENGTH(32)"
  then show "bit (desc_base (gdt_pack (base, limit, access, gran) e)) n = bit base n"
    unfolding desc_base_def gdt_pack_def prod.case masks
    by (cases "n < 16"; cases "n < 24") (auto simp: bit_simps)
qed

lemma desc_limit_pack: "desc_limit (gdt_pack (base, limit, access, gran) e) = limit AND 0xFFFFF"
  unfolding desc_limit_def gdt_pack_def prod.case masks
  by (rule bit_word_eqI) (auto simp: bit_simps)

lemma desc_flags_pack: "desc_flags (gdt_pack (base, limit, access, gran) e) = gran AND 0xF0"
  unfolding desc_flags_def gdt_pack_def prod.case masks
  by (rule bit_word_eqI) (auto simp: bit_simps)

interpretation gdt_fmt: descriptor_format gdt_pack gdt_unpack gdt_legal
  by unfold_locales
    (auto simp: gdt_unpack_def gdt_legal_def desc_base_pack desc_limit_pack desc_flags_pack,
     simp add: gdt_pack_def)

text \<open>\<^verbatim>\<open>gdt_set_gate\<close> packs a descriptor the processor unpacks to the same values:
  the whole base, the low 20 bits of the limit, the access byte and the high nibble of the
  granularity; the other descriptors stay as they are.\<close>

lemma gdt_set_gate_roundtrip:
  assumes "num < length (cpu_gdt_entries c)"
  shows "gdt_unpack (cpu_gdt_entries (gdt_set_gate c num base limit access gran) ! num)
       = (base, limit AND 0xFFFFF, access, gran AND 0xF0)
     \<and> (\<forall>i. i \<noteq> num \<longrightarrow> cpu_gdt_entries (gdt_set_gate c num base limit access gran) ! i = cpu_gdt_entries c ! i)"
  using assms
  by (simp add: gdt_set_gate_pack gdt_unpack_def desc_base_pack desc_limit_pack desc_flags_pack)
    (simp add: gdt_pack_def)

definition gdt_example :: cpu_info where
  "gdt_example = \<lparr>cpu_id = 0, cpu_started = 0, cpu_num_cli = 0, cpu_int_enabled = False, cpu_boot_cpu = True,
     cpu_gdt_entries = replicate 7 \<lparr>gdt_limit_low = 0, gdt_base_low = 0, gdt_base_middle = 0, gdt_access = 0,
       gdt_granularity = 0, gdt_base_high = 0\<rparr>,
     cpu_gdt_ptr = \<lparr>gp_limit = 0, gp_base = 0\<rparr>, cpu_tss = zero_tss, cpu_cpu = 0\<rparr>"

lemma gdt_set_gate_roundtrip_witness:
  "gdt_unpack (cpu_gdt_entries (gdt_set_gate gdt_example 6 0x12345678 0x9ABCD 0x92 0xCF) ! 6)
     = (0x12345678, 0x9ABCD, 0x92, 0xC0)"
  using gdt_set_gate_roundtrip [of 6 gdt_example "0x12345678" "0x9ABCD" "0x92" "0xCF"]
  by (simp add: gdt_example_def)



section \<open>Where the code departs from what it means\<close>

text \<open>The limit of the task state descriptor is an address, not the offset of the last byte.\<close>

lemma tss_limit_is_address:
  assumes "length (cpu_gdt_entries c) = NUM_GDT_ENTRIES"
  shows "desc_limit (cpu_gdt_entries (fst (gdt_install a (c, r))) ! 5) = (at_tss a + sizeof_tss) AND 0xFFFFF"
  using assms
  by (simp add: gdt_install_def write_tss_def gdt_set_gate_pack Let_def NUM_GDT_ENTRIES_def desc_limit_pack)

end
