(* ===== verification/Process.thy ===== *)
theory Process
  imports Heap Frames Gdt
begin

text \<open>
  Processes, \<^verbatim>\<open>src/sys/process.c\<close>. Process control blocks are a store from heap addresses
  to records; kernel stacks and the register frames on them are in virtual memory and every
  access to them goes through the page walk. Addresses of code are chosen by the linker and are
  parameters. Messages below the debug level are left out.
\<close>

section \<open>State and operations\<close>

definition PROC_RUNNING :: u8 where "PROC_RUNNING = 1"
definition PROC_READY :: u8 where "PROC_READY = 2"

record pcb =
  pcb_pid :: u32
  pcb_dirtable :: u32
  pcb_kstack :: u32
  pcb_cont :: u32
  pcb_regs :: u32
  pcb_state :: u8
  pcb_next :: u32

record proc_state = heap_state +
  pcbs :: "u32 \<Rightarrow> pcb"
  proc_current :: u32
  proc_list :: u32
  last_pid :: u32
  cpu :: cpu_info
  interrupts :: bool

definition sizeof_pcb :: u32 where "sizeof_pcb = 28"

definition pcb_upd :: "u32 \<Rightarrow> (pcb \<Rightarrow> pcb) \<Rightarrow> proc_state \<Rightarrow> proc_state" where
  "pcb_upd p f s = s\<lparr>pcbs := (pcbs s)(p := f (pcbs s p))\<rparr>"

text \<open>The size of a register frame and the offsets of its fields.\<close>

definition sizeof_Registers :: u32 where "sizeof_Registers = 68"
definition off_gs :: u32 where "off_gs = 0"
definition off_fs :: u32 where "off_fs = 4"
definition off_es :: u32 where "off_es = 8"
definition off_ds :: u32 where "off_ds = 12"
definition off_ebp :: u32 where "off_ebp = 24"
definition off_eip :: u32 where "off_eip = 56"
definition off_cs :: u32 where "off_cs = 60"
definition off_eflags :: u32 where "off_eflags = 64"

text \<open>Steps 2 and 3 of \<^verbatim>\<open>alloc_proc\<close>: the kernel stack and what is on it.\<close>

definition alloc_kstack :: "u32 \<Rightarrow> proc_state \<Rightarrow> kerror + proc_state" where
  "alloc_kstack p s =
     (let virt_addr = PROC_VMM_START + last_pid s * KSTACKSZ; (phys_addr, s) = pmm_alloc_first s in
      if phys_addr = 0 then Inl (Panic ''Unable to allocate physical frame'')
      else ebind (vmm_map_page phys_addr virt_addr X86_PAGE_WRITABLE s) (\<lambda>(r, s).
        if r \<noteq> 0 then Inl (Panic ''Unable to map address'')
        else Inr (pcb_upd p (\<lambda>b. b\<lparr>pcb_kstack := virt_addr\<rparr>) s)))"

definition fill_kstack :: "u32 \<Rightarrow> u32 \<Rightarrow> u32 \<Rightarrow> u32 \<Rightarrow> proc_state \<Rightarrow> kerror + proc_state" where
  "fill_kstack p exit ret2 ret_stack s =
     (let sp = pcb_kstack (pcbs s p) + KSTACKSZ; sp = sp - 4 in
      ebind (vstore32 sp ret2 s) (\<lambda>s.
      let sp = sp - 4 in
      ebind (vstore32 sp ret_stack s) (\<lambda>s.
      let sp = sp - sizeof_Registers; s = pcb_upd p (\<lambda>b. b\<lparr>pcb_regs := sp\<rparr>) s in
      ebind (vmemset (pcb_regs (pcbs s p)) 0 sizeof_Registers s) (\<lambda>s.
      vstore32 (pcb_regs (pcbs s p) + off_eip) exit s))))"

definition alloc_proc ::
  "u32 \<Rightarrow> u32 \<Rightarrow> u32 \<Rightarrow> proc_state \<Rightarrow> (kerror + (u32 \<times> proc_state)) option" where
  "alloc_proc exit ret2 ret_stack s =
     oebind (heap_malloc sizeof_pcb s) (\<lambda>(p, s).
     let s = s\<lparr>last_pid := last_pid s + 1\<rparr>; s = pcb_upd p (\<lambda>b. b\<lparr>pcb_pid := last_pid s\<rparr>) s in
     Some (if last_pid s \<ge> PROC_MAX_PID then Inl (Panic ''Max PID used'')
       else
         ebind (alloc_kstack p (pcb_upd p (\<lambda>b. b\<lparr>pcb_state := PROC_READY\<rparr>) s)) (\<lambda>s.
         ebind (fill_kstack p exit ret2 ret_stack s) (\<lambda>s. Inr (p, s)))))"

text \<open>The segment registers, flags and code segment of a new process, in the order the code
  sets them.\<close>

definition set_segments :: "u32 \<Rightarrow> u32 \<Rightarrow> u32 \<Rightarrow> u32 \<Rightarrow> proc_state \<Rightarrow> kerror + proc_state" where
  "set_segments r data flags code s =
     ebind (vstore32 (r + off_ds) data s) (\<lambda>s.
     ebind (vstore32 (r + off_es) data s) (\<lambda>s.
     ebind (vstore32 (r + off_fs) data s) (\<lambda>s.
     ebind (vstore32 (r + off_gs) data s) (\<lambda>s.
     ebind (vstore32 (r + off_eflags) flags s) (\<lambda>s.
     vstore32 (r + off_cs) code s)))))"

definition process_init :: "u32 \<Rightarrow> proc_state \<Rightarrow> (kerror + (u32 \<times> proc_state)) option" where
  "process_init process_dummy s =
     oebind (alloc_proc process_dummy 0 0 s) (\<lambda>(p, s).
     let s = pcb_upd p (\<lambda>b. b\<lparr>pcb_state := PROC_RUNNING\<rparr>) s in
     oebind (Some (set_segments (pcb_regs (pcbs s p)) 0x10 0x202 0x08 s)) (\<lambda>s.
     let s = pcb_upd p (\<lambda>b. b\<lparr>pcb_dirtable := cr3 s\<rparr>) s;
         s = pcb_upd p (\<lambda>b. b\<lparr>pcb_next := p\<rparr>) s;
         s = s\<lparr>proc_current := p\<rparr>;
         s = s\<lparr>cpu := change_tss (pcb_kstack (pcbs s p)) (cpu s)\<rparr>
     in Some (Inr (pcb_pid (pcbs s p), s))))"

text \<open>\<open>ebp0\<close> is the value of EBP, \<open>ra\<close> the return address of
  \<^verbatim>\<open>real_fork\<close>, \<open>fn\<close> the address \<^verbatim>\<open>vmm_create_address_space\<close> uses for a
  frame.\<close>

definition real_fork ::
  "u32 \<Rightarrow> u32 \<Rightarrow> u32 \<Rightarrow> u32 \<Rightarrow> u32 \<Rightarrow> proc_state \<Rightarrow> (kerror + (u32 \<times> proc_state)) option" where
  "real_fork return_fork fn ebp0 ra ret_stack s =
     (let s = s\<lparr>interrupts := False\<rparr> in
      oebind (alloc_proc return_fork ra ret_stack s) (\<lambda>(p, s).
      let r = pcb_regs (pcbs s p) in
      Some (ebind (vmemcpy r (pcb_regs (pcbs s (proc_current s))) sizeof_Registers s) (\<lambda>s.
        ebind (vstore32 (r + off_eip) return_fork s) (\<lambda>s.
        ebind (vstore32 (r + off_ebp) ebp0 s) (\<lambda>s.
        let virt_addr = 0x10000000 + last_pid s * 4096 in
        ebind (vmm_create_address_space fn virt_addr s) (\<lambda>(phys_addr, s).
        let s = pcb_upd p (\<lambda>b. b\<lparr>pcb_dirtable := phys_addr\<rparr>) s;
            new_pid = pcb_pid (pcbs s p);
            s = pcb_upd p (\<lambda>b. b\<lparr>pcb_next := pcb_next (pcbs s (proc_current s))\<rparr>) s;
            s = pcb_upd (proc_current s) (\<lambda>b. b\<lparr>pcb_next := p\<rparr>) s;
            s = s\<lparr>interrupts := True\<rparr>
        in Inr (new_pid, s))))))))"

definition fork :: "u32 \<Rightarrow> u32 \<Rightarrow> u32 \<Rightarrow> u32 \<Rightarrow> u32 \<Rightarrow> proc_state \<Rightarrow> (kerror + (u32 \<times> proc_state)) option" where
  "fork return_fork fn ebp0 ra caller s = real_fork return_fork fn ebp0 ra caller s"

text \<open>\<open>regs\<close> is the address of the frame the interrupt stub has pushed.\<close>

definition switch_task :: "u32 \<Rightarrow> proc_state \<Rightarrow> kerror + (u32 \<times> proc_state)" where
  "switch_task regs s =
     (if proc_list s = 0 then Inr (0, s)
      else
        let old = proc_current s in
        ebind (vmemcpy (pcb_regs (pcbs s old)) regs sizeof_Registers s) (\<lambda>s.
        let s = pcb_upd old (\<lambda>b. b\<lparr>pcb_state := PROC_READY\<rparr>) s;
            s = s\<lparr>proc_current := proc_list s\<rparr>;
            s = s\<lparr>proc_list := old\<rparr>;
            s = s\<lparr>cpu := change_tss (pcb_kstack (pcbs s (proc_current s))) (cpu s)\<rparr>;
            s = vmm_switch_pdir (pcb_dirtable (pcbs s (proc_current s))) s;
            s = pcb_upd (proc_current s) (\<lambda>b. b\<lparr>pcb_state := PROC_RUNNING\<rparr>) s
        in Inr (pcb_kstack (pcbs s (proc_current s)) + KSTACKSZ - sizeof_Registers - 8, s)))"

definition process_start_usermode :: "u32 \<Rightarrow> u32 \<Rightarrow> proc_state \<Rightarrow> (kerror + proc_state) option" where
  "process_start_usermode usermode fn s =
     oebind (alloc_proc usermode 0 0 s) (\<lambda>(p, s).
     let s = pcb_upd p (\<lambda>b. b\<lparr>pcb_state := PROC_READY\<rparr>) s in
     Some (ebind (set_segments (pcb_regs (pcbs s p)) (0x20 OR 0x03) 0x200 (0x18 OR 0x03) s) (\<lambda>s.
       let virt_addr = 0x10000000 + last_pid s * 4096 in
       ebind (vmm_create_address_space fn virt_addr s) (\<lambda>(phys_addr, s).
       let s = pcb_upd p (\<lambda>b. b\<lparr>pcb_dirtable := phys_addr\<rparr>) s;
           s = pcb_upd p (\<lambda>b. b\<lparr>pcb_next := p\<rparr>) s
       in Inr (s\<lparr>proc_list := p\<rparr>)))))"

section \<open>The kernel stack of a new process\<close>

lemma proc_views [simp]:
  "vmm_view (pcb_upd p f s) s" "vmm_view (s\<lparr>last_pid := x\<rparr>) s" "vmm_view (s\<lparr>interrupts := y\<rparr>) s" "vmm_view (s\<lparr>nodes := z\<rparr>) s"
  by (simp_all add: vmm_view_def pcb_upd_def)

lemmas proc_view_simps [simp] = proc_views [THEN vmm_view_simps(1)] proc_views [THEN vmm_view_simps(2)]
  proc_views [THEN vmm_view_simps(3)] proc_views [THEN vmm_view_simps(4)] proc_views [THEN vmm_view_simps(7)]

lemma pcb_upd_simps [simp]:
  "pmem (pcb_upd p f s) = pmem s" "last_pid (pcb_upd p f s) = last_pid s" "proc_current (pcb_upd p f s) = proc_current s"
  "pcbs (pcb_upd p f s) = (pcbs s)(p := f (pcbs s p))" "cr3 (pcb_upd p f s) = cr3 s"
  "(pcb_upd p f s)\<lparr>pmem := m\<rparr> = pcb_upd p f (s\<lparr>pmem := m\<rparr>)" "heap_state.nodes (pcb_upd p f s) = heap_state.nodes s"
  by (simp_all add: pcb_upd_def)

text \<open>The words from 1005 on of the stack page: the register frame, all 0 but the instruction
  pointer, and the two words above it.\<close>

definition frame_word :: "u32 \<Rightarrow> u32 \<Rightarrow> u32 \<Rightarrow> u32 \<Rightarrow> u32" where
  "frame_word exit ret2 ret_stack i = (if i = 1023 then ret2 else if i = 1022 then ret_stack else if i = 1019 then exit else 0)"

lemma memset_frame_word:
  fixes f i :: u32
  assumes "f mod 4096 = 0" and "1005 \<le> i" and "i < 1024"
  shows "load32 (memset_loop (f + 4020) 0 68 0 m) (f + 4 * i) = (if i < 1022 then 0 else load32 m (f + 4 * i))"
proof -
  have "f + 4 * i + j - (f + 4020) < 68 \<longleftrightarrow> i < 1022" if "j < 4" for j
  proof -
    have n: "1005 \<le> unat i" "unat i < 1024" "unat j < 4" using assms(2,3) that by (simp_all add: word_le_nat_alt word_less_nat_alt)
    then have "unat (4 * i + j) = 4 * unat i + unat j" by (simp add: unat_word_ariths)
    then have "unat (4 * i + j - 4020) = 4 * unat i + unat j - 4020"
      using n by (subst unat_sub) (simp_all add: word_le_nat_alt)
    then show ?thesis using n by (auto simp: word_less_nat_alt add.assoc)
  qed
  from this [of 0] this [of 1] this [of 2] this [of 3] show ?thesis
    by (simp add: load32_def memset_loop_spec)
qed

lemma fill_kstack_frame:
  assumes dp: "data_page s v f" and k: "pcb_kstack (pcbs s p) = v"
  shows "\<exists>m. fill_kstack p exit ret2 ret_stack s = Inr (pcb_upd p (\<lambda>b. b\<lparr>pcb_regs := v + 4020\<rparr>) (s\<lparr>pmem := m\<rparr>))
     \<and> only_page (f div 4096) s (s\<lparr>pmem := m\<rparr>) \<and> data_page (s\<lparr>pmem := m\<rparr>) v f
     \<and> (\<forall>i. 1005 \<le> i \<and> i < 1024 \<longrightarrow> load32 m (f + 4 * i) = frame_word exit ret2 ret_stack i)"
proof -
  have f: "f mod 4096 = 0" and v: "v mod 4096 = 0" using data_page_frame [OF dp] by simp_all
  have nz: "v + 4020 \<noteq> 0" using page_offset(3) [OF v, of 4020] by auto
  let ?m1 = "store32 (pmem s) (f + 4 * 1023) ret2" and ?r = "\<lambda>s. pcb_upd p (\<lambda>b. b\<lparr>pcb_regs := v + 4020\<rparr>) s"
  let ?m2 = "store32 ?m1 (f + 4 * 1022) ret_stack"
  let ?m3 = "memset_loop (f + 4020) 0 68 0 ?m2"
  let ?m = "store32 ?m3 (f + 4 * 1019) exit"
  note w1 = data_page_word(2,3) [OF dp, of 1023 ret2, simplified]
  note w2 = data_page_word(2,3) [OF w1(2), of 1022 ret_stack, simplified]
  have dr: "data_page (?r (s\<lparr>pmem := ?m2\<rparr>)) v f" using w2(2) by simp
  note w3 = vmemset_data [OF dr, of 4020 68 0 0, simplified]
  have d3: "data_page (?r (s\<lparr>pmem := ?m3\<rparr>)) v f" using w3 by simp
  note w4 = data_page_word(2,3) [OF d3, of 1019 exit, simplified]
  have run: "fill_kstack p exit ret2 ret_stack s = Inr (?r (s\<lparr>pmem := ?m\<rparr>))"
  proof -
    have sp: "v + 0x1000 - 4 = v + 4092" "v + 4092 - 4 = v + 4088" "v + 4088 - 68 = v + 4020" "v + 4020 + 56 = v + 4076" by simp_all
    show ?thesis
      using w1(1) w2(1) w3 w4(1) nz
      unfolding fill_kstack_def KSTACKSZ_def KB4_def sizeof_Registers_def off_eip_def Let_def k sp
      by (simp add: vmemset_def sp)
  qed
  have e1: "only_page (f div 4096) s (s\<lparr>pmem := ?m1\<rparr>)"
    using only_page_store32 [OF f, of 1023 s ret2] by simp
  have e2: "only_page (f div 4096) (s\<lparr>pmem := ?m1\<rparr>) (s\<lparr>pmem := ?m2\<rparr>)"
    using only_page_store32 [OF f, of 1022 "s\<lparr>pmem := ?m1\<rparr>" ret_stack] by simp
  have e3: "only_page (f div 4096) (s\<lparr>pmem := ?m2\<rparr>) (s\<lparr>pmem := ?m3\<rparr>)"
    using only_page_memset [OF f, of 4020 68 "s\<lparr>pmem := ?m2\<rparr>" 0] by simp
  have e4: "only_page (f div 4096) (s\<lparr>pmem := ?m3\<rparr>) (s\<lparr>pmem := ?m\<rparr>)"
    using only_page_store32 [OF f, of 1019 "s\<lparr>pmem := ?m3\<rparr>" exit] by simp
  have op: "only_page (f div 4096) s (s\<lparr>pmem := ?m\<rparr>)"
    using e1 e2 e3 e4 by (blast intro: only_page_trans)
  have "load32 ?m (f + 4 * i) = frame_word exit ret2 ret_stack i" if "1005 \<le> i" "i < 1024" for i
  proof -
    have "i < 1022 \<or> i = 1022 \<or> i = 1023" using that(2) by unat_arith
    then show ?thesis
      using load_entry [OF f, of 1019 i ?m3 exit] memset_frame_word [OF f that, of ?m2]
        load_entry [OF f, of 1022 i ?m1 ret_stack] load_entry [OF f, of 1023 i "pmem s" ret2] that(2)
      by (auto simp: frame_word_def)
  qed
  then show ?thesis using run op data_page_write [OF dp op] by (intro exI [of _ ?m]) simp
qed

text \<open>Room for one more process: a frame for its stack, what it takes to map it, and nothing
  mapped at the address of the stack.\<close>

definition kstack_addr :: "u32 \<Rightarrow> u32" where
  "kstack_addr n = PROC_VMM_START + n * KSTACKSZ"

definition stack_ready :: "proc_state \<Rightarrow> bool" where
  "stack_ready s \<longleftrightarrow> fst (pmm_alloc_first s) \<noteq> 0
     \<and> map_legal (kstack_addr (last_pid s + 1)) X86_PAGE_WRITABLE (snd (pmm_alloc_first s))
     \<and> mappings s (ADDR2INDEX (kstack_addr (last_pid s + 1))) = None"

lemma kstack_addr_aligned: "kstack_addr n mod 4096 = 0"
proof -
  have "(0x10000000 + unat n * 4096) mod 4294967296 mod 4096 = (0 :: nat)"
    using mod_mod_cancel [of 4096 4294967296 "0x10000000 + unat n * 4096"] mod_mult_self1 [of "0x10000000" "unat n" 4096] by simp
  then show ?thesis
    by (simp add: kstack_addr_def KSTACKSZ_def layout_defs word_unat_eq_iff unat_mod_distrib unat_word_ariths mod_simps)
qed

lemma kstack_addr_nonzero:
  assumes "n < PROC_MAX_PID"
  shows "kstack_addr n \<noteq> 0"
proof -
  have "unat n < 65536" using assms by (simp add: layout_defs word_less_nat_alt)
  then have "unat (kstack_addr n) = 0x10000000 + unat n * 4096"
    by (simp add: kstack_addr_def KSTACKSZ_def layout_defs unat_word_ariths)
  then show ?thesis by (metis add_is_0 unat_0 zero_neq_numeral)
qed

lemma alloc_kstack_page:
  assumes inv: "vmm_inv s" and al: "pmm_alloc_first s = (f, s1)" "f \<noteq> 0"
    and legal: "map_legal (kstack_addr (last_pid s)) X86_PAGE_WRITABLE s1"
    and free: "mappings s (ADDR2INDEX (kstack_addr (last_pid s))) = None"
  shows "\<exists>m. alloc_kstack p s = Inr (pcb_upd p (\<lambda>b. b\<lparr>pcb_kstack := kstack_addr (last_pid s)\<rparr>) (s\<lparr>pmem := m\<rparr>))
     \<and> data_page (s\<lparr>pmem := m\<rparr>) (kstack_addr (last_pid s)) f
     \<and> (\<forall>wa g. data_page s wa g \<and> g div 4096 \<in> taken s \<longrightarrow> data_page (s\<lparr>pmem := m\<rparr>) wa g)
     \<and> keeps {ADDR2INDEX (kstack_addr (last_pid s))} 2 s (s\<lparr>pmem := m\<rparr>)"
proof -
  let ?v = "kstack_addr (last_pid s)"
  obtain s2 where s2: "vmm_map_page f ?v X86_PAGE_WRITABLE s1 = Inr (VMM_SUCCESS, s2)"
    "keeps {ADDR2INDEX ?v} (if page_present (pde s (fst (ADDR2INDEX ?v))) then 1 else 2) s s2" "\<exists>m. s2 = s\<lparr>pmem := m\<rparr>"
    "held_page s2 ?v f" "\<forall>wa g. data_page s wa g \<and> g div 4096 \<in> taken s \<longrightarrow> data_page s2 wa g"
    by (rule fresh_page_keeps [OF inv al legal free kstack_addr_aligned])
  then obtain m where m: "s2 = s\<lparr>pmem := m\<rparr>" by blast
  have "alloc_kstack p s = Inr (pcb_upd p (\<lambda>b. b\<lparr>pcb_kstack := ?v\<rparr>) s2)"
    using al s2(1) by (simp add: alloc_kstack_def kstack_addr_def VMM_SUCCESS_def)
  moreover have "keeps {ADDR2INDEX ?v} 2 s s2" by (rule keeps_weaken [OF s2(2)]) simp_all
  ultimately show ?thesis using s2(4,5) unfolding m held_page_def by blast
qed

lemma alloc_proc_spec:
  assumes inv: "vmm_inv s" and heap: "heap_wf s" "heap_fits sizeof_pcb s" and pid: "last_pid s + 1 < PROC_MAX_PID"
    and ready: "stack_ready s"
  obtains p s' f where "alloc_proc exit ret2 ret_stack s = Some (Inr (p, s'))" "\<not> heap_owned s p" "p \<noteq> 0"
    "pcbs s' = (pcbs s)(p := (pcbs s p)\<lparr>pcb_pid := last_pid s + 1, pcb_state := PROC_READY,
        pcb_kstack := kstack_addr (last_pid s + 1), pcb_regs := kstack_addr (last_pid s + 1) + 4020\<rparr>)"
    "last_pid s' = last_pid s + 1" "proc_current s' = proc_current s" "cr3 s' = cr3 s"
    "data_page s' (kstack_addr (last_pid s + 1)) f"
    "\<forall>i. 1005 \<le> i \<and> i < 1024 \<longrightarrow> load32 (pmem s') (f + 4 * i) = frame_word exit ret2 ret_stack i"
    "\<forall>wa g. data_page s wa g \<and> g div 4096 \<in> taken s \<longrightarrow> data_page s' wa g"
    "keeps {ADDR2INDEX (kstack_addr (last_pid s + 1))} 2 s s'"
proof -
  let ?n = "last_pid s + 1" and ?v = "kstack_addr (last_pid s + 1)"
  obtain xs it where T: "heap_malloc sizeof_pcb s = Some (Inr (it + sizeof_LLMalloc, heap_take (heap_align sizeof_pcb) it s))"
    by (rule heap_malloc_takes [OF heap(2)])
  define p where "p = it + sizeof_LLMalloc"
  obtain ns where ns: "heap_take (heap_align sizeof_pcb) it s = s\<lparr>nodes := ns\<rparr>" using heap_take_frame by blast
  have p: "\<not> heap_owned s p" "p \<noteq> 0"
    using kheap.malloc_fresh [OF heap T] kheap.malloc_ok [OF heap T] by (simp_all add: p_def)
  define s1 where "s1 = s\<lparr>nodes := ns, last_pid := ?n\<rparr>"
  define s2 where "s2 = pcb_upd p (\<lambda>b. b\<lparr>pcb_state := PROC_READY\<rparr>) (pcb_upd p (\<lambda>b. b\<lparr>pcb_pid := ?n\<rparr>) s1)"
  have v2: "vmm_view s2 s" by (simp add: s2_def s1_def pcb_upd_def vmm_view_def)
  obtain f t where al: "pmm_alloc_first s2 = (f, t)" by fastforce
  have f: "f \<noteq> 0" "vmm_view t (snd (pmm_alloc_first s))"
    using vmm_view_simps(8,10) [OF v2] ready al pmm_alloc_first_only_mem [of s]
    by (auto simp: stack_ready_def vmm_view_def s2_def s1_def pcb_upd_def)
  have lp: "last_pid s2 = ?n" by (simp add: s2_def s1_def)
  have ready2: "map_legal ?v X86_PAGE_WRITABLE t" "mappings s2 (ADDR2INDEX ?v) = None" "vmm_inv s2"
    using ready inv vmm_view_simps(1,2) [OF v2] vmm_view_simps(9) [OF f(2)] by (simp_all add: stack_ready_def)
  obtain m1 where m1: "alloc_kstack p s2 = Inr (pcb_upd p (\<lambda>b. b\<lparr>pcb_kstack := ?v\<rparr>) (s2\<lparr>pmem := m1\<rparr>))"
    "data_page (s2\<lparr>pmem := m1\<rparr>) ?v f" "\<And>wa g. data_page s2 wa g \<Longrightarrow> g div 4096 \<in> taken s2 \<Longrightarrow> data_page (s2\<lparr>pmem := m1\<rparr>) wa g"
    "keeps {ADDR2INDEX ?v} 2 s2 (s2\<lparr>pmem := m1\<rparr>)"
    using alloc_kstack_page [OF ready2(3) al f(1), of p] ready2(1,2) lp by auto
  define s3 where "s3 = pcb_upd p (\<lambda>b. b\<lparr>pcb_kstack := ?v\<rparr>) (s2\<lparr>pmem := m1\<rparr>)"
  have d3: "data_page s3 ?v f" "pcb_kstack (pcbs s3 p) = ?v" using m1(2) by (simp_all add: s3_def)
  obtain m where m: "fill_kstack p exit ret2 ret_stack s3 = Inr (pcb_upd p (\<lambda>b. b\<lparr>pcb_regs := ?v + 4020\<rparr>) (s3\<lparr>pmem := m\<rparr>))"
    "only_page (f div 4096) s3 (s3\<lparr>pmem := m\<rparr>)" "data_page (s3\<lparr>pmem := m\<rparr>) ?v f"
    "\<forall>i. 1005 \<le> i \<and> i < 1024 \<longrightarrow> load32 m (f + 4 * i) = frame_word exit ret2 ret_stack i"
    using fill_kstack_frame [OF d3] by blast
  define s' where "s' = pcb_upd p (\<lambda>b. b\<lparr>pcb_regs := ?v + 4020\<rparr>) (s3\<lparr>pmem := m\<rparr>)"
  have run: "alloc_proc exit ret2 ret_stack s = Some (Inr (p, s'))"
    using T pid m1(1) m(1) unfolding s'_def s3_def s2_def s1_def p_def
    by (simp add: alloc_proc_def Let_def ns not_le)
  have "data_page s' wa g" if "data_page s wa g" "g div 4096 \<in> taken s" for wa g
  proof -
    have "data_page s3 wa g" using m1(3) [of wa g] that vmm_view_simps(3,5) [OF v2] by (simp add: s3_def)
    from data_page_other [OF d3(1) m(2) this] show ?thesis by (simp add: s'_def)
  qed
  moreover have "pcbs s' = (pcbs s)(p := (pcbs s p)\<lparr>pcb_pid := ?n, pcb_state := PROC_READY, pcb_kstack := ?v, pcb_regs := ?v + 4020\<rparr>)"
    by (simp add: s'_def s3_def s2_def s1_def)
  moreover have "keeps {ADDR2INDEX ?v} 2 s s'"
  proof -
    have v3: "vmm_view (s2\<lparr>pmem := m1\<rparr>) s3" and v': "vmm_view s' (s3\<lparr>pmem := m\<rparr>)"
      by (simp_all add: s3_def s'_def vmm_view_def pcb_upd_def)
    have "keeps {ADDR2INDEX ?v} 2 s s3" using m1(4) keeps_view [OF v2 v3] by blast
    from keeps_trans [OF this keeps_write [OF d3(1) m(2)]] have "keeps {ADDR2INDEX ?v} 2 s (s3\<lparr>pmem := m\<rparr>)" by simp
    moreover have "vmm_view s s" by (simp add: vmm_view_def)
    ultimately show ?thesis using keeps_view [OF _ v'] by blast
  qed
  ultimately show thesis
    using run p m(3,4) by (intro that [of p s' f]) (simp_all add: s'_def, simp_all add: s3_def s2_def s1_def)
qed

text \<open>The register frame is words 1005 to 1021 of the stack page; the segment registers,
  flags and code segment of a new process replace six of them.\<close>

definition segment_word :: "u32 \<Rightarrow> u32 \<Rightarrow> u32 \<Rightarrow> u32 \<Rightarrow> u32 \<Rightarrow> u32" where
  "segment_word data flags code w i = (if i = 1020 then code else if i = 1021 then flags
     else if 1005 \<le> i \<and> i \<le> 1008 then data else w)"

lemma frame_offsets:
  fixes v :: u32
  shows "v + 4020 + off_ds = v + 4 * 1008" "v + 4020 + off_es = v + 4 * 1007" "v + 4020 + off_fs = v + 4 * 1006"
    "v + 4020 + off_gs = v + 4 * 1005" "v + 4020 + off_eflags = v + 4 * 1021" "v + 4020 + off_cs = v + 4 * 1020"
    "v + 4020 + off_eip = v + 4 * 1019" "v + 4020 + off_ebp = v + 4 * 1011"
  by (simp_all add: off_ds_def off_es_def off_fs_def off_gs_def off_eflags_def off_cs_def off_eip_def off_ebp_def)

fun put_words :: "u32 \<Rightarrow> (u32 \<times> u32) list \<Rightarrow> mem \<Rightarrow> mem" where
  "put_words f [] m = m"
| "put_words f ((i, x) # xs) m = put_words f xs (store32 m (f + 4 * i) x)"

lemma put_words_load:
  assumes "f mod 4096 = 0" and "\<forall>(i, x) \<in> set xs. i < 1024" and "j < 1024"
  shows "load32 (put_words f xs m) (f + 4 * j) = (case map_of (rev xs) j of None \<Rightarrow> load32 m (f + 4 * j) | Some x \<Rightarrow> x)"
  using assms(2)
  by (induction xs arbitrary: m)
    (auto simp: load_entry [OF assms(1) _ assms(3)] map_add_def split: option.splits)

lemma put_words_page:
  assumes "data_page s v f" and "\<forall>(i, x) \<in> set xs. i < 1024"
  shows "data_page (s\<lparr>pmem := put_words f xs (pmem s)\<rparr>) v f"
  using assms
proof (induction xs arbitrary: s)
  case (Cons a xs)
  obtain i x where a: "a = (i, x)" by fastforce
  from Cons.prems have "data_page (s\<lparr>pmem := store32 (pmem s) (f + 4 * i) x\<rparr>) v f"
    by (intro data_page_word(3)) (auto simp: a)
  from Cons.IH [OF this] Cons.prems(2) show ?case by (simp add: a)
qed simp

lemma put_words_only_page:
  fixes s :: "('a) vmm_state_scheme"
  assumes "f mod 4096 = 0" and "\<forall>(i, x) \<in> set xs. i < 1024"
  shows "only_page (f div 4096) s (s\<lparr>pmem := put_words f xs (pmem s)\<rparr>)"
  using assms(2)
proof (induction xs arbitrary: s)
  case (Cons a xs)
  obtain i x where a: "a = (i, x)" by fastforce
  let ?t = "s\<lparr>pmem := store32 (pmem s) (f + 4 * i) x\<rparr>"
  have "only_page (f div 4096) s ?t" using Cons.prems by (intro only_page_store32 [OF assms(1)]) (simp add: a)
  moreover have "only_page (f div 4096) ?t (s\<lparr>pmem := put_words f (a # xs) (pmem s)\<rparr>)"
    using Cons.IH [of ?t] Cons.prems by (simp add: a)
  ultimately show ?case by (rule only_page_trans)
qed (simp add: only_page_def)

definition segment_stores :: "u32 \<Rightarrow> u32 \<Rightarrow> u32 \<Rightarrow> (u32 \<times> u32) list" where
  "segment_stores data flags code = [(1008, data), (1007, data), (1006, data), (1005, data), (1021, flags), (1020, code)]"

lemma set_segments_frame:
  assumes "data_page s v f"
  shows "set_segments (v + 4020) data flags code s = Inr (s\<lparr>pmem := put_words f (segment_stores data flags code) (pmem s)\<rparr>)"
proof -
  let ?m1 = "store32 (pmem s) (f + 4 * 1008) data"
  let ?m2 = "store32 ?m1 (f + 4 * 1007) data"
  let ?m3 = "store32 ?m2 (f + 4 * 1006) data"
  let ?m4 = "store32 ?m3 (f + 4 * 1005) data"
  let ?m5 = "store32 ?m4 (f + 4 * 1021) flags"
  note w1 = data_page_word(2,3) [OF assms, of 1008 data, simplified]
  note w2 = data_page_word(2,3) [OF w1(2), of 1007 data, simplified]
  note w3 = data_page_word(2,3) [OF w2(2), of 1006 data, simplified]
  note w4 = data_page_word(2,3) [OF w3(2), of 1005 data, simplified]
  note w5 = data_page_word(2,3) [OF w4(2), of 1021 flags, simplified]
  note w6 = data_page_word(2,3) [OF w5(2), of 1020 code, simplified]
  show ?thesis using w1(1) w2(1) w3(1) w4(1) w5(1) w6(1)
    by (simp add: set_segments_def frame_offsets segment_stores_def)
qed

lemma segment_stores_load:
  assumes "data_page s v f" and "1005 \<le> j" and "j < 1024"
  shows "load32 (put_words f (segment_stores data flags code) m) (f + 4 * j)
     = segment_word data flags code (load32 m (f + 4 * j)) j"
proof -
  have range: "1005 \<le> j \<and> j \<le> 1008 \<longleftrightarrow> j = 1005 \<or> j = 1006 \<or> j = 1007 \<or> j = 1008" for j :: u32 by unat_arith
  have "\<forall>(i, x) \<in> set (segment_stores data flags code). i < 1024" by (simp add: segment_stores_def)
  from put_words_load [OF _ this assms(3)] data_page_frame [OF assms(1)] show ?thesis
    by (auto simp: segment_word_def range segment_stores_def)
qed

lemma interrupts_view:
  "data_page (s\<lparr>interrupts := y\<rparr>) = data_page s" "taken (s\<lparr>interrupts := y\<rparr>) = taken s"
  "stack_ready (s\<lparr>interrupts := y\<rparr>) = stack_ready s" "heap_wf (s\<lparr>interrupts := y\<rparr>) = heap_wf s"
  "heap_fits n (s\<lparr>interrupts := y\<rparr>) = heap_fits n s" "heap_owned (s\<lparr>interrupts := y\<rparr>) p = heap_owned s p"
proof -
  have v: "vmm_view (s\<lparr>interrupts := y\<rparr>) s" by simp
  have ok: "heap_ok (s\<lparr>interrupts := y\<rparr>) xs = heap_ok s xs" for xs by (simp add: heap_ok_def heap_limit_def)
  have sv: "vmm_view (snd (pmm_alloc_first (s\<lparr>interrupts := y\<rparr>))) (snd (pmm_alloc_first s))"
    using vmm_view_simps(10) [OF v] pmm_alloc_first_only_mem [of s] by (auto simp: vmm_view_def)
  show "data_page (s\<lparr>interrupts := y\<rparr>) = data_page s" "taken (s\<lparr>interrupts := y\<rparr>) = taken s"
    using vmm_view_simps(3,5) [OF v] by simp_all
  show "stack_ready (s\<lparr>interrupts := y\<rparr>) = stack_ready s"
    using vmm_view_simps(2,8) [OF v] vmm_view_simps(9) [OF sv] by (simp add: stack_ready_def)
  show "heap_wf (s\<lparr>interrupts := y\<rparr>) = heap_wf s" "heap_fits n (s\<lparr>interrupts := y\<rparr>) = heap_fits n s"
    "heap_owned (s\<lparr>interrupts := y\<rparr>) p = heap_owned s p"
    by (simp_all add: heap_wf_def heap_fits_def heap_owned_def ok)
qed

section \<open>A concrete state\<close>

text \<open>The heap and the address space of the earlier examples, before the first process.\<close>

definition proc_example :: proc_state where
  "proc_example = heap_state.extend heap_example
     (proc_state.fields (\<lambda>_. \<lparr>pcb_pid = 0, pcb_dirtable = 0, pcb_kstack = 0, pcb_cont = 0, pcb_regs = 0, pcb_state = 0, pcb_next = 0\<rparr>)
        0 0 0 gdt_example False)"

lemma proc_example_view: "vmm_view proc_example vmm_example"
  by (simp add: vmm_view_def proc_example_def heap_example_def vmm_example_def heap_state.defs proc_state.defs)

lemma proc_example_heap: "heap_wf proc_example" "heap_fits sizeof_pcb proc_example"
proof -
  have ok: "heap_ok proc_example [HEAP_START]"
    by (simp add: heap_ok_def proc_example_def heap_example_def heap_limit_def layout_defs heap_state.defs)
  then show "heap_wf proc_example" by (auto simp: heap_wf_def)
  have "block_fits (heap_align 28) (nodes proc_example HEAP_START)"
    by (simp add: block_fits_def heap_align_def proc_example_def heap_example_def heap_state.defs)
  then show "heap_fits sizeof_pcb proc_example"
    using ok unfolding heap_fits_def sizeof_pcb_def
    by (auto intro!: exI [of _ "[HEAP_START]"] simp: sizeof_LLMalloc_def heap_align_def)
qed

lemma pmm_alloc_succeeds:
  assumes "pmm_inv s" and "0 < c" and "c < pmm_bitmap_sz s" and "c \<notin> taken s"
  shows "fst (pmm_alloc_first s) \<noteq> 0"
  using assms(1)
proof (cases rule: pmm_alloc_first_cases)
  case full
  with assms show ?thesis by blast
qed (auto dest: block_addr(3))

lemma vmm_example_alloc_twice: "fst (pmm_alloc_first (snd (pmm_alloc_first vmm_example))) \<noteq> 0"
proof -
  have inv: "pmm_inv vmm_example" by (rule vmm_invD(2) [OF vmm_example_inv])
  have free: "2 \<notin> taken vmm_example" "4 \<notin> taken vmm_example" "2 < pmm_bitmap_sz vmm_example" "4 < pmm_bitmap_sz vmm_example"
    by (simp_all add: taken_def pmm_is_taken_def bitmap_is_set_def vmm_example_def store32_def)
  show ?thesis
    using inv
  proof (cases rule: pmm_alloc_first_cases)
    case (frame b)
    have "\<not> 2 < b" using frame(5) [of 2] free(1) by auto
    then have "b \<noteq> 4" by auto
    then have "4 \<notin> taken (pmm_set_block b vmm_example)" "4 < pmm_bitmap_sz (pmm_set_block b vmm_example)"
      using free frame inv by simp_all
    moreover have "pmm_inv (pmm_set_block b vmm_example)" using inv frame by simp
    ultimately show ?thesis
      unfolding frame(6) snd_conv using pmm_alloc_succeeds [of "pmm_set_block b vmm_example" 4] by simp
  qed (use free(1,3) in auto)
qed

lemma proc_example_ready:
  "vmm_inv proc_example" "last_pid proc_example + 1 < PROC_MAX_PID" "stack_ready proc_example"
proof -
  note v = vmm_view_simps [OF proc_example_view]
  show "vmm_inv proc_example" using vmm_example_inv by (simp add: v)
  show lp: "last_pid proc_example + 1 < PROC_MAX_PID"
    by (simp add: proc_example_def layout_defs proc_state.defs heap_state.defs)
  have sv: "vmm_view (snd (pmm_alloc_first proc_example)) (snd (pmm_alloc_first vmm_example))"
    using v(10) pmm_alloc_first_only_mem [of vmm_example] proc_example_view by (auto simp: vmm_view_def)
  have "ADDR2INDEX (kstack_addr (last_pid proc_example + 1)) = (64, 1)"
    by (simp add: proc_example_def proc_state.defs heap_state.defs ADDR2INDEX_eq kstack_addr_def KSTACKSZ_def layout_defs)
  then have "map_legal (kstack_addr (last_pid proc_example + 1)) X86_PAGE_WRITABLE (snd (pmm_alloc_first vmm_example))"
    using vmm_example_alloc_twice by (simp add: map_legal_def X86_PAGE_WRITABLE_def)
  then show "stack_ready proc_example"
    using vmm_example_alloc vmm_example_unmapped vmm_view_simps(9) [OF sv] by (simp add: stack_ready_def v)
qed

lemma proc_example_pid: "last_pid proc_example = 0" "kstack_addr 1 = 0x10001000"
  by (simp_all add: proc_example_def proc_state.defs heap_state.defs kstack_addr_def KSTACKSZ_def layout_defs)

section \<open>The first process\<close>

lemma process_init_run:
  assumes "vmm_inv s" and "heap_wf s" and "heap_fits sizeof_pcb s" and "last_pid s + 1 < PROC_MAX_PID" and "stack_ready s"
  shows "\<exists>p s'. process_init process_dummy s = Some (Inr (last_pid s + 1, s')) \<and> \<not> heap_owned s p
     \<and> proc_current s' = p \<and> last_pid s' = last_pid s + 1
     \<and> pcbs s' = (pcbs s)(p := (pcbs s p)\<lparr>pcb_pid := last_pid s + 1,
         pcb_kstack := kstack_addr (last_pid s + 1), pcb_regs := kstack_addr (last_pid s + 1) + 4020,
         pcb_state := PROC_RUNNING, pcb_dirtable := cr3 s, pcb_next := p\<rparr>)
     \<and> tss_esp0 (cpu_tss (cpu s')) = kstack_addr (last_pid s + 1) + KSTACKSZ
     \<and> (\<forall>i. 1005 \<le> i \<and> i < 1024 \<longrightarrow> vload32 (kstack_addr (last_pid s + 1) + 4 * i) s'
          = Inr (segment_word 0x10 0x202 0x08 (frame_word process_dummy 0 0 i) i))
     \<and> (\<forall>wa g. data_page s wa g \<and> g div 4096 \<in> taken s \<longrightarrow> data_page s' wa g)
     \<and> keeps {ADDR2INDEX (kstack_addr (last_pid s + 1))} 2 s s'"
proof -
  let ?v = "kstack_addr (last_pid s + 1)"
  obtain p s1 f where a: "alloc_proc process_dummy 0 0 s = Some (Inr (p, s1))" "\<not> heap_owned s p"
    "pcbs s1 = (pcbs s)(p := (pcbs s p)\<lparr>pcb_pid := last_pid s + 1, pcb_state := PROC_READY,
        pcb_kstack := ?v, pcb_regs := ?v + 4020\<rparr>)" "last_pid s1 = last_pid s + 1" "data_page s1 ?v f"
    "\<forall>i. 1005 \<le> i \<and> i < 1024 \<longrightarrow> load32 (pmem s1) (f + 4 * i) = frame_word process_dummy 0 0 i" "cr3 s1 = cr3 s"
    "\<forall>wa g. data_page s wa g \<and> g div 4096 \<in> taken s \<longrightarrow> data_page s1 wa g"
    "keeps {ADDR2INDEX ?v} 2 s s1"
    by (rule alloc_proc_spec [OF assms])
  define s2 where "s2 = pcb_upd p (\<lambda>b. b\<lparr>pcb_state := PROC_RUNNING\<rparr>) s1"
  have d2: "data_page s2 ?v f" "pcb_regs (pcbs s2 p) = ?v + 4020" using a(3,5) by (simp_all add: s2_def)
  define s3 where "s3 = s2\<lparr>pmem := put_words f (segment_stores 0x10 0x202 0x08) (pmem s2)\<rparr>"
  have d3: "data_page s3 ?v f" unfolding s3_def by (rule put_words_page [OF d2(1)]) (simp add: segment_stores_def)
  have w3: "vload32 (?v + 4 * i) s3 = Inr (segment_word 0x10 0x202 0x08 (frame_word process_dummy 0 0 i) i)"
    if "1005 \<le> i" "i < 1024" for i
    using data_page_word(1) [OF d3 that(2)] segment_stores_load [OF d2(1) that] a(6) that by (simp add: s3_def s2_def)
  have op3: "only_page (f div 4096) s2 s3"
    unfolding s3_def using data_page_frame [OF d2(1)] by (intro put_words_only_page) (simp_all add: segment_stores_def)
  have o3: "data_page s3 wa g" if "data_page s wa g" "g div 4096 \<in> taken s" for wa g
    using a(8) that by (intro data_page_other [OF d2(1) op3]) (simp add: s2_def)
  define s4 where "s4 = pcb_upd p (\<lambda>b. b\<lparr>pcb_next := p\<rparr>) (pcb_upd p (\<lambda>b. b\<lparr>pcb_dirtable := cr3 s3\<rparr>) s3)"
  define s' where "s' = s4\<lparr>proc_current := p, cpu := change_tss (pcb_kstack (pcbs s4 p)) (cpu s4)\<rparr>"
  have v: "vmm_view s' s3" by (simp add: s'_def s4_def vmm_view_def pcb_upd_def)
  have k': "keeps {ADDR2INDEX ?v} 2 s s'"
  proof -
    have vs: "vmm_view s s" "vmm_view s2 s1" by (simp_all add: vmm_view_def s2_def pcb_upd_def)
    have "keeps {ADDR2INDEX ?v} 2 s s2" using a(9) keeps_view [OF vs] by blast
    from keeps_trans [OF this keeps_write [OF d2(1) op3]] show ?thesis using keeps_view [OF vs(1) v] by simp
  qed
  have p4: "pcbs s' = (pcbs s)(p := (pcbs s p)\<lparr>pcb_pid := last_pid s + 1,
         pcb_kstack := ?v, pcb_regs := ?v + 4020, pcb_state := PROC_RUNNING, pcb_dirtable := cr3 s, pcb_next := p\<rparr>)"
    using a(3,7) by (simp add: s'_def s4_def s3_def s2_def)
  have p3: "pcb_pid (pcbs s3 p) = last_pid s + 1" "pcb_kstack (pcbs s3 p) = ?v" using a(3) by (simp_all add: s3_def s2_def)
  have "process_init process_dummy s = Some (Inr (last_pid s + 1, s'))"
    using a(1) set_segments_frame [OF d2(1), of "0x10" "0x202" "0x08"] p3 a(3)
    by (simp add: process_init_def Let_def s2_def [symmetric] s3_def [symmetric] s4_def s'_def)
  moreover have "proc_current s' = p" "last_pid s' = last_pid s + 1" "tss_esp0 (cpu_tss (cpu s')) = ?v + KSTACKSZ"
    using a(3,4) by (simp_all add: s'_def change_tss_def, simp_all add: s4_def s3_def s2_def)
  ultimately show ?thesis using a(2) p4 w3 o3 k' vmm_view_simps(3,7) [OF v] by (intro exI [of _ p] exI [of _ s']) simp
qed

text \<open>C17: \<^verbatim>\<open>process_init\<close> makes the first process the running one: a fresh control block
  with the next process number that points to itself, whose register frame at the top of its own
  kernel stack has the kernel's segments, interrupts enabled, the given start address and 0
  elsewhere; the task state segment then has the top of that stack.\<close>

theorem process_init_frame:
  assumes "vmm_inv s" and "heap_wf s" and "heap_fits sizeof_pcb s" and "last_pid s + 1 < PROC_MAX_PID" and "stack_ready s"
  shows "\<exists>p s'. process_init process_dummy s = Some (Inr (last_pid s + 1, s')) \<and> \<not> heap_owned s p
     \<and> proc_current s' = p \<and> last_pid s' = last_pid s + 1
     \<and> pcbs s' = (pcbs s)(p := (pcbs s p)\<lparr>pcb_pid := last_pid s + 1,
         pcb_kstack := kstack_addr (last_pid s + 1), pcb_regs := kstack_addr (last_pid s + 1) + 4020,
         pcb_state := PROC_RUNNING, pcb_dirtable := cr3 s, pcb_next := p\<rparr>)
     \<and> tss_esp0 (cpu_tss (cpu s')) = kstack_addr (last_pid s + 1) + KSTACKSZ
     \<and> (\<forall>i. 1005 \<le> i \<and> i < 1024 \<longrightarrow> vload32 (kstack_addr (last_pid s + 1) + 4 * i) s'
          = Inr (segment_word 0x10 0x202 0x08 (frame_word process_dummy 0 0 i) i))"
  using process_init_run [OF assms] by blast

theorem process_init_frame_witness:
  "\<exists>s'. process_init 0x100500 proc_example = Some (Inr (1, s'))
     \<and> vload32 0x10001FEC s' = Inr 0x100500 \<and> vload32 0x10001FF0 s' = Inr 0x08 \<and> vload32 0x10001FF4 s' = Inr 0x202"
proof -
  obtain s' where s': "process_init 0x100500 proc_example = Some (Inr (1, s'))"
    "\<forall>i. 1005 \<le> i \<and> i < 1024 \<longrightarrow> vload32 (0x10001000 + 4 * i) s' = Inr (segment_word 0x10 0x202 0x08 (frame_word 0x100500 0 0 i) i)"
    using process_init_frame [OF proc_example_ready(1) proc_example_heap proc_example_ready(2,3), of "0x100500"]
    by (auto simp: proc_example_pid)
  show ?thesis
    using s'(1) s'(2) [rule_format, of 1019] s'(2) [rule_format, of 1020] s'(2) [rule_format, of 1021]
    by (simp add: segment_word_def frame_word_def)
qed

section \<open>A user process\<close>

text \<open>C39: \<^verbatim>\<open>process_start_usermode\<close> puts the page directory of the new process at the
  virtual address of its kernel stack: the page is then the copy of the current directory, so
  nothing of the register frame made before is left on the stack from which the process is to
  start.\<close>

theorem process_start_usermode_stack:
  assumes "vmm_inv s" and "heap_wf s" and "heap_fits sizeof_pcb s" and "last_pid s + 1 < PROC_MAX_PID" and "stack_ready s"
  shows "\<exists>p s'. process_start_usermode usermode fn s = Some (Inr s') \<and> proc_list s' = p
     \<and> pcb_regs (pcbs s' p) = kstack_addr (last_pid s + 1) + 4020 \<and> pcb_dirtable (pcbs s' p) = fn
     \<and> (\<forall>i < 1024. vload32 (kstack_addr (last_pid s + 1) + 4 * i) s' = Inr (if i = 1023 then fn OR 3 else pde s' i))"
proof -
  let ?v = "kstack_addr (last_pid s + 1)"
  obtain p s1 f where a: "alloc_proc usermode 0 0 s = Some (Inr (p, s1))"
    "pcbs s1 = (pcbs s)(p := (pcbs s p)\<lparr>pcb_pid := last_pid s + 1, pcb_state := PROC_READY,
        pcb_kstack := ?v, pcb_regs := ?v + 4020\<rparr>)" "last_pid s1 = last_pid s + 1" "data_page s1 ?v f"
    by (rule alloc_proc_spec [OF assms])
  define s2 where "s2 = pcb_upd p (\<lambda>b. b\<lparr>pcb_state := PROC_READY\<rparr>) s1"
  have d2: "data_page s2 ?v f" "pcb_regs (pcbs s2 p) = ?v + 4020" "last_pid s2 = last_pid s + 1"
    using a(2,3,4) by (simp_all add: s2_def)
  define s3 where "s3 = s2\<lparr>pmem := put_words f (segment_stores 0x23 0x200 0x1B) (pmem s2)\<rparr>"
  have d3: "data_page s3 ?v f" unfolding s3_def by (rule put_words_page [OF d2(1)]) (simp add: segment_stores_def)
  have nz: "?v \<noteq> 0" by (rule kstack_addr_nonzero [OF assms(4)])
  have va: "0x10000000 + last_pid s3 * 4096 = ?v" using d2(3) by (simp add: s3_def kstack_addr_def KSTACKSZ_def layout_defs)
  obtain m where m: "vmm_create_address_space fn ?v s3 = Inr (fn, s3\<lparr>pmem := m\<rparr>)" "data_page (s3\<lparr>pmem := m\<rparr>) ?v f"
    "\<forall>j < 1024. pde (s3\<lparr>pmem := m\<rparr>) j = pde s3 j"
    "\<forall>j < 1024. load32 m (f + 4 * j) = (if j = 1023 then fn OR 3 else pde s3 j)"
    using create_address_space_used [OF d3 nz] by blast
  define s' where "s' = (pcb_upd p (\<lambda>b. b\<lparr>pcb_next := p\<rparr>) (pcb_upd p (\<lambda>b. b\<lparr>pcb_dirtable := fn\<rparr>) (s3\<lparr>pmem := m\<rparr>)))\<lparr>proc_list := p\<rparr>"
  have v: "vmm_view s' (s3\<lparr>pmem := m\<rparr>)" by (simp add: s'_def vmm_view_def pcb_upd_def)
  have run: "process_start_usermode usermode fn s = Some (Inr s')"
    using a(1) set_segments_frame [OF d2(1), of "0x23" "0x200" "0x1B"] a(2) m(1) va
    by (simp add: process_start_usermode_def Let_def s2_def [symmetric] s3_def [symmetric] s'_def)
  have "vload32 (?v + 4 * i) s' = Inr (if i = 1023 then fn OR 3 else pde s' i)" if "i < 1024" for i
    unfolding vmm_view_simps(4,7) [OF v] using data_page_word(1) [OF m(2) that] m(3,4) that by simp
  then show ?thesis using run a(2)
    by (intro exI [of _ p] exI [of _ s']) (simp add: s'_def s3_def s2_def)
qed

theorem process_start_usermode_stack_witness:
  "\<exists>s'. process_start_usermode 0x100500 0x104000 proc_example = Some (Inr s')
     \<and> vload32 0x10001FFC s' = Inr 0x104003 \<and> vload32 0x10001FEC s' = Inr (pde s' 1019)"
proof -
  obtain s' where s': "process_start_usermode 0x100500 0x104000 proc_example = Some (Inr s')"
    "\<forall>i < 1024. vload32 (0x10001000 + 4 * i) s' = Inr (if i = 1023 then 0x104000 OR 3 else pde s' i)"
    using process_start_usermode_stack [OF proc_example_ready(1) proc_example_heap proc_example_ready(2,3), of "0x100500" "0x104000"]
    by (auto simp: proc_example_pid)
  show ?thesis using s'(1) s'(2) [rule_format, of 1019] s'(2) [rule_format, of 1023] by simp
qed

section \<open>Switching\<close>

text \<open>The frame a switch copies: in a page of data on both sides.\<close>

definition frame_at :: "proc_state \<Rightarrow> u32 \<Rightarrow> bool" where
  "frame_at s a \<longleftrightarrow> a \<noteq> 0 \<and> (\<exists>v f b. data_page s v f \<and> a = v + b \<and> unat b + unat sizeof_Registers \<le> 4096)"

lemma vmemcpy_frame:
  assumes "frame_at s a" and "frame_at s b"
  shows "\<exists>m. vmemcpy a b sizeof_Registers s = Inr (s\<lparr>pmem := m\<rparr>)"
proof -
  obtain v f x w g y where d: "data_page s v f" "a = v + x" "unat x + unat sizeof_Registers \<le> 4096"
    "data_page s w g" "b = w + y" "unat y + unat sizeof_Registers \<le> 4096"
    using assms by (auto simp: frame_at_def)
  show ?thesis
    using vmemcpy_data [OF d(1,3,4,6), of 0] assms d(2,5) by (auto simp: vmemcpy_def frame_at_def)
qed

lemma switch_task_run:
  assumes "proc_list s \<noteq> 0" and "proc_list s \<noteq> proc_current s"
    and "frame_at s regs" and "frame_at s (pcb_regs (pcbs s (proc_current s)))"
  shows "\<exists>s'. switch_task regs s = Inr (pcb_kstack (pcbs s (proc_list s)) + 4020, s')
     \<and> proc_current s' = proc_list s \<and> proc_list s' = proc_current s
     \<and> pcb_state (pcbs s' (proc_current s')) = PROC_RUNNING \<and> pcb_state (pcbs s' (proc_list s')) = PROC_READY
     \<and> cr3 s' = pcb_dirtable (pcbs s (proc_list s)) \<and> current_dir s' = pcb_dirtable (pcbs s (proc_list s))
     \<and> tss_esp0 (cpu_tss (cpu s')) = pcb_kstack (pcbs s (proc_list s)) + KSTACKSZ
     \<and> local_apic s' = local_apic s"
proof -
  obtain m where m: "vmemcpy (pcb_regs (pcbs s (proc_current s))) regs sizeof_Registers s = Inr (s\<lparr>pmem := m\<rparr>)"
    using vmemcpy_frame assms(3,4) by blast
  then show ?thesis using assms(1,2)
    by (auto simp: switch_task_def Let_def vmm_switch_pdir_def load_page_dir_addr_def pcb_upd_def change_tss_def
        KSTACKSZ_def KB4_def sizeof_Registers_def)
qed

text \<open>C12: \<^verbatim>\<open>switch_task\<close> exchanges the running process and the one process that waits: the
  old one becomes ready and is the one that waits, the new one runs on its own page directory,
  and the task state segment and the returned stack pointer are those of its kernel stack.\<close>

theorem switch_task_swaps:
  assumes "proc_list s \<noteq> 0" and "proc_list s \<noteq> proc_current s"
    and "frame_at s regs" and "frame_at s (pcb_regs (pcbs s (proc_current s)))"
  shows "\<exists>s'. switch_task regs s = Inr (pcb_kstack (pcbs s (proc_list s)) + 4020, s')
     \<and> proc_current s' = proc_list s \<and> proc_list s' = proc_current s
     \<and> pcb_state (pcbs s' (proc_current s')) = PROC_RUNNING \<and> pcb_state (pcbs s' (proc_list s')) = PROC_READY
     \<and> cr3 s' = pcb_dirtable (pcbs s (proc_list s)) \<and> current_dir s' = pcb_dirtable (pcbs s (proc_list s))
     \<and> tss_esp0 (cpu_tss (cpu s')) = pcb_kstack (pcbs s (proc_list s)) + KSTACKSZ"
  using switch_task_run [OF assms] by blast

text \<open>The state in which the example's first process waits for a second one that has the
  processor, with the frame of the interrupt on the same kernel stack.\<close>

definition switch_example :: proc_state where
  "switch_example = (case alloc_proc 0x100500 0 0 proc_example of
     Some (Inr (p, s)) \<Rightarrow> pcb_upd 2 (\<lambda>_. \<lparr>pcb_pid = 2, pcb_dirtable = 0x3000, pcb_kstack = 0x10002000, pcb_cont = 0,
         pcb_regs = 0x10001FB4, pcb_state = PROC_READY, pcb_next = 0\<rparr>)
       (pcb_upd 1 (\<lambda>_. pcbs s p) s)\<lparr>proc_current := 1, proc_list := 2\<rparr> | _ \<Rightarrow> proc_example)"

lemma switch_example_ready:
  "frame_at switch_example 0x10001F00" "frame_at switch_example 0x10001FB4"
  "proc_list switch_example = 2" "proc_current switch_example = 1" "pcb_regs (pcbs switch_example 1) = 0x10001FB4"
  "pcb_kstack (pcbs switch_example 2) = 0x10002000" "pcb_dirtable (pcbs switch_example 2) = 0x3000"
proof -
  obtain p s1 f where a: "alloc_proc 0x100500 0 0 proc_example = Some (Inr (p, s1))"
    "pcbs s1 = (pcbs proc_example)(p := (pcbs proc_example p)\<lparr>pcb_pid := last_pid proc_example + 1, pcb_state := PROC_READY,
        pcb_kstack := kstack_addr (last_pid proc_example + 1), pcb_regs := kstack_addr (last_pid proc_example + 1) + 4020\<rparr>)"
    "data_page s1 (kstack_addr (last_pid proc_example + 1)) f"
    by (rule alloc_proc_spec [OF proc_example_ready(1) proc_example_heap proc_example_ready(2,3)])
  have v: "vmm_view switch_example s1" by (simp add: switch_example_def a(1) vmm_view_def) (simp add: pcb_upd_def)
  have d: "data_page switch_example 0x10001000 f" using a(3) vmm_view_simps(3) [OF v] by (simp add: proc_example_pid)
  show "frame_at switch_example 0x10001F00" "frame_at switch_example 0x10001FB4"
    unfolding frame_at_def
    by (rule conjI, simp, rule exI [of _ "0x10001000"], rule exI [of _ f], rule exI [of _ "0xF00"], simp add: d sizeof_Registers_def,
        rule conjI, simp, rule exI [of _ "0x10001000"], rule exI [of _ f], rule exI [of _ "0xFB4"], simp add: d sizeof_Registers_def)
  show "proc_list switch_example = 2" "proc_current switch_example = 1" "pcb_regs (pcbs switch_example 1) = 0x10001FB4"
    "pcb_kstack (pcbs switch_example 2) = 0x10002000" "pcb_dirtable (pcbs switch_example 2) = 0x3000"
    using a(2) by (simp_all add: switch_example_def a(1) proc_example_pid)
qed

theorem switch_task_swaps_witness:
  "\<exists>s'. switch_task 0x10001F00 switch_example = Inr (0x10002FB4, s') \<and> proc_current s' = 2 \<and> proc_list s' = 1
     \<and> cr3 s' = 0x3000 \<and> tss_esp0 (cpu_tss (cpu s')) = 0x10003000"
  using switch_task_swaps [of switch_example "0x10001F00"] switch_example_ready(1,2)
  by (auto simp: switch_example_ready(3-7) KSTACKSZ_def KB4_def)

section \<open>Forking\<close>

text \<open>\<^verbatim>\<open>real_fork\<close> links the child behind its parent and has the same fault as
  \<^verbatim>\<open>process_start_usermode\<close>: the kernel stack of the child, on which the parent's registers
  have just been copied, is replaced by the copy of the page directory.\<close>

lemma real_fork_stack:
  assumes "vmm_inv s" and "heap_wf s" and "heap_fits sizeof_pcb s" and "last_pid s + 1 < PROC_MAX_PID" and "stack_ready s"
    and cur: "heap_owned s (proc_current s)"
    and parent: "data_page s wa g" "g div 4096 \<in> taken s" "pcb_regs (pcbs s (proc_current s)) = wa + c" "wa + c \<noteq> 0"
      "unat c + 68 \<le> 4096"
  shows "\<exists>p s'. real_fork return_fork fn ebp0 ra ret_stack s = Some (Inr (last_pid s + 1, s')) \<and> p \<noteq> proc_current s
     \<and> proc_current s' = proc_current s \<and> pcb_next (pcbs s' (proc_current s)) = p
     \<and> pcb_next (pcbs s' p) = pcb_next (pcbs s (proc_current s)) \<and> interrupts s'
     \<and> (\<forall>i < 1024. vload32 (kstack_addr (last_pid s + 1) + 4 * i) s' = Inr (if i = 1023 then fn OR 3 else pde s' i))"
proof -
  let ?v = "kstack_addr (last_pid s + 1)" and ?s = "s\<lparr>interrupts := False\<rparr>" and ?c = "proc_current s"
  have st: "vmm_inv ?s" "heap_wf ?s" "heap_fits sizeof_pcb ?s" "last_pid ?s + 1 < PROC_MAX_PID" "stack_ready ?s"
    using assms(1-5) by (simp_all add: interrupts_view)
  have dpar: "data_page ?s wa g" "g div 4096 \<in> taken ?s" using parent(1,2) by (simp_all add: interrupts_view)
  obtain p s1 f where a: "alloc_proc return_fork ra ret_stack ?s = Some (Inr (p, s1))" "\<not> heap_owned ?s p"
    "pcbs s1 = (pcbs ?s)(p := (pcbs ?s p)\<lparr>pcb_pid := last_pid ?s + 1, pcb_state := PROC_READY,
        pcb_kstack := kstack_addr (last_pid ?s + 1), pcb_regs := kstack_addr (last_pid ?s + 1) + 4020\<rparr>)"
    "last_pid s1 = last_pid ?s + 1" "proc_current s1 = proc_current ?s" "data_page s1 (kstack_addr (last_pid ?s + 1)) f"
    "\<forall>wa g. data_page ?s wa g \<and> g div 4096 \<in> taken ?s \<longrightarrow> data_page s1 wa g"
    by (rule alloc_proc_spec [OF st])
  have pc: "p \<noteq> ?c" using a(2) cur by (auto simp: interrupts_view)
  have nz: "?v + 4020 \<noteq> 0" "?v \<noteq> 0"
    using page_offset(3) [OF kstack_addr_aligned, of 4020 "last_pid s + 1"] kstack_addr_nonzero [OF assms(4)] by auto
  have d1: "data_page s1 ?v f" "data_page s1 wa g" using a(6,7) dpar by simp_all
  define s2 where "s2 = s1\<lparr>pmem := memcpy_loop (f + 4020) (g + c) 68 0 (pmem s1)\<rparr>"
  have cp: "vmemcpy (?v + 4020) (wa + c) sizeof_Registers s1 = Inr s2" "data_page s2 ?v f"
    using vmemcpy_data [OF d1(1) _ d1(2), of 4020 68 c 0] nz(1) parent(4,5)
    by (simp_all add: vmemcpy_def sizeof_Registers_def s2_def)
  define s3 where "s3 = s2\<lparr>pmem := put_words f [(1019, return_fork), (1011, ebp0)] (pmem s2)\<rparr>"
  note w1 = data_page_word(2,3) [OF cp(2), of 1019 return_fork, simplified]
  note w2 = data_page_word(2,3) [OF w1(2), of 1011 ebp0, simplified]
  have d3: "data_page s3 ?v f" using w2(2) by (simp add: s3_def)
  have va: "0x10000000 + last_pid s3 * 4096 = ?v" using a(4) by (simp add: s3_def s2_def kstack_addr_def KSTACKSZ_def layout_defs)
  obtain m where m: "vmm_create_address_space fn ?v s3 = Inr (fn, s3\<lparr>pmem := m\<rparr>)" "data_page (s3\<lparr>pmem := m\<rparr>) ?v f"
    "\<forall>j < 1024. pde (s3\<lparr>pmem := m\<rparr>) j = pde s3 j"
    "\<forall>j < 1024. load32 m (f + 4 * j) = (if j = 1023 then fn OR 3 else pde s3 j)"
    using create_address_space_used [OF d3 nz(2)] by blast
  define s4 where "s4 = pcb_upd p (\<lambda>b. b\<lparr>pcb_dirtable := fn\<rparr>) (s3\<lparr>pmem := m\<rparr>)"
  define s5 where "s5 = pcb_upd p (\<lambda>b. b\<lparr>pcb_next := pcb_next (pcbs s4 ?c)\<rparr>) s4"
  define s' where "s' = (pcb_upd ?c (\<lambda>b. b\<lparr>pcb_next := p\<rparr>) s5)\<lparr>interrupts := True\<rparr>"
  have v: "vmm_view s' (s3\<lparr>pmem := m\<rparr>)" by (simp add: s'_def s5_def s4_def vmm_view_def pcb_upd_def)
  have "pcb_regs (pcbs s1 ?c) = wa + c" "pcb_regs (pcbs s1 p) = ?v + 4020" "proc_current s1 = ?c" using a(3,5) pc parent(3) by simp_all
  moreover have "proc_current s3 = ?c" "pcb_pid (pcbs s3 p) = last_pid s + 1" using a(3,5) by (simp_all add: s3_def s2_def)
  ultimately have run: "real_fork return_fork fn ebp0 ra ret_stack s = Some (Inr (last_pid s + 1, s'))"
    using a(1) cp(1) w1(1) w2(1) m(1) va
    by (simp add: real_fork_def Let_def frame_offsets s'_def s5_def s4_def) (simp add: s3_def)
  have "vload32 (?v + 4 * i) s' = Inr (if i = 1023 then fn OR 3 else pde s' i)" if "i < 1024" for i
    unfolding vmm_view_simps(4,7) [OF v] using data_page_word(1) [OF m(2) that] m(3,4) that by simp
  then show ?thesis using run a(3,5) pc
    by (intro exI [of _ p] exI [of _ s']) (simp add: s'_def, simp add: s5_def s4_def s3_def s2_def)
qed

end
