(* ===== verification/Idt.thy ===== *)
theory Idt
  imports Gdt
begin

text \<open>
  The interrupt descriptor table, \<^verbatim>\<open>src/arch/x86/idt.c\<close>. The addresses of the entry
  stubs of \<^verbatim>\<open>isr_asm.s\<close> and of \<^verbatim>\<open>idt_none\<close> are chosen by the linker: they are the
  parameter \<open>stubs\<close>.
\<close>

section \<open>State and operations\<close>

record idt_entry =
  idt_base_low :: u16
  idt_selector :: u16
  idt_zero :: u8
  idt_flags :: u8
  idt_base_high :: u16

record idt_pointer =
  ip_limit :: u16
  ip_base :: u32

record idt_state =
  idt_entries :: "idt_entry list"
  idt_ptr :: idt_pointer
  reg_idtr :: u32

record stubs =
  stub_isr :: "nat \<Rightarrow> u32"
  stub_irq :: "nat \<Rightarrow> u32"
  stub_intr :: "nat \<Rightarrow> u32"
  stub_none :: u32

definition idt_set_gate :: "nat \<Rightarrow> u32 \<Rightarrow> u16 \<Rightarrow> u8 \<Rightarrow> idt_state \<Rightarrow> idt_state" where
  "idt_set_gate num base sel flags s =
     s\<lparr>idt_entries := (idt_entries s)[num := (idt_entries s ! num)\<lparr>
        idt_base_low := ucast (base AND 0xFFFF), idt_base_high := ucast (drop_bit 16 base AND 0xFFFF),
        idt_selector := sel, idt_zero := 0, idt_flags := flags OR 0x60\<rparr>]\<rparr>"

fun idt_fill_loop :: "u32 \<Rightarrow> nat \<Rightarrow> idt_state \<Rightarrow> idt_state" where
  "idt_fill_loop none 0 s = s"
| "idt_fill_loop none (Suc n) s = idt_fill_loop none n (idt_set_gate (255 - n) none 0x08 0x8E s)"

text \<open>The gates the code sets one by one, in its order.\<close>

definition idt_gates :: "stubs \<Rightarrow> (nat \<times> u32) list" where
  "idt_gates st = map (\<lambda>i. (i, stub_isr st i)) [0..<32] @ map (\<lambda>i. (i, stub_irq st (i - 32))) [32..<48]
     @ [(63, stub_intr st 63), (64, stub_intr st 64), (128, stub_isr st 128)]"

definition zero_idt_entry :: idt_entry where
  "zero_idt_entry = \<lparr>idt_base_low = 0, idt_selector = 0, idt_zero = 0, idt_flags = 0, idt_base_high = 0\<rparr>"

definition idt_install :: "stubs \<Rightarrow> u32 \<Rightarrow> idt_state \<Rightarrow> idt_state" where
  "idt_install st addr s =
     (let s = s\<lparr>idt_ptr := \<lparr>ip_limit = 8 * 256 - 1, ip_base = addr\<rparr>\<rparr>;
          s = s\<lparr>idt_entries := replicate 256 zero_idt_entry\<rparr>;
          s = idt_fill_loop (stub_none st) 256 s
      in fold (\<lambda>(num, base) s. idt_set_gate num base 0x08 0x8E s) (idt_gates st) s)"

definition idt_enable :: "u32 \<Rightarrow> idt_state \<Rightarrow> idt_state" where
  "idt_enable ptr_addr s = s\<lparr>reg_idtr := ptr_addr\<rparr>"

definition idt_none :: "kerror + unit" where
  "idt_none = Inl (Panic ''Unahandled IDT'')"

section \<open>What the processor reads in a gate\<close>

definition gate_offset :: "idt_entry \<Rightarrow> u32" where
  "gate_offset e = ucast (idt_base_low e) OR push_bit 16 (ucast (idt_base_high e))"

definition idt_pack :: "u32 \<times> u16 \<times> u8 \<Rightarrow> idt_entry \<Rightarrow> idt_entry" where
  "idt_pack v e = (case v of (base, sel, flags) \<Rightarrow>
     \<lparr>idt_base_low = ucast (base AND 0xFFFF), idt_selector = sel, idt_zero = 0, idt_flags = flags OR 0x60,
      idt_base_high = ucast (drop_bit 16 base AND 0xFFFF)\<rparr>)"

definition idt_unpack :: "idt_entry \<Rightarrow> u32 \<times> u16 \<times> u8" where
  "idt_unpack e = (gate_offset e, idt_selector e, idt_flags e)"

definition idt_legal :: "u32 \<times> u16 \<times> u8 \<Rightarrow> bool" where
  "idt_legal v \<longleftrightarrow> snd (snd v) OR 0x60 = snd (snd v)"

text \<open>The stub that handles a vector.\<close>

definition vector_stub :: "stubs \<Rightarrow> nat \<Rightarrow> u32" where
  "vector_stub st v =
     (if v < 32 \<or> v = 128 then stub_isr st v
      else if v < 48 then stub_irq st (v - 32)
      else if v = 63 \<or> v = 64 then stub_intr st v
      else stub_none st)"

section \<open>Lemmas\<close>

lemma idt_set_gate_pack:
  "idt_set_gate num base sel flags s
     = s\<lparr>idt_entries := (idt_entries s)[num := idt_pack (base, sel, flags) (idt_entries s ! num)]\<rparr>"
  by (cases "idt_entries s ! num") (simp add: idt_set_gate_def idt_pack_def)

lemma gate_offset_pack: "gate_offset (idt_pack (base, sel, flags) e) = base"
  unfolding gate_offset_def idt_pack_def prod.case masks
  by (rule bit_word_eqI) (auto simp: bit_simps)

lemma idt_unpack_pack: "idt_unpack (idt_pack (base, sel, flags) e) = (base, sel, flags OR 0x60)"
  by (simp add: idt_unpack_def gate_offset_pack) (simp add: idt_pack_def)

interpretation idt_fmt: descriptor_format idt_pack idt_unpack idt_legal
  by unfold_locales (auto simp: idt_unpack_pack idt_legal_def)

lemma idt_set_gate_entry:
  assumes "length (idt_entries s) = 256" and "v < 256"
  shows "idt_entries (idt_set_gate num base sel flags s) ! v
      = (if v = num then idt_pack (base, sel, flags) zero_idt_entry else idt_entries s ! v)"
  using assms by (simp add: idt_set_gate_pack nth_list_update) (simp add: idt_pack_def)

lemma idt_set_gate_length [simp]:
  "length (idt_entries (idt_set_gate num base sel flags s)) = length (idt_entries s)"
  by (simp add: idt_set_gate_def)

lemma idt_fill_loop_spec:
  assumes "n \<le> 256" and "length (idt_entries s) = 256"
  shows "length (idt_entries (idt_fill_loop none n s)) = 256 \<and>
    (\<forall>v < 256. idt_entries (idt_fill_loop none n s) ! v
       = (if 256 - n \<le> v then idt_pack (none, 0x08, 0x8E) zero_idt_entry else idt_entries s ! v))"
  using assms
proof (induction n arbitrary: s)
  case (Suc n)
  note g = idt_set_gate_entry [OF Suc.prems(2), of _ "255 - n" none "0x08" "0x8E"]
  from Suc.IH [of "idt_set_gate (255 - n) none 0x08 0x8E s"] Suc.prems g show ?case by auto
qed simp

lemma idt_set_gates_spec:
  assumes "length (idt_entries s) = 256" and "v < 256" and "distinct (map fst gs)"
  shows "idt_entries (fold (\<lambda>(num, base) s. idt_set_gate num base 0x08 0x8E s) gs s) ! v
     = (case map_of gs v of Some b \<Rightarrow> idt_pack (b, 0x08, 0x8E) zero_idt_entry | None \<Rightarrow> idt_entries s ! v)"
  using assms
proof (induction gs arbitrary: s)
  case (Cons g gs)
  obtain num base where g: "g = (num, base)" by (cases g)
  have "v = num \<Longrightarrow> map_of gs v = None" using Cons.prems(3) by (simp add: g map_of_eq_None_iff)
  then show ?case
    using Cons.prems Cons.IH [of "idt_set_gate num base 0x08 0x8E s"]
      idt_set_gate_entry [OF Cons.prems(1,2), of num base "0x08" "0x8E"]
    by (auto simp: g split: option.split)
qed simp

lemma map_of_gates: "map_of (idt_gates st) v = (if v < 48 \<or> v = 63 \<or> v = 64 \<or> v = 128 then Some (vector_stub st v) else None)"
proof -
  have tab: "map_of (map (\<lambda>i. (i, f i)) [a..<b]) v = (if a \<le> v \<and> v < b then Some (f v) else None)"
    for f :: "nat \<Rightarrow> u32" and a b
    by (simp add: map_of_map_restrict restrict_map_def)
  show ?thesis
    unfolding idt_gates_def map_of_append map_add_def tab
    by (auto simp: vector_stub_def)
qed

lemma idt_install_entry:
  assumes "v < 256"
  shows "idt_entries (idt_install st addr s) ! v = idt_pack (vector_stub st v, 0x08, 0x8E) zero_idt_entry"
proof -
  define s1 where "s1 = idt_fill_loop (stub_none st) 256 (s\<lparr>idt_ptr := \<lparr>ip_limit = 8 * 256 - 1, ip_base = addr\<rparr>,
      idt_entries := replicate 256 zero_idt_entry\<rparr>)"
  have s1: "length (idt_entries s1) = 256" "idt_entries s1 ! v = idt_pack (stub_none st, 0x08, 0x8E) zero_idt_entry"
    using idt_fill_loop_spec [of 256 "s\<lparr>idt_ptr := \<lparr>ip_limit = 8 * 256 - 1, ip_base = addr\<rparr>,
      idt_entries := replicate 256 zero_idt_entry\<rparr>" "stub_none st"] assms
    by (simp_all add: s1_def)
  have dist: "distinct (map fst (idt_gates st))"
    by (auto simp: idt_gates_def comp_def)
  have "idt_entries (idt_install st addr s) ! v
      = idt_entries (fold (\<lambda>(num, base) s. idt_set_gate num base 0x08 0x8E s) (idt_gates st) s1) ! v"
    by (simp add: idt_install_def Let_def s1_def)
  also have "\<dots> = idt_pack (vector_stub st v, 0x08, 0x8E) zero_idt_entry"
    unfolding idt_set_gates_spec [OF s1(1) assms dist] map_of_gates s1(2) by (simp add: vector_stub_def)
  finally show ?thesis .
qed

lemma idt_set_gate_ptr: "idt_ptr (idt_set_gate num base sel flags s) = idt_ptr s"
  by (simp add: idt_set_gate_def)

lemma idt_install_ptr: "idt_ptr (idt_install st addr s) = \<lparr>ip_limit = 8 * 256 - 1, ip_base = addr\<rparr>"
proof -
  have fill: "idt_ptr (idt_fill_loop none n s) = idt_ptr s" for none n s
    by (induction n arbitrary: s) (simp_all add: idt_set_gate_ptr)
  have "idt_ptr (fold (\<lambda>(num, base) s. idt_set_gate num base 0x08 0x8E s) gs s) = idt_ptr s" for gs s
    by (induction gs arbitrary: s) (auto simp: idt_set_gate_ptr)
  then show ?thesis by (simp add: idt_install_def Let_def fill)
qed

section \<open>Properties\<close>

text \<open>C21: after \<^verbatim>\<open>idt_install\<close> each of the 256 vectors leads to its stub: the processor
  exceptions and the system call to their \<^verbatim>\<open>isr\<close> stub, 32 to 47 to the \<^verbatim>\<open>irq\<close>
  stubs, 63 and 64 to the local APIC stubs and every other one to \<^verbatim>\<open>idt_none\<close>; all in
  the kernel code segment, as present interrupt gates.\<close>

theorem idt_install_vectors:
  assumes "v < 256"
  shows "idt_unpack (idt_entries (idt_install st addr s) ! v) = (vector_stub st v, 0x08, 0xEE)
     \<and> ip_base (idt_ptr (idt_install st addr s)) = addr"
  by (simp add: idt_install_entry [OF assms] idt_unpack_pack idt_install_ptr)

theorem idt_install_vectors_witness:
  "idt_unpack (idt_entries (idt_install \<lparr>stub_isr = of_nat, stub_irq = (\<lambda>n. of_nat n + 0x100),
       stub_intr = (\<lambda>n. of_nat n + 0x200), stub_none = 0x300\<rparr> 0x1000
       \<lparr>idt_entries = [], idt_ptr = \<lparr>ip_limit = 0, ip_base = 0\<rparr>, reg_idtr = 0\<rparr>) ! 33) = (0x101, 0x08, 0xEE)"
  using idt_install_vectors [of 33 "\<lparr>stub_isr = of_nat, stub_irq = (\<lambda>n. of_nat n + 0x100),
       stub_intr = (\<lambda>n. of_nat n + 0x200), stub_none = 0x300\<rparr>" "0x1000"
       "\<lparr>idt_entries = [], idt_ptr = \<lparr>ip_limit = 0, ip_base = 0\<rparr>, reg_idtr = 0\<rparr>"]
  by (simp add: vector_stub_def)

end
