(* ===== verification/Pic.thy ===== *)
theory Pic
  imports Isr
begin

text \<open>
  The 8259 interrupt controllers, \<^verbatim>\<open>src/arch/x86/pic.c\<close>, and the interval timer,
  \<^verbatim>\<open>src/sys/pit.c\<close>. The chips are the device parameter of the port instructions.
\<close>

section \<open>Interrupt controller\<close>

definition PIC_ICW1_ICW4 :: u8 where [kernel_defs]: "PIC_ICW1_ICW4 = 0x01"
definition PIC_ICW1_INIT :: u8 where [kernel_defs]: "PIC_ICW1_INIT = 0x10"
definition PIC_IVW4_8086 :: u8 where [kernel_defs]: "PIC_IVW4_8086 = 0x01"
definition PIC_MASTER_VECTOR_OFFSET :: u8 where [kernel_defs]: "PIC_MASTER_VECTOR_OFFSET = 32"
definition PIC_SLAVE_VECTOR_OFFSET :: u8 where [kernel_defs]: "PIC_SLAVE_VECTOR_OFFSET = PIC_MASTER_VECTOR_OFFSET + 8"
definition PIC_IRQ_SLAVE_MASTER :: nat where [kernel_defs]: "PIC_IRQ_SLAVE_MASTER = 2"
definition PIC_ENABLE_MASK_MASTER :: u8 where [kernel_defs]:
  "PIC_ENABLE_MASK_MASTER = 0xFF AND NOT (push_bit PIC_IRQ_SLAVE_MASTER 1)"
definition PIC_ENABLE_MASK_SLAVE :: u8 where [kernel_defs]: "PIC_ENABLE_MASK_SLAVE = 0xFF"

definition pic_disable :: "'d device \<Rightarrow> 'd \<Rightarrow> 'd" where
  "pic_disable hw d =
     (let d = outb hw PIC_PORT_MASTER_DATA PIC_ENABLE_MASK_MASTER d
      in outb hw PIC_PORT_SLAVE_DATA PIC_ENABLE_MASK_SLAVE d)"

definition pic_remap :: "'d device \<Rightarrow> 'd \<Rightarrow> 'd" where
  "pic_remap hw d =
     (let (m1, d) = inb hw PIC_PORT_MASTER_DATA d;
          (m2, d) = inb hw PIC_PORT_SLAVE_DATA d;
          d = outb hw PIC_PORT_MASTER_CMD (PIC_ICW1_INIT + PIC_ICW1_ICW4) d;
          d = outb hw PIC_PORT_SLAVE_CMD (PIC_ICW1_INIT + PIC_ICW1_ICW4) d;
          d = outb hw PIC_PORT_MASTER_DATA PIC_MASTER_VECTOR_OFFSET d;
          d = outb hw PIC_PORT_SLAVE_DATA PIC_SLAVE_VECTOR_OFFSET d;
          d = outb hw PIC_PORT_MASTER_DATA 4 d;
          d = outb hw PIC_PORT_SLAVE_DATA 2 d;
          d = outb hw PIC_PORT_MASTER_DATA PIC_IVW4_8086 d;
          d = outb hw PIC_PORT_SLAVE_DATA PIC_IVW4_8086 d;
          d = outb hw PIC_PORT_MASTER_DATA m1 d
      in outb hw PIC_PORT_SLAVE_DATA m2 d)"

definition pic_init :: "'d device \<Rightarrow> 'd \<Rightarrow> 'd" where
  "pic_init hw d = pic_remap hw (pic_disable hw d)"

text \<open>The masks are computed in \<^verbatim>\<open>int\<close> and truncated to the byte that is sent.\<close>

definition pic_enable_irq :: "'d device \<Rightarrow> nat \<Rightarrow> 'd \<Rightarrow> 'd" where
  "pic_enable_irq hw irq d =
     (let (m1, d) = inb hw PIC_PORT_MASTER_DATA d;
          (m2, d) = inb hw PIC_PORT_SLAVE_DATA d
      in if irq < 8
         then outb hw PIC_PORT_MASTER_DATA (ucast ((ucast m1 :: u32) AND NOT (push_bit irq 1))) d
         else outb hw PIC_PORT_SLAVE_DATA (ucast ((ucast m2 :: u32) AND NOT (push_bit (irq - 8) 1))) d)"

definition pic_disable_irq :: "'d device \<Rightarrow> nat \<Rightarrow> 'd \<Rightarrow> 'd" where
  "pic_disable_irq hw irq d =
     (let (m1, d) = inb hw PIC_PORT_MASTER_DATA d;
          (m2, d) = inb hw PIC_PORT_SLAVE_DATA d
      in if irq < 8
         then outb hw PIC_PORT_MASTER_DATA (ucast ((ucast m1 :: u32) OR push_bit irq 1)) d
         else outb hw PIC_PORT_SLAVE_DATA (ucast ((ucast m2 :: u32) OR push_bit (irq - 8) 1)) d)"

section \<open>Interval timer\<close>

definition PIT_DATA_CHANNEL0 :: u16 where [kernel_defs]: "PIT_DATA_CHANNEL0 = 0x40"
definition PIT_CMD_PORT :: u16 where [kernel_defs]: "PIT_CMD_PORT = 0x43"
definition PIT_VAL_REPEATER :: u8 where [kernel_defs]: "PIT_VAL_REPEATER = 0x36"

definition pit_install :: "'d device \<Rightarrow> u32 \<Rightarrow> isr_table \<times> 'd \<Rightarrow> bool \<times> isr_table \<times> 'd" where
  "pit_install hw freq td =
     (let (t, d) = td in
      if freq < 19 then (False, t, d)
      else
        let t = register_interrupt_handler IRQ_PIT Increment_tick t;
            dv = 1193180 div freq;
            d = outb hw PIT_CMD_PORT PIT_VAL_REPEATER d;
            d = outb hw PIT_DATA_CHANNEL0 (ucast (dv AND 0xFF)) d;
            d = outb hw PIT_DATA_CHANNEL0 (ucast (drop_bit 8 dv AND 0xFF)) d;
            d = pic_enable_irq hw 0 d
        in (True, t, d))"

definition pit_disable :: "'d device \<Rightarrow> 'd \<Rightarrow> 'd" where
  "pit_disable hw d = pic_disable_irq hw 0 d"

definition increment_tick :: "u32 \<Rightarrow> u32 \<times> u32" where
  "increment_tick ticks = (0, ticks + 1)"

text \<open>\<^verbatim>\<open>kwait\<close> reads the volatile tick counter until it has reached the end; \<open>obs\<close>
  is the sequence of values the reads give. The result is the number of reads.\<close>

partial_function (option) kwait_loop :: "(nat \<Rightarrow> u32) \<Rightarrow> u32 \<Rightarrow> nat \<Rightarrow> nat option" where
  "kwait_loop obs end i = (if obs i < end then kwait_loop obs end (i + 1) else Some i)"

definition kwait :: "(nat \<Rightarrow> u32) \<Rightarrow> u32 \<Rightarrow> nat option" where
  "kwait obs nticks = kwait_loop obs (obs 0 + nticks) 1"

section \<open>Properties\<close>

text \<open>What the manual of the 8259 says of the mask register once the chip is initialised: the
  data port reads as the mask and writing it sets the mask. \<open>masks\<close> is the view of both
  masks, master first.\<close>

definition mask_register :: "'d device \<Rightarrow> ('d \<Rightarrow> u8 \<times> u8) \<Rightarrow> bool" where
  "mask_register hw masks \<longleftrightarrow>
     (\<forall>d. inb hw PIC_PORT_MASTER_DATA d = (fst (masks d), d) \<and> inb hw PIC_PORT_SLAVE_DATA d = (snd (masks d), d)
        \<and> (\<forall>v. masks (outb hw PIC_PORT_MASTER_DATA v d) = (v, snd (masks d))
             \<and> masks (outb hw PIC_PORT_SLAVE_DATA v d) = (fst (masks d), v)))"

text \<open>Bit \<open>irq\<close> of the two masks together.\<close>

definition irq_masked :: "u8 \<times> u8 \<Rightarrow> nat \<Rightarrow> bool" where
  "irq_masked m irq = (if irq < 8 then bit (fst m) irq else bit (snd m) (irq - 8))"

lemma ucast_mask_byte:
  "n < 8 \<Longrightarrow> bit (ucast ((ucast m :: u32) AND NOT (2 ^ k)) :: u8) n \<longleftrightarrow> bit m n \<and> n \<noteq> k"
  "n < 8 \<Longrightarrow> bit (ucast ((ucast m :: u32) OR 2 ^ k) :: u8) n \<longleftrightarrow> bit m n \<or> n = k"
  for m :: u8
  by (auto simp: bit_simps)

text \<open>\<^verbatim>\<open>pic_enable_irq\<close> unmasks just its line and \<^verbatim>\<open>pic_disable_irq\<close> masks
  just its line, on either controller.\<close>

lemma pic_irq_lines:
  assumes "mask_register hw masks" and "irq < 16" and "n < 16"
  shows "(irq_masked (masks (pic_enable_irq hw irq d)) n \<longleftrightarrow> irq_masked (masks d) n \<and> n \<noteq> irq)
     \<and> (irq_masked (masks (pic_disable_irq hw irq d)) n \<longleftrightarrow> irq_masked (masks d) n \<or> n = irq)"
proof -
  have hw: "inb hw PIC_PORT_MASTER_DATA d = (fst (masks d), d)" "inb hw PIC_PORT_SLAVE_DATA d = (snd (masks d), d)"
    "masks (outb hw PIC_PORT_MASTER_DATA v d) = (v, snd (masks d))"
    "masks (outb hw PIC_PORT_SLAVE_DATA v d) = (fst (masks d), v)" for d v
    using assms(1) by (simp_all add: mask_register_def)
  show ?thesis
    using assms(2,3)
    by (cases "n < 8"; cases "irq < 8")
      (auto simp: pic_enable_irq_def pic_disable_irq_def hw irq_masked_def ucast_mask_byte)
qed

text \<open>Two mask registers and nothing else.\<close>

definition mask_device :: "(u8 \<times> u8) device" where
  "mask_device = \<lparr>dev_in = (\<lambda>p d. (if p = PIC_PORT_MASTER_DATA then fst d else snd d, d)),
     dev_out = (\<lambda>p v d. if p = PIC_PORT_MASTER_DATA then (v, snd d)
                       else if p = PIC_PORT_SLAVE_DATA then (fst d, v) else d)\<rparr>"

lemma mask_device_ok: "mask_register mask_device (\<lambda>d. d)"
  by (simp add: mask_register_def mask_device_def inb_def outb_def PIC_PORT_MASTER_DATA_def PIC_PORT_SLAVE_DATA_def)

lemma pic_irq_lines_witness:
  "\<not> irq_masked (pic_enable_irq mask_device 9 (0xFF, 0xFF)) 9 \<and> irq_masked (pic_enable_irq mask_device 9 (0xFF, 0xFF)) 1"
  using pic_irq_lines [OF mask_device_ok, of 9 9 "(0xFF, 0xFF)"] pic_irq_lines [OF mask_device_ok, of 9 1 "(0xFF, 0xFF)"]
  by (simp add: irq_masked_def)

text \<open>\<^verbatim>\<open>pic_init\<close> programs the controllers with the sequence of their manual: four
  initialisation words each, with the vectors 32 to 39 and 40 to 47, the slave on line 2, and
  then the masks it found.\<close>

lemma pic_init_sequence:
  "pic_init (recorder ans) [] =
     [(0x21, 0xFB), (0xA1, 0xFF),
      (0x20, 0x11), (0xA0, 0x11), (0x21, 32), (0xA1, 40), (0x21, push_bit 2 1), (0xA1, 2), (0x21, 1), (0xA1, 1),
      (0x21, ans 0x21), (0xA1, ans 0xA1)]"
  by (simp add: pic_init_def pic_disable_def pic_remap_def Let_def kernel_defs PIC_PORT_MASTER_CMD_def
      PIC_PORT_MASTER_DATA_def PIC_PORT_SLAVE_CMD_def PIC_PORT_SLAVE_DATA_def)

text \<open>\<^verbatim>\<open>pit_install\<close> refuses a frequency below 19 without touching anything;
  from 19 on the divisor fits the 16 bits of the chip, the two bytes it sends to channel 0,
  low byte first, make up the divisor, the tick handler is registered and line 0 is unmasked.\<close>

lemma pit_install_divisor:
  "if freq < 19 then pit_install (recorder ans) freq (t, []) = (False, t, [])
   else \<exists>lo hi. pit_install (recorder ans) freq (t, [])
          = (True, t(IRQ_PIT := Increment_tick),
             [(PIT_CMD_PORT, 0x36), (PIT_DATA_CHANNEL0, lo), (PIT_DATA_CHANNEL0, hi),
              (PIC_PORT_MASTER_DATA, ans PIC_PORT_MASTER_DATA AND NOT 1)])
        \<and> unat lo + 256 * unat hi = 1193180 div unat freq"
proof (cases "freq < 19")
  case True
  then show ?thesis by (simp add: pit_install_def)
next
  case False
  define q where "q = 1193180 div freq"
  have uq: "unat q = 1193180 div unat freq" by (simp add: q_def unat_div_distrib)
  have "19 \<le> unat freq" using False by (simp add: word_less_nat_alt not_less)
  then have "unat q \<le> 1193180 div 19" unfolding uq by (intro div_le_mono2) auto
  then have small: "unat q < 65536" by simp
  have line: "ucast ((ucast m :: u32) AND NOT (push_bit 0 1)) = m AND NOT 1" for m :: u8
    by (rule bit_word_eqI) (auto simp: bit_simps)
  have "unat (ucast (q AND 0xFF) :: u8) = unat q mod 256"
    "unat (ucast (drop_bit 8 q AND 0xFF) :: u8) = unat q div 256 mod 256"
    unfolding ucast_low_byte
    by (simp_all add: unsigned_ucast_eq take_bit_eq_mod unsigned_drop_bit_eq drop_bit_eq_div unat_div_distrib)
  moreover have "unat q mod 256 + 256 * (unat q div 256 mod 256) = unat q" using small by simp
  ultimately show ?thesis
    using False line uq
    by (auto simp: pit_install_def pic_enable_irq_def register_interrupt_handler_def Let_def q_def [symmetric]
        PIT_VAL_REPEATER_def)
qed

end
