(* ===== verification/Uart.thy ===== *)
theory Uart
  imports Pic
begin

text \<open>
  The serial port, \<^verbatim>\<open>src/drv/uart.c\<close>, over the port device.
\<close>

section \<open>State and operations\<close>

definition UART_COM1 :: u16 where [kernel_defs]: "UART_COM1 = 0x3F8"
definition UART_OFFSET_THR :: u16 where [kernel_defs]: "UART_OFFSET_THR = 0"
definition UART_OFFSET_RBR :: u16 where [kernel_defs]: "UART_OFFSET_RBR = 0"
definition UART_OFFSET_DLL :: u16 where [kernel_defs]: "UART_OFFSET_DLL = 0"
definition UART_OFFSET_IER :: u16 where [kernel_defs]: "UART_OFFSET_IER = 1"
definition IER_MASK_RDAI :: u8 where [kernel_defs]: "IER_MASK_RDAI = 1"
definition UART_OFFSET_DLH :: u16 where [kernel_defs]: "UART_OFFSET_DLH = 1"
definition UART_OFFSET_IIR :: u16 where [kernel_defs]: "UART_OFFSET_IIR = 2"
definition UART_OFFSET_FCR :: u16 where [kernel_defs]: "UART_OFFSET_FCR = 2"
definition FCR_MASK_TRG_LEV4 :: u8 where [kernel_defs]: "FCR_MASK_TRG_LEV4 = 0xC0"
definition FCR_MASK_CLR_TRANS :: u8 where [kernel_defs]: "FCR_MASK_CLR_TRANS = 0x04"
definition FCR_MASK_CLR_REC :: u8 where [kernel_defs]: "FCR_MASK_CLR_REC = 0x02"
definition FCR_MASK_ENABLE :: u8 where [kernel_defs]: "FCR_MASK_ENABLE = 0x01"
definition UART_OFFSET_LCR :: u16 where [kernel_defs]: "UART_OFFSET_LCR = 3"
definition LCR_MASK_DLAB :: u8 where [kernel_defs]: "LCR_MASK_DLAB = 0x80"
definition LCR_MASK_WORD_LEN8 :: u8 where [kernel_defs]: "LCR_MASK_WORD_LEN8 = 0x03"
definition UART_OFFSET_MCR :: u16 where [kernel_defs]: "UART_OFFSET_MCR = 4"
definition MCR_MASK_AUX2 :: u8 where [kernel_defs]: "MCR_MASK_AUX2 = 0x08"
definition MCR_MASK_REQ_SEND :: u8 where [kernel_defs]: "MCR_MASK_REQ_SEND = 0x02"
definition MCR_MASK_TERM_RDY :: u8 where [kernel_defs]: "MCR_MASK_TERM_RDY = 0x01"
definition UART_OFFSET_LSR :: u16 where [kernel_defs]: "UART_OFFSET_LSR = 5"
definition LSR_MASK_EMPTY_THR :: u8 where [kernel_defs]: "LSR_MASK_EMPTY_THR = 0x20"
definition LSR_MASK_DATA_RDY :: u8 where [kernel_defs]: "LSR_MASK_DATA_RDY = 0x01"
definition LSR_MASK_NO_UART :: u8 where [kernel_defs]: "LSR_MASK_NO_UART = 0xFF"
definition UART_COM1_IRQ :: u8 where [kernel_defs]: "UART_COM1_IRQ = IRQ4"

definition UART_ERR_NOT_PRESENT :: int where "UART_ERR_NOT_PRESENT = -1"
definition UART_ERR_PUTC_NOT_READY :: int where "UART_ERR_PUTC_NOT_READY = -2"
definition UART_ERR_GETC_NOT_READY :: int where "UART_ERR_GETC_NOT_READY = -2"
definition UART_SUCCESS :: int where "UART_SUCCESS = 0"

record 'd uart_state =
  uart_present :: bool
  uart_handlers :: isr_table
  uart_dev :: 'd

definition uart_out :: "'d device \<Rightarrow> u16 \<Rightarrow> u8 \<Rightarrow> 'd uart_state \<Rightarrow> 'd uart_state" where
  "uart_out hw off v s = s\<lparr>uart_dev := outb hw (UART_COM1 + off) v (uart_dev s)\<rparr>"

definition uart_in :: "'d device \<Rightarrow> u16 \<Rightarrow> 'd uart_state \<Rightarrow> u8 \<times> 'd uart_state" where
  "uart_in hw off s = (let (v, d) = inb hw (UART_COM1 + off) (uart_dev s) in (v, s\<lparr>uart_dev := d\<rparr>))"

definition uart_set_baud_rate :: "'d device \<Rightarrow> u16 \<Rightarrow> 'd uart_state \<Rightarrow> 'd uart_state" where
  "uart_set_baud_rate hw baud_rate s =
     (let dlv = ucast ((115200 :: u32) div ucast baud_rate) :: u16;
          (v, s) = uart_in hw UART_OFFSET_LCR s;
          s = uart_out hw UART_OFFSET_LCR (v OR LCR_MASK_DLAB) s;
          s = uart_out hw UART_OFFSET_DLL (ucast (dlv AND 0xFF)) s;
          s = uart_out hw UART_OFFSET_DLH (ucast (drop_bit 8 (dlv AND 0xFF00))) s;
          (v, s) = uart_in hw UART_OFFSET_LCR s
      in uart_out hw UART_OFFSET_LCR (v AND NOT LCR_MASK_DLAB) s)"

definition uart_init :: "'d device \<Rightarrow> 'd uart_state \<Rightarrow> int \<times> 'd uart_state" where
  "uart_init hw s =
     (let s = uart_out hw UART_OFFSET_IER 0 s;
          s = uart_set_baud_rate hw UART_BAUD_RATE s;
          s = uart_out hw UART_OFFSET_FCR
                (FCR_MASK_ENABLE OR FCR_MASK_CLR_REC OR FCR_MASK_CLR_TRANS OR FCR_MASK_TRG_LEV4) s;
          s = uart_out hw UART_OFFSET_MCR (MCR_MASK_TERM_RDY OR MCR_MASK_REQ_SEND OR MCR_MASK_AUX2) s;
          s = uart_out hw UART_OFFSET_IER IER_MASK_RDAI s;
          (lsr, s) = uart_in hw UART_OFFSET_LSR s
      in if lsr = LSR_MASK_NO_UART then (UART_ERR_NOT_PRESENT, s\<lparr>uart_present := False\<rparr>)
         else
           let (lcr, s) = uart_in hw UART_OFFSET_LCR s;
               s = uart_out hw UART_OFFSET_LCR (lcr OR LCR_MASK_WORD_LEN8) s;
               s = s\<lparr>uart_present := True\<rparr>;
               (_, s) = uart_in hw UART_OFFSET_IIR s;
               (_, s) = uart_in hw UART_OFFSET_RBR s;
               s = s\<lparr>uart_handlers := register_interrupt_handler UART_COM1_IRQ Uart_interrupt_com1 (uart_handlers s)\<rparr>;
               s = s\<lparr>uart_dev := pic_enable_irq hw (unat (UART_COM1_IRQ - IRQ0)) (uart_dev s)\<rparr>
           in (UART_SUCCESS, s))"

definition uart_getc :: "'d device \<Rightarrow> 'd uart_state \<Rightarrow> int \<times> 'd uart_state" where
  "uart_getc hw s =
     (if \<not> uart_present s then (UART_ERR_NOT_PRESENT, s)
      else
        let (lsr, s) = uart_in hw UART_OFFSET_LSR s in
        if lsr AND LSR_MASK_DATA_RDY \<noteq> 0
        then let (c, s) = uart_in hw UART_OFFSET_RBR s in (uint c, s)
        else (UART_ERR_GETC_NOT_READY, s))"

text \<open>The polling loop of \<^verbatim>\<open>uart_putc\<close> for the rounds that are left.\<close>

fun uart_putc_loop :: "'d device \<Rightarrow> nat \<Rightarrow> 'd uart_state \<Rightarrow> 'd uart_state" where
  "uart_putc_loop hw 0 s = s"
| "uart_putc_loop hw (Suc n) s =
     (let (lsr, s) = uart_in hw UART_OFFSET_LSR s in
      if lsr AND LSR_MASK_EMPTY_THR = 0 then uart_putc_loop hw n s else s)"

definition uart_putc :: "'d device \<Rightarrow> u8 \<Rightarrow> 'd uart_state \<Rightarrow> int \<times> 'd uart_state" where
  "uart_putc hw c s =
     (if \<not> uart_present s then (UART_ERR_NOT_PRESENT, s)
      else
        let s = uart_putc_loop hw (1024 * 16) s;
            (lsr, s) = uart_in hw UART_OFFSET_LSR s
        in if lsr AND LSR_MASK_EMPTY_THR \<noteq> 0
           then (UART_SUCCESS, uart_out hw UART_OFFSET_THR c s)
           else (UART_ERR_PUTC_NOT_READY, s))"

definition uart_interrupt_com1 :: "Registers \<Rightarrow> u32" where
  "uart_interrupt_com1 regs = 0"

section \<open>A transmitter that becomes ready\<close>

text \<open>The line status says that the transmitter is empty from the read with number \<open>k\<close> on;
  the device counts the reads of the line status and logs what is written.\<close>

definition slow_port :: "nat \<Rightarrow> (nat \<times> (u16 \<times> u8) list) device" where
  "slow_port k = \<lparr>dev_in = (\<lambda>p d. if p = UART_COM1 + UART_OFFSET_LSR
       then (if k \<le> fst d then LSR_MASK_EMPTY_THR else 0, (fst d + 1, snd d)) else (0, d)),
     dev_out = (\<lambda>p v d. (fst d, snd d @ [(p, v)]))\<rparr>"

lemma slow_port_lsr:
  "uart_in (slow_port k) UART_OFFSET_LSR s =
     (if k \<le> fst (uart_dev s) then LSR_MASK_EMPTY_THR else 0, s\<lparr>uart_dev := (fst (uart_dev s) + 1, snd (uart_dev s))\<rparr>)"
  by (simp add: uart_in_def inb_def slow_port_def)

lemma slow_port_out:
  "uart_out (slow_port k) off v s
     = s\<lparr>uart_dev := (fst (uart_dev s), snd (uart_dev s) @ [(UART_COM1 + off, v)])\<rparr>"
  by (simp add: uart_out_def outb_def slow_port_def)

lemma slow_port_loop:
  "uart_putc_loop (slow_port k) n s =
     s\<lparr>uart_dev := (if k < fst (uart_dev s) + n then max (fst (uart_dev s)) k + (if n = 0 then 0 else 1) else fst (uart_dev s) + n,
        snd (uart_dev s))\<rparr>"
proof (induction n arbitrary: s)
  case (Suc n)
  show ?case
    by (cases "k \<le> fst (uart_dev s)") (auto simp: slow_port_lsr Suc LSR_MASK_EMPTY_THR_def max_def)
qed simp

section \<open>Properties\<close>

text \<open>What \<^verbatim>\<open>uart_init\<close> programs: 9600 baud as divisor 12 while the divisor latch is
  open, 8-bit words, receive interrupts; the port counts as present unless its line status
  reads 0xFF, and only then the handler is installed and the line unmasked.\<close>

lemma uart_init_programs:
  fixes s :: "(u16 \<times> u8) list uart_state"
  assumes "ans (UART_COM1 + UART_OFFSET_LSR) \<noteq> 0xFF" and "uart_dev s = []"
  shows "fst (uart_init (recorder ans) s) = UART_SUCCESS"
    and "uart_present (snd (uart_init (recorder ans) s))"
    and "uart_handlers (snd (uart_init (recorder ans) s)) = (uart_handlers s)(36 := Uart_interrupt_com1)"
    and "take 5 (uart_dev (snd (uart_init (recorder ans) s)))
       = [(0x3F9, 0), (0x3FB, ans 0x3FB OR 0x80), (0x3F8, 12), (0x3F9, 0), (0x3FB, ans 0x3FB AND NOT 0x80)]"
  using assms
  by (simp_all add: uart_init_def uart_set_baud_rate_def uart_out_def uart_in_def Let_def kernel_defs pic_enable_irq_def
      register_interrupt_handler_def IRQ0_def IRQ4_def UART_BAUD_RATE_def)

text \<open>\<^verbatim>\<open>uart_putc\<close> on a transmitter that becomes ready after \<open>k\<close> reads of
  its status sends the character, once, when \<open>k\<close> is at most 16384, and otherwise gives up
  without sending; it reads the status at most 16385 times. Without a port it does nothing.\<close>

lemma uart_putc_waits:
  "let (r, t) = uart_putc (slow_port k) c (s\<lparr>uart_dev := (0, log)\<rparr>);
       sent = uart_present s \<and> k \<le> 16384
   in r = (if sent then UART_SUCCESS else if uart_present s then UART_ERR_PUTC_NOT_READY else UART_ERR_NOT_PRESENT)
      \<and> snd (uart_dev t) = log @ (if sent then [(UART_COM1 + UART_OFFSET_THR, c)] else [])
      \<and> fst (uart_dev t) \<le> 16385 \<and> uart_present t = uart_present s"
  by (auto simp: uart_putc_def slow_port_loop slow_port_lsr Let_def slow_port_out LSR_MASK_EMPTY_THR_def
      split: if_splits)

end
