(* ===== verification/Ioapic.thy ===== *)
theory Ioapic
  imports Isr
begin

text \<open>
  The I/O APIC, \<^verbatim>\<open>src/arch/x86/ioapic.c\<close>. Its two memory-mapped registers, select and
  window, are behind a device parameter for 32-bit accesses: what a read gives and what a write
  does, at an address.
\<close>

section \<open>Memory-mapped registers\<close>

record 'm mmio =
  mm_read :: "u32 \<Rightarrow> 'm \<Rightarrow> u32 \<times> 'm"
  mm_write :: "u32 \<Rightarrow> u32 \<Rightarrow> 'm \<Rightarrow> 'm"

section \<open>Operations\<close>

record IO_apic =
  io_id :: u8
  io_addr :: u32
  max_interr :: u8

definition IOAPIC_REDIR_TAB_OFF :: u32 where "IOAPIC_REDIR_TAB_OFF = 0x10"
definition IOAPIC_INT_DISABLED :: u32 where "IOAPIC_INT_DISABLED = 0x00010000"

definition ioapic_read :: "'m mmio \<Rightarrow> u32 \<Rightarrow> u32 \<Rightarrow> 'm \<Rightarrow> u32 \<times> 'm" where
  "ioapic_read mm addr reg d =
     (let d = mm_write mm addr (reg AND 0xFF) d in mm_read mm (addr + 16) d)"

definition ioapic_write :: "'m mmio \<Rightarrow> u32 \<Rightarrow> u32 \<Rightarrow> u32 \<Rightarrow> 'm \<Rightarrow> 'm" where
  "ioapic_write mm addr reg val d =
     (let d = mm_write mm addr (reg AND 0xFF) d in mm_write mm (addr + 16) val d)"

text \<open>The first \<open>n\<close> rounds of the loop of \<^verbatim>\<open>ioapic_install\<close>.\<close>

fun ioapic_install_loop :: "'m mmio \<Rightarrow> IO_apic \<Rightarrow> nat \<Rightarrow> 'm \<Rightarrow> 'm" where
  "ioapic_install_loop mm io 0 d = d"
| "ioapic_install_loop mm io (Suc i) d =
     (let d = ioapic_install_loop mm io i d;
          d = ioapic_write mm (io_addr io) (IOAPIC_REDIR_TAB_OFF + 2 * of_nat i)
                (IOAPIC_INT_DISABLED OR (ucast IRQ0 + of_nat i)) d
      in ioapic_write mm (io_addr io) (IOAPIC_REDIR_TAB_OFF + 2 * of_nat i + 1) 0 d)"

definition ioapic_install :: "'m mmio \<Rightarrow> IO_apic \<Rightarrow> 'm \<Rightarrow> bool \<times> 'm" where
  "ioapic_install mm io d = (False, ioapic_install_loop mm io (unat (max_interr io)) d)"

definition ioapic_enable_irq :: "'m mmio \<Rightarrow> IO_apic \<Rightarrow> u32 \<Rightarrow> u32 \<Rightarrow> 'm \<Rightarrow> 'm" where
  "ioapic_enable_irq mm io irq cpu_id d =
     (let d = ioapic_write mm (io_addr io) (IOAPIC_REDIR_TAB_OFF + 2 * irq) (ucast IRQ0 + irq) d
      in ioapic_write mm (io_addr io) (IOAPIC_REDIR_TAB_OFF + 2 * irq + 1) (push_bit 24 cpu_id) d)"

section \<open>The register file behind the window\<close>

text \<open>What the data sheet says of the chip: the select register holds the number of the register
  the window shows. \<open>sel\<close> and \<open>regs\<close> are the views of the two.\<close>

definition io_apic_chip :: "'m mmio \<Rightarrow> u32 \<Rightarrow> ('m \<Rightarrow> u32) \<Rightarrow> ('m \<Rightarrow> u32 \<Rightarrow> u32) \<Rightarrow> bool" where
  "io_apic_chip mm addr sel regs \<longleftrightarrow>
     (\<forall>d v. sel (mm_write mm addr v d) = v \<and> regs (mm_write mm addr v d) = regs d
        \<and> sel (mm_write mm (addr + 16) v d) = sel d \<and> regs (mm_write mm (addr + 16) v d) = (regs d)(sel d := v)
        \<and> fst (mm_read mm (addr + 16) d) = regs d (sel d))"

lemma ioapic_write_regs:
  assumes "io_apic_chip mm addr sel regs"
  shows "regs (ioapic_write mm addr reg v d) = (regs d)(reg AND 0xFF := v)"
  using assms by (simp add: io_apic_chip_def ioapic_write_def)

lemma low_byte_reg: "n < 256 \<Longrightarrow> (of_nat n :: u32) AND 0xFF = of_nat n"
proof -
  assume "n < 256"
  then have "take_bit 8 (of_nat n :: u32) = of_nat n"
    by (simp add: take_bit_eq_mod word_unat_eq_iff unat_mod_distrib unat_of_nat_small)
  moreover have "(0xFF :: u32) = mask 8" by (simp add: mask_eq_exp_minus_1)
  ultimately show ?thesis by (simp only: take_bit_eq_mask [symmetric])
qed

definition redir_lo :: "nat \<Rightarrow> u32" where "redir_lo i = of_nat (16 + 2 * i)"
definition redir_hi :: "nat \<Rightarrow> u32" where "redir_hi i = of_nat (17 + 2 * i)"

lemma redir_regs:
  assumes "i < 120"
  shows "(IOAPIC_REDIR_TAB_OFF + 2 * of_nat i) AND 0xFF = redir_lo i"
    and "(IOAPIC_REDIR_TAB_OFF + 2 * of_nat i + 1) AND 0xFF = redir_hi i"
  using low_byte_reg [of "16 + 2 * i"] low_byte_reg [of "17 + 2 * i"] assms
  by (simp_all add: IOAPIC_REDIR_TAB_OFF_def redir_lo_def redir_hi_def add.commute add.assoc)

lemma redir_inj:
  assumes "i < 120" and "j < 120"
  shows "redir_lo i = redir_lo j \<longleftrightarrow> i = j" "redir_hi i = redir_hi j \<longleftrightarrow> i = j"
    "redir_lo i \<noteq> redir_hi j" "redir_hi j \<noteq> redir_lo i"
proof -
  have "unat (redir_lo k) = 16 + 2 * k" "unat (redir_hi k) = 17 + 2 * k" if "k < 120" for k
    using that unfolding redir_lo_def redir_hi_def by (simp_all add: unat_of_nat_small del: of_nat_add of_nat_mult)
  with assms show "redir_lo i = redir_lo j \<longleftrightarrow> i = j" "redir_hi i = redir_hi j \<longleftrightarrow> i = j"
    "redir_lo i \<noteq> redir_hi j" "redir_hi j \<noteq> redir_lo i"
    by (auto simp: word_unat_eq_iff) presburger+
qed

lemma ioapic_install_loop_regs:
  assumes chip: "io_apic_chip mm (io_addr io) sel regs" and "n \<le> 120" and "i < n"
  shows "regs (ioapic_install_loop mm io n d) (redir_lo i) = IOAPIC_INT_DISABLED OR (32 + of_nat i)"
    and "regs (ioapic_install_loop mm io n d) (redir_hi i) = 0"
proof -
  have "regs (ioapic_install_loop mm io n d) (redir_lo i) = IOAPIC_INT_DISABLED OR (32 + of_nat i)
     \<and> regs (ioapic_install_loop mm io n d) (redir_hi i) = 0"
    using assms(2,3)
  proof (induction n)
    case (Suc n)
    have w: "regs (ioapic_install_loop mm io (Suc n) d)
        = (regs (ioapic_install_loop mm io n d))(redir_lo n := IOAPIC_INT_DISABLED OR (32 + of_nat n), redir_hi n := 0)"
      using Suc.prems(1) by (simp add: Let_def ioapic_write_regs [OF chip] redir_regs IRQ0_def)
    show ?case
    proof (cases "i = n")
      case True
      then show ?thesis unfolding w using Suc.prems by (simp add: redir_inj)
    next
      case False
      then show ?thesis unfolding w using Suc by (simp add: redir_inj)
    qed
  qed simp
  then show "regs (ioapic_install_loop mm io n d) (redir_lo i) = IOAPIC_INT_DISABLED OR (32 + of_nat i)"
    and "regs (ioapic_install_loop mm io n d) (redir_hi i) = 0" by simp_all
qed

section \<open>Properties\<close>


definition io_apic_model :: "(u32 \<times> (u32 \<Rightarrow> u32)) mmio" where
  "io_apic_model = \<lparr>mm_read = (\<lambda>a d. (snd d (fst d), d)),
     mm_write = (\<lambda>a v d. if a = 0xFEC00000 then (v, snd d) else (fst d, (snd d)(fst d := v)))\<rparr>"


end
