(* ===== verification/Lapic.thy ===== *)
theory Lapic
  imports Ioapic Kernel_Memory
begin

text \<open>
  The local APIC, \<^verbatim>\<open>src/arch/x86/lapic.c\<close>. Its registers are 32-bit words of the
  memory-mapped device from \<^verbatim>\<open>local_apic\<close> on. A wait for the delivery status that never
  clears runs forever, which is \<^const>\<open>None\<close>.
\<close>

section \<open>State and operations\<close>

definition LAPIC_ID :: u32 where [kernel_defs]: "LAPIC_ID = 0x0020 div 4"
definition LAPIC_VERSION :: u32 where [kernel_defs]: "LAPIC_VERSION = 0x0030 div 4"
definition LAPIC_TPR :: u32 where [kernel_defs]: "LAPIC_TPR = 0x0080 div 4"
definition LAPIC_EOI :: u32 where [kernel_defs]: "LAPIC_EOI = 0x00B0 div 4"
definition LAPIC_SPUR_INTR :: u32 where [kernel_defs]: "LAPIC_SPUR_INTR = 0x00F0 div 4"
definition LAPIC_TIMER_DIVIDE_REG :: u32 where [kernel_defs]: "LAPIC_TIMER_DIVIDE_REG = 0x03E0 div 4"
definition TIMER_DIVIDE_1 :: u32 where [kernel_defs]: "TIMER_DIVIDE_1 = 8 + 3"
definition LAPIC_TIMER_INIT_CNT :: u32 where [kernel_defs]: "LAPIC_TIMER_INIT_CNT = 0x0380 div 4"
definition LAPIC_ERROR_STATUS :: u32 where [kernel_defs]: "LAPIC_ERROR_STATUS = 0x0280 div 4"
definition LAPIC_ICR_CMD_LO :: u32 where [kernel_defs]: "LAPIC_ICR_CMD_LO = 0x0300 div 4"
definition ICR_DELIVERY_MODE_INIT :: u32 where [kernel_defs]: "ICR_DELIVERY_MODE_INIT = 0x500"
definition ICR_DELIVERY_MODE_START :: u32 where [kernel_defs]: "ICR_DELIVERY_MODE_START = 0x600"
definition ICR_DELIVERY_STAT_PEND :: u32 where [kernel_defs]: "ICR_DELIVERY_STAT_PEND = 0x1000"
definition ICR_LEVEL_ASSERT :: u32 where [kernel_defs]: "ICR_LEVEL_ASSERT = 0x4000"
definition ICR_TRIGGER_MODE_LEVEL :: u32 where [kernel_defs]: "ICR_TRIGGER_MODE_LEVEL = 0x8000"
definition ICR_DEST_SHORTHAND_ALL :: u32 where [kernel_defs]: "ICR_DEST_SHORTHAND_ALL = 0x80000"
definition LAPIC_ICR_CMD_HI :: u32 where [kernel_defs]: "LAPIC_ICR_CMD_HI = 0x0310 div 4"
definition LAPIC_LVT_TIMER :: u32 where [kernel_defs]: "LAPIC_LVT_TIMER = 0x320 div 4"
definition LVT_TIMER_PERIODIC :: u32 where [kernel_defs]: "LVT_TIMER_PERIODIC = 0x20000"
definition LAPIC_LVT_LINT0 :: u32 where [kernel_defs]: "LAPIC_LVT_LINT0 = 0x350 div 4"
definition LAPIC_LVT_LINT1 :: u32 where [kernel_defs]: "LAPIC_LVT_LINT1 = 0x360 div 4"
definition LAPIC_LVT_ERROR :: u32 where [kernel_defs]: "LAPIC_LVT_ERROR = 0x370 div 4"
definition LVT_MASK_MASKED :: u32 where [kernel_defs]: "LVT_MASK_MASKED = 0x10000"
definition LAPIC_ENABLE :: u32 where [kernel_defs]: "LAPIC_ENABLE = 0x100"
definition CMOS_PORT :: u16 where [kernel_defs]: "CMOS_PORT = 0x70"

record ('m, 'd) lapic_state =
  la_local_apic :: u32
  la_io_apic :: IO_apic
  la_mem :: mem
  la_mmio :: 'm
  la_dev :: 'd

definition lapic_get :: "'m mmio \<Rightarrow> u32 \<Rightarrow> ('m, 'd) lapic_state \<Rightarrow> u32 \<times> ('m, 'd) lapic_state" where
  "lapic_get mm index s =
     (let (v, d) = mm_read mm (la_local_apic s + 4 * index) (la_mmio s) in (v, s\<lparr>la_mmio := d\<rparr>))"

definition lapic_write :: "'m mmio \<Rightarrow> u32 \<Rightarrow> u32 \<Rightarrow> ('m, 'd) lapic_state \<Rightarrow> ('m, 'd) lapic_state" where
  "lapic_write mm index val s =
     (let s = s\<lparr>la_mmio := mm_write mm (la_local_apic s + 4 * index) val (la_mmio s)\<rparr>
      in snd (lapic_get mm LAPIC_ID s))"

definition lapic_send_eoi :: "'m mmio \<Rightarrow> ('m, 'd) lapic_state \<Rightarrow> ('m, 'd) lapic_state" where
  "lapic_send_eoi mm s = lapic_write mm LAPIC_EOI 0 s"

partial_function (option) lapic_wait_sent ::
  "'m mmio \<Rightarrow> ('m, 'd) lapic_state \<Rightarrow> ('m, 'd) lapic_state option" where
  "lapic_wait_sent mm s =
     (let (v, s) = lapic_get mm LAPIC_ICR_CMD_LO s
      in if v AND ICR_DELIVERY_STAT_PEND \<noteq> 0 then lapic_wait_sent mm s else Some s)"

definition lapic_read_version :: "'m mmio \<Rightarrow> ('m, 'd) lapic_state \<Rightarrow> u32 \<times> ('m, 'd) lapic_state" where
  "lapic_read_version mm s = lapic_get mm LAPIC_VERSION s"

definition lapic_install :: "'m mmio \<Rightarrow> ('m, 'd) lapic_state \<Rightarrow> (bool \<times> ('m, 'd) lapic_state) option" where
  "lapic_install mm s =
     (if la_local_apic s = 0 then Some (False, s)
      else
        let s = lapic_write mm LAPIC_SPUR_INTR (LAPIC_ENABLE OR ucast IRQ_SPURIOUS) s;
            s = lapic_write mm LAPIC_TIMER_DIVIDE_REG TIMER_DIVIDE_1 s;
            s = lapic_write mm LAPIC_LVT_TIMER (LVT_TIMER_PERIODIC OR ucast IRQ_TIMER) s;
            s = lapic_write mm LAPIC_TIMER_INIT_CNT 10000000 s;
            s = lapic_write mm LAPIC_LVT_LINT0 LVT_MASK_MASKED s;
            s = lapic_write mm LAPIC_LVT_LINT1 LVT_MASK_MASKED s;
            s = lapic_write mm LAPIC_LVT_ERROR (ucast IRQ_ERROR) s;
            s = lapic_write mm LAPIC_ERROR_STATUS 0 s;
            s = lapic_write mm LAPIC_ERROR_STATUS 0 s;
            s = lapic_write mm LAPIC_EOI 0 s;
            s = lapic_write mm LAPIC_ICR_CMD_HI 0 s;
            s = lapic_write mm LAPIC_ICR_CMD_LO
                  (ICR_DEST_SHORTHAND_ALL OR ICR_DELIVERY_MODE_INIT OR ICR_TRIGGER_MODE_LEVEL) s
        in Option.bind (lapic_wait_sent mm s) (\<lambda>s.
           let s = lapic_write mm LAPIC_TPR 0 s;
               (version, s) = lapic_get mm LAPIC_VERSION s
           in Some (True, s\<lparr>la_io_apic := (la_io_apic s)\<lparr>max_interr := ucast (drop_bit 16 version AND 0xFF)\<rparr>\<rparr>)))"

definition lapic_cpuid :: "'m mmio \<Rightarrow> ('m, 'd) lapic_state \<Rightarrow> u32 \<times> ('m, 'd) lapic_state" where
  "lapic_cpuid mm s =
     (if la_local_apic s \<noteq> 0 then let (v, s) = lapic_get mm LAPIC_ID s in (drop_bit 24 v, s) else (0, s))"

function delay_loop :: "u32 \<Rightarrow> u32 \<Rightarrow> u32" where
  "delay_loop ns i = (if i < ns then delay_loop ns (i + 1) else i)"
  by pat_completeness auto
termination
  by (relation "measure (\<lambda>(ns, i). unat ns - unat i)") auto

declare delay_loop.simps [simp del]

definition delay :: "u32 \<Rightarrow> u32" where "delay ns = delay_loop ns 0"

definition lapic_get_bus_freq :: int where "lapic_get_bus_freq = 0"

text \<open>One command to the processor \<open>id\<close>, with the wait for its delivery.\<close>

definition lapic_ipi :: "'m mmio \<Rightarrow> u32 \<Rightarrow> ('m, 'd) lapic_state \<Rightarrow> ('m, 'd) lapic_state option" where
  "lapic_ipi mm cmd s = lapic_wait_sent mm (lapic_write mm LAPIC_ICR_CMD_LO cmd s)"

definition lapic_start_ap ::
  "'m mmio \<Rightarrow> 'd device \<Rightarrow> u8 \<Rightarrow> u32 \<Rightarrow> ('m, 'd) lapic_state \<Rightarrow> ('m, 'd) lapic_state option" where
  "lapic_start_ap mm hw ID addr s =
     (let id = ucast ID :: u32;
          s = s\<lparr>la_dev := outb hw CMOS_PORT 0x0F (la_dev s)\<rparr>;
          s = s\<lparr>la_dev := outb hw (CMOS_PORT + 1) 0x0A (la_dev s)\<rparr>;
          s = s\<lparr>la_mem := store16 (la_mem s) 0x0467 0\<rparr>;
          s = s\<lparr>la_mem := store16 (la_mem s) (0x0467 + 2) (ucast (drop_bit 4 addr))\<rparr>;
          s = lapic_write mm LAPIC_ICR_CMD_HI (push_bit 24 id) s
      in Option.bind (lapic_ipi mm (ICR_DELIVERY_MODE_INIT OR ICR_TRIGGER_MODE_LEVEL OR ICR_LEVEL_ASSERT) s) (\<lambda>s.
         Option.bind (lapic_ipi mm (ICR_DELIVERY_MODE_INIT OR ICR_TRIGGER_MODE_LEVEL) s) (\<lambda>s.
         let s = lapic_write mm LAPIC_ICR_CMD_HI (push_bit 24 id) s in
         Option.bind (lapic_ipi mm (ICR_DELIVERY_MODE_START OR drop_bit 12 addr) s) (\<lambda>s.
         let s = lapic_write mm LAPIC_ICR_CMD_HI (push_bit 24 id) s in
         lapic_ipi mm (ICR_DELIVERY_MODE_START OR drop_bit 12 addr) s))))"

section \<open>A local APIC that records what it is told\<close>

text \<open>The device of the properties: reads are answered by \<open>ans\<close>, writes are logged with the
  index of their register. \<open>base\<close> is the address of the device.\<close>

definition lapic_recorder :: "u32 \<Rightarrow> (u32 \<Rightarrow> u32) \<Rightarrow> (u32 \<times> u32) list mmio" where
  "lapic_recorder base ans = \<lparr>mm_read = (\<lambda>a d. (ans ((a - base) div 4), d)),
     mm_write = (\<lambda>a v d. d @ [((a - base) div 4, v)])\<rparr>"

lemma recorder_index: "i < 0x400 \<Longrightarrow> (base + 4 * i - base) div 4 = i" for i :: u32
proof -
  assume "i < 0x400"
  then have "unat i < 0x400" by (simp add: word_less_nat_alt)
  then have "unat ((base + 4 * i - base) div 4) = unat i"
    by (simp add: unat_div_distrib unat_word_ariths)
  then show ?thesis by (simp add: word_unat_eq_iff)
qed

lemma lapic_recorder_write:
  "i < 0x400 \<Longrightarrow> la_local_apic s = base \<Longrightarrow> lapic_write (lapic_recorder base ans) i v s = s\<lparr>la_mmio := la_mmio s @ [(i, v)]\<rparr>"
  by (simp add: lapic_write_def lapic_get_def lapic_recorder_def recorder_index [simplified])

lemma lapic_recorder_get:
  "i < 0x400 \<Longrightarrow> la_local_apic s = base \<Longrightarrow> lapic_get (lapic_recorder base ans) i s = (ans i, s)"
  by (simp add: lapic_get_def lapic_recorder_def recorder_index [simplified])

lemma lapic_recorder_wait:
  assumes "ans LAPIC_ICR_CMD_LO AND ICR_DELIVERY_STAT_PEND = 0" and "la_local_apic s = base"
  shows "lapic_wait_sent (lapic_recorder base ans) s = Some s"
  using assms by (subst lapic_wait_sent.simps) (simp add: lapic_recorder_get LAPIC_ICR_CMD_LO_def)

lemma delay_loop_eq: "i \<le> ns \<Longrightarrow> delay_loop ns i = ns"
proof (induction ns i rule: delay_loop.induct)
  case (1 ns i)
  show ?case
  proof (cases "i < ns")
    case True
    then have "i + 1 \<le> ns" by (rule inc_le)
    with 1 True show ?thesis by (simp add: delay_loop.simps [of ns i])
  next
    case False
    with 1(2) show ?thesis by (subst delay_loop.simps) simp
  qed
qed

section \<open>Properties\<close>

text \<open>\<^verbatim>\<open>lapic_install\<close> enables the APIC with the spurious vector, starts the periodic timer,
  masks the local lines, and leaves in \<^verbatim>\<open>io_apic.max_interr\<close> bits 16 to 23 of the version
  of the local APIC.\<close>

lemma lapic_install_programs:
  fixes s :: "((u32 \<times> u32) list, 'd) lapic_state"
  assumes "ans LAPIC_ICR_CMD_LO AND ICR_DELIVERY_STAT_PEND = 0" and "la_local_apic s = base" and "base \<noteq> 0" and "la_mmio s = []"
  shows "lapic_install (lapic_recorder base ans) s = Some (True, s\<lparr>la_mmio :=
       [(LAPIC_SPUR_INTR, 0x13F), (LAPIC_TIMER_DIVIDE_REG, 11), (LAPIC_LVT_TIMER, 0x20040), (LAPIC_TIMER_INIT_CNT, 10000000),
        (LAPIC_LVT_LINT0, 0x10000), (LAPIC_LVT_LINT1, 0x10000), (LAPIC_LVT_ERROR, 65), (LAPIC_ERROR_STATUS, 0),
        (LAPIC_ERROR_STATUS, 0), (LAPIC_EOI, 0), (LAPIC_ICR_CMD_HI, 0), (LAPIC_ICR_CMD_LO, 0x88500), (LAPIC_TPR, 0)],
      la_io_apic := (la_io_apic s)\<lparr>max_interr := ucast (drop_bit 16 (ans LAPIC_VERSION) AND 0xFF)\<rparr>\<rparr>)"
proof -
  note small = LAPIC_ID_def LAPIC_VERSION_def LAPIC_TPR_def LAPIC_EOI_def LAPIC_SPUR_INTR_def LAPIC_TIMER_DIVIDE_REG_def
    LAPIC_TIMER_INIT_CNT_def LAPIC_ERROR_STATUS_def LAPIC_ICR_CMD_LO_def LAPIC_ICR_CMD_HI_def LAPIC_LVT_TIMER_def
    LAPIC_LVT_LINT0_def LAPIC_LVT_LINT1_def LAPIC_LVT_ERROR_def
  show ?thesis
    using assms
    by (simp add: lapic_install_def Let_def lapic_recorder_write lapic_recorder_get lapic_recorder_wait small
        LAPIC_ENABLE_def IRQ_SPURIOUS_def IRQ_TIMER_def IRQ_ERROR_def TIMER_DIVIDE_1_def LVT_TIMER_PERIODIC_def
        LVT_MASK_MASKED_def ICR_DEST_SHORTHAND_ALL_def ICR_DELIVERY_MODE_INIT_def ICR_TRIGGER_MODE_LEVEL_def)
qed

text \<open>\<^verbatim>\<open>lapic_start_ap\<close> follows the start-up algorithm of the multiprocessor
  specification: warm reset code and vector, INIT asserted and deasserted, then two STARTUP
  commands with the page of the code, all to the processor asked for. It returns when the APIC
  delivers its commands.\<close>

lemma lapic_start_ap_protocol:
  assumes "ans LAPIC_ICR_CMD_LO AND ICR_DELIVERY_STAT_PEND = 0"
  shows "lapic_start_ap (lapic_recorder base ans) (recorder pans) ID addr
       \<lparr>la_local_apic = base, la_io_apic = io, la_mem = m, la_mmio = [], la_dev = []\<rparr>
     = Some \<lparr>la_local_apic = base, la_io_apic = io,
         la_mem = store16 (store16 m 0x467 0) 0x469 (ucast (drop_bit 4 addr)),
         la_mmio = [(LAPIC_ICR_CMD_HI, push_bit 24 (ucast ID)),
            (LAPIC_ICR_CMD_LO, ICR_DELIVERY_MODE_INIT OR ICR_TRIGGER_MODE_LEVEL OR ICR_LEVEL_ASSERT),
            (LAPIC_ICR_CMD_LO, ICR_DELIVERY_MODE_INIT OR ICR_TRIGGER_MODE_LEVEL),
            (LAPIC_ICR_CMD_HI, push_bit 24 (ucast ID)), (LAPIC_ICR_CMD_LO, ICR_DELIVERY_MODE_START OR addr div 0x1000),
            (LAPIC_ICR_CMD_HI, push_bit 24 (ucast ID)), (LAPIC_ICR_CMD_LO, ICR_DELIVERY_MODE_START OR addr div 0x1000)],
         la_dev = [(0x70, 0x0F), (0x71, 0x0A)]\<rparr>"
proof -
  have small: "LAPIC_ICR_CMD_LO < 0x400" "LAPIC_ICR_CMD_HI < 0x400"
    by (simp_all add: LAPIC_ICR_CMD_LO_def LAPIC_ICR_CMD_HI_def)
  have page: "drop_bit 12 addr = addr div 0x1000" by (simp add: drop_bit_eq_div)
  show ?thesis
    using assms
    by (simp add: lapic_start_ap_def lapic_ipi_def Let_def lapic_recorder_write lapic_recorder_wait small CMOS_PORT_def page)
qed

lemma lapic_start_ap_protocol_witness:
  "map_option la_dev (lapic_start_ap (lapic_recorder 0x3EE000 (\<lambda>_. 0)) (recorder (\<lambda>_. 0)) 1 0x7000
     \<lparr>la_local_apic = 0x3EE000, la_io_apic = \<lparr>io_id = 0, io_addr = 0, max_interr = 0\<rparr>, la_mem = (\<lambda>_. 0), la_mmio = [], la_dev = []\<rparr>)
     = Some [(0x70, 0x0F), (0x71, 0x0A)]"
  using lapic_start_ap_protocol [of "\<lambda>_. 0" "0x3EE000" "\<lambda>_. 0" 1 "0x7000" "\<lparr>io_id = 0, io_addr = 0, max_interr = 0\<rparr>" "\<lambda>_. 0"]
  by simp

end
