(* ===== verification/Kernel_Cpu.thy ===== *)
theory Kernel_Cpu
  imports Process Frames Idt Uart Lapic
begin

text \<open>
  The machine as the parts of \<^verbatim>\<open>src/sys/cpu.c\<close>, \<^verbatim>\<open>src/sys/kernel.c\<close>,
  \<^verbatim>\<open>src/sys/syscall.c\<close> and \<^verbatim>\<open>src/arch/x86/isr.c\<close> that tie the components together
  see it: the start of the other processors, the user code every processor ends in, the move of
  the boot stack, and the interrupt of the local APIC. What the other processors do while the boot
  processor waits for one of them is a parameter. Messages are left out.
\<close>

section \<open>The machine\<close>

text \<open>\<open>mc_proc\<close> is memory with what the memory managers, the heap and the process system keep;
  its \<^const>\<open>cpu\<close> is the \<^verbatim>\<open>cpu_info\<close> of the executing processor, \<open>mc_cpus\<close> the array
  \<^verbatim>\<open>cpus\<close> with the entries of the others. Physical memory below 4 MB is identity mapped, so
  the local APIC code, which uses addresses there, works on the same memory.\<close>

record ('m, 'd) machine =
  mc_proc :: proc_state
  mc_cpus :: "cpu_info list"
  mc_num_cpus :: int
  mc_segs :: seg_regs
  mc_idt :: idt_state
  mc_io_apic :: IO_apic
  mc_mmio :: 'm
  mc_uart_present :: bool
  mc_dev :: 'd

definition lapic_part :: "('m, 'd) machine \<Rightarrow> ('m, 'd) lapic_state" where
  "lapic_part s = \<lparr>la_local_apic = local_apic (mc_proc s), la_io_apic = mc_io_apic s, la_mem = pmem (mc_proc s),
     la_mmio = mc_mmio s, la_dev = mc_dev s\<rparr>"

definition put_lapic :: "('m, 'd) lapic_state \<Rightarrow> ('m, 'd) machine \<Rightarrow> ('m, 'd) machine" where
  "put_lapic la s = s\<lparr>mc_proc := (mc_proc s)\<lparr>pmem := la_mem la\<rparr>, mc_io_apic := la_io_apic la,
     mc_mmio := la_mmio la, mc_dev := la_dev la\<rparr>"

definition uart_part :: "('m, 'd) machine \<Rightarrow> 'd uart_state" where
  "uart_part s = \<lparr>uart_present = mc_uart_present s, uart_handlers = interrupt_handlers (mc_proc s), uart_dev = mc_dev s\<rparr>"

definition put_uart :: "'d uart_state \<Rightarrow> ('m, 'd) machine \<Rightarrow> ('m, 'd) machine" where
  "put_uart u s = s\<lparr>mc_proc := (mc_proc s)\<lparr>interrupt_handlers := uart_handlers u\<rparr>, mc_uart_present := uart_present u,
     mc_dev := uart_dev u\<rparr>"

definition machine_cpuid :: "'m mmio \<Rightarrow> ('m, 'd) machine \<Rightarrow> u32 \<times> ('m, 'd) machine" where
  "machine_cpuid mm s = (let (id, la) = lapic_cpuid mm (lapic_part s) in (id, put_lapic la s))"

section \<open>Interrupts and system calls\<close>

text \<open>The interrupt of the local APIC; \<open>regs\<close> is the address of the frame. The identifier of
  the processor is read for a message.\<close>

definition intr_handler :: "'m mmio \<Rightarrow> u32 \<Rightarrow> ('m, 'd) machine \<Rightarrow> kerror + (u32 \<times> ('m, 'd) machine)" where
  "intr_handler mm regs s =
     (let (_, s) = machine_cpuid mm s in
      ebind (switch_task regs (mc_proc s)) (\<lambda>(_, p).
      let s = s\<lparr>mc_proc := p\<rparr>; s = put_lapic (lapic_send_eoi mm (lapic_part s)) s
      in Inr (0, s)))"

definition syscall_init :: "isr_table \<Rightarrow> isr_table" where
  "syscall_init t = register_interrupt_handler 0x80 Syscall_handler t"

definition syscall_handler :: "Registers \<Rightarrow> u32" where
  "syscall_handler regs = 0"

section \<open>The processors\<close>

fun cpu_uart_loop :: "'d device \<Rightarrow> nat \<Rightarrow> u8 \<Rightarrow> 'd uart_state \<Rightarrow> 'd uart_state" where
  "cpu_uart_loop hw 0 c s = s"
| "cpu_uart_loop hw (Suc n) c s = cpu_uart_loop hw n (c + 1) (snd (uart_putc hw c s))"

text \<open>The page with the user code: two system calls and a jump to itself.\<close>

definition cpu_user_code :: "proc_state \<Rightarrow> kerror + proc_state" where
  "cpu_user_code s =
     (let (r, s) = pmm_alloc_first s in
      ebind (vmm_map_page r GB1 (X86_PAGE_USER OR X86_PAGE_WRITABLE) s) (\<lambda>(_, s).
      ebind (vstore16 GB1 0x80cd s) (\<lambda>s.
      ebind (vstore16 (GB1 + 2) 0x80cd s) (\<lambda>s.
      vstore16 (GB1 + 4) 0xfeeb s))))"

text \<open>Up to the entry to user mode, which is assembly.\<close>

definition cpu_common_main :: "'m mmio \<Rightarrow> 'd device \<Rightarrow> u32 \<Rightarrow> ('m, 'd) machine \<Rightarrow> kerror + ('m, 'd) machine" where
  "cpu_common_main mm hw idt_ptr_addr s =
     (let s = s\<lparr>mc_idt := idt_enable idt_ptr_addr (mc_idt s)\<rparr>;
          s = s\<lparr>mc_proc := (mc_proc s)\<lparr>cpu := (cpu (mc_proc s))\<lparr>cpu_started := 1\<rparr>\<rparr>\<rparr>;
          (_, s) = machine_cpuid mm s;
          s = s\<lparr>mc_proc := (mc_proc s)\<lparr>interrupts := True\<rparr>\<rparr>;
          s = put_uart (cpu_uart_loop hw 5 0x41 (uart_part s)) s
      in ebind (cpu_user_code (mc_proc s)) (\<lambda>p. Inr (s\<lparr>mc_proc := p\<rparr>)))"

text \<open>\<^verbatim>\<open>gdt_install\<close> on the entry of the executing processor; \<open>at\<close> says where the
  entries are.\<close>

definition machine_gdt_install :: "'m mmio \<Rightarrow> (u32 \<Rightarrow> cpu_addrs) \<Rightarrow> ('m, 'd) machine \<Rightarrow> kerror + ('m, 'd) machine" where
  "machine_gdt_install mm at s =
     (let (id, s) = machine_cpuid mm s in
      if MAX_CPUS \<le> id then Inl (Out_of_bounds id)
      else
        let (c, r) = gdt_install (at id) (mc_cpus s ! unat id, mc_segs s)
        in Inr (s\<lparr>mc_cpus := (mc_cpus s)[unat id := c], mc_segs := r, mc_proc := (mc_proc s)\<lparr>cpu := c\<rparr>\<rparr>))"

definition cpu_ap_enter ::
  "'m mmio \<Rightarrow> 'd device \<Rightarrow> (u32 \<Rightarrow> cpu_addrs) \<Rightarrow> u32 \<Rightarrow> ('m, 'd) machine \<Rightarrow> (kerror + ('m, 'd) machine) option" where
  "cpu_ap_enter mm hw at idt_ptr_addr s =
     oebind (Some (machine_gdt_install mm at s)) (\<lambda>s.
     Option.bind (lapic_install mm (lapic_part s)) (\<lambda>(_, la).
     Some (cpu_common_main mm hw idt_ptr_addr (put_lapic la s))))"

text \<open>What the boot processor leaves for the next processor behind the start-up code.\<close>

definition cpu_boot_params :: "u32 \<Rightarrow> u32 \<Rightarrow> proc_state \<Rightarrow> kerror + proc_state" where
  "cpu_boot_params entry stack s =
     (let code = 0x7000 in
      ebind (vstore32 (code + 4 * 1) stack s) (\<lambda>s.
      ebind (vstore32 (code + 4 * 2) entry s) (\<lambda>s.
      vstore32 (code + 4 * 3) (vmm_return_kernel_dir s) s)))"

partial_function (option) cpu_wait_started ::
  "(('m, 'd) machine \<Rightarrow> ('m, 'd) machine) \<Rightarrow> nat \<Rightarrow> ('m, 'd) machine \<Rightarrow> ('m, 'd) machine option" where
  "cpu_wait_started ap i s =
     (if cpu_started (mc_cpus s ! i) \<noteq> 1 then cpu_wait_started ap i (ap s) else Some s)"

text \<open>The loop for the processors that are left from number \<open>i\<close> on.\<close>

fun cpu_start_loop ::
  "'m mmio \<Rightarrow> 'd device \<Rightarrow> (nat \<Rightarrow> ('m, 'd) machine \<Rightarrow> ('m, 'd) machine) \<Rightarrow> u32 \<Rightarrow> nat \<Rightarrow> nat \<Rightarrow> u32
     \<Rightarrow> ('m, 'd) machine \<Rightarrow> (kerror + ('m, 'd) machine) option" where
  "cpu_start_loop mm hw ap entry 0 i curr_stack s = Some (Inr s)"
| "cpu_start_loop mm hw ap entry (Suc n) i curr_stack s =
     (if cpu_boot_cpu (mc_cpus s ! i) then cpu_start_loop mm hw ap entry n (i + 1) curr_stack s
      else
        let curr_stack = curr_stack - KB4 * 2 in
        oebind (Some (cpu_boot_params entry curr_stack (mc_proc s))) (\<lambda>p.
        let s = s\<lparr>mc_proc := p\<rparr> in
        Option.bind (lapic_start_ap mm hw (cpu_id (mc_cpus s ! i)) 0x7000 (lapic_part s)) (\<lambda>la.
        Option.bind (cpu_wait_started (ap i) i (put_lapic la s)) (\<lambda>s.
        cpu_start_loop mm hw ap entry n (i + 1) curr_stack s))))"

definition cpu_start_aps ::
  "'m mmio \<Rightarrow> 'd device \<Rightarrow> (nat \<Rightarrow> ('m, 'd) machine \<Rightarrow> ('m, 'd) machine) \<Rightarrow> u32 \<Rightarrow> u32
     \<Rightarrow> ('m, 'd) machine \<Rightarrow> (kerror + ('m, 'd) machine) option" where
  "cpu_start_aps mm hw ap entry idt_ptr_addr s =
     oebind (cpu_start_loop mm hw ap entry (nat (mc_num_cpus s)) 0 KERNEL_STACK_TOP s) (\<lambda>s.
     Some (cpu_common_main mm hw idt_ptr_addr s))"

section \<open>The boot stack\<close>

text \<open>The two loops of \<^verbatim>\<open>move_stack\<close> count down in an unsigned variable; \<open>lo\<close> is
  \<^verbatim>\<open>new_stack - sz\<close>.\<close>

partial_function (option) move_stack_map ::
  "u32 \<Rightarrow> u32 \<Rightarrow> proc_state \<Rightarrow> (kerror + proc_state) option" where
  "move_stack_map lo i s =
     (if i \<ge> lo then
        let (phys, s) = pmm_alloc_first s in
        (case vmm_map_page phys i X86_PAGE_WRITABLE s of
           Inl e \<Rightarrow> Some (Inl e)
         | Inr (_, s) \<Rightarrow> move_stack_map lo (i - 4096) s)
      else Some (Inr s))"

definition move_stack_word :: "u32 \<Rightarrow> u32 \<Rightarrow> u32 \<Rightarrow> u32 \<Rightarrow> proc_state \<Rightarrow> kerror + proc_state" where
  "move_stack_word old_stack init_esp offset i s =
     ebind (vload32 i s) (\<lambda>tmp.
     if old_stack < tmp \<and> tmp < init_esp then vstore32 i (tmp + offset) s else Inr s)"

partial_function (option) move_stack_fix ::
  "u32 \<Rightarrow> u32 \<Rightarrow> u32 \<Rightarrow> u32 \<Rightarrow> u32 \<Rightarrow> proc_state \<Rightarrow> (kerror + proc_state) option" where
  "move_stack_fix old_stack init_esp offset lo i s =
     (if i \<ge> lo then
        (case move_stack_word old_stack init_esp offset i s of
           Inl e \<Rightarrow> Some (Inl e)
         | Inr s \<Rightarrow> move_stack_fix old_stack init_esp offset lo (i - 4) s)
      else Some (Inr s))"

text \<open>\<open>old_stack\<close> and \<open>old_base\<close> are the values of ESP and EBP; the result has their new
  values.\<close>

definition move_stack ::
  "u32 \<Rightarrow> u32 \<Rightarrow> u32 \<Rightarrow> u32 \<Rightarrow> u32 \<Rightarrow> proc_state \<Rightarrow> (kerror + (u32 \<times> u32 \<times> proc_state)) option" where
  "move_stack new_stack sz init_esp old_stack old_base s =
     oebind (move_stack_map (new_stack - sz) new_stack s) (\<lambda>s.
     let offset = new_stack - init_esp;
         new_stack_ptr = old_stack + offset;
         new_base_ptr = old_base + offset
     in oebind (Some (vmemcpy new_stack_ptr old_stack (init_esp - old_stack) s)) (\<lambda>s.
        oebind (move_stack_fix old_stack init_esp offset (new_stack - sz) new_stack s) (\<lambda>s.
        Some (Inr (new_stack_ptr, new_base_ptr, s)))))"

section \<open>The timer interrupt\<close>

lemma machine_cpuid_proc: "\<exists>d. snd (machine_cpuid mm s) = s\<lparr>mc_mmio := d\<rparr>"
  by (cases "lapic_get mm LAPIC_ID (lapic_part s)")
    (auto simp: machine_cpuid_def lapic_cpuid_def lapic_get_def put_lapic_def lapic_part_def case_prod_beta Let_def
      intro!: machine.equality exI)

text \<open>C15: the interrupt of the local APIC's timer makes the waiting process the running one, with
  its page directory and the top of its kernel stack in the task state segment, and then
  acknowledges the interrupt exactly once. It returns 0 and not the stack pointer
  \<^verbatim>\<open>switch_task\<close> computes.\<close>

theorem intr_handler_switches:
  fixes s :: "((u32 \<times> u32) list, 'd) machine"
  assumes "proc_list (mc_proc s) \<noteq> 0" and "proc_list (mc_proc s) \<noteq> proc_current (mc_proc s)"
    and "frame_at (mc_proc s) regs" and "frame_at (mc_proc s) (pcb_regs (pcbs (mc_proc s) (proc_current (mc_proc s))))"
  shows "\<exists>s'. intr_handler (lapic_recorder (local_apic (mc_proc s)) ans) regs s = Inr (0, s')
     \<and> proc_current (mc_proc s') = proc_list (mc_proc s) \<and> proc_list (mc_proc s') = proc_current (mc_proc s)
     \<and> cr3 (mc_proc s') = pcb_dirtable (pcbs (mc_proc s) (proc_list (mc_proc s)))
     \<and> tss_esp0 (cpu_tss (cpu (mc_proc s'))) = pcb_kstack (pcbs (mc_proc s) (proc_list (mc_proc s))) + KSTACKSZ
     \<and> mc_mmio s' = mc_mmio s @ [(LAPIC_EOI, 0)]"
proof -
  let ?base = "local_apic (mc_proc s)" and ?mm = "lapic_recorder (local_apic (mc_proc s)) ans"
  have id: "snd (machine_cpuid ?mm s) = s"
    by (simp add: machine_cpuid_def lapic_cpuid_def lapic_recorder_get lapic_part_def put_lapic_def LAPIC_ID_def)
  obtain r p where p: "switch_task regs (mc_proc s) = Inr (r, p)" "proc_current p = proc_list (mc_proc s)"
    "proc_list p = proc_current (mc_proc s)" "cr3 p = pcb_dirtable (pcbs (mc_proc s) (proc_list (mc_proc s)))"
    "tss_esp0 (cpu_tss (cpu p)) = pcb_kstack (pcbs (mc_proc s) (proc_list (mc_proc s))) + KSTACKSZ" "local_apic p = ?base"
    using switch_task_run [OF assms] by blast
  let ?s = "s\<lparr>mc_proc := p\<rparr>"
  have "lapic_send_eoi ?mm (lapic_part ?s) = (lapic_part ?s)\<lparr>la_mmio := la_mmio (lapic_part ?s) @ [(LAPIC_EOI, 0)]\<rparr>"
    unfolding lapic_send_eoi_def using p(6) by (intro lapic_recorder_write) (simp_all add: LAPIC_EOI_def lapic_part_def)
  then have "intr_handler ?mm regs s = Inr (0, put_lapic ((lapic_part ?s)\<lparr>la_mmio := mc_mmio s @ [(LAPIC_EOI, 0)]\<rparr>) ?s)"
    using p(1) id by (simp add: intr_handler_def Let_def case_prod_beta) (simp add: lapic_part_def)
  then show ?thesis using p(2-5) by (auto simp: put_lapic_def lapic_part_def)
qed

section \<open>The loops of the stack move\<close>

lemma oebind_returns: "\<exists>r. m = Some r \<Longrightarrow> (\<And>x. \<exists>r. f x = Some r) \<Longrightarrow> \<exists>r. oebind m f = Some r"
  by (auto simp: oebind_def split: sum.split)

lemma countdown:
  fixes i lo k :: u32
  assumes "lo \<le> i" and "k \<le> lo" and "0 < k"
  shows "unat (i - k) < unat i"
proof -
  have "k \<le> i" using assms(1,2) by (rule order.trans [rotated])
  then show ?thesis using assms(3) by (simp add: unat_sub word_le_nat_alt word_less_nat_alt)
qed

lemma move_stack_map_returns:
  assumes "4096 \<le> lo"
  shows "\<exists>r. move_stack_map lo i s = Some r"
proof (induction "unat i" arbitrary: i s rule: less_induct)
  case less
  then show ?case
    using countdown [of lo i 4096] assms
    by (auto simp: move_stack_map.simps [of lo i s] case_prod_beta split: sum.split)
qed

lemma move_stack_fix_returns:
  assumes "4 \<le> lo"
  shows "\<exists>r. move_stack_fix old_stack init_esp offset lo i s = Some r"
proof (induction "unat i" arbitrary: i s rule: less_induct)
  case less
  then show ?case
    using countdown [of lo i 4] assms
    by (auto simp: move_stack_fix.simps [of _ _ _ lo i s] split: sum.split)
qed

text \<open>\<^verbatim>\<open>move_stack\<close> comes to an end, with a result or a page fault, for every stack that
  does not reach down into the first page; with a stack that starts at address 0 the unsigned loop
  counter passes every address forever or until a page fault.\<close>

lemma move_stack_returns:
  assumes "4096 \<le> new_stack - sz"
  shows "\<exists>r. move_stack new_stack sz init_esp old_stack old_base s = Some r"
proof -
  have "4 \<le> new_stack - sz" using assms by (rule order.trans [rotated]) simp
  then show ?thesis
    unfolding move_stack_def Let_def
    by (intro oebind_returns move_stack_map_returns move_stack_fix_returns assms) simp_all
qed

lemma move_stack_returns_witness:
  "\<exists>r. move_stack KERNEL_STACK_TOP KERNEL_STACK_SZ 0x105000 0x104F00 0x104F80 proc_example = Some r"
  by (rule move_stack_returns) (simp add: layout_defs)

section \<open>The user code\<close>

lemma data_page_store16:
  assumes "data_page s v f" and "i < 4095"
  shows "vstore16 (v + i) x s = Inr (s\<lparr>pmem := store16 (pmem s) (f + i) x\<rparr>)"
    and "data_page (s\<lparr>pmem := store16 (pmem s) (f + i) x\<rparr>) v f"
    and "mappings (s\<lparr>pmem := store16 (pmem s) (f + i) x\<rparr>) = mappings s"
proof -
  have i: "i < 4096" "i + 1 < 4096" using assms(2) by unat_arith+
  have f: "f mod 4096 = 0" using data_page_frame [OF assms(1)] by simp
  show "vstore16 (v + i) x s = Inr (s\<lparr>pmem := store16 (pmem s) (f + i) x\<rparr>)"
    using data_page_physical [OF assms(1) i(1)] by (simp add: vstore16_def)
  have "only_page (f div 4096) s (s\<lparr>pmem := store16 (pmem s) (f + i) x\<rparr>)"
    using page_offset(2) [OF f i(1)] page_offset(2) [OF f i(2)] by (auto simp: only_page_def store16_def add.assoc)
  then show "data_page (s\<lparr>pmem := store16 (pmem s) (f + i) x\<rparr>) v f"
    and "mappings (s\<lparr>pmem := store16 (pmem s) (f + i) x\<rparr>) = mappings s"
    using data_page_write [OF assms(1)] data_write(2) assms(1) unfolding data_page_def by blast+
qed

lemma user_code_bytes:
  assumes "data_page s GB1 f"
  shows "\<exists>m. ebind (vstore16 GB1 0x80cd s) (\<lambda>s. ebind (vstore16 (GB1 + 2) 0x80cd s) (vstore16 (GB1 + 4) 0xfeeb)) = Inr (s\<lparr>pmem := m\<rparr>)
     \<and> mappings (s\<lparr>pmem := m\<rparr>) = mappings s \<and> (\<forall>i < 6. vload8 (GB1 + of_nat i) (s\<lparr>pmem := m\<rparr>) = Inr ([0xcd, 0x80, 0xcd, 0x80, 0xeb, 0xfe] ! i))"
proof -
  note w1 = data_page_store16 [OF assms, of 0 "0x80cd", simplified]
  note w2 = data_page_store16 [OF w1(2), of 2 "0x80cd", simplified]
  note w3 = data_page_store16 [OF w2(2), of 4 "0xfeeb", simplified]
  let ?m = "store16 (store16 (store16 (pmem s) f 0x80cd) (f + 2) 0x80cd) (f + 4) 0xfeeb"
  have "mappings (s\<lparr>pmem := ?m\<rparr>) = mappings s" using w1(3) w2(3) w3(3) by simp
  moreover have "vload8 (GB1 + of_nat i) (s\<lparr>pmem := ?m\<rparr>) = Inr ([0xcd, 0x80, 0xcd, 0x80, 0xeb, 0xfe] ! i)" if "i < 6" for i
  proof -
    consider "i = 0" | "i = 1" | "i = 2" | "i = 3" | "i = 4" | "i = 5" using \<open>i < 6\<close> by linarith
    then have off: "of_nat i < (4096 :: u32)" and "?m (f + of_nat i) = [0xcd, 0x80, 0xcd, 0x80, 0xeb, 0xfe] ! i"
      by (cases, simp_all add: store16_def)+
    then show ?thesis
      using data_page_physical [OF w3(2) off, of False] by (simp add: vload8_def)
  qed
  ultimately show ?thesis using w1(1) w2(1) w3(1) by (intro exI [of _ ?m]) simp
qed

lemma cpu_user_code_page:
  assumes "vmm_inv s" and "fst (pmm_alloc_first s) \<noteq> 0"
    and "map_legal GB1 (X86_PAGE_USER OR X86_PAGE_WRITABLE) (snd (pmm_alloc_first s))" and "mappings s (ADDR2INDEX GB1) = None"
  obtains f s' where "cpu_user_code s = Inr s'" "\<exists>m. s' = s\<lparr>pmem := m\<rparr>"
    "mappings s' = (mappings s)(ADDR2INDEX GB1 \<mapsto> f OR X86_PAGE_PRESENT OR X86_PAGE_USER OR X86_PAGE_WRITABLE)"
    "\<forall>i < 6. vload8 (GB1 + of_nat i) s' = Inr ([0xcd, 0x80, 0xcd, 0x80, 0xeb, 0xfe] ! i)"
proof -
  let ?acl = "X86_PAGE_USER OR X86_PAGE_WRITABLE"
  obtain f s1 where al: "pmm_alloc_first s = (f, s1)" by fastforce
  have v: "GB1 mod 4096 = 0" by (simp add: layout_defs)
  obtain s2 where s2: "vmm_map_page f GB1 ?acl s1 = Inr (VMM_SUCCESS, s2)" "data_page s2 GB1 f"
    "mappings s2 = (mappings s)(ADDR2INDEX GB1 \<mapsto> f OR X86_PAGE_PRESENT OR ?acl)" "\<exists>m. s2 = s\<lparr>pmem := m\<rparr>"
    by (rule fresh_data_page [OF assms(1) al _ _ assms(4) v]) (use assms(2,3) al in auto)
  obtain m where m: "ebind (vstore16 GB1 0x80cd s2) (\<lambda>s. ebind (vstore16 (GB1 + 2) 0x80cd s) (vstore16 (GB1 + 4) 0xfeeb)) = Inr (s2\<lparr>pmem := m\<rparr>)"
    "mappings (s2\<lparr>pmem := m\<rparr>) = mappings s2" "(\<forall>i < 6. vload8 (GB1 + of_nat i) (s2\<lparr>pmem := m\<rparr>) = Inr ([0xcd, 0x80, 0xcd, 0x80, 0xeb, 0xfe] ! i))"
    using user_code_bytes [OF s2(2)] by blast
  have "cpu_user_code s = Inr (s2\<lparr>pmem := m\<rparr>)" using s2(1) m(1) by (simp add: cpu_user_code_def al)
  then show thesis using s2(3,4) m(2,3) by (intro that [of "s2\<lparr>pmem := m\<rparr>" f]) (auto simp: or.assoc)
qed

text \<open>Every processor but the first finds the page in use: the new frame is lost, and the code is
  written once more.\<close>

lemma cpu_user_code_again:
  assumes "held_page s GB1 f"
  obtains s' where "cpu_user_code s = Inr s'" "\<exists>m. s' = s\<lparr>pmem := m\<rparr>"
    "\<forall>i < 6. vload8 (GB1 + of_nat i) s' = Inr ([0xcd, 0x80, 0xcd, 0x80, 0xeb, 0xfe] ! i)"
proof -
  obtain r s1 where al: "pmm_alloc_first s = (r, s1)" by fastforce
  have "vmm_inv s" using assms by (simp add: held_page_def data_page_def)
  from keeps_alloc_any [OF this al] assms have dp: "data_page s1 GB1 f" using keepsD(2) by (fastforce simp: held_page_def)
  then have "map_legal GB1 (X86_PAGE_USER OR X86_PAGE_WRITABLE) s1"
    by (auto simp: map_legal_def data_page_def mappings_def kernel_defs split: if_splits)
  then have map: "vmm_map_page r GB1 (X86_PAGE_USER OR X86_PAGE_WRITABLE) s1 = Inr (VMM_ERR_PAGE_IN_USE, s1)"
    using dp by (intro pages.map_used) (auto simp: data_page_def)
  obtain m where m: "ebind (vstore16 GB1 0x80cd s1) (\<lambda>s. ebind (vstore16 (GB1 + 2) 0x80cd s) (vstore16 (GB1 + 4) 0xfeeb)) = Inr (s1\<lparr>pmem := m\<rparr>)"
    "(\<forall>i < 6. vload8 (GB1 + of_nat i) (s1\<lparr>pmem := m\<rparr>) = Inr ([0xcd, 0x80, 0xcd, 0x80, 0xeb, 0xfe] ! i))"
    using user_code_bytes [OF dp] by blast
  obtain m1 where "s1 = s\<lparr>pmem := m1\<rparr>" using pmm_alloc_first_only_mem [of s] al by auto
  moreover have "cpu_user_code s = Inr (s1\<lparr>pmem := m\<rparr>)" using map m(1) by (simp add: cpu_user_code_def al)
  ultimately show thesis using m(2) by (intro that [of "s1\<lparr>pmem := m\<rparr>"]) auto
qed

text \<open>Room for the page of the user code.\<close>

definition user_page_ready :: "proc_state \<Rightarrow> bool" where
  "user_page_ready s \<longleftrightarrow> vmm_inv s \<and> fst (pmm_alloc_first s) \<noteq> 0
     \<and> map_legal GB1 (X86_PAGE_USER OR X86_PAGE_WRITABLE) (snd (pmm_alloc_first s)) \<and> mappings s (ADDR2INDEX GB1) = None"

lemma alloc_first_view:
  assumes "vmm_view s t"
  shows "vmm_view (snd (pmm_alloc_first s)) (snd (pmm_alloc_first t))"
  using assms vmm_view_simps(10) [OF assms] pmm_alloc_first_only_mem [of t] by (auto simp: vmm_view_def)

lemma user_page_ready_view: "vmm_view s t \<Longrightarrow> user_page_ready s = user_page_ready t"
  using vmm_view_simps(1,2,8) [of s t] vmm_view_simps(9) [OF alloc_first_view [of s t]] by (simp add: user_page_ready_def)

lemma cpu_common_main_to_user:
  "\<exists>t. cpu_common_main mm hw idt_ptr_addr s = ebind (cpu_user_code (mc_proc t)) (\<lambda>p. Inr (t\<lparr>mc_proc := p\<rparr>))
     \<and> vmm_view (mc_proc t) (mc_proc s) \<and> mc_cpus t = mc_cpus s \<and> reg_idtr (mc_idt t) = idt_ptr_addr
     \<and> cpu_started (cpu (mc_proc t)) = 1 \<and> interrupts (mc_proc t)"
proof -
  define s1 where "s1 = s\<lparr>mc_idt := idt_enable idt_ptr_addr (mc_idt s),
     mc_proc := (mc_proc s)\<lparr>cpu := (cpu (mc_proc s))\<lparr>cpu_started := 1\<rparr>\<rparr>\<rparr>"
  obtain d where d: "snd (machine_cpuid mm s1) = s1\<lparr>mc_mmio := d\<rparr>" using machine_cpuid_proc [of mm s1] by auto
  define s2 where "s2 = s1\<lparr>mc_mmio := d, mc_proc := (mc_proc s1)\<lparr>interrupts := True\<rparr>\<rparr>"
  define s3 where "s3 = put_uart (cpu_uart_loop hw 5 0x41 (uart_part s2)) s2"
  have "cpu_common_main mm hw idt_ptr_addr s = ebind (cpu_user_code (mc_proc s3)) (\<lambda>p. Inr (s3\<lparr>mc_proc := p\<rparr>))"
    using d by (simp add: cpu_common_main_def Let_def case_prod_beta s1_def [symmetric] s2_def [symmetric] s3_def [symmetric])
  moreover have "vmm_view (mc_proc s3) (mc_proc s)"
    by (simp add: s3_def put_uart_def s2_def s1_def vmm_view_def)
  ultimately show ?thesis
    by (intro exI [of _ s3]) (simp add: s3_def put_uart_def s2_def s1_def idt_enable_def)
qed

text \<open>Every processor that reaches \<^verbatim>\<open>cpu_common_main\<close> first, whatever its devices
  answer, loads the interrupt table, reports that it has started, enables interrupts and leaves at
  1 GB a page that user mode may use with the code \<^verbatim>\<open>int 0x80; int 0x80; jmp $\<close>.\<close>

lemma cpu_common_main_user_code:
  assumes "user_page_ready (mc_proc s)"
  shows "\<exists>s' f. cpu_common_main mm hw idt_ptr_addr s = Inr s' \<and> reg_idtr (mc_idt s') = idt_ptr_addr
     \<and> cpu_started (cpu (mc_proc s')) = 1 \<and> interrupts (mc_proc s')
     \<and> mappings (mc_proc s') = (mappings (mc_proc s))(ADDR2INDEX GB1 \<mapsto> f OR X86_PAGE_PRESENT OR X86_PAGE_USER OR X86_PAGE_WRITABLE)
     \<and> (\<forall>i < 6. vload8 (GB1 + of_nat i) (mc_proc s') = Inr ([0xcd, 0x80, 0xcd, 0x80, 0xeb, 0xfe] ! i))"
proof -
  obtain t where t: "cpu_common_main mm hw idt_ptr_addr s = ebind (cpu_user_code (mc_proc t)) (\<lambda>p. Inr (t\<lparr>mc_proc := p\<rparr>))"
    "vmm_view (mc_proc t) (mc_proc s)" "reg_idtr (mc_idt t) = idt_ptr_addr" "cpu_started (cpu (mc_proc t)) = 1" "interrupts (mc_proc t)"
    using cpu_common_main_to_user [of mm hw idt_ptr_addr s] by blast
  with assms have "user_page_ready (mc_proc t)" using user_page_ready_view by blast
  then obtain f p where p: "cpu_user_code (mc_proc t) = Inr p" "\<exists>m. p = (mc_proc t)\<lparr>pmem := m\<rparr>"
    "mappings p = (mappings (mc_proc t))(ADDR2INDEX GB1 \<mapsto> f OR X86_PAGE_PRESENT OR X86_PAGE_USER OR X86_PAGE_WRITABLE)"
    "\<forall>i < 6. vload8 (GB1 + of_nat i) p = Inr ([0xcd, 0x80, 0xcd, 0x80, 0xeb, 0xfe] ! i)"
    unfolding user_page_ready_def using cpu_user_code_page by metis
  then show ?thesis
    using t vmm_view_simps(2) [OF t(2)] by (auto intro!: exI [of _ f])
qed

text \<open>Room for the page, or the page of another processor.\<close>

definition user_page_room :: "proc_state \<Rightarrow> bool" where
  "user_page_room s \<longleftrightarrow> (mappings s (ADDR2INDEX GB1) = None \<and> 2 \<le> frames_left s) \<or> (\<exists>f. held_page s GB1 f)"

lemma user_page_room_view: "vmm_view s t \<Longrightarrow> user_page_room s = user_page_room t"
  using vmm_view_simps(2) [of s t] frames_view [of s t] by (simp add: user_page_room_def)

lemma user_page_room_keeps:
  assumes "user_page_room s" and "keeps {} 0 s t"
  shows "user_page_room t"
proof -
  have "mappings t (ADDR2INDEX GB1) = mappings s (ADDR2INDEX GB1)" "frames_left s \<le> frames_left t"
    using keepsD(3,4) [OF assms(2)] by simp_all
  then show ?thesis using assms(1) keepsD(2) [OF assms(2)] unfolding user_page_room_def by fastforce
qed

lemma cpu_user_code_runs:
  assumes "vmm_inv s" and "user_page_room s"
  shows "\<exists>s'. cpu_user_code s = Inr s' \<and> (\<exists>m. s' = s\<lparr>pmem := m\<rparr>) \<and> (\<forall>i < 6. vload8 (GB1 + of_nat i) s' = Inr ([0xcd, 0x80, 0xcd, 0x80, 0xeb, 0xfe] ! i))"
proof (cases "\<exists>f. held_page s GB1 f")
  case True
  then show ?thesis using cpu_user_code_again by metis
next
  case False
  with assms(2) have room: "mappings s (ADDR2INDEX GB1) = None" "2 \<le> frames_left s" by (auto simp: user_page_room_def)
  have ix: "fst (ADDR2INDEX GB1) < 1023" by (simp add: ADDR2INDEX_eq layout_defs)
  have left: "(if page_present (pde s (fst (ADDR2INDEX GB1))) then 1 else 2) \<le> frames_left s" using room(2) by simp
  obtain f s1 where "pmm_alloc_first s = (f, s1)" "f \<noteq> 0" "map_legal GB1 (X86_PAGE_USER OR X86_PAGE_WRITABLE) s1"
    by (rule alloc_map_legal [OF assms(1) left ix, of "X86_PAGE_USER OR X86_PAGE_WRITABLE"])
      (simp add: kernel_defs, simp add: kernel_defs, rule that)
  then show ?thesis using cpu_user_code_page [OF assms(1) _ _ room(1)] by (metis fst_conv snd_conv)
qed

lemma cpu_common_main_runs:
  assumes "vmm_inv (mc_proc s)" and "user_page_room (mc_proc s)"
  shows "\<exists>s'. cpu_common_main mm hw idt_ptr_addr s = Inr s' \<and> mc_cpus s' = mc_cpus s \<and> reg_idtr (mc_idt s') = idt_ptr_addr
     \<and> interrupts (mc_proc s') \<and> (\<forall>i < 6. vload8 (GB1 + of_nat i) (mc_proc s') = Inr ([0xcd, 0x80, 0xcd, 0x80, 0xeb, 0xfe] ! i))"
proof -
  obtain t where t: "cpu_common_main mm hw idt_ptr_addr s = ebind (cpu_user_code (mc_proc t)) (\<lambda>p. Inr (t\<lparr>mc_proc := p\<rparr>))"
    "vmm_view (mc_proc t) (mc_proc s)" "mc_cpus t = mc_cpus s" "reg_idtr (mc_idt t) = idt_ptr_addr" "interrupts (mc_proc t)"
    using cpu_common_main_to_user [of mm hw idt_ptr_addr s] by blast
  with assms have "vmm_inv (mc_proc t)" "user_page_room (mc_proc t)"
    using user_page_room_view vmm_view_simps(1) by blast+
  from cpu_user_code_runs [OF this] t show ?thesis by auto
qed

lemma proc_example_user_page: "user_page_ready proc_example"
proof -
  have ix: "ADDR2INDEX GB1 = (256, 0)" by (simp add: ADDR2INDEX_eq layout_defs)
  have "map_legal GB1 (X86_PAGE_USER OR X86_PAGE_WRITABLE) (snd (pmm_alloc_first vmm_example))"
    using vmm_example_alloc_twice by (simp add: map_legal_def ix kernel_defs)
  then show ?thesis
    using vmm_example_inv vmm_example_alloc vmm_example_unmapped vmm_view_simps(1,2,8) [OF proc_example_view]
      vmm_view_simps(9) [OF alloc_first_view [OF proc_example_view]] by (simp add: user_page_ready_def)
qed

definition machine_example :: "((u32 \<times> u32) list, (u16 \<times> u8) list) machine" where
  "machine_example = \<lparr>mc_proc = proc_example, mc_cpus = [gdt_example, gdt_example\<lparr>cpu_id := 1, cpu_boot_cpu := False\<rparr>],
     mc_num_cpus = 2, mc_segs = \<lparr>reg_gdtr = 0, reg_gs = 0, reg_tr = 0\<rparr>,
     mc_idt = \<lparr>idt_entries = [], idt_ptr = \<lparr>ip_limit = 0, ip_base = 0\<rparr>, reg_idtr = 0\<rparr>,
     mc_io_apic = \<lparr>io_id = 0, io_addr = 0, max_interr = 0\<rparr>, mc_mmio = [], mc_uart_present = True, mc_dev = []\<rparr>"

theorem intr_handler_switches_witness:
  "\<exists>s'. intr_handler (lapic_recorder (local_apic switch_example) (\<lambda>_. 0)) 0x10001F00 (machine_example\<lparr>mc_proc := switch_example\<rparr>)
       = Inr (0, s') \<and> proc_current (mc_proc s') = 2 \<and> cr3 (mc_proc s') = 0x3000 \<and> mc_mmio s' = [(LAPIC_EOI, 0)]"
  using intr_handler_switches [of "machine_example\<lparr>mc_proc := switch_example\<rparr>" "0x10001F00" "\<lambda>_. 0"] switch_example_ready(1,2)
  by (auto simp: switch_example_ready(3-7) machine_example_def)

lemma cpu_common_main_user_code_witness:
  "\<exists>s'. cpu_common_main (lapic_recorder 0 (\<lambda>_. 0)) (recorder (\<lambda>_. 0x20)) 0x102000 machine_example = Inr s'
     \<and> vload8 0x40000000 (mc_proc s') = Inr 0xcd \<and> vload8 0x40000005 (mc_proc s') = Inr 0xfe"
proof -
  have "user_page_ready (mc_proc machine_example)" using proc_example_user_page by (simp add: machine_example_def)
  from cpu_common_main_user_code [OF this, of "lapic_recorder 0 (\<lambda>_. 0)" "recorder (\<lambda>_. 0x20)" "0x102000"]
  obtain s' where s': "cpu_common_main (lapic_recorder 0 (\<lambda>_. 0)) (recorder (\<lambda>_. 0x20)) 0x102000 machine_example = Inr s'"
    "\<forall>i < 6. vload8 (GB1 + of_nat i) (mc_proc s') = Inr ([0xcd, 0x80, 0xcd, 0x80, 0xeb, 0xfe] ! i)" by blast
  then show ?thesis using s'(2) [rule_format, of 0] s'(2) [rule_format, of 5] by (simp add: layout_defs)
qed

section \<open>Starting the other processors\<close>

lemma lapic_write_mmio: "\<exists>d. lapic_write mm i v s = s\<lparr>la_mmio := d\<rparr>"
  by (auto simp: lapic_write_def lapic_get_def Let_def case_prod_beta)

text \<open>An APIC that delivers its commands.\<close>

definition delivers :: "'m mmio \<Rightarrow> 'd itself \<Rightarrow> bool" where
  "delivers mm t \<longleftrightarrow> (\<forall>la :: ('m, 'd) lapic_state. \<exists>d. lapic_wait_sent mm la = Some (la\<lparr>la_mmio := d\<rparr>))"

lemma lapic_ipi_sent:
  assumes "delivers mm TYPE('d)"
  shows "\<exists>d. lapic_ipi mm cmd (s :: ('m, 'd) lapic_state) = Some (s\<lparr>la_mmio := d\<rparr>)"
proof -
  obtain d where "lapic_write mm LAPIC_ICR_CMD_LO cmd s = s\<lparr>la_mmio := d\<rparr>" using lapic_write_mmio [of mm _ _ s] by auto
  then show ?thesis using assms [unfolded delivers_def, rule_format, of "s\<lparr>la_mmio := d\<rparr>"] by (auto simp: lapic_ipi_def)
qed

lemma lapic_start_ap_sent:
  fixes s :: "('m, 'd) lapic_state"
  assumes "delivers mm TYPE('d)"
  shows "\<exists>d e. lapic_start_ap mm hw n addr s = Some (s\<lparr>la_mem := store16 (store16 (la_mem s) 0x467 0) 0x469 (ucast (drop_bit 4 addr)),
     la_mmio := d, la_dev := e\<rparr>)"
proof -
  let ?hi = "lapic_write mm LAPIC_ICR_CMD_HI (push_bit 24 (ucast n))" and ?start = "ICR_DELIVERY_MODE_START OR drop_bit 12 addr"
  define t where "t = s\<lparr>la_dev := outb hw (CMOS_PORT + 1) 0x0A (outb hw CMOS_PORT 0x0F (la_dev s)),
     la_mem := store16 (store16 (la_mem s) 0x467 0) 0x469 (ucast (drop_bit 4 addr))\<rparr>"
  note ipi = lapic_ipi_sent [OF assms]
  obtain d1 where d1: "?hi t = t\<lparr>la_mmio := d1\<rparr>" using lapic_write_mmio [of mm _ _ t] by auto
  obtain d2 where d2: "lapic_ipi mm (ICR_DELIVERY_MODE_INIT OR ICR_TRIGGER_MODE_LEVEL OR ICR_LEVEL_ASSERT) (t\<lparr>la_mmio := d1\<rparr>) = Some (t\<lparr>la_mmio := d2\<rparr>)"
    using ipi [of _ "t\<lparr>la_mmio := d1\<rparr>"] by auto
  obtain d3 where d3: "lapic_ipi mm (ICR_DELIVERY_MODE_INIT OR ICR_TRIGGER_MODE_LEVEL) (t\<lparr>la_mmio := d2\<rparr>) = Some (t\<lparr>la_mmio := d3\<rparr>)"
    using ipi [of _ "t\<lparr>la_mmio := d2\<rparr>"] by auto
  obtain d4 where d4: "?hi (t\<lparr>la_mmio := d3\<rparr>) = t\<lparr>la_mmio := d4\<rparr>" using lapic_write_mmio [of mm _ _ "t\<lparr>la_mmio := d3\<rparr>"] by auto
  obtain d5 where d5: "lapic_ipi mm ?start (t\<lparr>la_mmio := d4\<rparr>) = Some (t\<lparr>la_mmio := d5\<rparr>)"
    using ipi [of _ "t\<lparr>la_mmio := d4\<rparr>"] by auto
  obtain d6 where d6: "?hi (t\<lparr>la_mmio := d5\<rparr>) = t\<lparr>la_mmio := d6\<rparr>" using lapic_write_mmio [of mm _ _ "t\<lparr>la_mmio := d5\<rparr>"] by auto
  obtain d7 where d7: "lapic_ipi mm ?start (t\<lparr>la_mmio := d6\<rparr>) = Some (t\<lparr>la_mmio := d7\<rparr>)"
    using ipi [of _ "t\<lparr>la_mmio := d6\<rparr>"] by auto
  have "lapic_start_ap mm hw n addr s = Some (t\<lparr>la_mmio := d7\<rparr>)"
    using d1 d2 d3 d4 d5 d6 d7 by (simp add: lapic_start_ap_def Let_def t_def [symmetric])
  then show ?thesis by (intro exI [of _ d7] exI [of _ "la_dev t"]) (simp add: t_def)
qed

text \<open>The pages the start-up code and the BIOS data are on, identity mapped and used for data.\<close>

definition low_pages :: "proc_state \<Rightarrow> bool" where
  "low_pages p \<longleftrightarrow> data_page p 0x7000 0x7000 \<and> data_page p 0 0"

definition boot_pages :: "proc_state \<Rightarrow> bool" where
  "boot_pages p \<longleftrightarrow> low_pages p \<and> user_page_room p"

text \<open>Writes to one of these pages.\<close>

lemma boot_pages_write:
  assumes "boot_pages p" and "f \<in> {0, 0x7000}" and "only_page (f div 4096) p p'"
  shows "boot_pages p'"
proof -
  have dp: "data_page p f f" "data_page p 0x7000 0x7000" "data_page p 0 0" "user_page_room p"
    using assms(1,2) by (auto simp: boot_pages_def low_pages_def)
  then show ?thesis
    using data_page_other [OF dp(1) assms(3)] user_page_room_keeps [OF dp(4) keeps_write [OF dp(1) assms(3)]]
    by (simp add: boot_pages_def low_pages_def)
qed

text \<open>The top of the stack of processor \<open>i\<close>: two pages for each processor started before it
  and for itself below the stack of the boot processor.\<close>

definition ap_stack :: "cpu_info list \<Rightarrow> nat \<Rightarrow> u32" where
  "ap_stack cl i = KERNEL_STACK_TOP - 8192 * of_nat (length (filter Not (map cpu_boot_cpu (take (Suc i) cl))))"

definition ap_told :: "u32 \<Rightarrow> nat \<Rightarrow> ('m, 'd) machine \<Rightarrow> bool" where
  "ap_told entry i s \<longleftrightarrow> vload32 0x7004 (mc_proc s) = Inr (ap_stack (mc_cpus s) i)
     \<and> vload32 0x7008 (mc_proc s) = Inr entry \<and> vload32 0x700C (mc_proc s) = Inr (kernel_dir (mc_proc s))"

lemma cpu_boot_params_run:
  assumes "boot_pages p"
  shows "\<exists>m. cpu_boot_params entry stack p = Inr (p\<lparr>pmem := m\<rparr>) \<and> boot_pages (p\<lparr>pmem := m\<rparr>)
     \<and> load32 m 0x7004 = stack \<and> load32 m 0x7008 = entry \<and> load32 m 0x700C = kernel_dir p"
proof -
  let ?ws = "[(1, stack), (2, entry), (3, kernel_dir p)]"
  let ?m = "put_words 0x7000 ?ws (pmem p)"
  have dp: "data_page p 0x7000 0x7000" "data_page p 0 0" using assms by (simp_all add: boot_pages_def low_pages_def)
  note w1 = data_page_word(2,3) [OF dp(1), of 1 stack, simplified]
  note w2 = data_page_word(2,3) [OF w1(2), of 2 entry, simplified]
  note w3 = data_page_word(2,3) [OF w2(2), of 3 "kernel_dir p", simplified]
  have run: "cpu_boot_params entry stack p = Inr (p\<lparr>pmem := ?m\<rparr>)"
    using w1(1) w2(1) w3(1) by (simp add: cpu_boot_params_def vmm_return_kernel_dir_def)
  have "only_page (0x7000 div 4096) p (p\<lparr>pmem := ?m\<rparr>)" by (rule put_words_only_page) simp_all
  then have "boot_pages (p\<lparr>pmem := ?m\<rparr>)" by (intro boot_pages_write [OF assms, of "0x7000"]) simp_all
  moreover have "load32 ?m (0x7000 + 4 * j) = (case map_of (rev ?ws) j of None \<Rightarrow> load32 (pmem p) (0x7000 + 4 * j) | Some x \<Rightarrow> x)" if "j < 1024" for j
    by (rule put_words_load) (use that in simp_all)
  note this [of 1] this [of 2] this [of 3]
  ultimately show ?thesis using run by (intro exI [of _ ?m]) simp
qed

lemma boot_pages_bios:
  assumes "boot_pages (p\<lparr>pmem := m\<rparr>)" and "m' = store16 (store16 m 0x467 0) 0x469 x"
  shows "boot_pages (p\<lparr>pmem := m'\<rparr>)" and "a div 4096 \<noteq> 0 \<Longrightarrow> m' a = m a"
proof -
  show same: "m' a = m a" if "a div 4096 \<noteq> 0" for a using that by (auto simp: assms(2) store16_def)
  have "only_page (0 div 4096) (p\<lparr>pmem := m\<rparr>) (p\<lparr>pmem := m'\<rparr>)"
    using same by (simp add: only_page_def)
  then show "boot_pages (p\<lparr>pmem := m'\<rparr>)" by (intro boot_pages_write [OF assms(1), of 0]) simp_all
qed

text \<open>What the boot processor relies on: a processor that has been told its stack, the entry
  point and the page directory reports that it has started, and leaves the rest of the array and
  the two low pages alone; it may be the one that maps the page of the user code.\<close>

definition ap_starts :: "u32 \<Rightarrow> (nat \<Rightarrow> ('m, 'd) machine \<Rightarrow> ('m, 'd) machine) \<Rightarrow> bool" where
  "ap_starts entry ap \<longleftrightarrow> (\<forall>i s. i < length (mc_cpus s) \<and> ap_told entry i s \<and> boot_pages (mc_proc s) \<longrightarrow>
     mc_cpus (ap i s) = (mc_cpus s)[i := (mc_cpus s ! i)\<lparr>cpu_started := 1\<rparr>] \<and> boot_pages (mc_proc (ap i s)))"

lemma low_words:
  assumes "boot_pages p" and "j < 1024"
  shows "vload32 (0x7000 + 4 * j) p = Inr (load32 (pmem p) (0x7000 + 4 * j))"
  by (rule data_page_word(1) [OF _ assms(2)]) (use assms(1) in \<open>simp add: boot_pages_def low_pages_def\<close>)

text \<open>One round of the loop: the state in which the boot processor waits, and where it goes on.\<close>

lemma start_round:
  fixes s :: "('m, 'd) machine"
  assumes del: "delivers mm TYPE('d)" and low: "boot_pages (mc_proc s)" and stack: "stack = ap_stack (mc_cpus s) i"
  shows "\<exists>p la. cpu_boot_params entry stack (mc_proc s) = Inr p
     \<and> lapic_start_ap mm hw n 0x7000 (lapic_part (s\<lparr>mc_proc := p\<rparr>)) = Some la
     \<and> ap_told entry i (put_lapic la (s\<lparr>mc_proc := p\<rparr>)) \<and> boot_pages (mc_proc (put_lapic la (s\<lparr>mc_proc := p\<rparr>)))
     \<and> mc_cpus (put_lapic la (s\<lparr>mc_proc := p\<rparr>)) = mc_cpus s"
proof -
  obtain m where m: "cpu_boot_params entry stack (mc_proc s) = Inr ((mc_proc s)\<lparr>pmem := m\<rparr>)" "boot_pages ((mc_proc s)\<lparr>pmem := m\<rparr>)"
    "load32 m 0x7004 = stack" "load32 m 0x7008 = entry" "load32 m 0x700C = kernel_dir (mc_proc s)"
    using cpu_boot_params_run [OF low] by blast
  define p where "p = (mc_proc s)\<lparr>pmem := m\<rparr>"
  define m' where "m' = store16 (store16 m 0x467 0) 0x469 (ucast (drop_bit 4 (0x7000 :: u32)))"
  obtain d e where la: "lapic_start_ap mm hw n 0x7000 (lapic_part (s\<lparr>mc_proc := p\<rparr>))
      = Some ((lapic_part (s\<lparr>mc_proc := p\<rparr>))\<lparr>la_mem := m', la_mmio := d, la_dev := e\<rparr>)"
    using lapic_start_ap_sent [OF del, of hw n "0x7000" "lapic_part (s\<lparr>mc_proc := p\<rparr>)"] by (auto simp: lapic_part_def p_def m'_def)
  define t where "t = put_lapic ((lapic_part (s\<lparr>mc_proc := p\<rparr>))\<lparr>la_mem := m', la_mmio := d, la_dev := e\<rparr>) (s\<lparr>mc_proc := p\<rparr>)"
  have t: "mc_proc t = (mc_proc s)\<lparr>pmem := m'\<rparr>" "mc_cpus t = mc_cpus s" by (simp_all add: t_def put_lapic_def p_def)
  note b = boot_pages_bios [OF m(2) m'_def]
  have words: "load32 m' (0x7000 + 4 * j) = load32 m (0x7000 + 4 * j)" if "j < 1024" for j
    by (rule load32_other_page [of _ _ 0]) (use that b(2) in simp_all)
  have "ap_told entry i t"
    using low_words [OF b(1), of 1] low_words [OF b(1), of 2] low_words [OF b(1), of 3] words [of 1] words [of 2] words [of 3] m(3-5) stack
    by (simp add: ap_told_def t)
  with b(1) m(1) la t show ?thesis unfolding p_def [symmetric] t_def by (intro exI conjI) (assumption | simp)+
qed

lemma ap_stack_next:
  assumes "i < length cl"
  shows "ap_stack cl i = KERNEL_STACK_TOP - 8192 * of_nat (length (filter Not (map cpu_boot_cpu (take i cl))))
     - (if cpu_boot_cpu (cl ! i) then 0 else KB4 * 2)"
  using assms by (simp add: ap_stack_def take_Suc_conv_app_nth KB4_def algebra_simps)

lemma cpu_wait_started_one:
  assumes "ap_starts entry ap" and "i < length (mc_cpus s)" and "ap_told entry i s" and "boot_pages (mc_proc s)"
  shows "\<exists>s'. cpu_wait_started (ap i) i s = Some s' \<and> boot_pages (mc_proc s')
     \<and> mc_cpus s' = (mc_cpus s)[i := (mc_cpus s ! i)\<lparr>cpu_started := 1\<rparr>]"
proof (cases "cpu_started (mc_cpus s ! i) = 1")
  case True
  then have "(mc_cpus s ! i)\<lparr>cpu_started := 1\<rparr> = mc_cpus s ! i" by simp
  then have "(mc_cpus s)[i := (mc_cpus s ! i)\<lparr>cpu_started := 1\<rparr>] = mc_cpus s" by (simp only: list_update_id)
  then show ?thesis using True assms(4) by (simp only: cpu_wait_started.simps [of _ _ s]) simp
next
  case False
  have "mc_cpus (ap i s) = (mc_cpus s)[i := (mc_cpus s ! i)\<lparr>cpu_started := 1\<rparr>]" "boot_pages (mc_proc (ap i s))"
    using assms unfolding ap_starts_def by blast+
  with False assms(2) show ?thesis
    by (simp add: cpu_wait_started.simps [of _ _ s] cpu_wait_started.simps [of _ _ "ap i s"])
qed

lemma cpu_start_loop_all:
  fixes s :: "('m, 'd) machine"
  assumes del: "delivers mm TYPE('d)" and ap: "ap_starts entry ap" and "boot_pages (mc_proc s)" and "i + n \<le> length (mc_cpus s)"
    and "stack = KERNEL_STACK_TOP - 8192 * of_nat (length (filter Not (map cpu_boot_cpu (take i (mc_cpus s)))))"
  shows "\<exists>s'. cpu_start_loop mm hw ap entry n i stack s = Some (Inr s') \<and> length (mc_cpus s') = length (mc_cpus s) \<and> boot_pages (mc_proc s')
     \<and> (\<forall>j. i \<le> j \<and> j < i + n \<longrightarrow> cpu_boot_cpu (mc_cpus s ! j) \<or> cpu_started (mc_cpus s' ! j) = 1)
     \<and> (\<forall>j < i. mc_cpus s' ! j = mc_cpus s ! j)"
  using assms(3-5)
proof (induction n arbitrary: i stack s)
  case 0
  then show ?case by auto
next
  case (Suc n)
  have i: "i < length (mc_cpus s)" using Suc.prems(2) by simp
  show ?case
  proof (cases "cpu_boot_cpu (mc_cpus s ! i)")
    case True
    have "stack = KERNEL_STACK_TOP - 8192 * of_nat (length (filter Not (map cpu_boot_cpu (take (i + 1) (mc_cpus s)))))"
      using Suc.prems(3) True i by (simp add: take_Suc_conv_app_nth)
    from Suc.IH [OF Suc.prems(1) _ this] Suc.prems(2) obtain s' where s': "cpu_start_loop mm hw ap entry n (i + 1) stack s = Some (Inr s')"
      "length (mc_cpus s') = length (mc_cpus s)" "boot_pages (mc_proc s')" "\<forall>j < i + 1. mc_cpus s' ! j = mc_cpus s ! j"
      "\<forall>j. i + 1 \<le> j \<and> j < i + 1 + n \<longrightarrow> cpu_boot_cpu (mc_cpus s ! j) \<or> cpu_started (mc_cpus s' ! j) = 1" by auto
    moreover have "i \<le> j \<and> j < i + Suc n \<longleftrightarrow> j = i \<or> i + 1 \<le> j \<and> j < i + 1 + n" for j by auto
    ultimately show ?thesis using True by (intro exI [of _ s']) auto
  next
    case False
    let ?stack = "stack - KB4 * 2"
    have st: "?stack = ap_stack (mc_cpus s) i" using ap_stack_next [OF i] Suc.prems(3) False by simp
    obtain p la where r: "cpu_boot_params entry ?stack (mc_proc s) = Inr p"
      "lapic_start_ap mm hw (cpu_id (mc_cpus s ! i)) 0x7000 (lapic_part (s\<lparr>mc_proc := p\<rparr>)) = Some la"
      "ap_told entry i (put_lapic la (s\<lparr>mc_proc := p\<rparr>))" "boot_pages (mc_proc (put_lapic la (s\<lparr>mc_proc := p\<rparr>)))"
      "mc_cpus (put_lapic la (s\<lparr>mc_proc := p\<rparr>)) = mc_cpus s"
      using start_round [OF del Suc.prems(1) st] by blast
    obtain t where t: "cpu_wait_started (ap i) i (put_lapic la (s\<lparr>mc_proc := p\<rparr>)) = Some t" "boot_pages (mc_proc t)"
      "mc_cpus t = (mc_cpus s)[i := (mc_cpus s ! i)\<lparr>cpu_started := 1\<rparr>]"
      using cpu_wait_started_one [OF ap _ r(3,4)] i r(5) by auto
    have boot: "cpu_boot_cpu (mc_cpus t ! j) = cpu_boot_cpu (mc_cpus s ! j)" for j
      using i t(3) by (cases "j = i") simp_all
    have "?stack = KERNEL_STACK_TOP - 8192 * of_nat (length (filter Not (map cpu_boot_cpu (take (i + 1) (mc_cpus t)))))"
      using Suc.prems(3) False i t(3) by (simp add: take_Suc_conv_app_nth KB4_def algebra_simps)
    from Suc.IH [OF t(2) _ this] Suc.prems(2) t(3) obtain s' where s': "cpu_start_loop mm hw ap entry n (i + 1) ?stack t = Some (Inr s')"
      "length (mc_cpus s') = length (mc_cpus t)" "boot_pages (mc_proc s')" "\<forall>j < i + 1. mc_cpus s' ! j = mc_cpus t ! j"
      "\<forall>j. i + 1 \<le> j \<and> j < i + 1 + n \<longrightarrow> cpu_boot_cpu (mc_cpus t ! j) \<or> cpu_started (mc_cpus s' ! j) = 1" by auto
    have run: "cpu_start_loop mm hw ap entry (Suc n) i stack s = Some (Inr s')"
      using False r(1,2) t(1) s'(1) by (simp add: Let_def)
    have "i \<le> j \<and> j < i + Suc n \<longleftrightarrow> j = i \<or> i + 1 \<le> j \<and> j < i + 1 + n" for j by auto
    then show ?thesis using run s'(2-5) boot t(3) i by (intro exI [of _ s']) auto
  qed
qed

lemma cpu_start_aps_run:
  fixes s :: "('m, 'd) machine"
  assumes "delivers mm TYPE('d)" and "ap_starts entry ap" and "boot_pages (mc_proc s)" and "nat (mc_num_cpus s) \<le> length (mc_cpus s)"
  shows "\<exists>s'. cpu_start_aps mm hw ap entry idt_ptr_addr s = Some (Inr s')
     \<and> (\<forall>j < nat (mc_num_cpus s). cpu_boot_cpu (mc_cpus s ! j) \<or> cpu_started (mc_cpus s' ! j) = 1)
     \<and> reg_idtr (mc_idt s') = idt_ptr_addr \<and> interrupts (mc_proc s')
     \<and> (\<forall>i < 6. vload8 (GB1 + of_nat i) (mc_proc s') = Inr ([0xcd, 0x80, 0xcd, 0x80, 0xeb, 0xfe] ! i))"
proof -
  have n: "0 + nat (mc_num_cpus s) \<le> length (mc_cpus s)" using assms(4) by simp
  obtain t where t: "cpu_start_loop mm hw ap entry (nat (mc_num_cpus s)) 0 KERNEL_STACK_TOP s = Some (Inr t)" "boot_pages (mc_proc t)"
    "\<forall>j. 0 \<le> j \<and> j < 0 + nat (mc_num_cpus s) \<longrightarrow> cpu_boot_cpu (mc_cpus s ! j) \<or> cpu_started (mc_cpus t ! j) = 1"
    using cpu_start_loop_all [OF assms(1-3) n, of KERNEL_STACK_TOP hw] by auto
  have "vmm_inv (mc_proc t)" "user_page_room (mc_proc t)" using t(2) by (simp_all add: boot_pages_def low_pages_def data_page_def)
  from cpu_common_main_runs [OF this, of mm hw idt_ptr_addr] t(1,3) show ?thesis by (auto simp: cpu_start_aps_def)
qed


text \<open>The stacks that are handed out are two pages each, do not overlap, and with a boot
  processor in the list stay above the page of the local APIC.\<close>

lemma ap_stack_nat:
  assumes "length cl \<le> unat MAX_CPUS"
  shows "unat (ap_stack cl i) = unat KERNEL_STACK_TOP - 8192 * length (filter Not (map cpu_boot_cpu (take (Suc i) cl)))"
proof -
  let ?n = "length (filter Not (map cpu_boot_cpu (take (Suc i) cl)))"
  have "?n \<le> length (take (Suc i) cl)" using length_filter_le [of Not "map cpu_boot_cpu (take (Suc i) cl)"] by simp
  then have n: "?n \<le> 8" using assms by (simp add: layout_defs)
  then have u: "unat (8192 * of_nat ?n :: u32) = 8192 * ?n" by (simp add: unat_word_ariths unat_of_nat)
  moreover have "8192 * of_nat ?n \<le> (0x400000 :: u32)" using n u by (simp only: word_le_nat_alt) simp
  ultimately show ?thesis by (simp add: ap_stack_def layout_defs unat_sub)
qed

lemma ap_stacks_apart:
  assumes "length cl \<le> unat MAX_CPUS" and "i < j" and "j < length cl" and "\<not> cpu_boot_cpu (cl ! j)"
    and "\<exists>k \<le> j. cpu_boot_cpu (cl ! k)"
  shows "unat (ap_stack cl j) + 8192 \<le> unat (ap_stack cl i)" and "unat (LAPIC_PHYS_VIRT_ADDR + KB4) + 8192 \<le> unat (ap_stack cl j)"
proof -
  let ?f = "\<lambda>i. length (filter Not (map cpu_boot_cpu (take i cl)))"
  have mono: "?f a \<le> ?f b" if "a \<le> b" for a b
    using that by (metis filter_append le_add1 length_append map_append take_add le_iff_add)
  have "?f (Suc i) \<le> ?f j" using assms(2) by (intro mono) simp
  moreover have sj: "?f (Suc j) = Suc (?f j)" using assms(3,4) by (simp add: take_Suc_conv_app_nth)
  obtain k where k: "k \<le> j" "cpu_boot_cpu (cl ! k)" using assms(5) by blast
  then have kj: "k < j" using assms(4) by (cases "k = j") auto
  have "?f (Suc k) = ?f k" "?f k \<le> k" using k kj assms(3) length_filter_le [of Not "map cpu_boot_cpu (take k cl)"]
    by (simp_all add: take_Suc_conv_app_nth)
  moreover have "?f j \<le> ?f (Suc k) + (j - Suc k)"
  proof -
    have "take j cl = take (Suc k) cl @ take (j - Suc k) (drop (Suc k) cl)" using kj by (metis Suc_leI le_add_diff_inverse take_add)
    then show ?thesis using length_filter_le [of Not "map cpu_boot_cpu (take (j - Suc k) (drop (Suc k) cl))"] by simp
  qed
  moreover have "length cl \<le> 8" using assms(1) by (simp add: layout_defs)
  ultimately have bound: "?f (Suc i) < ?f (Suc j)" "?f (Suc j) \<le> 7" using kj assms(3) sj by linarith+
  show "unat (ap_stack cl j) + 8192 \<le> unat (ap_stack cl i)" "unat (LAPIC_PHYS_VIRT_ADDR + KB4) + 8192 \<le> unat (ap_stack cl j)"
    unfolding ap_stack_nat [OF assms(1)] using bound by (simp_all add: layout_defs)
qed

text \<open>A machine with a page table at 0x2000 that maps the two low pages, and one processor to
  start.\<close>

definition low_mem :: mem where
  "low_mem = put_words 0x2000 [(0, 0x0003), (7, 0x7003)] (put_words 0x3000 [(1023, 0x3003), (0, 0x2003)] ((\<lambda>_. 0)(0x1000 := 0x0F)))"

definition low_example :: proc_state where
  "low_example = proc_example\<lparr>pmem := low_mem\<rparr>"

lemma low_mem_words:
  assumes "j < 1024"
  shows "load32 low_mem (0x3000 + 4 * j) = (if j = 0 then 0x2003 else if j = 1023 then 0x3003 else 0)"
    and "load32 low_mem (0x2000 + 4 * j) = (if j = 7 then 0x7003 else if j = 0 then 3 else 0)"
    and "low_mem 0x1000 = 0x0F"
proof -
  let ?b = "(\<lambda>_. 0)(0x1000 := 0x0F) :: mem" and ?dir = "[(1023, 0x3003), (0, 0x2003)] :: (u32 \<times> u32) list"
  let ?m = "put_words 0x3000 ?dir ?b" and ?t = "proc_example"
  have other: "k div 4096 \<noteq> f div 4096 \<Longrightarrow> put_words f xs m k = m k"
    if "f mod 4096 = 0" "\<forall>(i, x) \<in> set xs. i < 1024" for f xs m and k :: u32
    using put_words_only_page [OF that, of "?t\<lparr>pmem := m\<rparr>"] by (simp add: only_page_def)
  let ?tab = "[(0, 0x0003), (7, 0x7003)] :: (u32 \<times> u32) list"
  have tab: "k div 4096 \<noteq> 2 \<Longrightarrow> low_mem k = ?m k" for k unfolding low_mem_def by (rule other) simp_all
  have dir: "k div 4096 \<noteq> 3 \<Longrightarrow> ?m k = ?b k" for k by (rule other) simp_all
  have zero: "load32 ?b (0x3000 + 4 * j) = 0" "load32 ?b (0x2000 + 4 * j) = 0"
    using assms by (auto intro!: load32_zero_page)
  have "load32 low_mem (0x3000 + 4 * j) = load32 ?m (0x3000 + 4 * j)"
    by (rule load32_other_page [where p = 2, OF _ assms tab]) simp_all
  then show "load32 low_mem (0x3000 + 4 * j) = (if j = 0 then 0x2003 else if j = 1023 then 0x3003 else 0)"
    using put_words_load [of "0x3000" ?dir j ?b] assms zero(1) by (simp del: put_words.simps)
  have "load32 ?m (0x2000 + 4 * j) = load32 ?b (0x2000 + 4 * j)"
    by (rule load32_other_page [where p = 3, OF _ assms dir]) simp_all
  then show "load32 low_mem (0x2000 + 4 * j) = (if j = 7 then 0x7003 else if j = 0 then 3 else 0)"
    unfolding low_mem_def using put_words_load [of "0x2000" ?tab j ?m] assms zero(2) by (simp del: put_words.simps)
  show "low_mem 0x1000 = 0x0F"
    using tab [of "0x1000"] dir [of "0x1000"] by (simp del: put_words.simps)
qed

lemma low_example_fields [simp]:
  "pmem low_example = low_mem" "paging low_example" "cr3 low_example = 0x3000" "pmm_bitmap low_example = 0x1000"
  "pmm_bitmap_sz low_example = 16"
  by (simp_all add: low_example_def proc_example_def heap_example_def heap_state.defs)

lemma low_example_pde: "d < 1024 \<Longrightarrow> pde low_example d = (if d = 0 then 0x2003 else if d = 1023 then 0x3003 else 0)"
  using low_mem_words(1) [of d] by (simp add: pde_def page_frame_def X86_PAGE_FRAME_def)

lemma low_example_tables:
  assumes "d < 1024" and "page_present (pde low_example d)"
  shows "d = 0 \<and> ptbl low_example d = 0x2000 \<or> d = 1023 \<and> ptbl low_example d = 0x3000"
  using assms by (auto simp: low_example_pde ptbl_def page_present_def page_frame_def X86_PAGE_FRAME_def split: if_splits)

lemma low_example_taken: "0 \<in> taken low_example" "1 \<in> taken low_example" "2 \<in> taken low_example" "3 \<in> taken low_example"
  using low_mem_words(3) [of 0] by (simp_all add: taken_def pmm_is_taken_def bitmap_is_set_def)

lemma low_example_bitmap_page: "bitmap_page low_example p \<longleftrightarrow> p = 1"
proof -
  have "b < 16 \<Longrightarrow> b < 2048" for b :: u32 by (erule order_less_trans) simp
  then show ?thesis
    unfolding bitmap_page_def using example_bitmap_byte by (auto intro: exI [of _ 0])
qed

lemma low_example_inv: "vmm_inv low_example"
proof (rule vmm_invI)
  note T = low_example_tables
  show "page_present (pde low_example 1023)"
    by (simp add: low_example_pde page_present_def X86_PAGE_PRESENT_def)
  show "ptbl low_example 1023 = page_frame (cr3 low_example)"
    by (simp add: ptbl_def low_example_pde page_frame_def X86_PAGE_FRAME_def)
  show "page_writable (pde low_example e) \<and> ptbl low_example e div 4096 < pmm_bitmap_sz low_example
      \<and> ptbl low_example e div 4096 \<in> taken low_example \<and> \<not> bitmap_page low_example (ptbl low_example e div 4096)"
    if "e < 1024" "page_present (pde low_example e)" for e
    using T [OF that] low_example_taken
    by (auto simp: low_example_bitmap_page low_example_pde page_writable_def X86_PAGE_WRITABLE_def)
  show "d = e" if "d < 1024" "e < 1024" "page_present (pde low_example d)"
    "page_present (pde low_example e)" "ptbl low_example d = ptbl low_example e" for d e
    using T [OF that(1,3)] T [OF that(2,4)] that(5) by auto
qed (use low_example_taken in \<open>simp_all add: low_example_bitmap_page pmm_inv_def\<close>)

lemma low_example_pages: "low_pages low_example"
proof -
  have pte: "pte low_example 0 j = (if j = 7 then 0x7003 else if j = 0 then 3 else 0)" if "j < 1024" for j
    using low_mem_words(2) [OF that] by (simp add: pte_def ptbl_def low_example_pde page_frame_def X86_PAGE_FRAME_def)
  have "data_frame low_example 0" "data_frame low_example 0x7000"
    by (auto simp: data_frame_def low_example_bitmap_page dest!: low_example_tables)
  then show ?thesis
    using low_example_inv pte
    by (simp add: low_pages_def data_page_def mappings_def ADDR2INDEX_eq layout_defs low_example_pde page_present_def
        page_writable_def page_frame_def kernel_defs)
qed

lemma low_example_room: "boot_pages low_example"
proof -
  have "mappings low_example (ADDR2INDEX GB1) = None"
    by (simp add: mappings_def ADDR2INDEX_eq layout_defs low_example_pde page_present_def)
  moreover have "{4, 5} \<subseteq> free_frames low_example"
    using low_mem_words(3) [of 0] by (simp add: free_frames_def taken_def pmm_is_taken_def bitmap_is_set_def)
  then have "card {4, 5 :: u32} \<le> frames_left low_example" unfolding frames_left_def by (intro card_mono) simp_all
  ultimately show ?thesis using low_example_pages by (simp add: boot_pages_def user_page_room_def)
qed

lemma recorder_delivers: "delivers (lapic_recorder base (\<lambda>_. 0)) TYPE('d)"
proof -
  have "lapic_wait_sent (lapic_recorder base (\<lambda>_. 0)) la = Some la" for la :: "((u32 \<times> u32) list, 'd) lapic_state"
    by (subst lapic_wait_sent.simps) (simp add: lapic_get_def lapic_recorder_def)
  moreover have "la = la\<lparr>la_mmio := la_mmio la\<rparr>" for la :: "((u32 \<times> u32) list, 'd) lapic_state" by simp
  ultimately show ?thesis unfolding delivers_def by metis
qed

definition ap_example :: "nat \<Rightarrow> ('m, 'd) machine \<Rightarrow> ('m, 'd) machine" where
  "ap_example i s = s\<lparr>mc_cpus := (mc_cpus s)[i := (mc_cpus s ! i)\<lparr>cpu_started := 1\<rparr>]\<rparr>"


end
