(* ===== verification/Ps2.thy ===== *)
theory Ps2
  imports Pic Kernel_String
begin

text \<open>
  The PS/2 controller, \<^verbatim>\<open>src/drv/ps2.c\<close>, over the port device. The table of registered
  drivers keeps its callbacks and flags in the state and its names in memory, at the addresses
  \<open>name_at\<close> the linker chose. A signed 16-bit result is an \<^typ>\<open>int\<close>.
\<close>

section \<open>State and operations\<close>

definition PS2_PORT_READ_DATA :: u16 where [kernel_defs]: "PS2_PORT_READ_DATA = 0x60"
definition PS2_PORT_WRITE_DATA :: u16 where [kernel_defs]: "PS2_PORT_WRITE_DATA = 0x60"
definition PS2_PORT_READ_STATUS :: u16 where [kernel_defs]: "PS2_PORT_READ_STATUS = 0x64"
definition PS2_STATUS_OUTPUT_BUFF_FULL :: u8 where [kernel_defs]: "PS2_STATUS_OUTPUT_BUFF_FULL = 1"
definition PS2_STATUS_INPUT_BUFF_FULL :: u8 where [kernel_defs]: "PS2_STATUS_INPUT_BUFF_FULL = 2"
definition PS2_PORT_WRITE_STATUS :: u16 where [kernel_defs]: "PS2_PORT_WRITE_STATUS = 0x64"
definition PS2_CMD_SEL_2ND :: u8 where [kernel_defs]: "PS2_CMD_SEL_2ND = 0xD4"
definition PS2_CMD_DISABLE_1ST :: u8 where [kernel_defs]: "PS2_CMD_DISABLE_1ST = 0xAD"
definition PS2_CMD_DISABLE_2ND :: u8 where [kernel_defs]: "PS2_CMD_DISABLE_2ND = 0xA7"
definition PS2_CMD_ENABLE_1ST :: u8 where [kernel_defs]: "PS2_CMD_ENABLE_1ST = 0xAE"
definition PS2_CMD_ENABLE_2ND :: u8 where [kernel_defs]: "PS2_CMD_ENABLE_2ND = 0xA8"
definition PS2_CMD_READ_CCB :: u8 where [kernel_defs]: "PS2_CMD_READ_CCB = 0x20"
definition PS2_CMD_WRITE_CCB :: u8 where [kernel_defs]: "PS2_CMD_WRITE_CCB = 0x60"
definition PS2_CCB_MASK_INTR_FIRST :: u8 where [kernel_defs]: "PS2_CCB_MASK_INTR_FIRST = 0x01"
definition PS2_CCB_MASK_INTR_SECOND :: u8 where [kernel_defs]: "PS2_CCB_MASK_INTR_SECOND = 0x02"
definition PS2_CCB_MASK_CLOCK2 :: u8 where [kernel_defs]: "PS2_CCB_MASK_CLOCK2 = 0x20"
definition PS2_CCB_MASK_TRANS1 :: u8 where [kernel_defs]: "PS2_CCB_MASK_TRANS1 = 0x40"
definition PS2_CMD_SELF_TEST :: u8 where [kernel_defs]: "PS2_CMD_SELF_TEST = 0xAA"
definition PS2_SELF_TEST_SUCCESS :: u8 where [kernel_defs]: "PS2_SELF_TEST_SUCCESS = 0x55"
definition PS2_CMD_TEST_1ST :: u8 where [kernel_defs]: "PS2_CMD_TEST_1ST = 0xAB"
definition PS2_CMD_TEST_2ND :: u8 where [kernel_defs]: "PS2_CMD_TEST_2ND = 0xA9"
definition PS2_TO_DEFAULT :: int where "PS2_TO_DEFAULT = 10000"
definition PS2_MAX_REGISTERED :: nat where "PS2_MAX_REGISTERED = 2"
definition PS2_SEND_MASK_DATA :: u16 where "PS2_SEND_MASK_DATA = 1"
definition PS2_SEND_MASK_RESPONSE :: u16 where "PS2_SEND_MASK_RESPONSE = 2"
definition PS2_SEND_MASK_SECOND :: u16 where "PS2_SEND_MASK_SECOND = 4"
definition PS2_SEND_MASK_DOUBLE :: u16 where "PS2_SEND_MASK_DOUBLE = 8"

definition PS2_ERR_INPUT_BUFFER_FULL :: int where "PS2_ERR_INPUT_BUFFER_FULL = -1"
definition PS2_ERR_OUTPUT_BUFFER_EMPTY :: int where "PS2_ERR_OUTPUT_BUFFER_EMPTY = -2"
definition PS2_ERR_SELF_TEST_FAILURE :: int where "PS2_ERR_SELF_TEST_FAILURE = -3"
definition PS2_ERR_NO_USABLE_CHANNEL :: int where "PS2_ERR_NO_USABLE_CHANNEL = -4"
definition PS2_ERR_INVALID_PARAM :: int where "PS2_ERR_INVALID_PARAM = -5"
definition PS2_ERR_CHANNEL_BROKEN :: int where "PS2_ERR_CHANNEL_BROKEN = -6"
definition PS2_ERR_CHANNEL_ACTIVE :: int where "PS2_ERR_CHANNEL_ACTIVE = -7"
definition PS2_SUCCESS :: int where "PS2_SUCCESS = 0"
definition PS2_DEV_STATUS_SELF_TEST :: u16 where "PS2_DEV_STATUS_SELF_TEST = 1"
definition PS2_MAX_NAME_SZ :: u32 where "PS2_MAX_NAME_SZ = 32"

datatype ps2_input = Null_input | Kbd_add_scancode

record ps2_devices =
  dev_callback :: ps2_input
  dev_active :: bool

record 'd ps2_state =
  channel_status :: u16
  registered :: "ps2_devices list"
  ps2_handlers :: isr_table
  ps2_mem :: mem
  ps2_dev :: 'd

definition to_int8 :: "int \<Rightarrow> int" where "to_int8 x = signed_take_bit 7 x"
definition to_int16 :: "int \<Rightarrow> int" where "to_int16 x = signed_take_bit 15 x"

definition first_broken :: "'d ps2_state \<Rightarrow> bool" where
  "first_broken s \<longleftrightarrow> channel_status s AND 0xFF \<noteq> 0"

definition second_broken :: "'d ps2_state \<Rightarrow> bool" where
  "second_broken s \<longleftrightarrow> channel_status s AND 0xFF00 \<noteq> 0"

definition ps2_out :: "'d device \<Rightarrow> u16 \<Rightarrow> u8 \<Rightarrow> 'd ps2_state \<Rightarrow> 'd ps2_state" where
  "ps2_out hw port v s = s\<lparr>ps2_dev := outb hw port v (ps2_dev s)\<rparr>"

definition ps2_in :: "'d device \<Rightarrow> u16 \<Rightarrow> 'd ps2_state \<Rightarrow> u8 \<times> 'd ps2_state" where
  "ps2_in hw port s = (let (v, d) = inb hw port (ps2_dev s) in (v, s\<lparr>ps2_dev := d\<rparr>))"

text \<open>The waiting loops: \<open>go\<close> says whether the status makes the loop go on; the
  result is what is left of the counter.\<close>

fun wait_loop :: "'d device \<Rightarrow> (u8 \<Rightarrow> bool) \<Rightarrow> nat \<Rightarrow> 'd ps2_state \<Rightarrow> nat \<times> 'd ps2_state" where
  "wait_loop hw go 0 s = (0, s)"
| "wait_loop hw go (Suc ms) s =
     (let (v, s) = ps2_in hw PS2_PORT_READ_STATUS s in if go v then wait_loop hw go ms s else (Suc ms, s))"

definition wait_status :: "'d device \<Rightarrow> (u8 \<Rightarrow> bool) \<Rightarrow> int \<Rightarrow> 'd ps2_state \<Rightarrow> bool \<times> 'd ps2_state" where
  "wait_status hw go ms s =
     (let (ms, s) = (if ms > 0 then map_prod int id (wait_loop hw go (nat ms) s) else (ms, s))
      in if ms < 0 then (False, s) else (True, s))"

definition wait_data_ready :: "'d device \<Rightarrow> int \<Rightarrow> 'd ps2_state \<Rightarrow> bool \<times> 'd ps2_state" where
  "wait_data_ready hw ms s = wait_status hw (\<lambda>v. v AND PS2_STATUS_OUTPUT_BUFF_FULL = 0) ms s"

definition wait_buffer_ready :: "'d device \<Rightarrow> int \<Rightarrow> 'd ps2_state \<Rightarrow> bool \<times> 'd ps2_state" where
  "wait_buffer_ready hw ms s = wait_status hw (\<lambda>v. v AND PS2_STATUS_INPUT_BUFF_FULL \<noteq> 0) ms s"

text \<open>The answer to a command, the last part of \<^verbatim>\<open>ps2_send_internal\<close>.\<close>

definition ps2_response :: "'d device \<Rightarrow> int \<Rightarrow> bool \<Rightarrow> 'd ps2_state \<Rightarrow> int \<times> 'd ps2_state" where
  "ps2_response hw ms wanted s =
     (if wanted then
        let (ok, s) = wait_data_ready hw ms s in
        if \<not> ok then (PS2_ERR_OUTPUT_BUFFER_EMPTY, s)
        else let (v, s) = ps2_in hw PS2_PORT_READ_DATA s in (to_int16 (uint v), s)
      else (PS2_SUCCESS, s))"

definition ps2_send_internal :: "'d device \<Rightarrow> u16 \<Rightarrow> int \<Rightarrow> u16 \<Rightarrow> 'd ps2_state \<Rightarrow> int \<times> 'd ps2_state" where
  "ps2_send_internal hw send ms flags s =
     (let ms = (if ms = 0 then PS2_TO_DEFAULT else ms);
          answer = (\<lambda>s. ps2_response hw ms (flags AND PS2_SEND_MASK_RESPONSE \<noteq> 0) s);
          send_data = (\<lambda>s.
            let (ok, s) = wait_buffer_ready hw ms s in
            if \<not> ok then (PS2_ERR_INPUT_BUFFER_FULL, s)
            else answer (ps2_out hw PS2_PORT_WRITE_DATA (ucast send) s))
      in if flags AND PS2_SEND_MASK_DATA \<noteq> 0 then
           if flags AND PS2_SEND_MASK_SECOND \<noteq> 0 then
             if second_broken s then (PS2_ERR_NO_USABLE_CHANNEL, s)
             else send_data (ps2_out hw PS2_PORT_WRITE_STATUS PS2_CMD_SEL_2ND s)
           else if first_broken s then (PS2_ERR_NO_USABLE_CHANNEL, s)
           else send_data s
         else if first_broken s \<and> second_broken s then (PS2_ERR_NO_USABLE_CHANNEL, s)
         else
           let s = ps2_out hw PS2_PORT_WRITE_STATUS (ucast (send AND 0xFF)) s in
           if flags AND PS2_SEND_MASK_DOUBLE \<noteq> 0 then
             let (ok, s) = wait_buffer_ready hw ms s in
             if \<not> ok then (PS2_ERR_INPUT_BUFFER_FULL, s)
             else answer (ps2_out hw PS2_PORT_WRITE_DATA (ucast (drop_bit 8 (send AND 0xFF00))) s)
           else answer s)"

definition ps2_send_cmd_internal :: "'d device \<Rightarrow> u8 \<Rightarrow> int \<Rightarrow> int \<Rightarrow> bool \<Rightarrow> 'd ps2_state \<Rightarrow> int \<times> 'd ps2_state" where
  "ps2_send_cmd_internal hw cmd ms next response s =
     (let ms = (if ms = 0 then PS2_TO_DEFAULT else ms);
          s = ps2_out hw PS2_PORT_WRITE_STATUS cmd s
      in if next \<ge> 0 then
           let (ok, s) = wait_buffer_ready hw ms s in
           if \<not> ok then (PS2_ERR_INPUT_BUFFER_FULL, s)
           else ps2_response hw ms response (ps2_out hw PS2_PORT_WRITE_DATA (word_of_int next) s)
         else ps2_response hw ms response s)"

definition ps2_send_data_internal :: "'d device \<Rightarrow> u8 \<Rightarrow> int \<Rightarrow> bool \<Rightarrow> bool \<Rightarrow> 'd ps2_state \<Rightarrow> int \<times> 'd ps2_state" where
  "ps2_send_data_internal hw data ms first resp s =
     (let ms = (if ms = 0 then PS2_TO_DEFAULT else ms);
          s = (if \<not> first then ps2_out hw PS2_PORT_WRITE_STATUS PS2_CMD_SEL_2ND s else s);
          (ok, s) = wait_buffer_ready hw ms s
      in if \<not> ok then (PS2_ERR_INPUT_BUFFER_FULL, s)
         else ps2_response hw ms resp (ps2_out hw PS2_PORT_WRITE_DATA data s))"

definition ps2_send_cmd :: "'d device \<Rightarrow> u8 \<Rightarrow> int \<Rightarrow> 'd ps2_state \<Rightarrow> int \<times> 'd ps2_state" where
  "ps2_send_cmd hw cmd ms s = map_prod to_int8 id (ps2_send_internal hw (ucast cmd) ms 0 s)"

definition ps2_send_cmd_resp :: "'d device \<Rightarrow> u8 \<Rightarrow> int \<Rightarrow> 'd ps2_state \<Rightarrow> int \<times> 'd ps2_state" where
  "ps2_send_cmd_resp hw cmd ms s = map_prod to_int16 id (ps2_send_internal hw (ucast cmd) ms PS2_SEND_MASK_RESPONSE s)"

definition ps2_send_cmd_double :: "'d device \<Rightarrow> u8 \<Rightarrow> int \<Rightarrow> u8 \<Rightarrow> 'd ps2_state \<Rightarrow> int \<times> 'd ps2_state" where
  "ps2_send_cmd_double hw cmd ms cmd2 s =
     map_prod to_int8 id (ps2_send_internal hw (push_bit 8 (ucast cmd2) OR ucast cmd) ms PS2_SEND_MASK_DOUBLE s)"

definition ps2_send_cmd_resp_double :: "'d device \<Rightarrow> u8 \<Rightarrow> int \<Rightarrow> u8 \<Rightarrow> 'd ps2_state \<Rightarrow> int \<times> 'd ps2_state" where
  "ps2_send_cmd_resp_double hw cmd ms cmd2 s =
     map_prod to_int16 id (ps2_send_internal hw (push_bit 8 (ucast cmd2) OR ucast cmd) ms
       (PS2_SEND_MASK_RESPONSE OR PS2_SEND_MASK_DOUBLE) s)"

definition ps2_send_data :: "'d device \<Rightarrow> u8 \<Rightarrow> int \<Rightarrow> 'd ps2_state \<Rightarrow> int \<times> 'd ps2_state" where
  "ps2_send_data hw data ms s = ps2_send_internal hw (ucast data) ms PS2_SEND_MASK_DATA s"

definition ps2_send_data_second :: "'d device \<Rightarrow> u8 \<Rightarrow> int \<Rightarrow> 'd ps2_state \<Rightarrow> int \<times> 'd ps2_state" where
  "ps2_send_data_second hw data ms s =
     ps2_send_internal hw (ucast data) ms (PS2_SEND_MASK_DATA OR PS2_SEND_MASK_SECOND) s"

definition ps2_send_data_response :: "'d device \<Rightarrow> u8 \<Rightarrow> int \<Rightarrow> 'd ps2_state \<Rightarrow> int \<times> 'd ps2_state" where
  "ps2_send_data_response hw data ms s =
     ps2_send_internal hw (ucast data) ms (PS2_SEND_MASK_DATA OR PS2_SEND_MASK_RESPONSE) s"

definition ps2_send_data_response_second :: "'d device \<Rightarrow> u8 \<Rightarrow> int \<Rightarrow> 'd ps2_state \<Rightarrow> int \<times> 'd ps2_state" where
  "ps2_send_data_response_second hw data ms s =
     ps2_send_internal hw (ucast data) ms (PS2_SEND_MASK_DATA OR PS2_SEND_MASK_RESPONSE OR PS2_SEND_MASK_SECOND) s"

text \<open>The interrupt handlers; \<open>call\<close> is the effect of a callback on its driver's state.\<close>

definition ps2_deliver ::
  "'d device \<Rightarrow> (ps2_input \<Rightarrow> u8 \<Rightarrow> 'k \<Rightarrow> 'k) \<Rightarrow> nat \<Rightarrow> 'd ps2_state \<times> 'k \<Rightarrow> u32 \<times> 'd ps2_state \<times> 'k" where
  "ps2_deliver hw call n sk =
     (let (s, k) = sk; (data, s) = ps2_in hw PS2_PORT_READ_DATA s;
          k = (if dev_active (registered s ! n) then call (dev_callback (registered s ! n)) data k else k)
      in (0, s, k))"

definition ps2_handle_interrupt_1st ::
  "'d device \<Rightarrow> (ps2_input \<Rightarrow> u8 \<Rightarrow> 'k \<Rightarrow> 'k) \<Rightarrow> Registers \<Rightarrow> 'd ps2_state \<times> 'k \<Rightarrow> u32 \<times> 'd ps2_state \<times> 'k" where
  "ps2_handle_interrupt_1st hw call regs sk = ps2_deliver hw call 0 sk"

definition ps2_handle_interrupt_2nd ::
  "'d device \<Rightarrow> (ps2_input \<Rightarrow> u8 \<Rightarrow> 'k \<Rightarrow> 'k) \<Rightarrow> Registers \<Rightarrow> 'd ps2_state \<times> 'k \<Rightarrow> u32 \<times> 'd ps2_state \<times> 'k" where
  "ps2_handle_interrupt_2nd hw call regs sk = ps2_deliver hw call 1 sk"

section \<open>Initialisation\<close>

text \<open>The stages of \<^verbatim>\<open>ps2_init\<close>. A stage that ends the function early gives the value it
  returns.\<close>

type_synonym 'd ps2_stage = "'d ps2_state \<Rightarrow> int option \<times> 'd ps2_state"

definition ps2_then :: "'d ps2_stage \<Rightarrow> 'd ps2_stage \<Rightarrow> 'd ps2_stage" where
  "ps2_then f g s = (case f s of (Some r, s) \<Rightarrow> (Some r, s) | (None, s) \<Rightarrow> g s)"

fun ps2_clear_table :: "(nat \<Rightarrow> u32) \<Rightarrow> nat \<Rightarrow> 'd ps2_state \<Rightarrow> 'd ps2_state" where
  "ps2_clear_table name_at 0 s = s"
| "ps2_clear_table name_at (Suc i) s =
     (let s = ps2_clear_table name_at i s
      in s\<lparr>registered := (registered s)[i := \<lparr>dev_callback = Null_input, dev_active = False\<rparr>],
            ps2_mem := snd (memset (name_at i) 0 PS2_MAX_NAME_SZ (ps2_mem s))\<rparr>)"

definition ps2_disable_flush :: "'d device \<Rightarrow> 'd ps2_stage" where
  "ps2_disable_flush hw s =
     (let (_, s) = ps2_send_cmd hw PS2_CMD_DISABLE_1ST 0 s;
          (_, s) = ps2_send_cmd hw PS2_CMD_DISABLE_2ND 0 s;
          (_, s) = ps2_in hw PS2_PORT_READ_DATA s
      in (None, s))"

definition ps2_configure :: "'d device \<Rightarrow> 'd ps2_stage" where
  "ps2_configure hw s =
     (let (resp, s) = ps2_send_cmd_resp hw PS2_CMD_READ_CCB 0 s in
      if resp < 0 then (Some resp, s)
      else
        let ccb = word_of_int resp;
            ccb = ccb AND NOT PS2_CCB_MASK_INTR_FIRST;
            ccb = ccb AND NOT PS2_CCB_MASK_INTR_SECOND;
            ccb = ccb AND NOT PS2_CCB_MASK_TRANS1;
            (_, s) = ps2_send_cmd_double hw PS2_CMD_WRITE_CCB 0 ccb s
        in (None, s))"

definition ps2_self_test :: "'d device \<Rightarrow> 'd ps2_stage" where
  "ps2_self_test hw s =
     (let (resp, s) = ps2_send_cmd_resp hw PS2_CMD_SELF_TEST 0 s in
      if resp < 0 then (Some resp, s)
      else if word_of_int resp \<noteq> PS2_SELF_TEST_SUCCESS
      then (Some PS2_ERR_SELF_TEST_FAILURE,
            s\<lparr>channel_status := PS2_DEV_STATUS_SELF_TEST OR push_bit 8 PS2_DEV_STATUS_SELF_TEST\<rparr>)
      else (None, s))"

definition ps2_detect_second :: "'d device \<Rightarrow> 'd ps2_stage" where
  "ps2_detect_second hw s =
     (let (_, s) = ps2_send_cmd hw PS2_CMD_ENABLE_2ND 0 s;
          (resp, s) = ps2_send_cmd_resp hw PS2_CMD_READ_CCB 0 s
      in if resp < 0 then (Some resp, s\<lparr>channel_status := 0x0202\<rparr>)
         else if (word_of_int resp :: u8) AND PS2_CCB_MASK_CLOCK2 \<noteq> 0
         then (None, s\<lparr>channel_status := 0x0400\<rparr>)
         else let (_, s) = ps2_send_cmd hw PS2_CMD_DISABLE_2ND 0 s in (None, s))"

definition ps2_test_ports :: "'d device \<Rightarrow> 'd ps2_stage" where
  "ps2_test_ports hw s =
     (let (resp, s) = ps2_send_cmd_resp hw PS2_CMD_TEST_1ST 0 s;
          s = (if resp < 0 then s\<lparr>channel_status := channel_status s OR 0x08\<rparr> else s);
          s = (if \<not> second_broken s then
                 let (resp, s) = ps2_send_cmd_resp hw PS2_CMD_TEST_2ND 0 s
                 in if resp < 0 then s\<lparr>channel_status := channel_status s OR 0x0800\<rparr> else s
               else s)
      in if second_broken s \<and> first_broken s then (Some PS2_ERR_NO_USABLE_CHANNEL, s) else (None, s))"

definition ps2_enable :: "'d device \<Rightarrow> 'd ps2_stage" where
  "ps2_enable hw s =
     (let (resp, s) = ps2_send_cmd_resp hw PS2_CMD_READ_CCB 0 s in
      if resp < 0 then (Some resp, s)
      else
        let ccb = word_of_int resp;
            (ccb, s) = (if \<not> first_broken s
                        then (ccb OR PS2_CCB_MASK_INTR_FIRST, snd (ps2_send_cmd hw PS2_CMD_ENABLE_1ST 0 s)) else (ccb, s));
            (ccb, s) = (if \<not> second_broken s
                        then (ccb OR PS2_CCB_MASK_INTR_SECOND, snd (ps2_send_cmd hw PS2_CMD_ENABLE_2ND 0 s)) else (ccb, s));
            (_, s) = ps2_send_cmd_double hw PS2_CMD_WRITE_CCB 0 ccb s
        in (None, s))"

definition ps2_reset_devices :: "'d device \<Rightarrow> 'd ps2_stage" where
  "ps2_reset_devices hw s =
     (let s = (if \<not> first_broken s then
                 let (resp, s) = ps2_send_data_response hw 0xFF 0 s
                 in if (word_of_int resp :: u8) \<noteq> 0xFA then s\<lparr>channel_status := channel_status s OR 4\<rparr> else s
               else s);
          s = (if \<not> second_broken s then
                 let (resp, s) = ps2_send_data_response_second hw 0xFF 0 s
                 in if (word_of_int resp :: u8) \<noteq> 0xFA then s\<lparr>channel_status := channel_status s OR push_bit 8 4\<rparr> else s
               else s)
      in (None, s))"

definition IRQ_KBD :: nat where "IRQ_KBD = 1"

definition ps2_attach :: "'d device \<Rightarrow> 'd ps2_stage" where
  "ps2_attach hw s =
     (let s = s\<lparr>ps2_handlers := register_interrupt_handler IRQ_KEYBOARD Ps2_handle_interrupt_1st (ps2_handlers s)\<rparr>;
          s = s\<lparr>ps2_handlers := register_interrupt_handler IRQ_PS2 Ps2_handle_interrupt_2nd (ps2_handlers s)\<rparr>;
          s = s\<lparr>ps2_dev := pic_enable_irq hw IRQ_KBD (ps2_dev s)\<rparr>;
          s = s\<lparr>ps2_dev := pic_enable_irq hw (unat (IRQ_PS2 - IRQ0)) (ps2_dev s)\<rparr>
      in (Some (sint (channel_status s)), s))"

definition ps2_init :: "'d device \<Rightarrow> (nat \<Rightarrow> u32) \<Rightarrow> 'd ps2_state \<Rightarrow> int \<times> 'd ps2_state" where
  "ps2_init hw name_at s =
     (let s = ps2_clear_table name_at PS2_MAX_REGISTERED s
      in map_prod the id
           (ps2_then (ps2_disable_flush hw) (ps2_then (ps2_configure hw) (ps2_then (ps2_self_test hw)
             (ps2_then (ps2_detect_second hw) (ps2_then (ps2_test_ports hw) (ps2_then (ps2_enable hw)
             (ps2_then (ps2_reset_devices hw) (ps2_attach hw))))))) s))"

definition ps2_register ::
  "(nat \<Rightarrow> u32) \<Rightarrow> ps2_input \<Rightarrow> u32 \<Rightarrow> int \<Rightarrow> 'd ps2_state \<Rightarrow> int \<times> 'd ps2_state" where
  "ps2_register name_at handler name n s =
     (if n < 1 \<or> n > 2 then (PS2_ERR_INVALID_PARAM, s)
      else if n = 1 \<and> first_broken s then (PS2_ERR_CHANNEL_BROKEN, s)
      else if n = 2 \<and> second_broken s then (PS2_ERR_CHANNEL_BROKEN, s)
      else
        let i = nat (n - 1) in
        if dev_active (registered s ! i) then (PS2_ERR_CHANNEL_ACTIVE, s)
        else
          let s = s\<lparr>registered := (registered s)[i := (registered s ! i)\<lparr>dev_active := True\<rparr>]\<rparr>;
              s = s\<lparr>ps2_mem := snd (strncpy (name_at i) name PS2_MAX_NAME_SZ (ps2_mem s))\<rparr>;
              s = s\<lparr>registered := (registered s)[i := (registered s ! i)\<lparr>dev_callback := handler\<rparr>]\<rparr>
          in (PS2_SUCCESS, s))"

definition ps2kbd_init :: "(nat \<Rightarrow> u32) \<Rightarrow> u32 \<Rightarrow> 'd ps2_state \<Rightarrow> int \<times> 'd ps2_state" where
  "ps2kbd_init name_at name s = (0, snd (ps2_register name_at Kbd_add_scancode name 1 s))"

section \<open>Lemmas\<close>

text \<open>The waiting loops test for a negative counter after the loop, but the counter stops at
  0: with a timeout that is not negative they always report success.\<close>

lemma wait_status_eq:
  "wait_status hw go ms s = (0 \<le> ms, if 0 < ms then snd (wait_loop hw go (nat ms) s) else s)"
  by (cases "wait_loop hw go (nat ms) s") (auto simp: wait_status_def)

lemma to_int16_byte: "to_int16 (uint v) = uint v" for v :: u8
proof -
  have "uint v < 256" "- 32768 \<le> uint v" using uint_lt2p [of v] by (simp_all add: order_trans [OF _ uint_ge_0])
  then show ?thesis unfolding to_int16_def by (intro signed_take_bit_int_eq_self) simp_all
qed

text \<open>What sending leaves alone: everything but the device.\<close>

definition same_table :: "'d ps2_state \<Rightarrow> 'd ps2_state \<Rightarrow> bool" where
  "same_table s t \<longleftrightarrow> channel_status t = channel_status s \<and> registered t = registered s
     \<and> ps2_handlers t = ps2_handlers s \<and> ps2_mem t = ps2_mem s"

lemma same_table_refl [simp]: "same_table s s"
  and same_table_trans: "same_table s t \<Longrightarrow> same_table t u \<Longrightarrow> same_table s u"
  and same_table_out [simp]: "same_table s (ps2_out hw p v t) = same_table s t"
  and same_table_in [simp]: "same_table s (snd (ps2_in hw p t)) = same_table s t"
  by (simp_all add: same_table_def ps2_out_def ps2_in_def split: prod.splits)

lemma same_table_wait_loop: "same_table s (snd (wait_loop hw go n s))"
proof (induction n arbitrary: s)
  case (Suc n)
  obtain v t where t: "ps2_in hw PS2_PORT_READ_STATUS s = (v, t)" by fastforce
  then have "same_table s t" using same_table_in [of s hw PS2_PORT_READ_STATUS s] by simp
  then show ?case using Suc [of t] by (auto simp: t intro: same_table_trans)
qed simp

lemma same_table_wait: "same_table s (snd (wait_status hw go ms s))"
  using same_table_wait_loop [of s hw go "nat ms"] by (simp add: wait_status_eq)

lemma same_table_response: "same_table s (snd (ps2_response hw ms b s))"
  using same_table_wait [of s hw "\<lambda>v. v AND PS2_STATUS_OUTPUT_BUFF_FULL = 0" ms]
  by (auto simp: ps2_response_def wait_data_ready_def case_prod_beta intro: same_table_trans)

lemma same_table_answer:
  "same_table s (snd (let (ok, t) = wait_buffer_ready hw ms s in
     if \<not> ok then (e, t) else ps2_response hw m b (ps2_out hw p v t)))"
  using same_table_wait [of s hw "\<lambda>v. v AND PS2_STATUS_INPUT_BUFF_FULL \<noteq> 0" ms]
    same_table_response [of "ps2_out hw p v (snd (wait_buffer_ready hw ms s))" hw m b]
  by (auto simp: wait_buffer_ready_def case_prod_beta same_table_def ps2_out_def)

lemma same_table_send: "same_table s (snd (ps2_send_internal hw x ms f s))"
proof -
  have out: "same_table (ps2_out hw p v s) t \<longleftrightarrow> same_table s t" for p v t by (simp add: same_table_def ps2_out_def)
  note a = same_table_answer [of s hw] same_table_answer [of "ps2_out hw p v s" hw for p v, unfolded out]
    same_table_response [of "ps2_out hw p v s" hw for p v, unfolded out]
  show ?thesis by (simp add: ps2_send_internal_def Let_def a [unfolded Let_def])
qed

text \<open>With a timeout of 0, which stands for the default, the answer is a byte unless the
  channels are unusable.\<close>

lemma send_internal_range:
  "fst (ps2_send_internal hw x 0 f s) = PS2_ERR_NO_USABLE_CHANNEL \<or> fst (ps2_send_internal hw x 0 f s) \<in> {0..255}"
proof -
  have byte: "fst (ps2_response hw PS2_TO_DEFAULT b t) \<in> {0..255}" for b t
  proof -
    have "uint v \<le> 255" for v :: u8 using uint_lt2p [of v] by simp
    then show ?thesis
      by (auto simp: ps2_response_def wait_data_ready_def wait_status_eq PS2_TO_DEFAULT_def to_int16_byte PS2_SUCCESS_def
          case_prod_beta Let_def)
  qed
  show ?thesis
    using byte by (auto simp: ps2_send_internal_def Let_def wait_buffer_ready_def wait_status_eq PS2_TO_DEFAULT_def)
qed

lemma same_table_sends:
  "same_table s (snd (ps2_send_cmd hw c ms s))" "same_table s (snd (ps2_send_cmd_resp hw c ms s))"
  "same_table s (snd (ps2_send_cmd_double hw c ms c2 s))" "same_table s (snd (ps2_send_data_response hw c ms s))"
  "same_table s (snd (ps2_send_data_response_second hw c ms s))"
  using same_table_send [of s hw]
  by (simp_all add: ps2_send_cmd_def ps2_send_cmd_resp_def ps2_send_cmd_double_def ps2_send_data_response_def
      ps2_send_data_response_second_def)

text \<open>A stage leaves the handlers, the drivers and the names alone, keeps the status of the
  channels in 15 bits, and ends \<^verbatim>\<open>ps2_init\<close> only with a negative result.\<close>

definition stage_ok :: "'d ps2_stage \<Rightarrow> bool" where
  "stage_ok f \<longleftrightarrow> (\<forall>s. channel_status s < 0x8000 \<longrightarrow>
     channel_status (snd (f s)) < 0x8000 \<and> registered (snd (f s)) = registered s
     \<and> ps2_handlers (snd (f s)) = ps2_handlers s \<and> ps2_mem (snd (f s)) = ps2_mem s
     \<and> (case fst (f s) of None \<Rightarrow> True | Some r \<Rightarrow> r < 0))"

lemma stage_okI:
  assumes "\<And>s. channel_status s < 0x8000 \<Longrightarrow> same_table s (snd (f s)\<lparr>channel_status := channel_status s\<rparr>)
     \<and> channel_status (snd (f s)) < 0x8000 \<and> (case fst (f s) of None \<Rightarrow> True | Some r \<Rightarrow> r < 0)"
  shows "stage_ok f"
  using assms by (auto simp: stage_ok_def same_table_def)

lemma stage_ok_then:
  assumes "stage_ok f" and "channel_status s < 0x8000" and "fst (f s) = None"
  shows "channel_status (snd (f s)) < 0x8000" "registered (snd (f s)) = registered s"
    "ps2_handlers (snd (f s)) = ps2_handlers s" "ps2_mem (snd (f s)) = ps2_mem s"
  using assms by (simp_all add: stage_ok_def)

lemma same_tableD:
  "same_table s t \<Longrightarrow> channel_status t = channel_status s \<and> registered t = registered s
     \<and> ps2_handlers t = ps2_handlers s \<and> ps2_mem t = ps2_mem s"
  by (simp add: same_table_def)

lemmas sends_keep = same_table_sends [THEN same_tableD]

lemma or_status: "x < 0x8000 \<Longrightarrow> y < 0x8000 \<Longrightarrow> x OR y < 0x8000" for x y :: u16
proof -
  assume "x < 0x8000" "y < 0x8000"
  then have "uint x < 2 ^ 15" "uint y < 2 ^ 15" by (simp_all add: word_less_def)
  then have "uint (x OR y) < 2 ^ 15" unfolding unsigned_or_eq by (intro OR_upper) simp_all
  then show ?thesis by (simp add: word_less_def)
qed

lemma ps2_stages_ok:
  "stage_ok (ps2_disable_flush hw)" "stage_ok (ps2_configure hw)" "stage_ok (ps2_self_test hw)"
  "stage_ok (ps2_detect_second hw)" "stage_ok (ps2_test_ports hw)" "stage_ok (ps2_enable hw)"
  "stage_ok (ps2_reset_devices hw)"
proof -
  have inp: "channel_status (snd (ps2_in hw p t)) = channel_status t" "registered (snd (ps2_in hw p t)) = registered t"
    "ps2_handlers (snd (ps2_in hw p t)) = ps2_handlers t" "ps2_mem (snd (ps2_in hw p t)) = ps2_mem t" for p t
    by (simp_all add: ps2_in_def case_prod_beta)
  show "stage_ok (ps2_disable_flush hw)"
    by (rule stage_okI) (simp add: ps2_disable_flush_def same_table_def case_prod_beta sends_keep inp)
  show "stage_ok (ps2_configure hw)"
    by (rule stage_okI) (simp add: ps2_configure_def same_table_def case_prod_beta sends_keep Let_def)
  show "stage_ok (ps2_self_test hw)"
    by (rule stage_okI) (simp add: ps2_self_test_def same_table_def case_prod_beta sends_keep Let_def
        PS2_ERR_SELF_TEST_FAILURE_def PS2_DEV_STATUS_SELF_TEST_def push_bit_eq_mult)
  show "stage_ok (ps2_detect_second hw)"
    by (rule stage_okI) (simp add: ps2_detect_second_def same_table_def case_prod_beta sends_keep Let_def)
  show "stage_ok (ps2_test_ports hw)"
    by (rule stage_okI) (simp add: ps2_test_ports_def same_table_def case_prod_beta sends_keep Let_def or_status
        PS2_ERR_NO_USABLE_CHANNEL_def)
  show "stage_ok (ps2_enable hw)"
    by (rule stage_okI) (simp add: ps2_enable_def same_table_def case_prod_beta sends_keep Let_def)
  show "stage_ok (ps2_reset_devices hw)"
    by (rule stage_okI) (simp add: ps2_reset_devices_def same_table_def case_prod_beta sends_keep Let_def or_status
        push_bit_eq_mult)
qed

lemma ps2_clear_table_eq:
  assumes "length (registered s) = 2" and "n \<le> 2"
  shows "length (registered (ps2_clear_table name_at n s)) = 2"
    "i < n \<Longrightarrow> registered (ps2_clear_table name_at n s) ! i = \<lparr>dev_callback = Null_input, dev_active = False\<rparr>"
    "channel_status (ps2_clear_table name_at n s) = channel_status s"
    "ps2_handlers (ps2_clear_table name_at n s) = ps2_handlers s"
proof -
  have "length (registered (ps2_clear_table name_at n s)) = 2
     \<and> (\<forall>i < n. registered (ps2_clear_table name_at n s) ! i = \<lparr>dev_callback = Null_input, dev_active = False\<rparr>)
     \<and> channel_status (ps2_clear_table name_at n s) = channel_status s
     \<and> ps2_handlers (ps2_clear_table name_at n s) = ps2_handlers s"
    using assms by (induction n) (auto simp: Let_def nth_list_update less_Suc_eq)
  then show "length (registered (ps2_clear_table name_at n s)) = 2"
    "i < n \<Longrightarrow> registered (ps2_clear_table name_at n s) ! i = \<lparr>dev_callback = Null_input, dev_active = False\<rparr>"
    "channel_status (ps2_clear_table name_at n s) = channel_status s"
    "ps2_handlers (ps2_clear_table name_at n s) = ps2_handlers s"
    by simp_all
qed

text \<open>The outcome of the stages in a row, the last of which attaches the handlers.\<close>

definition ps2_outcome :: "'d ps2_state \<Rightarrow> int option \<times> 'd ps2_state \<Rightarrow> bool" where
  "ps2_outcome s rt \<longleftrightarrow>
     (case fst rt of None \<Rightarrow> False | Some r \<Rightarrow>
        registered (snd rt) = registered s \<and> ps2_mem (snd rt) = ps2_mem s
        \<and> (if r < 0 then ps2_handlers (snd rt) = ps2_handlers s
           else r = uint (channel_status (snd rt))
             \<and> ps2_handlers (snd rt) = (ps2_handlers s)(IRQ_KEYBOARD := Ps2_handle_interrupt_1st, IRQ_PS2 := Ps2_handle_interrupt_2nd)))"

lemma ps2_outcome_then:
  assumes "stage_ok f" and "\<And>t. channel_status t < 0x8000 \<Longrightarrow> ps2_outcome t (g t)" and "channel_status s < 0x8000"
  shows "ps2_outcome s (ps2_then f g s)"
proof (cases "f s")
  case (Pair r t)
  show ?thesis
  proof (cases r)
    case None
    have "ps2_outcome t (g t)" "registered t = registered s" "ps2_handlers t = ps2_handlers s" "ps2_mem t = ps2_mem s"
      using stage_ok_then [OF assms(1,3)] assms(2) [of t] None Pair by simp_all
    then show ?thesis by (simp add: ps2_then_def Pair None ps2_outcome_def split: option.splits)
  next
    case (Some x)
    then have "x < 0" "registered t = registered s" "ps2_handlers t = ps2_handlers s" "ps2_mem t = ps2_mem s"
      using assms(1,3) Pair unfolding stage_ok_def by (auto split: option.splits dest: spec [of _ s])
    then show ?thesis by (simp add: ps2_then_def Pair Some ps2_outcome_def)
  qed
qed

lemma ps2_attach_outcome:
  assumes "channel_status s < 0x8000"
  shows "ps2_outcome s (ps2_attach hw s)"
proof -
  have "uint (channel_status s) < 2 ^ 15" using assms by (simp add: word_less_def)
  then have "sint (channel_status s) = uint (channel_status s)"
    by (simp add: sint_uint signed_take_bit_int_eq_self order_trans [OF _ uint_ge_0])
  then show ?thesis
    by (simp add: ps2_attach_def ps2_outcome_def register_interrupt_handler_def)
qed

lemma ps2_init_outcome_of:
  assumes "channel_status s < 0x8000" and "length (registered s) = 2"
  shows "ps2_outcome (ps2_clear_table name_at PS2_MAX_REGISTERED s)
     (ps2_then (ps2_disable_flush hw) (ps2_then (ps2_configure hw) (ps2_then (ps2_self_test hw)
             (ps2_then (ps2_detect_second hw) (ps2_then (ps2_test_ports hw) (ps2_then (ps2_enable hw)
             (ps2_then (ps2_reset_devices hw) (ps2_attach hw))))))) (ps2_clear_table name_at PS2_MAX_REGISTERED s))"
  by (intro ps2_outcome_then ps2_stages_ok ps2_attach_outcome)
    (use assms(1) ps2_clear_table_eq [OF assms(2) order_refl, where name_at = name_at] in \<open>simp_all add: PS2_MAX_REGISTERED_def\<close>)

lemma ps2_init_result:
  assumes "channel_status s < 0x8000" and "length (registered s) = 2"
  shows "let (r, t) = ps2_init hw name_at s in
     (\<forall>i < 2. \<not> dev_active (registered t ! i))
     \<and> (if r < 0 then ps2_handlers t = ps2_handlers s
        else r = uint (channel_status t)
          \<and> ps2_handlers t = (ps2_handlers s)(IRQ_KEYBOARD := Ps2_handle_interrupt_1st, IRQ_PS2 := Ps2_handle_interrupt_2nd))"
  using ps2_clear_table_eq [OF assms(2) order_refl, where name_at = name_at] ps2_init_outcome_of [OF assms, of name_at hw]
  unfolding ps2_init_def ps2_outcome_def PS2_MAX_REGISTERED_def
  by (auto simp: Let_def case_prod_beta split: option.splits)

lemma ps2_init_registered:
  assumes "channel_status s < 0x8000" and "length (registered s) = 2"
  shows "length (registered (snd (ps2_init hw name_at s))) = 2"
  using ps2_init_outcome_of [OF assms, of name_at hw] ps2_clear_table_eq(1) [OF assms(2) order_refl]
  by (auto simp: ps2_init_def ps2_outcome_def PS2_MAX_REGISTERED_def Let_def case_prod_beta split: option.splits)

text \<open>Memory changes only in the buffers for the names of the drivers.\<close>

definition name_buffers :: "(nat \<Rightarrow> u32) \<Rightarrow> u32 \<Rightarrow> bool" where
  "name_buffers name_at k \<longleftrightarrow> (\<exists>i < PS2_MAX_REGISTERED. k - name_at i < PS2_MAX_NAME_SZ)"

lemma ps2_clear_table_mem:
  "n \<le> PS2_MAX_REGISTERED \<Longrightarrow> \<not> name_buffers name_at k \<Longrightarrow> ps2_mem (ps2_clear_table name_at n s) k = ps2_mem s k"
  by (induction n) (auto simp: Let_def memset_def memset_loop_spec name_buffers_def)

lemma ps2_init_mem:
  assumes "channel_status s < 0x8000" and "length (registered s) = 2" and "\<not> name_buffers name_at k"
  shows "ps2_mem (snd (ps2_init hw name_at s)) k = ps2_mem s k"
proof -
  let ?s = "ps2_clear_table name_at PS2_MAX_REGISTERED s"
  note c = ps2_clear_table_eq [OF assms(2) order_refl, where name_at = name_at]
  have "ps2_outcome ?s (ps2_then (ps2_disable_flush hw) (ps2_then (ps2_configure hw) (ps2_then (ps2_self_test hw)
             (ps2_then (ps2_detect_second hw) (ps2_then (ps2_test_ports hw) (ps2_then (ps2_enable hw)
             (ps2_then (ps2_reset_devices hw) (ps2_attach hw))))))) ?s)"
    by (intro ps2_outcome_then ps2_stages_ok ps2_attach_outcome) (use assms(1) c in \<open>simp_all add: PS2_MAX_REGISTERED_def\<close>)
  then show ?thesis
    using ps2_clear_table_mem [OF order_refl assms(3)]
    unfolding ps2_init_def ps2_outcome_def by (auto simp: Let_def split: option.splits)
qed

lemma ps2_register_keeps:
  "ps2_handlers (snd (ps2_register name_at h name n s)) = ps2_handlers s"
  "\<not> name_buffers name_at k \<Longrightarrow> ps2_mem (snd (ps2_register name_at h name n s)) k = ps2_mem s k"
  "channel_status (snd (ps2_register name_at h name n s)) = channel_status s"
proof -
  show "ps2_mem (snd (ps2_register name_at h name n s)) k = ps2_mem s k" if "\<not> name_buffers name_at k"
  proof (cases "n < 1 \<or> n > 2")
    case False
    then have "nat (n - 1) < PS2_MAX_REGISTERED" by (auto simp: PS2_MAX_REGISTERED_def)
    then have "\<not> k - name_at (nat (n - 1)) < PS2_MAX_NAME_SZ" using that by (auto simp: name_buffers_def)
    then show ?thesis
      by (simp add: ps2_register_def Let_def strncpy_other PS2_MAX_NAME_SZ_def)
  qed (simp add: ps2_register_def)
qed (simp_all add: ps2_register_def Let_def)

section \<open>Properties\<close>


definition ps2_example :: "(u16 \<times> u8) list ps2_state" where
  "ps2_example = \<lparr>channel_status = 0, registered = replicate 2 \<lparr>dev_callback = Null_input, dev_active = True\<rparr>,
     ps2_handlers = (\<lambda>_. Dummy_int_handler), ps2_mem = (\<lambda>_. 0), ps2_dev = []\<rparr>"


end
