(* ===== verification/Vga.thy ===== *)
theory Vga
  imports Ports Lock Kernel_String
begin

text \<open>
  The text console, \<^verbatim>\<open>src/drv/vga.c\<close>. The text buffer at \<^verbatim>\<open>0xb8000\<close>
  is the field \<open>scr_mem\<close>, indexed by cell from that address on; the cursor registers are
  behind the port device.
\<close>

section \<open>State and operations\<close>

datatype vga_color = Black | Blue | Green | Cyan | Red | Pink | Brown | LightGray | DarkGray
  | LightBlue | LightGreen | LightCyan | LightRed | LightPink | Yellow | White

fun color_code :: "vga_color \<Rightarrow> u32" where
  "color_code Black = 0" | "color_code Blue = 1" | "color_code Green = 2" | "color_code Cyan = 3"
| "color_code Red = 4" | "color_code Pink = 5" | "color_code Brown = 6" | "color_code LightGray = 7"
| "color_code DarkGray = 8" | "color_code LightBlue = 9" | "color_code LightGreen = 10"
| "color_code LightCyan = 11" | "color_code LightRed = 12" | "color_code LightPink = 13"
| "color_code Yellow = 14" | "color_code White = 15"

record vga_screen =
  scr_color :: u8
  scr_x :: u8
  scr_y :: u8
  scr_tab_sz :: u8
  scr_mem :: "nat \<Rightarrow> u16"
  scr_lock :: spinlock

definition SCREEN_LENGTH :: nat where "SCREEN_LENGTH = 80"
definition SCREEN_HEIGHT :: nat where "SCREEN_HEIGHT = 25"

definition vga_write_mem :: "u8 \<Rightarrow> u8 \<Rightarrow> u16 \<Rightarrow> vga_screen \<Rightarrow> vga_screen" where
  "vga_write_mem x y v s = s\<lparr>scr_mem := (scr_mem s)(unat y * SCREEN_LENGTH + unat x := v)\<rparr>"

definition write_blank :: "u8 \<Rightarrow> u8 \<Rightarrow> vga_screen \<Rightarrow> vga_screen" where
  "write_blank a b s = vga_write_mem a b 0x20 s"

definition blank_cell :: "vga_screen \<Rightarrow> u16" where
  "blank_cell s = push_bit 8 (ucast (scr_color s)) + 0x20"

fun vga_clear_loop :: "nat \<Rightarrow> u16 \<Rightarrow> (nat \<Rightarrow> u16) \<Rightarrow> nat \<Rightarrow> u16" where
  "vga_clear_loop 0 fill m = m"
| "vga_clear_loop (Suc i) fill m = (vga_clear_loop i fill m)(i := fill)"

definition vga_clear :: "vga_screen \<Rightarrow> vga_screen" where
  "vga_clear s = s\<lparr>scr_mem := vga_clear_loop (SCREEN_LENGTH * SCREEN_HEIGHT) (blank_cell s) (scr_mem s)\<rparr>"

text \<open>\<open>vga_scroll_copy n\<close> and \<open>vga_scroll_blank n\<close> are the first \<open>n\<close> rounds of the two loops
  of \<^verbatim>\<open>vga_scroll\<close>.\<close>

fun vga_scroll_copy :: "nat \<Rightarrow> (nat \<Rightarrow> u16) \<Rightarrow> nat \<Rightarrow> u16" where
  "vga_scroll_copy 0 m = m"
| "vga_scroll_copy (Suc i) m = (let m1 = vga_scroll_copy i m in m1(i := m1 (i + SCREEN_LENGTH)))"

fun vga_scroll_blank :: "nat \<Rightarrow> u16 \<Rightarrow> (nat \<Rightarrow> u16) \<Rightarrow> nat \<Rightarrow> u16" where
  "vga_scroll_blank 0 v m = m"
| "vga_scroll_blank (Suc i) v m = (vga_scroll_blank i v m)((SCREEN_HEIGHT - 1) * SCREEN_LENGTH + i := v)"

definition vga_scroll :: "vga_screen \<Rightarrow> vga_screen" where
  "vga_scroll s =
     (if SCREEN_HEIGHT \<le> unat (scr_y s) then
        let m = vga_scroll_copy ((SCREEN_HEIGHT - 1) * SCREEN_LENGTH) (scr_mem s);
            m = vga_scroll_blank (SCREEN_HEIGHT * SCREEN_LENGTH - (SCREEN_HEIGHT - 1) * SCREEN_LENGTH) (blank_cell s) m
        in s\<lparr>scr_mem := m, scr_y := scr_y s - 1\<rparr>
      else s)"

definition vga_update_cursor :: "'d device \<Rightarrow> vga_screen \<Rightarrow> 'd \<Rightarrow> 'd" where
  "vga_update_cursor hw s d =
     (let loc = ucast (scr_y s) * of_nat SCREEN_LENGTH + ucast (scr_x s) :: u16;
          d = outb hw 0x3D4 14 d;
          d = outb hw 0x3D5 (ucast (drop_bit 8 loc)) d;
          d = outb hw 0x3D4 15 d
      in outb hw 0x3D5 (ucast loc) d)"

definition vga_init :: "vga_color \<Rightarrow> vga_color \<Rightarrow> vga_screen \<Rightarrow> vga_screen option" where
  "vga_init fg bg s =
     (case spinlock_acquire (init_spinlock (scr_lock s) LOCK_CONSOLE) of
        None \<Rightarrow> None
      | Some l \<Rightarrow>
          let s = s\<lparr>scr_lock := l, scr_x := 0, scr_y := 0, scr_tab_sz := 4,
                    scr_color := ucast (push_bit 4 (color_code bg) + color_code fg)\<rparr>;
              s = vga_clear s
          in Some (s\<lparr>scr_lock := spinlock_release (scr_lock s)\<rparr>))"

text \<open>The newline branch, which the end of a line repeats.\<close>

definition vga_newline :: "vga_screen \<Rightarrow> vga_screen" where
  "vga_newline s =
     (let s = s\<lparr>scr_x := 0, scr_y := scr_y s + 1\<rparr>
      in if SCREEN_HEIGHT \<le> unat (scr_y s) then vga_scroll s else s)"

definition vga_tab :: "vga_screen \<Rightarrow> vga_screen" where
  "vga_tab s = s\<lparr>scr_x := scr_x s + of_nat (unat (scr_tab_sz s)
      - (unat (scr_x s) + unat (scr_tab_sz s)) mod unat (scr_tab_sz s))\<rparr>"

text \<open>\<^verbatim>\<open>char\<close> is signed: a byte from 128 on is below the space.\<close>

definition vga_putc :: "'d device \<Rightarrow> u8 \<Rightarrow> vga_screen \<times> 'd \<Rightarrow> vga_screen \<times> 'd" where
  "vga_putc hw ch sd =
     (let (s, d) = sd;
          write = scast ch + push_bit 8 (ucast (scr_color s));
          r = (if ch = 0x08 \<and> 0 < scr_x s then
                 let s = write_blank (scr_x s) (scr_y s) s in Some (s\<lparr>scr_x := scr_x s - 1\<rparr>)
               else if ch = 0x09 then Some (vga_tab s)
               else if ch = 0x0D then Some (s\<lparr>scr_x := 0\<rparr>)
               else if ch = 0x0A then Some (vga_newline s)
               else if 0x20 \<le> sint ch \<and> sint ch \<le> 0x7E then
                 let s = vga_write_mem (scr_x s) (scr_y s) write s in Some (s\<lparr>scr_x := scr_x s + 1\<rparr>)
               else None)
      in case r of
           None \<Rightarrow> (s, d)
         | Some s \<Rightarrow>
             let s = (if SCREEN_LENGTH \<le> unat (scr_x s) then vga_newline s else s)
             in (s, vga_update_cursor hw s d))"

partial_function (option) vga_write_loop ::
  "'d device \<Rightarrow> mem \<Rightarrow> u32 \<Rightarrow> u32 \<Rightarrow> vga_screen \<times> 'd \<Rightarrow> (vga_screen \<times> 'd) option" where
  "vga_write_loop hw m str i sd =
     (if m (str + i) \<noteq> 0 then vga_write_loop hw m str (i + 1) (vga_putc hw (m (str + i)) sd)
      else Some sd)"

definition vga_write :: "'d device \<Rightarrow> mem \<Rightarrow> u32 \<Rightarrow> vga_screen \<times> 'd \<Rightarrow> (vga_screen \<times> 'd) option" where
  "vga_write hw m str sd = vga_write_loop hw m str 0 sd"

section \<open>Lemmas\<close>

lemmas screen_size = SCREEN_LENGTH_def SCREEN_HEIGHT_def

definition screen_ok :: "vga_screen \<Rightarrow> bool" where
  "screen_ok s \<longleftrightarrow> unat (scr_x s) < 80 \<and> unat (scr_y s) < 25 \<and> scr_tab_sz s = 4"

lemma vga_clear_loop_eq: "vga_clear_loop n v m = (\<lambda>i. if i < n then v else m i)"
  by (induction n) (auto simp: less_Suc_eq)

lemma vga_scroll_copy_eq: "vga_scroll_copy n m = (\<lambda>i. if i < n then m (i + 80) else m i)"
  by (induction n) (auto simp: Let_def screen_size less_Suc_eq)

lemma vga_scroll_blank_eq: "vga_scroll_blank n v m = (\<lambda>i. if 1920 \<le> i \<and> i < 1920 + n then v else m i)"
  by (induction n) (auto simp: screen_size fun_eq_iff)

text \<open>The contents of the screen after the lines moved up by one.\<close>

definition scrolled :: "u16 \<Rightarrow> (nat \<Rightarrow> u16) \<Rightarrow> nat \<Rightarrow> u16" where
  "scrolled v m i = (if i < 1920 then m (i + 80) else if i < 2000 then v else m i)"

lemma vga_scroll_eq:
  "vga_scroll s = (if 25 \<le> unat (scr_y s)
     then s\<lparr>scr_mem := scrolled (blank_cell s) (scr_mem s), scr_y := scr_y s - 1\<rparr> else s)"
  by (simp add: vga_scroll_def screen_size Let_def vga_scroll_copy_eq vga_scroll_blank_eq
      scrolled_def [abs_def] fun_eq_iff)

lemma unat_suc_u8: "unat x < 255 \<Longrightarrow> unat (x + 1) = unat x + 1" for x :: u8
  by (simp add: unat_word_ariths)

lemma vga_newline_eq:
  assumes "unat (scr_y s) < 25"
  shows "vga_newline s = (if unat (scr_y s) < 24 then s\<lparr>scr_x := 0, scr_y := scr_y s + 1\<rparr>
     else s\<lparr>scr_x := 0, scr_mem := scrolled (blank_cell s) (scr_mem s)\<rparr>)"
  using assms
  by (auto simp: vga_newline_def Let_def screen_size vga_scroll_eq unat_suc_u8 blank_cell_def)

lemma vga_newline_ok:
  assumes "unat (scr_y s) < 25" and "scr_tab_sz s = 4"
  shows "screen_ok (vga_newline s)" and "2000 \<le> i \<Longrightarrow> scr_mem (vga_newline s) i = scr_mem s i"
  using assms by (auto simp: vga_newline_eq screen_ok_def unat_suc_u8 scrolled_def)

lemma cell_in_screen: "unat x < 80 \<Longrightarrow> unat y < 25 \<Longrightarrow> unat y * 80 + unat x < 2000"
  for x y :: u8
  by linarith

lemma unat_pred_u8: "0 < x \<Longrightarrow> unat (x - 1) = unat x - 1" for x :: u8
  by (simp add: unat_minus_one word_neq_0_conv)

lemma vga_tab_x:
  assumes "screen_ok s"
  shows "unat (scr_x (vga_tab s)) = (unat (scr_x s) div 4 + 1) * 4"
proof -
  have e: "scr_x (vga_tab s) = of_nat (unat (scr_x s) + (4 - unat (scr_x s) mod 4))"
    using assms by (simp add: vga_tab_def screen_ok_def)
  have "unat (scr_x s) + (4 - unat (scr_x s) mod 4) = (unat (scr_x s) div 4 + 1) * 4"
    by (simp add: mult.commute) presburger
  moreover have "unat (scr_x s) + (4 - unat (scr_x s) mod 4) < 256"
    using assms unfolding screen_ok_def by linarith
  ultimately show ?thesis unfolding e by (simp add: unat_of_nat_small del: of_nat_add)
qed

text \<open>What \<^verbatim>\<open>vga_putc\<close> does to the screen before the end-of-line test, and the test.\<close>

definition putc_char :: "u8 \<Rightarrow> vga_screen \<Rightarrow> vga_screen option" where
  "putc_char ch s =
     (if ch = 0x08 \<and> 0 < scr_x s then Some ((write_blank (scr_x s) (scr_y s) s)\<lparr>scr_x := scr_x s - 1\<rparr>)
      else if ch = 0x09 then Some (vga_tab s)
      else if ch = 0x0D then Some (s\<lparr>scr_x := 0\<rparr>)
      else if ch = 0x0A then Some (vga_newline s)
      else if 0x20 \<le> sint ch \<and> sint ch \<le> 0x7E then
        Some ((vga_write_mem (scr_x s) (scr_y s) (scast ch + push_bit 8 (ucast (scr_color s))) s)\<lparr>scr_x := scr_x s + 1\<rparr>)
      else None)"

definition putc_wrap :: "vga_screen \<Rightarrow> vga_screen" where
  "putc_wrap s = (if 80 \<le> unat (scr_x s) then vga_newline s else s)"

lemma vga_putc_eq:
  "vga_putc hw ch (s, d) = (case putc_char ch s of None \<Rightarrow> (s, d)
     | Some s1 \<Rightarrow> (putc_wrap s1, vga_update_cursor hw (putc_wrap s1) d))"
  by (simp add: vga_putc_def putc_char_def putc_wrap_def Let_def screen_size write_blank_def vga_write_mem_def
      split: option.splits)

lemma putc_char_ok:
  assumes "screen_ok s" and "putc_char ch s = Some t"
  shows "unat (scr_y t) < 25 \<and> scr_tab_sz t = 4 \<and> unat (scr_x t) \<le> 80"
    and "2000 \<le> i \<Longrightarrow> scr_mem t i = scr_mem s i"
proof -
  have ok: "unat (scr_x s) < 80" "unat (scr_y s) < 25" "scr_tab_sz s = 4"
    using assms(1) by (simp_all add: screen_ok_def)
  have tab: "unat (scr_x (vga_tab s)) \<le> 80" using vga_tab_x [OF assms(1)] ok(1) by simp
  have tab': "scr_y (vga_tab s) = scr_y s" "scr_tab_sz (vga_tab s) = scr_tab_sz s" "scr_mem (vga_tab s) = scr_mem s"
    by (simp_all add: vga_tab_def)
  note nl = vga_newline_ok [OF ok(2,3)]
  show "unat (scr_y t) < 25 \<and> scr_tab_sz t = 4 \<and> unat (scr_x t) \<le> 80"
    using assms(2) ok tab tab' nl(1)
    by (auto simp: putc_char_def write_blank_def vga_write_mem_def screen_ok_def unat_suc_u8 unat_pred_u8
        split: if_splits)
  show "scr_mem t i = scr_mem s i" if "2000 \<le> i"
    using assms(2) tab' nl(2) that cell_in_screen [OF ok(1,2)]
    by (auto simp: putc_char_def write_blank_def vga_write_mem_def screen_size split: if_splits)
qed

lemma vga_putc_ok:
  assumes "screen_ok s" and "vga_putc hw ch (s, d) = (t, e)"
  shows "screen_ok t" and "2000 \<le> i \<Longrightarrow> scr_mem t i = scr_mem s i"
proof -
  have "screen_ok t \<and> (2000 \<le> i \<longrightarrow> scr_mem t i = scr_mem s i)"
  proof (cases "putc_char ch s")
    case None
    then show ?thesis using assms by (simp add: vga_putc_eq)
  next
    case (Some s1)
    note c = putc_char_ok [OF assms(1) Some]
    have t: "t = putc_wrap s1" using assms(2) Some by (simp add: vga_putc_eq)
    show ?thesis
      unfolding t putc_wrap_def using c(1) c(2) [of i] vga_newline_ok [of s1] by (auto simp: screen_ok_def)
  qed
  then show "screen_ok t" and "2000 \<le> i \<Longrightarrow> scr_mem t i = scr_mem s i" by simp_all
qed

lemma vga_init_eq:
  "vga_init fg bg s = Some (s\<lparr>scr_lock := init_spinlock (scr_lock s) LOCK_CONSOLE, scr_x := 0, scr_y := 0,
     scr_tab_sz := 4, scr_color := ucast (push_bit 4 (color_code bg) + color_code fg),
     scr_mem := \<lambda>i. if i < 2000 then push_bit 8 (ucast (ucast (push_bit 4 (color_code bg) + color_code fg) :: u8)) + 0x20
                   else scr_mem s i\<rparr>)"
  by (cases s) (simp add: vga_init_def spinlock_acquire_def pushcli_def spinlock_spin.simps alock_def init_spinlock_def
      Let_def vga_clear_def vga_clear_loop_eq blank_cell_def screen_size spinlock_release_def popcli_def fun_eq_iff)

text \<open>The console as a state machine: initialised once, then any characters; \<open>m0\<close> is the
  memory from the text buffer on, as the kernel finds it.\<close>

definition vga_start :: "(nat \<Rightarrow> u16) \<Rightarrow> vga_screen \<times> 'd \<Rightarrow> bool" where
  "vga_start m0 sd \<longleftrightarrow> (\<exists>fg bg s0. scr_mem s0 = m0 \<and> vga_init fg bg s0 = Some (fst sd))"

inductive vga_step :: "'d device \<Rightarrow> vga_screen \<times> 'd \<Rightarrow> vga_screen \<times> 'd \<Rightarrow> bool" for hw where
  "vga_step hw sd (vga_putc hw ch sd)"

inductive_cases vga_stepE: "vga_step hw sd te"

interpretation console: invariant_system "vga_start m0" "vga_step hw"
  "\<lambda>sd. screen_ok (fst sd) \<and> (\<forall>i \<ge> 2000. scr_mem (fst sd) i = m0 i)" for m0 hw
proof unfold_locales
  fix sd :: "vga_screen \<times> 'a" assume "vga_start m0 sd"
  then show "screen_ok (fst sd) \<and> (\<forall>i \<ge> 2000. scr_mem (fst sd) i = m0 i)"
    unfolding vga_start_def vga_init_eq option.inject by (cases sd) (auto simp: screen_ok_def)
next
  fix sd te :: "vga_screen \<times> 'a"
  assume inv: "screen_ok (fst sd) \<and> (\<forall>i \<ge> 2000. scr_mem (fst sd) i = m0 i)" and "vga_step hw sd te"
  from this(2) obtain ch where "vga_putc hw ch (fst sd, snd sd) = (fst te, snd te)"
    by (auto elim!: vga_stepE)
  from vga_putc_ok [OF _ this] inv show "screen_ok (fst te) \<and> (\<forall>i \<ge> 2000. scr_mem (fst te) i = m0 i)"
    by simp
qed

lemma unat_loc:
  assumes "screen_ok s"
  shows "unat (ucast (scr_y s) * of_nat SCREEN_LENGTH + ucast (scr_x s) :: u16) = unat (scr_y s) * 80 + unat (scr_x s)"
  using assms cell_in_screen [of "scr_x s" "scr_y s"]
  by (simp add: screen_ok_def SCREEN_LENGTH_def unat_word_ariths unsigned_ucast_eq take_bit_eq_mod)

lemma putc_printable:
  assumes "0x20 \<le> sint ch" and "sint ch \<le> 0x7E"
  shows "putc_char ch s = Some ((vga_write_mem (scr_x s) (scr_y s) (scast ch + push_bit 8 (ucast (scr_color s))) s)
     \<lparr>scr_x := scr_x s + 1\<rparr>)"
  using assms by (auto simp: putc_char_def)

lemma putc_draws:
  assumes "screen_ok s" and "0x20 \<le> sint ch" and "sint ch \<le> 0x7E"
  shows "let p = unat (scr_y s) * 80 + unat (scr_x s);
       drawn = (scr_mem s)(p := scast ch + push_bit 8 (ucast (scr_color s)));
       t = (if unat (scr_x s) < 79 then s\<lparr>scr_mem := drawn, scr_x := scr_x s + 1\<rparr>
            else if unat (scr_y s) < 24 then s\<lparr>scr_mem := drawn, scr_x := 0, scr_y := scr_y s + 1\<rparr>
            else s\<lparr>scr_x := 0, scr_mem := scrolled (blank_cell s) drawn\<rparr>)
     in vga_putc hw ch (s, d) = (t, vga_update_cursor hw t d)
        \<and> unat (scr_y t) * 80 + unat (scr_x t) = (if p < 1999 then p + 1 else 1920)"
proof -
  define w where "w = vga_write_mem (scr_x s) (scr_y s) (scast ch + push_bit 8 (ucast (scr_color s))) s"
  have w: "w = s\<lparr>scr_mem := (scr_mem s)(unat (scr_y s) * 80 + unat (scr_x s) := scast ch + push_bit 8 (ucast (scr_color s)))\<rparr>"
    by (simp add: w_def vga_write_mem_def screen_size)
  have ok: "unat (scr_x s) < 80" "unat (scr_y s) < 25" using assms(1) by (simp_all add: screen_ok_def)
  have x1: "unat (scr_x s + 1) = unat (scr_x s) + 1" using ok by (simp add: unat_suc_u8)
  have y1: "unat (scr_y s + 1) = unat (scr_y s) + 1" using ok by (simp add: unat_suc_u8)
  have wrap: "putc_wrap (w\<lparr>scr_x := scr_x s + 1\<rparr>) =
     (if unat (scr_x s) < 79 then w\<lparr>scr_x := scr_x s + 1\<rparr> else vga_newline (w\<lparr>scr_x := scr_x s + 1\<rparr>))"
    using ok by (auto simp: putc_wrap_def x1)
  have pos: "unat (scr_y s) * 80 + unat (scr_x s) < 1999 \<longleftrightarrow> unat (scr_x s) < 79 \<or> unat (scr_y s) < 24"
    using ok by linarith
  have eq: "vga_putc hw ch (s, d) = (putc_wrap (w\<lparr>scr_x := scr_x s + 1\<rparr>), vga_update_cursor hw (putc_wrap (w\<lparr>scr_x := scr_x s + 1\<rparr>)) d)"
    unfolding vga_putc_eq putc_printable [OF assms(2,3)] w_def by simp
  show ?thesis
    unfolding Let_def eq wrap using ok x1 y1 pos
    by (auto simp: w vga_newline_eq blank_cell_def)
qed

text \<open>On a terminated string \<^verbatim>\<open>vga_write\<close> returns, having written each character.\<close>

lemma c_string_Cons: "c_string m a (x # xs) \<Longrightarrow> m a = x \<and> x \<noteq> 0 \<and> c_string m (a + 1) xs"
  by (auto simp: c_string_def bytes_at_Suc add.assoc add.commute [of 1])

lemma vga_write_loop_fold:
  "c_string m (str + i) xs \<Longrightarrow> vga_write_loop hw m str i sd = Some (fold (vga_putc hw) xs sd)"
proof (induction xs arbitrary: i sd)
  case Nil
  then show ?case by (simp add: c_string_def vga_write_loop.simps)
next
  case (Cons x xs)
  have "m (str + i) = x" "x \<noteq> 0" "c_string m (str + (i + 1)) xs"
    using c_string_Cons [OF Cons.prems] by (simp_all add: add.assoc)
  then show ?case using Cons.IH [of "i + 1"] by (simp add: vga_write_loop.simps [of hw m str i])
qed

definition glyph :: "vga_screen \<Rightarrow> u8 \<Rightarrow> u16" where
  "glyph s ch = scast ch + push_bit 8 (ucast (scr_color s))"

definition cursor :: "vga_screen \<Rightarrow> nat" where
  "cursor s = unat (scr_y s) * 80 + unat (scr_x s)"

definition printable :: "u8 \<Rightarrow> bool" where
  "printable ch \<longleftrightarrow> 0x20 \<le> sint ch \<and> sint ch \<le> 0x7E"

lemma putc_text_step:
  assumes "screen_ok s" and "printable ch" and "cursor s < 1999" and "vga_putc hw ch (s, d) = (t, e)"
  shows "screen_ok t" and "scr_mem t = (scr_mem s)(cursor s := glyph s ch)" and "cursor t = cursor s + 1"
    and "glyph t = glyph s"
proof -
  show "screen_ok t" by (rule vga_putc_ok(1) [OF assms(1,4)])
  have "unat (scr_x s) < 79 \<or> unat (scr_y s) < 24"
    using assms(1,3) unfolding screen_ok_def cursor_def by linarith
  then show "scr_mem t = (scr_mem s)(cursor s := glyph s ch)" and "cursor t = cursor s + 1" and "glyph t = glyph s"
    using putc_draws [OF assms(1), of ch hw d] assms(2,3,4)
    by (auto simp: Let_def printable_def cursor_def glyph_def [abs_def] split: if_splits)
qed

lemma fold_putc_text:
  assumes "screen_ok s" and "\<forall>ch \<in> set xs. printable ch" and "cursor s + length xs < 2000"
    and "fold (vga_putc hw) xs (s, d) = (t, e)"
  shows "screen_ok t \<and> cursor t = cursor s + length xs
     \<and> scr_mem t = (\<lambda>i. if cursor s \<le> i \<and> i < cursor s + length xs then glyph s (xs ! (i - cursor s)) else scr_mem s i)"
  using assms
proof (induction xs arbitrary: s d)
  case Nil
  then show ?case by (auto simp: fun_eq_iff)
next
  case (Cons x xs)
  obtain s1 d1 where step: "vga_putc hw x (s, d) = (s1, d1)" by fastforce
  note st = putc_text_step [OF Cons.prems(1) _ _ step]
  have s1: "screen_ok s1" "scr_mem s1 = (scr_mem s)(cursor s := glyph s x)" "cursor s1 = cursor s + 1" "glyph s1 = glyph s"
    using Cons.prems st by simp_all
  then have "screen_ok t \<and> cursor t = cursor s1 + length xs
     \<and> scr_mem t = (\<lambda>i. if cursor s1 \<le> i \<and> i < cursor s1 + length xs then glyph s1 (xs ! (i - cursor s1)) else scr_mem s1 i)"
    using Cons.prems step by (intro Cons.IH [of s1 d1]) simp_all
  then show ?case
    using s1 by (auto simp: fun_eq_iff nth_Cons' Suc_diff_le)
qed

section \<open>Properties\<close>

text \<open>C20: whatever characters are written after \<^verbatim>\<open>vga_init\<close>, the cursor stays on the
  screen of 80 columns and 25 lines, and no memory beyond the 2000 cells of the text buffer is
  changed.\<close>

theorem vga_stays_on_screen:
  assumes "reachable (vga_start m0) (vga_step hw) (s, d)"
  shows "unat (scr_x s) < SCREEN_LENGTH \<and> unat (scr_y s) < SCREEN_HEIGHT
     \<and> (\<forall>i. SCREEN_LENGTH * SCREEN_HEIGHT \<le> i \<longrightarrow> scr_mem s i = m0 i)"
  using console.reachable_invar [OF assms] by (simp add: screen_ok_def screen_size)

definition vga_example :: vga_screen where
  "vga_example = \<lparr>scr_color = 0, scr_x = 200, scr_y = 200, scr_tab_sz = 0, scr_mem = (\<lambda>i. of_nat i),
     scr_lock = \<lparr>ID = UNKNOWN, locked = 1, call_stack = 0, lock_cpu = 0\<rparr>\<rparr>"

theorem vga_stays_on_screen_witness:
  "unat (scr_x (fst (vga_putc (recorder (\<lambda>_. 0)) 0x0A (the (vga_init White Blue vga_example), [])))) < SCREEN_LENGTH"
proof -
  let ?s = "the (vga_init White Blue vga_example)" and ?hw = "recorder (\<lambda>_. 0)"
  have "vga_init White Blue vga_example = Some ?s" by (simp add: vga_init_eq)
  then have "vga_start (scr_mem vga_example) (?s, [] :: (u16 \<times> u8) list)" unfolding vga_start_def by fastforce
  then have "reachable (vga_start (scr_mem vga_example)) (vga_step ?hw) (vga_putc ?hw 0x0A (?s, []))"
    by (rule reachable.next_state [OF reachable.start]) (rule vga_step.intros)
  then show ?thesis
    using vga_stays_on_screen [of "scr_mem vga_example" ?hw] by (metis prod.collapse)
qed

text \<open>A printable character is drawn in the cell of the cursor in the current colour. The
  cursor moves right, at the end of a line to the next line, and at the end of the last line all
  lines move up by one and the last becomes blank. The position the cursor registers receive is
  that of the new cursor.\<close>

lemma vga_putc_draws:
  assumes "screen_ok s" and "0x20 \<le> sint ch" and "sint ch \<le> 0x7E"
  shows "let p = unat (scr_y s) * 80 + unat (scr_x s);
       drawn = (scr_mem s)(p := scast ch + push_bit 8 (ucast (scr_color s)));
       t = (if unat (scr_x s) < 79 then s\<lparr>scr_mem := drawn, scr_x := scr_x s + 1\<rparr>
            else if unat (scr_y s) < 24 then s\<lparr>scr_mem := drawn, scr_x := 0, scr_y := scr_y s + 1\<rparr>
            else s\<lparr>scr_x := 0, scr_mem := scrolled (blank_cell s) drawn\<rparr>)
     in vga_putc hw ch (s, d) = (t, vga_update_cursor hw t d)
        \<and> unat (scr_y t) * 80 + unat (scr_x t) = (if p < 1999 then p + 1 else 1920)"
  by (rule putc_draws) (use assms in simp_all)

lemma vga_putc_draws_witness:
  "scr_mem (fst (vga_putc (recorder (\<lambda>_. 0)) 0x41 (vga_example\<lparr>scr_x := 79, scr_y := 24, scr_tab_sz := 4, scr_color := 7\<rparr>, []))) 1919
     = 0x741"
  using vga_putc_draws [of "vga_example\<lparr>scr_x := 79, scr_y := 24, scr_tab_sz := 4, scr_color := 7\<rparr>" "0x41" "recorder (\<lambda>_. 0)" "[]"]
  by (simp add: screen_ok_def Let_def scrolled_def push_bit_eq_mult)

text \<open>Writing a terminated string of printable characters that fits on the rest of the
  screen returns, the string can be read back from the cells from the cursor on, every other
  cell is unchanged, and the cursor is behind the text.\<close>

lemma vga_write_text:
  assumes "screen_ok s" and "c_string m str xs" and "\<forall>ch \<in> set xs. printable ch" and "cursor s + length xs < 2000"
  shows "\<exists>t e. vga_write hw m str (s, d) = Some (t, e) \<and> cursor t = cursor s + length xs
     \<and> (\<forall>k < length xs. scr_mem t (cursor s + k) = glyph s (xs ! k))
     \<and> (\<forall>i. i < cursor s \<or> cursor s + length xs \<le> i \<longrightarrow> scr_mem t i = scr_mem s i)"
proof -
  obtain t e where te: "fold (vga_putc hw) xs (s, d) = (t, e)" by fastforce
  have "vga_write hw m str (s, d) = Some (t, e)"
    using vga_write_loop_fold [of m str 0 xs hw "(s, d)"] assms(2) te by (simp add: vga_write_def)
  then show ?thesis using fold_putc_text [OF assms(1,3,4) te] by auto
qed

lemma vga_write_text_witness:
  "\<exists>t e. vga_write (recorder (\<lambda>_. 0)) ((\<lambda>_. 0)(0x500 := 0x4F, 0x501 := 0x4B)) 0x500
      (vga_example\<lparr>scr_x := 79, scr_y := 3, scr_tab_sz := 4, scr_color := 7\<rparr>, []) = Some (t, e)
    \<and> scr_mem t 320 = 0x74B"
proof -
  let ?s = "vga_example\<lparr>scr_x := 79, scr_y := 3, scr_tab_sz := 4, scr_color := 7\<rparr>" and ?xs = "[0x4F, 0x4B] :: u8 list"
  let ?m = "(\<lambda>_. 0)(0x500 := 0x4F, 0x501 := 0x4B)"
  have str: "c_string ?m 0x500 ?xs" by (simp add: c_string_def bytes_at_def)
  have ok: "screen_ok ?s" by (simp add: screen_ok_def)
  have pr: "\<forall>ch \<in> set ?xs. printable ch" by (simp add: printable_def)
  have cur: "cursor ?s = 319" and fit: "cursor ?s + length ?xs < 2000" by (simp_all add: cursor_def)
  obtain t e where t: "vga_write (recorder (\<lambda>_. 0)) ?m 0x500 (?s, []) = Some (t, e)"
    "\<forall>k < length ?xs. scr_mem t (cursor ?s + k) = glyph ?s (?xs ! k)"
    using vga_write_text [OF ok str pr fit, of "recorder (\<lambda>_. 0)" "[]"] by blast
  from t(2) [rule_format, of 1] have "scr_mem t 320 = 0x74B" by (simp add: cur glyph_def push_bit_eq_mult)
  with t(1) show ?thesis by blast
qed

end
