(* ===== verification/Printf.thy ===== *)
theory Printf
  imports Vga
begin

text \<open>
  Formatted output, \<^verbatim>\<open>src/lib/stdio.c\<close>. \<^verbatim>\<open>do_printf\<close> reads its format
  through a pointer and hands every character to a sink. \<open>rd\<close> is the memory as the
  current state shows it, \<open>fn\<close> the sink, and \<open>va\<close> the words of the variable
  arguments in order. A string that never ends makes \<^verbatim>\<open>do_printf\<close> run forever, which is
  \<^const>\<open>None\<close>; the array \<^verbatim>\<open>buf\<close> is the list of the characters before its NUL.
\<close>

section \<open>Operations\<close>

definition PR_LJ :: u32 where "PR_LJ = 0x01"
definition PR_CA :: u32 where "PR_CA = 0x02"
definition PR_SG :: u32 where "PR_SG = 0x04"
definition PR_32 :: u32 where "PR_32 = 0x08"
definition PR_16 :: u32 where "PR_16 = 0x10"
definition PR_WS :: u32 where "PR_WS = 0x20"
definition PR_LZ :: u32 where "PR_LZ = 0x40"
definition PR_FP :: u32 where "PR_FP = 0x80"
definition PR_BUFLEN :: nat where "PR_BUFLEN = 16"

datatype radix = R8 | R10 | R16

fun radix_val :: "radix \<Rightarrow> u32" where
  "radix_val R8 = 8" | "radix_val R10 = 10" | "radix_val R16 = 16"

text \<open>Where the characters to emit are: in \<^verbatim>\<open>buf\<close>, or at a pointer from the arguments.\<close>

datatype emit_source = Buf "u8 list" | Ptr u32

record pf =
  pf_st :: nat
  pf_flags :: u32
  pf_count :: u32
  pf_given_wd :: u32
  pf_arg :: nat

definition pf_reset :: "pf \<Rightarrow> pf" where
  "pf_reset p = p\<lparr>pf_st := 0, pf_flags := 0, pf_given_wd := 0\<rparr>"

definition pf_put :: "(u32 \<Rightarrow> 's \<Rightarrow> 's) \<Rightarrow> u32 \<Rightarrow> pf \<times> 's \<Rightarrow> pf \<times> 's" where
  "pf_put fn c ps = ((fst ps)\<lparr>pf_count := pf_count (fst ps) + 1\<rparr>, fn c (snd ps))"

definition digit_char :: "u32 \<Rightarrow> u32 \<Rightarrow> u8" where
  "digit_char flags temp =
     (if temp < 10 then ucast (temp + 0x30)
      else if flags AND PR_CA \<noteq> 0 then ucast (temp - 10 + 0x41)
      else ucast (temp - 10 + 0x61))"

lemma radix_decreases: "num div radix_val r \<noteq> 0 \<Longrightarrow> unat (num div radix_val r) < unat num"
proof -
  assume "num div radix_val r \<noteq> 0"
  then have "num \<noteq> 0" by auto
  moreover have "1 < unat (radix_val r)" by (cases r) simp_all
  ultimately show ?thesis by (simp add: unat_div_distrib unat_gt_0)
qed

function pf_digits :: "u32 \<Rightarrow> radix \<Rightarrow> u32 \<Rightarrow> u8 list \<Rightarrow> u8 list" where
  "pf_digits flags r num buf =
     (let temp = num mod radix_val r; buf = digit_char flags temp # buf; num = num div radix_val r
      in if num \<noteq> 0 then pf_digits flags r num buf else buf)"
  by pat_completeness auto
termination
  by (relation "measure (\<lambda>(f, r, n, b). unat n)") (auto simp: radix_decreases)

declare pf_digits.simps [simp del]

text \<open>The padding loops, which run once for each step of \<^verbatim>\<open>given_wd\<close>.\<close>

fun pf_pad :: "(u32 \<Rightarrow> 's \<Rightarrow> 's) \<Rightarrow> u32 \<Rightarrow> nat \<Rightarrow> pf \<times> 's \<Rightarrow> pf \<times> 's" where
  "pf_pad fn c 0 ps = ps"
| "pf_pad fn c (Suc n) ps =
     (let (p, s) = pf_put fn c ps in pf_pad fn c n (p\<lparr>pf_given_wd := pf_given_wd p - 1\<rparr>, s))"

fun emit_buf :: "(u32 \<Rightarrow> 's \<Rightarrow> 's) \<Rightarrow> u8 list \<Rightarrow> pf \<times> 's \<Rightarrow> pf \<times> 's" where
  "emit_buf fn [] ps = ps"
| "emit_buf fn (b # bs) ps = (if b \<noteq> 0 then emit_buf fn bs (pf_put fn (ucast b) ps) else ps)"

partial_function (option) emit_ptr ::
  "('s \<Rightarrow> mem) \<Rightarrow> (u32 \<Rightarrow> 's \<Rightarrow> 's) \<Rightarrow> u32 \<Rightarrow> pf \<times> 's \<Rightarrow> (pf \<times> 's) option" where
  "emit_ptr rd fn a ps =
     (if rd (snd ps) a \<noteq> 0 then emit_ptr rd fn (a + 1) (pf_put fn (ucast (rd (snd ps) a)) ps) else Some ps)"

definition emit_chars ::
  "('s \<Rightarrow> mem) \<Rightarrow> (u32 \<Rightarrow> 's \<Rightarrow> 's) \<Rightarrow> emit_source \<Rightarrow> pf \<times> 's \<Rightarrow> (pf \<times> 's) option" where
  "emit_chars rd fn w ps = (case w of Buf bs \<Rightarrow> Some (emit_buf fn bs ps) | Ptr a \<Rightarrow> emit_ptr rd fn a ps)"

definition emit2 ::
  "('s \<Rightarrow> mem) \<Rightarrow> (u32 \<Rightarrow> 's \<Rightarrow> 's) \<Rightarrow> emit_source \<Rightarrow> u32 \<Rightarrow> pf \<times> 's \<Rightarrow> (pf \<times> 's) option" where
  "emit2 rd fn w actual_wd ps =
     (let flags = pf_flags (fst ps);
          ps = (if flags AND PR_LJ = 0
                then pf_pad fn (if flags AND PR_LZ \<noteq> 0 then 0x30 else 0x20)
                       (unat (pf_given_wd (fst ps)) - unat actual_wd) ps
                else ps);
          ps = (if flags AND (PR_WS OR PR_LZ) = PR_WS then pf_put fn 0x2D ps else ps)
      in Option.bind (emit_chars rd fn w ps) (\<lambda>(p, s).
         let p = p\<lparr>pf_given_wd := (if pf_given_wd p < actual_wd then 0 else pf_given_wd p - actual_wd)\<rparr>
         in Some (pf_pad fn 0x20 (unat (pf_given_wd p)) (p, s))))"

definition emit ::
  "('s \<Rightarrow> mem) \<Rightarrow> (u32 \<Rightarrow> 's \<Rightarrow> 's) \<Rightarrow> emit_source \<Rightarrow> pf \<times> 's \<Rightarrow> (pf \<times> 's) option" where
  "emit rd fn w ps =
     Option.bind (case w of Buf bs \<Rightarrow> Some (of_nat (length (takeWhile (\<lambda>b. b \<noteq> 0) bs)))
                  | Ptr a \<Rightarrow> strlen a (rd (snd ps))) (\<lambda>len.
     let flags = pf_flags (fst ps);
         actual_wd = (if flags AND PR_WS \<noteq> 0 then len + 1 else len);
         ps = (if flags AND (PR_WS OR PR_LZ) = PR_WS OR PR_LZ then pf_put fn 0x2D ps else ps)
     in emit2 rd fn w actual_wd ps)"

definition va_next :: "(nat \<Rightarrow> u32) \<Rightarrow> pf \<Rightarrow> u32 \<times> pf" where
  "va_next va p = (va (pf_arg p), p\<lparr>pf_arg := pf_arg p + 1\<rparr>)"

text \<open>\<^verbatim>\<open>DO_NUM\<close>: with or without a size modifier one word is read.\<close>

definition do_num ::
  "('s \<Rightarrow> mem) \<Rightarrow> (u32 \<Rightarrow> 's \<Rightarrow> 's) \<Rightarrow> (nat \<Rightarrow> u32) \<Rightarrow> radix \<Rightarrow> pf \<times> 's \<Rightarrow> (pf \<times> 's) option" where
  "do_num rd fn va r ps =
     (let (p, s) = ps; (num, p) = va_next va p;
          (num, p) = (if pf_flags p AND PR_SG \<noteq> 0 \<and> sint num < 0
                      then (- num, p\<lparr>pf_flags := pf_flags p OR PR_WS\<rparr>) else (num, p))
      in emit rd fn (Buf (pf_digits (pf_flags p) r num [])) (p, s))"

definition pf_flag :: "u32 \<Rightarrow> pf \<times> 's \<Rightarrow> pf \<times> 's" where
  "pf_flag f ps = ((fst ps)\<lparr>pf_flags := pf_flags (fst ps) OR f\<rparr>, snd ps)"

text \<open>State 4. Its inner switch ends in \<^verbatim>\<open>break\<close>, which falls into the outer
  \<^verbatim>\<open>default\<close>: everything is reset.\<close>

definition pf_case4 ::
  "('s \<Rightarrow> mem) \<Rightarrow> (u32 \<Rightarrow> 's \<Rightarrow> 's) \<Rightarrow> (nat \<Rightarrow> u32) \<Rightarrow> u8 \<Rightarrow> pf \<times> 's \<Rightarrow> (pf \<times> 's) option" where
  "pf_case4 rd fn va c ps =
     Option.bind
       (if c = 0x58 then do_num rd fn va R16 (pf_flag PR_CA ps)
        else if c = 0x78 \<or> c = 0x70 \<or> c = 0x6E then do_num rd fn va R16 ps
        else if c = 0x64 \<or> c = 0x69 then do_num rd fn va R10 (pf_flag PR_SG ps)
        else if c = 0x75 then do_num rd fn va R10 ps
        else if c = 0x6F then do_num rd fn va R8 ps
        else if c = 0x63 then
          let (p, s) = ps; p = p\<lparr>pf_flags := pf_flags p AND NOT PR_LZ\<rparr>; (v, p) = va_next va p
          in emit2 rd fn (Buf [ucast v]) 1 (p, s)
        else if c = 0x73 then
          let (p, s) = ps; p = p\<lparr>pf_flags := pf_flags p AND NOT PR_LZ\<rparr>; (v, p) = va_next va p
          in emit rd fn (Ptr v) (p, s)
        else Some ps)
       (\<lambda>(p, s). Some (pf_reset p, s))"

definition pf_case3 ::
  "('s \<Rightarrow> mem) \<Rightarrow> (u32 \<Rightarrow> 's \<Rightarrow> 's) \<Rightarrow> (nat \<Rightarrow> u32) \<Rightarrow> u8 \<Rightarrow> pf \<times> 's \<Rightarrow> (pf \<times> 's) option" where
  "pf_case3 rd fn va c ps =
     (if c = 0x46 then Some (pf_flag PR_FP ps)
      else if c = 0x4E then Some ps
      else if c = 0x6C then Some (pf_flag PR_32 ps)
      else if c = 0x68 then Some (pf_flag PR_16 ps)
      else pf_case4 rd fn va c ((fst ps)\<lparr>pf_st := 4\<rparr>, snd ps))"

definition pf_case2 ::
  "('s \<Rightarrow> mem) \<Rightarrow> (u32 \<Rightarrow> 's \<Rightarrow> 's) \<Rightarrow> (nat \<Rightarrow> u32) \<Rightarrow> u8 \<Rightarrow> pf \<times> 's \<Rightarrow> (pf \<times> 's) option" where
  "pf_case2 rd fn va c ps =
     (if 0x30 \<le> sint c \<and> sint c \<le> 0x39
      then Some ((fst ps)\<lparr>pf_given_wd := 10 * pf_given_wd (fst ps) + (scast c - 0x30)\<rparr>, snd ps)
      else pf_case3 rd fn va c ((fst ps)\<lparr>pf_st := 3\<rparr>, snd ps))"

text \<open>States 0 and 1 may advance the format pointer, so they return it.\<close>

definition pf_case1 ::
  "('s \<Rightarrow> mem) \<Rightarrow> (u32 \<Rightarrow> 's \<Rightarrow> 's) \<Rightarrow> (nat \<Rightarrow> u32) \<Rightarrow> u32 \<Rightarrow> pf \<times> 's \<Rightarrow> (u32 \<times> pf \<times> 's) option" where
  "pf_case1 rd fn va fmt ps =
     (let (p, s) = ps; c = rd s fmt in
      if c = 0x25 then
        let (p, s) = pf_put fn (scast c) (p, s) in Some (fmt, pf_reset p, s)
      else if c = 0x2D then
        Some (fmt, if pf_flags p AND PR_LJ \<noteq> 0 then pf_reset p else p\<lparr>pf_flags := pf_flags p OR PR_LJ\<rparr>, s)
      else
        let p = p\<lparr>pf_st := 2\<rparr>;
            (fmt, p) = (if c = 0x30 then (fmt + 1, p\<lparr>pf_flags := pf_flags p OR PR_LZ\<rparr>) else (fmt, p))
        in Option.bind (pf_case2 rd fn va (rd s fmt) (p, s)) (\<lambda>ps. Some (fmt, ps)))"

definition pf_step ::
  "('s \<Rightarrow> mem) \<Rightarrow> (u32 \<Rightarrow> 's \<Rightarrow> 's) \<Rightarrow> (nat \<Rightarrow> u32) \<Rightarrow> u32 \<Rightarrow> pf \<times> 's \<Rightarrow> (u32 \<times> pf \<times> 's) option" where
  "pf_step rd fn va fmt ps =
     (let c = rd (snd ps) fmt; st = pf_st (fst ps) in
      if st = 0 then
        if c \<noteq> 0x25 then Some (fmt, pf_put fn (scast c) ps)
        else pf_case1 rd fn va (fmt + 1) ((fst ps)\<lparr>pf_st := 1\<rparr>, snd ps)
      else if st = 1 then pf_case1 rd fn va fmt ps
      else if st = 2 then Option.bind (pf_case2 rd fn va c ps) (\<lambda>ps. Some (fmt, ps))
      else if st = 3 then Option.bind (pf_case3 rd fn va c ps) (\<lambda>ps. Some (fmt, ps))
      else if st = 4 then Option.bind (pf_case4 rd fn va c ps) (\<lambda>ps. Some (fmt, ps))
      else Some (fmt, pf_reset (fst ps), snd ps))"

partial_function (option) do_printf_loop ::
  "('s \<Rightarrow> mem) \<Rightarrow> (u32 \<Rightarrow> 's \<Rightarrow> 's) \<Rightarrow> (nat \<Rightarrow> u32) \<Rightarrow> u32 \<Rightarrow> pf \<times> 's \<Rightarrow> (pf \<times> 's) option" where
  "do_printf_loop rd fn va fmt ps =
     (if rd (snd ps) fmt \<noteq> 0
      then Option.bind (pf_step rd fn va fmt ps) (\<lambda>(fmt, ps). do_printf_loop rd fn va (fmt + 1) ps)
      else Some ps)"

definition do_printf ::
  "('s \<Rightarrow> mem) \<Rightarrow> (u32 \<Rightarrow> 's \<Rightarrow> 's) \<Rightarrow> (nat \<Rightarrow> u32) \<Rightarrow> u32 \<Rightarrow> 's \<Rightarrow> (u32 \<times> 's) option" where
  "do_printf rd fn va fmt s =
     Option.bind (do_printf_loop rd fn va fmt
         (\<lparr>pf_st = 0, pf_flags = 0, pf_count = 0, pf_given_wd = 0, pf_arg = 0\<rparr>, s))
       (\<lambda>(p, s). Some (pf_count p, s))"

section \<open>The functions of the library\<close>

text \<open>The sink of \<^verbatim>\<open>vsprintf\<close> stores at the pointer it keeps.\<close>

definition vsprintf_help :: "u32 \<Rightarrow> mem \<times> u32 \<Rightarrow> mem \<times> u32" where
  "vsprintf_help c mp = ((fst mp)(snd mp := ucast c), snd mp + 1)"

definition vsprintf :: "u32 \<Rightarrow> u32 \<Rightarrow> (nat \<Rightarrow> u32) \<Rightarrow> mem \<Rightarrow> (u32 \<times> mem) option" where
  "vsprintf buf fmt va m =
     Option.bind (do_printf fst vsprintf_help va fmt (m, buf)) (\<lambda>(rv, m, _). Some (rv, m(buf + rv := 0)))"

definition sprintf :: "u32 \<Rightarrow> u32 \<Rightarrow> (nat \<Rightarrow> u32) \<Rightarrow> mem \<Rightarrow> (u32 \<times> mem) option" where
  "sprintf buf fmt args m = vsprintf buf fmt args m"

text \<open>The console state: memory, which the console leaves alone, the screen and the ports.\<close>

type_synonym 'd console = "mem \<times> vga_screen \<times> 'd"

definition vprintf_help :: "'d device \<Rightarrow> u32 \<Rightarrow> 'd console \<Rightarrow> 'd console" where
  "vprintf_help hw c s = (fst s, vga_putc hw (ucast c) (snd s))"

definition vprintf_bochs :: "'d device \<Rightarrow> u32 \<Rightarrow> 'd console \<Rightarrow> 'd console" where
  "vprintf_bochs hw c s = (case s of (m, scr, d) \<Rightarrow> (m, scr, outb hw 0xe9 (ucast c) d))"

definition vprintf :: "'d device \<Rightarrow> u32 \<Rightarrow> (nat \<Rightarrow> u32) \<Rightarrow> 'd console \<Rightarrow> (u32 \<times> 'd console) option" where
  "vprintf hw fmt va s = do_printf fst (vprintf_help hw) va fmt s"

definition printf :: "'d device \<Rightarrow> u32 \<Rightarrow> (nat \<Rightarrow> u32) \<Rightarrow> 'd console \<Rightarrow> (u32 \<times> 'd console) option" where
  "printf hw fmt args s = vprintf hw fmt args s"

datatype KM_Level = K_BOCHS_OUT | K_DEBUG | K_LOW_INFO | K_HIGH_INFO | K_WARNING | K_ERROR | K_USER | K_FATAL

fun level_code :: "KM_Level \<Rightarrow> nat" where
  "level_code K_BOCHS_OUT = 0" | "level_code K_DEBUG = 1" | "level_code K_LOW_INFO = 2"
| "level_code K_HIGH_INFO = 3" | "level_code K_WARNING = 4" | "level_code K_ERROR = 5"
| "level_code K_USER = 6" | "level_code K_FATAL = 7"

definition kprintf ::
  "'d device \<Rightarrow> KM_Level \<Rightarrow> u32 \<Rightarrow> (nat \<Rightarrow> u32) \<Rightarrow> 'd console \<Rightarrow> (u32 \<times> 'd console) option" where
  "kprintf hw kl fmt args s =
     (if DEBUG \<le> level_code kl then
        if kl = K_BOCHS_OUT then do_printf fst (vprintf_bochs hw) args fmt s
        else do_printf fst (vprintf_help hw) args fmt s
      else Some (0, s))"

section \<open>Numbers\<close>

definition digit_val :: "u8 \<Rightarrow> nat" where
  "digit_val b = (if b \<le> 0x39 then unat b - 0x30 else if b \<le> 0x46 then unat b - 0x41 + 10 else unat b - 0x61 + 10)"

definition num_val :: "radix \<Rightarrow> u8 list \<Rightarrow> nat" where
  "num_val r bs = foldl (\<lambda>a b. a * unat (radix_val r) + digit_val b) 0 bs"

lemma radix_bounds: "1 < unat (radix_val r)" "8 \<le> unat (radix_val r)" "unat (radix_val r) \<le> 16"
  by (cases r; simp)+

lemma unat_digit_char:
  assumes "temp < 16"
  shows "unat (digit_char flags temp)
     = (if unat temp < 10 then unat temp + 0x30 else if flags AND PR_CA \<noteq> 0 then unat temp + 0x37 else unat temp + 0x57)"
proof -
  have t: "unat temp < 16" and ten: "temp < 10 \<longleftrightarrow> unat temp < 10" using assms by (simp_all add: word_less_nat_alt)
  have low: "unat (ucast (k + temp) :: u8) = unat temp + unat k" "unat (ucast (temp + k) :: u8) = unat temp + unat k"
    if "unat k < 100" for k :: u32
    using that t by (simp_all add: unsigned_ucast_eq take_bit_eq_mod unat_word_ariths)
  show ?thesis by (simp add: digit_char_def ten low)
qed

lemma digit_val_char: "temp < 16 \<Longrightarrow> digit_val (digit_char flags temp) = unat temp"
  using unat_digit_char [of temp flags] by (auto simp: digit_val_def word_le_nat_alt word_less_nat_alt)

lemma pf_digits_append: "pf_digits flags r num buf = pf_digits flags r num [] @ buf"
proof (induction "unat num" arbitrary: num buf rule: less_induct)
  case less
  show ?case
  proof (cases "num div radix_val r = 0")
    case True
    then show ?thesis by (simp add: pf_digits.simps [of flags r num] Let_def)
  next
    case False
    note IH = less [OF radix_decreases [OF False]]
    show ?thesis
      using False IH [of "digit_char flags (num mod radix_val r) # buf"] IH [of "[digit_char flags (num mod radix_val r)]"]
      by (simp add: pf_digits.simps [of flags r num] Let_def)
  qed
qed

lemma pf_digits_snoc:
  "pf_digits flags r num [] = (if num div radix_val r \<noteq> 0 then pf_digits flags r (num div radix_val r) [] else [])
     @ [digit_char flags (num mod radix_val r)]"
  using pf_digits_append [of flags r "num div radix_val r" "[digit_char flags (num mod radix_val r)]"]
  by (simp add: pf_digits.simps [of flags r num] Let_def)

lemma mod_radix_less: "num mod radix_val r < 16" "unat (num mod radix_val r) < unat (radix_val r)"
proof -
  show "unat (num mod radix_val r) < unat (radix_val r)"
    using radix_bounds(1) [of r] by (simp add: unat_mod_distrib)
  then show "num mod radix_val r < 16"
    using radix_bounds(3) [of r] by (simp add: word_less_nat_alt)
qed

lemma num_val_snoc: "num_val r (bs @ [b]) = num_val r bs * unat (radix_val r) + digit_val b"
  by (simp add: num_val_def)

lemma num_val_digits: "num_val r (pf_digits flags r num []) = unat num"
proof (induction "unat num" arbitrary: num rule: less_induct)
  case less
  have "num_val r (if num div radix_val r \<noteq> 0 then pf_digits flags r (num div radix_val r) [] else [])
      = unat (num div radix_val r)"
    using less [OF radix_decreases [of num r]] by (auto simp: num_val_def)
  then have "num_val r (pf_digits flags r num [])
      = unat num div unat (radix_val r) * unat (radix_val r) + unat num mod unat (radix_val r)"
    unfolding pf_digits_snoc [of flags r num] num_val_snoc
    by (simp add: digit_val_char mod_radix_less unat_div_distrib unat_mod_distrib)
  then show ?case by simp
qed

lemma length_digits: "0 < k \<Longrightarrow> unat num < unat (radix_val r) ^ k \<Longrightarrow> length (pf_digits flags r num []) \<le> k"
proof (induction k arbitrary: num)
  case (Suc k)
  show ?case
  proof (cases "num div radix_val r = 0")
    case True
    then show ?thesis by (simp add: pf_digits_snoc [of flags r num])
  next
    case False
    have "unat (num div radix_val r) < unat (radix_val r) ^ k"
      using Suc.prems(2) radix_bounds(1) [of r]
      by (simp add: unat_div_distrib div_less_iff_less_mult mult.commute)
    moreover have "0 < k"
      using calculation False by (cases k) (simp_all add: unat_eq_zero)
    ultimately show ?thesis
      using Suc.IH False by (simp add: pf_digits_snoc [of flags r num])
  qed
qed simp

lemma digits_canonical: "num \<noteq> 0 \<Longrightarrow> digit_val (hd (pf_digits flags r num [])) \<noteq> 0"
proof (induction "unat num" arbitrary: num rule: less_induct)
  case less
  show ?case
  proof (cases "num div radix_val r = 0")
    case True
    then have "num mod radix_val r = num"
      using div_mult_mod_eq [of num "radix_val r"] by simp
    with True less.prems show ?thesis
      using mod_radix_less(1) [of num r] by (simp add: pf_digits_snoc [of flags r num] digit_val_char unat_eq_zero)
  next
    case False
    have "pf_digits flags r (num div radix_val r) [] \<noteq> []" by (subst pf_digits_snoc) simp
    then show ?thesis
      using less.hyps [OF radix_decreases [OF False] False] False by (simp add: pf_digits_snoc [of flags r num])
  qed
qed

lemma digits_no_NUL: "0 \<notin> set (pf_digits flags r num [])"
proof (induction "unat num" arbitrary: num rule: less_induct)
  case less
  have "digit_char flags (num mod radix_val r) \<noteq> 0"
    using unat_digit_char [OF mod_radix_less(1), of flags num r] by (auto split: if_splits)
  then show ?case
    using less [OF radix_decreases [of num r]] by (auto simp: pf_digits_snoc [of flags r num])
qed

section \<open>The reference: directives and the text they stand for\<close>

text \<open>A format is a sequence of literal characters, \<^verbatim>\<open>%%\<close>, and conversions with the
  flags \<^verbatim>\<open>-\<close> and \<^verbatim>\<open>0\<close>, the digits of a width, size modifiers and the conversion
  character.\<close>

datatype directive = Lit u8 | Percent | Conv bool bool "u8 list" "u8 list" u8

definition is_digit :: "u8 \<Rightarrow> bool" where
  "is_digit c \<longleftrightarrow> 0x30 \<le> sint c \<and> sint c \<le> 0x39"

definition modifiers :: "u8 list" where "modifiers = [0x46, 0x4E, 0x6C, 0x68]"

definition conversions :: "u8 list" where
  "conversions = [0x58, 0x78, 0x70, 0x6E, 0x64, 0x69, 0x75, 0x6F, 0x63, 0x73]"

fun dir_ok :: "directive \<Rightarrow> bool" where
  "dir_ok (Lit c) \<longleftrightarrow> c \<noteq> 0 \<and> c \<noteq> 0x25"
| "dir_ok Percent \<longleftrightarrow> True"
| "dir_ok (Conv lj lz ds ms c) \<longleftrightarrow>
     list_all is_digit ds \<and> (\<not> lz \<longrightarrow> ds = [] \<or> hd ds \<noteq> 0x30) \<and> set ms \<subseteq> set modifiers \<and> c \<in> set conversions"

fun dir_text :: "directive \<Rightarrow> u8 list" where
  "dir_text (Lit c) = [c]"
| "dir_text Percent = [0x25, 0x25]"
| "dir_text (Conv lj lz ds ms c) =
     0x25 # (if lj then [0x2D] else []) @ (if lz then [0x30] else []) @ ds @ ms @ [c]"

fun dir_args :: "directive \<Rightarrow> nat" where
  "dir_args (Conv lj lz ds ms c) = 1" | "dir_args _ = 0"

definition width_step :: "u32 \<Rightarrow> u8 \<Rightarrow> u32" where
  "width_step w d = 10 * w + (scast d - 0x30)"

definition justify :: "bool \<Rightarrow> bool \<Rightarrow> nat \<Rightarrow> u8 list \<Rightarrow> u8 list \<Rightarrow> u8 list" where
  "justify lj lz w sign body =
     (let pad = w - (length sign + length body) in
      if lj then sign @ body @ replicate pad 0x20
      else if lz then sign @ replicate pad 0x30 @ body
      else replicate pad 0x20 @ sign @ body)"

definition conv_radix :: "u8 \<Rightarrow> radix" where
  "conv_radix c = (if c = 0x6F then R8 else if c \<in> {0x64, 0x69, 0x75} then R10 else R16)"

text \<open>The text of one directive for the argument \<open>v\<close>; \<open>str\<close> is the string at \<open>v\<close>.\<close>

definition conv_out :: "bool \<Rightarrow> bool \<Rightarrow> nat \<Rightarrow> u8 \<Rightarrow> u32 \<Rightarrow> u8 list \<Rightarrow> u8 list" where
  "conv_out lj lz w c v str =
     (if c = 0x63 then
        if ucast v = (0 :: u8) then replicate (w - 1) 0x20 else justify lj False w [] [ucast v]
      else if c = 0x73 then justify lj False w [] str
      else
        let neg = (c = 0x64 \<or> c = 0x69) \<and> sint v < 0
        in justify lj lz w (if neg then [0x2D] else [])
             (pf_digits (if c = 0x58 then PR_CA else 0) (conv_radix c) (if neg then - v else v) []))"

fun dir_out :: "u32 \<Rightarrow> u8 list \<Rightarrow> directive \<Rightarrow> u8 list" where
  "dir_out v str (Lit c) = [c]"
| "dir_out v str Percent = [0x25]"
| "dir_out v str (Conv lj lz ds ms c) = conv_out lj lz (unat (foldl width_step 0 ds)) c v str"

fun format_out :: "(nat \<Rightarrow> u32) \<Rightarrow> (nat \<Rightarrow> u8 list) \<Rightarrow> nat \<Rightarrow> directive list \<Rightarrow> u8 list" where
  "format_out va strs i [] = []"
| "format_out va strs i (d # ds) = dir_out (va i) (strs i) d @ format_out va strs (i + dir_args d) ds"

text \<open>The string arguments are terminated strings.\<close>

fun strings_ok :: "mem \<Rightarrow> (nat \<Rightarrow> u32) \<Rightarrow> (nat \<Rightarrow> u8 list) \<Rightarrow> nat \<Rightarrow> directive list \<Rightarrow> bool" where
  "strings_ok m va strs i [] \<longleftrightarrow> True"
| "strings_ok m va strs i (d # ds) \<longleftrightarrow>
     (case d of Conv lj lz w ms c \<Rightarrow> c = 0x73 \<longrightarrow> va i \<noteq> 0 \<and> c_string m (va i) (strs i) | _ \<Rightarrow> True)
     \<and> strings_ok m va strs (i + dir_args d) ds"

section \<open>Flags as bits\<close>

lemma PR_bits: "PR_LJ = 2 ^ 0" "PR_CA = 2 ^ 1" "PR_SG = 2 ^ 2" "PR_32 = 2 ^ 3" "PR_16 = 2 ^ 4" "PR_WS = 2 ^ 5"
  "PR_LZ = 2 ^ 6" "PR_FP = 2 ^ 7"
  by (simp_all add: PR_LJ_def PR_CA_def PR_SG_def PR_32_def PR_16_def PR_WS_def PR_LZ_def PR_FP_def)

lemma and_power_zero: "f AND 2 ^ n = 0 \<longleftrightarrow> \<not> bit f n" for f :: u32
  by (rule and_exp_eq_0_iff_not_bit)

lemma and_two_powers:
  fixes f :: u32
  assumes "m < 32" and "n < 32" and "m \<noteq> n"
  shows "f AND (2 ^ m OR 2 ^ n) = 2 ^ m OR 2 ^ n \<longleftrightarrow> bit f m \<and> bit f n"
    and "f AND (2 ^ m OR 2 ^ n) = 2 ^ m \<longleftrightarrow> bit f m \<and> \<not> bit f n"
proof -
  have bits: "bit (2 ^ k :: u32) j \<longleftrightarrow> j = k" if "k < 32" for j k using that by (auto simp: bit_simps)
  note b = bits [OF assms(1)] bits [OF assms(2)] bit_and_iff bit_or_iff
  show "f AND (2 ^ m OR 2 ^ n) = 2 ^ m OR 2 ^ n \<longleftrightarrow> bit f m \<and> bit f n" (is "?l = ?r \<longleftrightarrow> _")
  proof
    assume eq: "?l = ?r"
    then have "bit ?l m = bit ?r m" "bit ?l n = bit ?r n" by simp_all
    then show "bit f m \<and> bit f n" unfolding b by simp
  qed (rule bit_word_eqI, auto simp only: b)
  show "f AND (2 ^ m OR 2 ^ n) = 2 ^ m \<longleftrightarrow> bit f m \<and> \<not> bit f n" (is "?l = ?r \<longleftrightarrow> _")
  proof
    assume eq: "?l = ?r"
    then have "bit ?l m = bit ?r m" "bit ?l n = bit ?r n" by simp_all
    then show "bit f m \<and> \<not> bit f n" unfolding b using assms(3) by auto
  qed (rule bit_word_eqI, auto simp only: b)
qed

lemma flag_sign_tests:
  "f AND (PR_WS OR PR_LZ) = PR_WS OR PR_LZ \<longleftrightarrow> bit f 5 \<and> bit f 6"
  "f AND (PR_WS OR PR_LZ) = PR_WS \<longleftrightarrow> bit f 5 \<and> \<not> bit f 6"
  unfolding PR_bits by (rule and_two_powers; simp)+

lemma flag_tests:
  "f AND PR_LJ = 0 \<longleftrightarrow> \<not> bit f 0" "f AND PR_CA = 0 \<longleftrightarrow> \<not> bit f 1" "f AND PR_SG = 0 \<longleftrightarrow> \<not> bit f 2"
  "f AND PR_WS = 0 \<longleftrightarrow> \<not> bit f 5" "f AND PR_LZ = 0 \<longleftrightarrow> \<not> bit f 6"
  unfolding PR_bits by (rule and_power_zero)+

lemma digit_char_flags: "digit_char f t = digit_char (if bit f 1 then PR_CA else 0) t"
proof -
  have "bit PR_CA 1" unfolding PR_bits by (subst bit_simps) simp
  then show ?thesis by (simp add: digit_char_def flag_tests)
qed

lemma pf_digits_flags: "pf_digits f r num [] = pf_digits (if bit f 1 then PR_CA else 0) r num []"
proof (induction "unat num" arbitrary: num rule: less_induct)
  case less
  show ?case
    using less [OF radix_decreases [of num r]] digit_char_flags [of f "num mod radix_val r"]
    by (simp add: pf_digits_snoc [of _ r num])
qed

lemma strlen_c_string: "a \<noteq> 0 \<Longrightarrow> c_string m a xs \<Longrightarrow> strlen a m = Some (of_nat (length xs))"
  using c_stringD(2,3) [of m a xs] by (auto simp: strlen_def intro!: while_inc_Some)

lemma byte_casts: "ucast (ucast b :: u32) = b" "ucast (scast b :: u32) = b" for b :: u8
  by (rule bit_word_eqI; simp add: bit_simps; fail)+

lemma c_string_append: "c_string m a (xs @ ys) \<Longrightarrow> c_string m (a + of_nat (length xs)) ys"
proof (induction xs arbitrary: a)
  case (Cons x xs)
  then show ?case using c_string_Cons [of m a x "xs @ ys"] by (auto simp: add.assoc dest: Cons.IH)
qed simp

section \<open>Sinks that leave the memory alone\<close>

text \<open>What \<^verbatim>\<open>do_printf\<close> needs of a sink: it uses the low byte of what it gets and does
  not change the memory the format and the strings are in.\<close>

locale format_sink =
  fixes rd :: "'s \<Rightarrow> mem" and fn :: "u32 \<Rightarrow> 's \<Rightarrow> 's"
  assumes rd_fn: "rd (fn c s) = rd s"
    and fn_byte: "fn c s = fn (ucast (ucast c :: u8)) s"
begin

definition outs :: "u8 list \<Rightarrow> pf \<times> 's \<Rightarrow> pf \<times> 's" where
  "outs bs ps = ((fst ps)\<lparr>pf_count := pf_count (fst ps) + of_nat (length bs)\<rparr>,
                 fold (\<lambda>b. fn (ucast b)) bs (snd ps))"

definition fin :: "pf \<times> 's \<Rightarrow> pf \<times> 's" where
  "fin ps = (pf_reset (fst ps), snd ps)"

lemma outs_Nil [simp]: "outs [] ps = ps"
  by (simp add: outs_def)

lemma outs_outs [simp]: "outs ys (outs xs ps) = outs (xs @ ys) ps"
  by (simp add: outs_def add.assoc)

lemma outs_fields [simp]:
  "pf_flags (fst (outs bs ps)) = pf_flags (fst ps)" "pf_given_wd (fst (outs bs ps)) = pf_given_wd (fst ps)"
  "pf_arg (fst (outs bs ps)) = pf_arg (fst ps)" "pf_st (fst (outs bs ps)) = pf_st (fst ps)"
  by (simp_all add: outs_def)

lemma rd_fold: "rd (fold (\<lambda>b. fn (ucast b)) bs s) = rd s"
  by (induction bs arbitrary: s) (simp_all add: rd_fn)

lemma rd_outs [simp]: "rd (snd (outs bs ps)) = rd (snd ps)"
  by (simp add: outs_def rd_fold)

lemma put_byte: "pf_put fn c ps = outs [ucast c] ps"
  using fn_byte [of c "snd ps"] by (simp add: pf_put_def outs_def)

lemma put_byte_casts [simp]: "pf_put fn (ucast b) ps = outs [b] ps" "pf_put fn (scast b) ps = outs [b] ps"
  for b :: u8
  unfolding put_byte by (simp_all add: byte_casts)

lemma fin_outs [simp]: "fin (outs bs ps) = outs bs (fin ps)"
  by (simp add: fin_def outs_def pf_reset_def)

lemma fin_given [simp]: "fin (p\<lparr>pf_given_wd := w\<rparr>, s) = fin (p, s)" "fin (fst q, snd q) = fin q"
  by (simp_all add: fin_def pf_reset_def)

lemma pad_outs:
  "pf_pad fn (ucast b) n ps = outs (replicate n b) ((fst ps)\<lparr>pf_given_wd := pf_given_wd (fst ps) - of_nat n\<rparr>, snd ps)"
  for b :: u8
proof (induction n arbitrary: ps)
  case (Suc n)
  show ?case
    by (simp add: Suc split: prod.splits) (simp add: outs_def)
qed simp

lemma emit_buf_outs: "0 \<notin> set bs \<Longrightarrow> emit_buf fn bs ps = outs bs ps"
  by (induction bs arbitrary: ps) auto

lemma emit_ptr_outs: "c_string (rd (snd ps)) a xs \<Longrightarrow> emit_ptr rd fn a ps = Some (outs xs ps)"
proof (induction xs arbitrary: a ps)
  case Nil
  then show ?case by (simp add: c_string_def emit_ptr.simps)
next
  case (Cons x xs)
  from c_string_Cons [OF Cons.prems] have "rd (snd ps) a = x" "x \<noteq> 0" "c_string (rd (snd ps)) (a + 1) xs" by simp_all
  then show ?case using Cons.IH [of "outs [x] ps" "a + 1"] by (simp add: emit_ptr.simps [of rd fn a])
qed

lemma emit2_fin:
  fixes aw :: u32
  assumes chars: "\<And>qs. rd (snd qs) = rd (snd ps) \<Longrightarrow> emit_chars rd fn w qs = Some (outs body qs)"
  defines "f \<equiv> pf_flags (fst ps)" and "pad \<equiv> unat (pf_given_wd (fst ps)) - unat aw"
  shows "map_option fin (emit2 rd fn w aw ps) = Some (outs
     (if bit f 0 then (if bit f 5 \<and> \<not> bit f 6 then [0x2D] else []) @ body @ replicate pad 0x20
      else replicate pad (if bit f 6 then 0x30 else 0x20) @ (if bit f 5 \<and> \<not> bit f 6 then [0x2D] else []) @ body)
     (fin ps))"
proof -
  have pads: "pf_pad fn 0x30 n qs = outs (replicate n 0x30) ((fst qs)\<lparr>pf_given_wd := pf_given_wd (fst qs) - of_nat n\<rparr>, snd qs)"
    "pf_pad fn 0x20 n qs = outs (replicate n 0x20) ((fst qs)\<lparr>pf_given_wd := pf_given_wd (fst qs) - of_nat n\<rparr>, snd qs)"
    "pf_put fn 0x2D qs = outs [0x2D] qs" for n qs
    using pad_outs [of "0x30" n qs] pad_outs [of "0x20" n qs] put_byte [of "0x2D" qs] by simp_all
  have gap: "unat (g - of_nat (unat g - unat a)) - unat a = 0" for g a :: u32
  proof (cases "a \<le> g")
    case True
    then have "of_nat (unat g - unat a) = g - a" by (simp add: word_le_nat_alt of_nat_diff)
    then show ?thesis by simp
  next
    case False
    then show ?thesis by (simp add: word_le_nat_alt word_less_nat_alt)
  qed
  have left: "unat (if g < a then 0 else g - a) = unat g - unat a" for g a :: u32
    by (auto simp: word_less_nat_alt unat_sub word_le_nat_alt not_less)
  show ?thesis
    by (cases "bit f 0"; cases "bit f 5"; cases "bit f 6")
      (simp_all add: emit2_def Let_def flag_tests flag_sign_tests f_def [symmetric] pads chars gap left pad_def
        case_prod_beta)
qed

lemma emit_fin:
  assumes chars: "\<And>qs. rd (snd qs) = rd (snd ps) \<Longrightarrow> emit_chars rd fn w qs = Some (outs body qs)"
    and len: "(case w of Buf bs \<Rightarrow> Some (of_nat (length (takeWhile (\<lambda>b. b \<noteq> 0) bs)))
                | Ptr a \<Rightarrow> strlen a (rd (snd ps))) = Some (of_nat (length body))"
    and small: "length body + (if bit (pf_flags (fst ps)) 5 then 1 else 0) < 2 ^ 32"
  defines "f \<equiv> pf_flags (fst ps)"
  shows "map_option fin (emit rd fn w ps)
     = Some (outs (justify (bit f 0) (bit f 6) (unat (pf_given_wd (fst ps))) (if bit f 5 then [0x2D] else []) body) (fin ps))"
proof -
  have minus: "pf_put fn 0x2D qs = outs [0x2D] qs" for qs using put_byte [of "0x2D" qs] by simp
  have aw: "unat (if bit f 5 then of_nat (length body) + 1 else of_nat (length body) :: u32)
      = length body + (if bit f 5 then 1 else 0)"
    using small by (auto simp: f_def unat_of_nat_small unat_word_ariths)
  have e2: "map_option fin (emit2 rd fn w a (outs bs ps)) = Some (outs
     (bs @ (if bit f 0 then (if bit f 5 \<and> \<not> bit f 6 then [0x2D] else []) @ body @ replicate (unat (pf_given_wd (fst ps)) - unat a) 0x20
      else replicate (unat (pf_given_wd (fst ps)) - unat a) (if bit f 6 then 0x30 else 0x20)
        @ (if bit f 5 \<and> \<not> bit f 6 then [0x2D] else []) @ body)) (fin ps))" for a bs
  proof -
    have "emit_chars rd fn w qs = Some (outs body qs)" if "rd (snd qs) = rd (snd (outs bs ps))" for qs
      using chars that by simp
    from emit2_fin [OF this, where aw = a] show ?thesis by (simp only: outs_fields fin_outs outs_outs f_def)
  qed
  show ?thesis
    using aw
    by (cases "bit f 0"; cases "bit f 5"; cases "bit f 6")
      (simp_all add: emit_def len Let_def flag_tests flag_sign_tests f_def [symmetric] minus justify_def
        e2 [of _ "[]", unfolded outs_Nil append_Nil] e2 [of _ "[0x2D]"] del: map_option_eq_Some)
qed

lemma do_num_fin:
  fixes va :: "nat \<Rightarrow> u32"
  assumes "\<not> bit (pf_flags p) 5"
  defines "f \<equiv> pf_flags p" and "v \<equiv> va (pf_arg p)"
  defines "neg \<equiv> bit f 2 \<and> sint v < 0"
  shows "map_option fin (do_num rd fn va r (p, s))
     = Some (outs (justify (bit f 0) (bit f 6) (unat (pf_given_wd p)) (if neg then [0x2D] else [])
           (pf_digits (if bit f 1 then PR_CA else 0) r (if neg then - v else v) []))
         (fin (p\<lparr>pf_arg := pf_arg p + 1\<rparr>, s)))"
proof -
  let ?g = "if neg then f OR PR_WS else f"
  have bits: "bit ?g 0 = bit f 0" "bit ?g 6 = bit f 6" "bit ?g 1 = bit f 1" "bit ?g 5 = neg"
    using assms(1) unfolding f_def PR_bits by (auto simp only: bit_or_iff bit_exp_iff split: if_splits) auto
  let ?n = "if neg then - v else v"
  let ?body = "pf_digits ?g r ?n []"
  let ?p = "p\<lparr>pf_arg := pf_arg p + 1, pf_flags := ?g\<rparr>"
  have tw: "takeWhile (\<lambda>b. b \<noteq> 0) ?body = ?body"
    using digits_no_NUL [of ?g r ?n] by (simp add: takeWhile_eq_all_conv) (metis)
  have "length ?body \<le> 11"
    using length_digits [of 11 ?n r ?g] radix_bounds(2) [of r] unat_u32_less [of ?n]
      power_mono [of 8 "unat (radix_val r)" 11] by simp
  then have small: "length ?body + (if bit (pf_flags (fst (?p, s))) 5 then 1 else 0) < 2 ^ 32" by simp
  have chars: "emit_chars rd fn (Buf ?body) qs = Some (outs ?body qs)" for qs
    by (simp add: emit_chars_def emit_buf_outs digits_no_NUL)
  have "do_num rd fn va r (p, s) = emit rd fn (Buf ?body) (?p, s)"
    by (auto simp: do_num_def va_next_def Let_def flag_tests neg_def v_def f_def)
  moreover have "map_option fin (emit rd fn (Buf ?body) (?p, s))
     = Some (outs (justify (bit ?g 0) (bit ?g 6) (unat (pf_given_wd p)) (if bit ?g 5 then [0x2D] else []) ?body) (fin (?p, s)))"
    using emit_fin [of "(?p, s)" "Buf ?body" ?body, OF chars _ small] tw by simp
  moreover have "fin (?p, s) = fin (p\<lparr>pf_arg := pf_arg p + 1\<rparr>, s)" by (simp add: fin_def pf_reset_def)
  ultimately show ?thesis
    unfolding bits using pf_digits_flags [of ?g r ?n] by (simp only: bits)
qed

lemma bind_fin: "map_option fin x = Some y \<Longrightarrow> Option.bind x (\<lambda>(p, s). Some (pf_reset p, s)) = Some y"
  by (cases x) (auto simp: fin_def)

text \<open>State 4: one conversion. The flags that earlier states set are \<^verbatim>\<open>-\<close>, \<^verbatim>\<open>0\<close> and
  the size modifiers.\<close>

lemma case4_conv:
  assumes flags: "\<not> bit (pf_flags p) 1" "\<not> bit (pf_flags p) 2" "\<not> bit (pf_flags p) 5" and c: "c \<in> set conversions"
    and str: "c = 0x73 \<Longrightarrow> va (pf_arg p) \<noteq> 0 \<and> c_string (rd s) (va (pf_arg p)) str"
  shows "pf_case4 rd fn va c (p, s) =
     Some (outs (conv_out (bit (pf_flags p) 0) (bit (pf_flags p) 6) (unat (pf_given_wd p)) c (va (pf_arg p)) str)
       (fin (p\<lparr>pf_arg := pf_arg p + 1\<rparr>, s)))"
proof -
  let ?f = "pf_flags p" and ?w = "unat (pf_given_wd p)" and ?v = "va (pf_arg p)" and ?t = "fin (p\<lparr>pf_arg := pf_arg p + 1\<rparr>, s)"
  have bits: "bit (g OR PR_CA) k = (bit g k \<or> k = 1)" "bit (g OR PR_SG) k = (bit g k \<or> k = 2)"
    "bit (g AND NOT PR_LZ) k = (bit g k \<and> k < 32 \<and> k \<noteq> 6)" for g :: u32 and k
    unfolding PR_bits by (auto simp only: bit_or_iff bit_and_iff bit_not_iff bit_exp_iff) (auto dest: bit_imp_le_length)
  have num: "map_option fin (do_num rd fn va r (pf_flag g (p, s))) = Some (outs (justify (bit ?f 0) (bit ?f 6) ?w
        (if n then [0x2D] else []) (pf_digits (if g = PR_CA then PR_CA else 0) r (if n then - ?v else ?v) [])) ?t)"
    if "g \<in> {0, PR_CA, PR_SG}" "n = (g = PR_SG \<and> sint ?v < 0)" for g r n
  proof -
    have "PR_CA \<noteq> 0" "PR_SG \<noteq> 0" "PR_CA \<noteq> PR_SG" by (simp_all add: PR_CA_def PR_SG_def)
    moreover have "fin (p\<lparr>pf_flags := h, pf_arg := pf_arg p + 1\<rparr>, s) = ?t" for h by (simp add: fin_def pf_reset_def)
    ultimately show ?thesis
      using that do_num_fin [of "p\<lparr>pf_flags := ?f OR g\<rparr>" va r s] flags
      by (auto simp: pf_flag_def bits simp del: map_option_eq_Some)
  qed
  let ?q = "p\<lparr>pf_flags := ?f AND NOT PR_LZ, pf_arg := pf_arg p + 1\<rparr>"
  have q: "fin (?q, s) = ?t" by (simp add: fin_def pf_reset_def)
  have chr: "map_option fin (emit2 rd fn (Buf [ucast ?v]) 1 (?q, s)) = Some (outs (conv_out (bit ?f 0) (bit ?f 6) ?w 0x63 ?v str) ?t)"
  proof -
    have "emit_chars rd fn (Buf [ucast ?v]) qs = Some (outs (if ucast ?v = (0 :: u8) then [] else [ucast ?v]) qs)" for qs
      by (simp add: emit_chars_def)
    from emit2_fin [OF this, where ps = "(?q, s)" and aw = 1] show ?thesis
      unfolding q using flags by (auto simp: bits conv_out_def justify_def simp del: map_option_eq_Some)
  qed
  have st: "map_option fin (emit rd fn (Ptr ?v) (?q, s)) = Some (outs (conv_out (bit ?f 0) (bit ?f 6) ?w 0x73 ?v str) ?t)" if "c = 0x73"
  proof -
    from str [OF that] have cs: "c_string (rd s) ?v str" "?v \<noteq> 0" by simp_all
    have "emit_chars rd fn (Ptr ?v) qs = Some (outs str qs)" if "rd (snd qs) = rd (snd (?q, s))" for qs
      using emit_ptr_outs [of qs ?v str] cs(1) that by (simp add: emit_chars_def)
    from emit_fin [where ps = "(?q, s)", OF this] show ?thesis
      using strlen_c_string [OF cs(2,1)] cs(1) flags unfolding q
      by (simp add: bits conv_out_def c_string_def del: map_option_eq_Some)
  qed
  have f0: "pf_flag 0 (p, s) = (p, s)" by (simp add: pf_flag_def)
  have ne: "PR_CA \<noteq> PR_SG" "PR_SG \<noteq> PR_CA" "PR_SG \<noteq> 0" "PR_CA \<noteq> 0" by (simp_all add: PR_CA_def PR_SG_def)
  note hex = bind_fin [OF num [of PR_CA False R16]] and dec = bind_fin [OF num [of PR_SG "sint ?v < 0" R10]]
    and plain = bind_fin [OF num [of 0 False, unfolded f0]]
  consider "c = 0x58" | "c \<in> {0x78, 0x70, 0x6E}" | "c \<in> {0x64, 0x69}" | "c = 0x75" | "c = 0x6F" | "c = 0x63" | "c = 0x73"
    using c unfolding conversions_def by auto
  then show ?thesis
  proof cases
    case 1
    with hex show ?thesis by (simp add: pf_case4_def conv_out_def conv_radix_def ne)
  next
    case 2
    with plain [of R16] show ?thesis by (auto simp: pf_case4_def conv_out_def conv_radix_def ne)
  next
    case 3
    with dec show ?thesis by (auto simp: pf_case4_def conv_out_def conv_radix_def ne)
  next
    case 4
    with plain [of R10] show ?thesis by (simp add: pf_case4_def conv_out_def conv_radix_def ne)
  next
    case 5
    with plain [of R8] show ?thesis by (simp add: pf_case4_def conv_out_def conv_radix_def ne)
  next
    case 6
    with bind_fin [OF chr] show ?thesis by (simp add: pf_case4_def va_next_def)
  next
    case 7
    with bind_fin [OF st] show ?thesis by (simp add: pf_case4_def va_next_def)
  qed
qed

section \<open>Running through a directive\<close>

text \<open>Entering the code of state 2 or 3 at a position of the format, and going on.\<close>

definition run2 :: "(nat \<Rightarrow> u32) \<Rightarrow> u32 \<Rightarrow> pf \<times> 's \<Rightarrow> (pf \<times> 's) option" where
  "run2 va fmt ps = Option.bind (pf_case2 rd fn va (rd (snd ps) fmt) ps) (do_printf_loop rd fn va (fmt + 1))"

definition run3 :: "(nat \<Rightarrow> u32) \<Rightarrow> u32 \<Rightarrow> pf \<times> 's \<Rightarrow> (pf \<times> 's) option" where
  "run3 va fmt ps = Option.bind (pf_case3 rd fn va (rd (snd ps) fmt) ps) (do_printf_loop rd fn va (fmt + 1))"

lemma bind_pair: "Option.bind (Option.bind x (\<lambda>ps. Some (fmt, ps))) (\<lambda>(fmt, ps). f fmt ps) = Option.bind x (f fmt)"
  by (cases x) simp_all

lemma loop_run:
  assumes "rd (snd ps) fmt \<noteq> 0"
  shows "pf_st (fst ps) = 2 \<Longrightarrow> do_printf_loop rd fn va fmt ps = run2 va fmt ps"
    and "pf_st (fst ps) = 3 \<Longrightarrow> do_printf_loop rd fn va fmt ps = run3 va fmt ps"
  using assms bind_pair [of _ fmt "\<lambda>fmt. do_printf_loop rd fn va (fmt + 1)"]
  by (simp_all add: do_printf_loop.simps [of rd fn va fmt ps] pf_step_def run2_def run3_def Let_def)

text \<open>The flags as the directive sets them, whatever the modifiers did.\<close>

definition flags_are :: "bool \<Rightarrow> bool \<Rightarrow> u32 \<Rightarrow> bool" where
  "flags_are lj lz f \<longleftrightarrow> bit f 0 = lj \<and> bit f 6 = lz \<and> \<not> bit f 1 \<and> \<not> bit f 2 \<and> \<not> bit f 5"

lemma flags_are_modifier:
  "flags_are lj lz f \<Longrightarrow> flags_are lj lz (f OR PR_FP)" "flags_are lj lz f \<Longrightarrow> flags_are lj lz (f OR PR_32)"
  "flags_are lj lz f \<Longrightarrow> flags_are lj lz (f OR PR_16)"
  unfolding PR_bits flags_are_def by (simp_all only: bit_or_iff bit_exp_iff) simp_all

lemma run3_conv:
  assumes "c_string (rd s) fmt (ms @ c # xs)" and "set ms \<subseteq> set modifiers" and "c \<in> set conversions"
    and "pf_st p = 3" and "flags_are lj lz (pf_flags p)"
    and "c = 0x73 \<Longrightarrow> va (pf_arg p) \<noteq> 0 \<and> c_string (rd s) (va (pf_arg p)) str"
  shows "run3 va fmt (p, s) = do_printf_loop rd fn va (fmt + of_nat (length ms) + 1)
     (outs (conv_out lj lz (unat (pf_given_wd p)) c (va (pf_arg p)) str) (fin (p\<lparr>pf_arg := pf_arg p + 1\<rparr>, s)))"
  using assms
proof (induction ms arbitrary: fmt p)
  case Nil
  then have c: "rd s fmt = c" using c_string_Cons [of "rd s" fmt c xs] by simp
  have no: "c \<notin> set modifiers" using Nil.prems(3) by (auto simp: conversions_def modifiers_def)
  have "pf_case3 rd fn va c (p, s) = pf_case4 rd fn va c (p\<lparr>pf_st := 4\<rparr>, s)"
    using no by (auto simp: pf_case3_def modifiers_def)
  also have "\<dots> = Some (outs (conv_out lj lz (unat (pf_given_wd p)) c (va (pf_arg p)) str)
      (fin (p\<lparr>pf_st := 4, pf_arg := pf_arg p + 1\<rparr>, s)))"
    using case4_conv [of "p\<lparr>pf_st := 4\<rparr>" c va s str] Nil.prems(3,5,6) by (simp add: flags_are_def)
  also have "fin (p\<lparr>pf_st := 4, pf_arg := pf_arg p + 1\<rparr>, s) = fin (p\<lparr>pf_arg := pf_arg p + 1\<rparr>, s)"
    by (simp add: fin_def pf_reset_def)
  finally show ?case by (simp add: run3_def c)
next
  case (Cons x ms)
  have x: "rd s fmt = x" and next_str: "c_string (rd s) (fmt + 1) (ms @ c # xs)"
    using c_string_Cons [of "rd s" fmt x "ms @ c # xs"] Cons.prems(1) by simp_all
  obtain g where g: "pf_case3 rd fn va x (p, s) = Some (p\<lparr>pf_flags := g\<rparr>, s)" "flags_are lj lz g"
  proof -
    have "x \<in> {0x46, 0x4E, 0x6C, 0x68}" using Cons.prems(2) by (simp add: modifiers_def)
    then show thesis
      using that [of "pf_flags p OR PR_FP"] that [of "pf_flags p"] that [of "pf_flags p OR PR_32"] that [of "pf_flags p OR PR_16"]
        flags_are_modifier [OF Cons.prems(5)] Cons.prems(5)
      by (auto simp: pf_case3_def pf_flag_def)
  qed
  have "rd s (fmt + 1) \<noteq> 0" using next_str by (cases ms) (auto dest!: c_string_Cons)
  then have "run3 va fmt (p, s) = run3 va (fmt + 1) (p\<lparr>pf_flags := g\<rparr>, s)"
    using loop_run(2) [of "(p\<lparr>pf_flags := g\<rparr>, s)" "fmt + 1" va] Cons.prems(4) by (simp add: run3_def [of va fmt] x g)
  moreover have "fin (p\<lparr>pf_flags := g, pf_arg := n\<rparr>, s) = fin (p\<lparr>pf_arg := n\<rparr>, s)" for n
    by (simp add: fin_def pf_reset_def)
  ultimately show ?case
    using Cons.IH [of "fmt + 1" "p\<lparr>pf_flags := g\<rparr>"] next_str Cons.prems g(2) by (simp add: ac_simps)
qed

lemma run2_conv:
  assumes "c_string (rd s) fmt (ds @ ms @ c # xs)" and "list_all is_digit ds"
    and "set ms \<subseteq> set modifiers" and "c \<in> set conversions"
    and "pf_st p = 2" and "flags_are lj lz (pf_flags p)"
    and "c = 0x73 \<Longrightarrow> va (pf_arg p) \<noteq> 0 \<and> c_string (rd s) (va (pf_arg p)) str"
  shows "run2 va fmt (p, s) = do_printf_loop rd fn va (fmt + of_nat (length ds + length ms) + 1)
     (outs (conv_out lj lz (unat (foldl width_step (pf_given_wd p) ds)) c (va (pf_arg p)) str)
       (fin (p\<lparr>pf_arg := pf_arg p + 1\<rparr>, s)))"
  using assms
proof (induction ds arbitrary: fmt p)
  case Nil
  obtain y ys where y: "ms @ c # xs = y # ys" by (cases ms) auto
  have "y \<in> set modifiers \<union> set conversions" using Nil.prems(3,4) y by (cases ms) auto
  then have "\<not> is_digit y" by (auto simp: modifiers_def conversions_def is_digit_def)
  moreover have "rd s fmt = y" using c_string_Cons [of "rd s" fmt y ys] Nil.prems(1) y by simp
  ultimately have "run2 va fmt (p, s) = run3 va fmt (p\<lparr>pf_st := 3\<rparr>, s)"
    by (auto simp: run2_def run3_def pf_case2_def is_digit_def)
  moreover have "fin (p\<lparr>pf_st := 3, pf_arg := n\<rparr>, s) = fin (p\<lparr>pf_arg := n\<rparr>, s)" for n
    by (simp add: fin_def pf_reset_def)
  ultimately show ?case
    using run3_conv [of s fmt ms c xs "p\<lparr>pf_st := 3\<rparr>" lj lz va str] Nil.prems by simp
next
  case (Cons d ds)
  have d: "rd s fmt = d" and next_str: "c_string (rd s) (fmt + 1) (ds @ ms @ c # xs)"
    using c_string_Cons [of "rd s" fmt d "ds @ ms @ c # xs"] Cons.prems(1) by simp_all
  let ?p = "p\<lparr>pf_given_wd := width_step (pf_given_wd p) d\<rparr>"
  have step: "pf_case2 rd fn va d (p, s) = Some (?p, s)"
    using Cons.prems(2) by (simp add: pf_case2_def is_digit_def width_step_def)
  obtain y ys where "ds @ ms @ c # xs = y # ys" by (cases "ds @ ms @ c # xs") auto
  then have "rd s (fmt + 1) \<noteq> 0" using next_str c_string_Cons by fastforce
  then have "run2 va fmt (p, s) = run2 va (fmt + 1) (?p, s)"
    using loop_run(1) [of "(?p, s)" "fmt + 1" va] Cons.prems(5) by (simp add: run2_def [of va fmt] d step)
  moreover have "fin (p\<lparr>pf_given_wd := w, pf_arg := n\<rparr>, s) = fin (p\<lparr>pf_arg := n\<rparr>, s)" for w n
    by (simp add: fin_def pf_reset_def)
  ultimately show ?case
    using Cons.IH [of "fmt + 1" ?p] next_str Cons.prems by (simp add: ac_simps)
qed

text \<open>State 1: an optional \<^verbatim>\<open>-\<close>, an optional \<^verbatim>\<open>0\<close>, then the width.\<close>

definition run1 :: "(nat \<Rightarrow> u32) \<Rightarrow> u32 \<Rightarrow> pf \<times> 's \<Rightarrow> (pf \<times> 's) option" where
  "run1 va fmt ps = Option.bind (pf_case1 rd fn va fmt ps) (\<lambda>(fmt, ps). do_printf_loop rd fn va (fmt + 1) ps)"

lemma loop_run1:
  "pf_st (fst ps) = 1 \<Longrightarrow> rd (snd ps) fmt \<noteq> 0 \<Longrightarrow> do_printf_loop rd fn va fmt ps = run1 va fmt ps"
  by (simp add: do_printf_loop.simps [of rd fn va fmt ps] pf_step_def run1_def Let_def)

lemma loop_percent:
  "pf_st p = 0 \<Longrightarrow> rd s fmt = 0x25 \<Longrightarrow> do_printf_loop rd fn va fmt (p, s) = run1 va (fmt + 1) (p\<lparr>pf_st := 1\<rparr>, s)"
  by (simp add: do_printf_loop.simps [of rd fn va fmt] pf_step_def run1_def Let_def)

lemma run1_dash:
  assumes "rd s fmt = 0x2D" and "\<not> bit (pf_flags p) 0" and "pf_st p = 1" and "rd s (fmt + 1) \<noteq> 0"
  shows "run1 va fmt (p, s) = run1 va (fmt + 1) (p\<lparr>pf_flags := pf_flags p OR PR_LJ\<rparr>, s)"
  using assms loop_run1 [of "(p\<lparr>pf_flags := pf_flags p OR PR_LJ\<rparr>, s)" "fmt + 1" va]
  by (simp add: run1_def [of va fmt] pf_case1_def flag_tests)

lemma run1_width:
  assumes "c_string (rd s) fmt ((if lz then [0x30] else []) @ y # ys)" and "y \<noteq> 0x25" and "y \<noteq> 0x2D"
    and "\<not> lz \<longrightarrow> y \<noteq> 0x30" and "pf_st p = 1"
  shows "run1 va fmt (p, s) = run2 va (fmt + (if lz then 1 else 0))
     (p\<lparr>pf_st := 2, pf_flags := (if lz then pf_flags p OR PR_LZ else pf_flags p)\<rparr>, s)"
proof (cases lz)
  case True
  have "rd s fmt = 0x30" "rd s (fmt + 1) = y"
    using c_string_Cons [of "rd s" fmt "0x30" "y # ys"] c_string_Cons [of "rd s" "fmt + 1" y ys] assms(1) True by simp_all
  then show ?thesis
    using True bind_pair [of _ "fmt + 1" "\<lambda>fmt. do_printf_loop rd fn va (fmt + 1)"] by (simp add: run1_def run2_def pf_case1_def)
next
  case False
  have "rd s fmt = y" using c_string_Cons [of "rd s" fmt y ys] assms(1) False by simp
  then show ?thesis
    using False assms(2,3,4) bind_pair [of _ fmt "\<lambda>fmt. do_printf_loop rd fn va (fmt + 1)"]
    by (simp add: run1_def run2_def pf_case1_def)
qed

lemma flags_start: "flags_are False False 0" "flags_are False lz f \<Longrightarrow> flags_are True lz (f OR PR_LJ)"
  "flags_are lj False f \<Longrightarrow> flags_are lj True (f OR PR_LZ)"
  unfolding PR_bits flags_are_def by (simp_all only: bit_or_iff bit_exp_iff) simp_all

text \<open>One directive, from state 0 back to state 0.\<close>

lemma loop_conv:
  assumes str: "c_string (rd s) fmt (dir_text (Conv lj lz ds ms c) @ xs)" and ok: "dir_ok (Conv lj lz ds ms c)"
    and p: "pf_st p = 0" "pf_flags p = 0" "pf_given_wd p = 0"
    and arg: "c = 0x73 \<Longrightarrow> va (pf_arg p) \<noteq> 0 \<and> c_string (rd s) (va (pf_arg p)) str"
  shows "do_printf_loop rd fn va fmt (p, s)
     = do_printf_loop rd fn va (fmt + of_nat (length (dir_text (Conv lj lz ds ms c))))
         (outs (dir_out (va (pf_arg p)) str (Conv lj lz ds ms c)) (fin (p\<lparr>pf_arg := pf_arg p + 1\<rparr>, s)))"
proof -
  obtain y ys where y: "ds @ ms @ c # xs = y # ys" by (cases "ds @ ms @ c # xs") auto
  have yin: "is_digit y \<and> y = hd ds \<and> ds \<noteq> [] \<or> ds = [] \<and> y \<in> set modifiers \<union> set conversions"
    using ok y by (cases ds; cases ms) auto
  have "is_digit y \<Longrightarrow> y \<noteq> 0x25 \<and> y \<noteq> 0x2D" by (auto simp: is_digit_def)
  moreover have "y \<in> set modifiers \<union> set conversions \<Longrightarrow> y \<noteq> 0x25 \<and> y \<noteq> 0x2D \<and> y \<noteq> 0x30"
    by (auto simp: modifiers_def conversions_def)
  moreover have "\<not> lz \<longrightarrow> ds = [] \<or> hd ds \<noteq> 0x30" using ok by simp
  ultimately have yy: "y \<noteq> 0x25" "y \<noteq> 0x2D" "\<not> lz \<longrightarrow> y \<noteq> 0x30" using yin by (blast, blast, metis)
  let ?z = "if lz then [0x30] else [] :: u8 list"
  let ?a = "fmt + 1 + (if lj then 1 else 0)" and ?p1 = "p\<lparr>pf_st := 1\<rparr>"
  have s1: "rd s fmt = 0x25" "c_string (rd s) (fmt + 1) ((if lj then [0x2D] else []) @ ?z @ y # ys)"
    using c_string_Cons [of "rd s" fmt "0x25" "(if lj then [0x2D] else []) @ ?z @ y # ys"] str by (simp_all add: y)
  obtain z zs where z: "?z @ y # ys = z # zs" by (cases "?z @ y # ys") auto
  have s2: "c_string (rd s) ?a (?z @ y # ys)"
    using c_string_Cons [of "rd s" "fmt + 1" "0x2D" "?z @ y # ys"] s1(2) by (auto split: if_splits)
  let ?p2 = "if lj then ?p1\<lparr>pf_flags := PR_LJ\<rparr> else ?p1"
  have r1: "run1 va (fmt + 1) (?p1, s) = run1 va ?a (?p2, s)"
    using run1_dash [of s "fmt + 1" ?p1 va] c_string_Cons [of "rd s" "fmt + 1" "0x2D" "?z @ y # ys"] s1(2) p
      c_string_Cons [of "rd s" ?a z zs] s2 z by (auto split: if_splits)
  let ?b = "?a + (if lz then 1 else 0)" and ?f = "if lz then pf_flags ?p2 OR PR_LZ else pf_flags ?p2"
  let ?p3 = "?p2\<lparr>pf_st := 2, pf_flags := ?f\<rparr>"
  have r2: "run1 va ?a (?p2, s) = run2 va ?b (?p3, s)"
    using run1_width [OF s2 yy, of ?p2 va] by simp
  have s3: "c_string (rd s) ?b (ds @ ms @ c # xs)"
    using c_string_Cons [of "rd s" ?a "0x30" "y # ys"] s2 y by (auto split: if_splits)
  have fl: "flags_are lj lz ?f"
    using p flags_start(1) flags_start(2) [of False 0] flags_start(3) [of lj "if lj then PR_LJ else 0"] by (auto split: if_splits)
  have p3: "pf_arg ?p3 = pf_arg p" "pf_given_wd ?p3 = 0" "pf_st ?p3 = 2" "pf_flags ?p3 = ?f"
    "fin (?p3\<lparr>pf_arg := n\<rparr>, s) = fin (p\<lparr>pf_arg := n\<rparr>, s)" for n
    using p by (simp_all add: fin_def pf_reset_def)
  have r3: "run2 va ?b (?p3, s) = do_printf_loop rd fn va (?b + of_nat (length ds + length ms) + 1)
     (outs (conv_out lj lz (unat (foldl width_step 0 ds)) c (va (pf_arg p)) str) (fin (p\<lparr>pf_arg := pf_arg p + 1\<rparr>, s)))"
    using run2_conv [OF s3, of ?p3 lj lz va str] ok fl arg unfolding p3 by simp
  have "do_printf_loop rd fn va fmt (p, s) = run2 va ?b (?p3, s)"
    using loop_percent [OF p(1) s1(1)] r1 r2 by simp
  then show ?thesis unfolding r3 by (simp add: ac_simps)
qed

lemma loop_directives:
  assumes "c_string (rd s) fmt (concat (map dir_text ds))" and "list_all dir_ok ds"
    and "strings_ok (rd s) va strs (pf_arg p) ds"
    and "pf_st p = 0" "pf_flags p = 0" "pf_given_wd p = 0"
  shows "\<exists>q. do_printf_loop rd fn va fmt (p, s) = Some (q, fold (\<lambda>b. fn (ucast b)) (format_out va strs (pf_arg p) ds) s)
     \<and> pf_count q = pf_count p + of_nat (length (format_out va strs (pf_arg p) ds))"
  using assms
proof (induction ds arbitrary: fmt p s)
  case Nil
  then show ?case by (simp add: c_string_def do_printf_loop.simps)
next
  case (Cons d ds)
  let ?out = "dir_out (va (pf_arg p)) (strs (pf_arg p)) d" and ?p = "p\<lparr>pf_arg := pf_arg p + dir_args d\<rparr>"
  let ?q = "?p\<lparr>pf_count := pf_count p + of_nat (length ?out)\<rparr>" and ?s = "fold (\<lambda>b. fn (ucast b)) ?out s"
  have step: "do_printf_loop rd fn va fmt (p, s) = do_printf_loop rd fn va (fmt + of_nat (length (dir_text d))) (?q, ?s)"
  proof (cases d)
    case (Lit c)
    then show ?thesis
      using Cons.prems c_string_Cons [of "rd s" fmt c "concat (map dir_text ds)"]
      by (simp add: do_printf_loop.simps [of rd fn va fmt] pf_step_def outs_def)
  next
    case Percent
    have "rd s fmt = 0x25" "rd s (fmt + 1) = 0x25"
      using Cons.prems(1) Percent c_string_Cons [of "rd s" fmt "0x25" "0x25 # concat (map dir_text ds)"]
        c_string_Cons [of "rd s" "fmt + 1" "0x25" "concat (map dir_text ds)"] by simp_all
    moreover have "pf_reset (p\<lparr>pf_st := 1, pf_count := n\<rparr>) = p\<lparr>pf_count := n\<rparr>" for n
      using Cons.prems(4-6) by (simp add: pf_reset_def)
    ultimately show ?thesis
      using loop_percent [of p s fmt va] Cons.prems(4) put_byte [of "0x25" "(p\<lparr>pf_st := 1\<rparr>, s)"] Percent
      by (simp add: run1_def pf_case1_def outs_def add.assoc)
  next
    case (Conv lj lz w ms c)
    have "fin (p\<lparr>pf_arg := n\<rparr>, s) = (p\<lparr>pf_arg := n\<rparr>, s)" for n
      using Cons.prems(4-6) by (simp add: fin_def pf_reset_def)
    then show ?thesis
      using Cons.prems loop_conv [of s fmt lj lz w ms c "concat (map dir_text ds)" p va "strs (pf_arg p)"] Conv
      by (simp add: outs_def del: dir_text.simps dir_out.simps)
  qed
  have "c_string (rd ?s) (fmt + of_nat (length (dir_text d))) (concat (map dir_text ds))"
    using c_string_append [of "rd s" fmt "dir_text d"] Cons.prems(1) by (simp add: rd_fold)
  then show ?case
    using Cons.IH [of ?s "fmt + of_nat (length (dir_text d))" ?q] Cons.prems by (simp add: step rd_fold add.assoc)
qed

text \<open>\<^verbatim>\<open>do_printf\<close> hands the sink the text of the format, in order, and returns its
  length.\<close>

lemma do_printf_text:
  assumes "c_string (rd s) fmt (concat (map dir_text ds))" and "list_all dir_ok ds" and "strings_ok (rd s) va strs 0 ds"
  shows "do_printf rd fn va fmt s = Some (of_nat (length (format_out va strs 0 ds)),
     fold (\<lambda>b. fn (ucast b)) (format_out va strs 0 ds) s)"
  using loop_directives [OF assms(1,2), of va strs
      "\<lparr>pf_st = 0, pf_flags = 0, pf_count = 0, pf_given_wd = 0, pf_arg = 0\<rparr>"] assms(3)
  by (auto simp: do_printf_def)

end

interpretation console_sink: format_sink fst "vprintf_help hw" for hw
  by unfold_locales (simp_all add: vprintf_help_def byte_casts)

interpretation bochs_sink: format_sink fst "vprintf_bochs hw" for hw
  by unfold_locales (auto simp: vprintf_bochs_def byte_casts split: prod.splits)

lemma fold_vprintf_help:
  "fold (\<lambda>b. vprintf_help hw (ucast b)) bs (m, sd) = (m, fold (vga_putc hw) bs sd)" for bs :: "u8 list"
  by (induction bs arbitrary: sd) (simp_all add: vprintf_help_def byte_casts)

text \<open>A format that ends in a single \<^verbatim>\<open>%\<close>: the code steps over the NUL and goes on with
  whatever follows it in memory.\<close>

lemma lone_percent_runs_on:
  assumes "pf_st p = 0" and "rd s fmt = 0x25" and "rd s (fmt + 1) = 0"
  shows "do_printf_loop rd fn va fmt (p, s) = do_printf_loop rd fn va (fmt + 2) (pf_reset p, s)"
  using assms
  by (simp add: do_printf_loop.simps [of rd fn va fmt] pf_step_def pf_case1_def pf_case2_def pf_case3_def
      pf_case4_def pf_reset_def add.assoc)

section \<open>Properties\<close>

text \<open>C22: the digits \<^verbatim>\<open>do_printf\<close> produces for a number read back as the number in
  every radix, there is no leading zero unless the number is 0, and the digits with their NUL
  fit the buffer of \<^verbatim>\<open>PR_BUFLEN\<close> characters.\<close>

theorem printf_digits_roundtrip:
  "num_val r (pf_digits flags r num []) = unat num
   \<and> length (pf_digits flags r num []) + 1 < PR_BUFLEN
   \<and> (digit_val (hd (pf_digits flags r num [])) = 0 \<longleftrightarrow> num = 0)"
proof (intro conjI)
  show "num_val r (pf_digits flags r num []) = unat num" by (rule num_val_digits)
  show "length (pf_digits flags r num []) + 1 < PR_BUFLEN"
    using length_digits [of 11 num r flags] radix_bounds(2) [of r] unat_u32_less [of num]
      power_mono [of 8 "unat (radix_val r)" 11] by (simp add: PR_BUFLEN_def)
  show "digit_val (hd (pf_digits flags r num [])) = 0 \<longleftrightarrow> num = 0"
    using digits_canonical [of num flags r] pf_digits_snoc [of flags r 0]
    by (cases "num = 0") (simp_all add: digit_val_char)
qed



end
