(* ===== verification/Kbd.thy ===== *)
theory Kbd
  imports Ps2 Printf
begin

text \<open>
  The generic keyboard driver, \<^verbatim>\<open>src/sys/kbd.c\<close>. The key map is in memory: tables of
  256 pairs of bytes, a key code and a flag. \<open>fmt\<close> is where the linker put the format
  string of the driver.
\<close>

section \<open>State and operations\<close>

definition KBD_FLAG_MASK_PEND_MORE :: u8 where "KBD_FLAG_MASK_PEND_MORE = 0x80"

record kbd_state =
  orig_map :: u32
  curr_map :: u32

definition sizeof_sc_kc :: u32 where "sizeof_sc_kc = 2"

definition map_kc :: "mem \<Rightarrow> u32 \<Rightarrow> u8 \<Rightarrow> u8" where
  "map_kc m a sc = m (a + sizeof_sc_kc * ucast sc)"

definition map_flag :: "mem \<Rightarrow> u32 \<Rightarrow> u8 \<Rightarrow> u8" where
  "map_flag m a sc = m (a + sizeof_sc_kc * ucast sc + 1)"

definition kbd_init :: "u32 \<Rightarrow> kbd_state \<Rightarrow> kbd_state" where
  "kbd_init keymap k = k\<lparr>orig_map := keymap, curr_map := keymap\<rparr>"

definition kbd_add_scancode ::
  "'d device \<Rightarrow> u32 \<Rightarrow> u8 \<Rightarrow> kbd_state \<times> 'd console \<Rightarrow> (kbd_state \<times> 'd console) option" where
  "kbd_add_scancode hw fmt sc kc =
     (let (k, c) = kc; m = fst c in
      if map_flag m (curr_map k) sc AND KBD_FLAG_MASK_PEND_MORE \<noteq> 0 then
        Some (k\<lparr>curr_map := orig_map k + ucast (map_kc m (curr_map k) sc) * 256 * sizeof_sc_kc\<rparr>, c)
      else
        Option.bind (kprintf hw K_HIGH_INFO fmt (\<lambda>_. ucast (map_kc m (curr_map k) sc)) c) (\<lambda>(_, c).
        Some (k\<lparr>curr_map := orig_map k\<rparr>, c)))"

section \<open>The reference: a trie of tables\<close>

text \<open>What a sequence of scan codes means: prefix codes select a table, the first code without
  the flag gives the key.\<close>

fun decode_keys :: "mem \<Rightarrow> u32 \<Rightarrow> u32 \<Rightarrow> u8 list \<Rightarrow> u8 list \<times> u32" where
  "decode_keys m orig cur [] = ([], cur)"
| "decode_keys m orig cur (sc # scs) =
     (if map_flag m cur sc AND KBD_FLAG_MASK_PEND_MORE \<noteq> 0
      then decode_keys m orig (orig + ucast (map_kc m cur sc) * 512) scs
      else let (ks, c) = decode_keys m orig orig scs in (map_kc m cur sc # ks, c))"

text \<open>The console shows each key code in hexadecimal with a space behind it.\<close>

definition key_text :: "u8 \<Rightarrow> u8 list" where
  "key_text kc = pf_digits 0 R16 (ucast kc) [] @ [0x20]"

fun kbd_feed :: "'d device \<Rightarrow> u32 \<Rightarrow> u8 list \<Rightarrow> kbd_state \<times> 'd console \<Rightarrow> (kbd_state \<times> 'd console) option" where
  "kbd_feed hw fmt [] kc = Some kc"
| "kbd_feed hw fmt (sc # scs) kc = Option.bind (kbd_add_scancode hw fmt sc kc) (kbd_feed hw fmt scs)"

lemma kprintf_hex:
  assumes "c_string m fmt [0x25, 0x78, 0x20]"
  shows "kprintf hw K_HIGH_INFO fmt (\<lambda>_. ucast kc) (m, sd)
     = Some (of_nat (length (key_text kc)), (m, fold (vga_putc hw) (key_text kc) sd))"
proof -
  let ?ds = "[Conv False False [] [] 0x78, Lit 0x20]"
  have out: "format_out (\<lambda>_. ucast kc) (\<lambda>_. []) 0 ?ds = key_text kc"
    by (simp add: conv_out_def justify_def conv_radix_def key_text_def)
  have "list_all dir_ok ?ds" "concat (map dir_text ?ds) = [0x25, 0x78, 0x20]" "strings_ok m (\<lambda>_. ucast kc) (\<lambda>_. []) 0 ?ds"
    by (simp_all add: conversions_def)
  then show ?thesis
    using console_sink.do_printf_text [of "(m, sd)" fmt ?ds "\<lambda>_. ucast kc" "\<lambda>_. []" hw] assms
    unfolding out by (simp add: kprintf_def DEBUG_def fold_vprintf_help)
qed

lemma kbd_add_scancode_eq:
  assumes "c_string m fmt [0x25, 0x78, 0x20]"
  shows "kbd_add_scancode hw fmt sc (k, (m, sd)) = Some
     (if map_flag m (curr_map k) sc AND KBD_FLAG_MASK_PEND_MORE \<noteq> 0
      then (k\<lparr>curr_map := orig_map k + ucast (map_kc m (curr_map k) sc) * 512\<rparr>, (m, sd))
      else (k\<lparr>curr_map := orig_map k\<rparr>, (m, fold (vga_putc hw) (key_text (map_kc m (curr_map k) sc)) sd)))"
  by (simp add: kbd_add_scancode_def kprintf_hex [OF assms] sizeof_sc_kc_def mult.assoc)

section \<open>Properties\<close>

text \<open>C19: the keyboard driver is the decoder of the key map: fed with any sequence of scan
  codes it returns, it has shown the key codes the trie of tables gives for the sequence, and
  the table it is left in is the one the decoder is left in.\<close>

theorem kbd_decodes:
  assumes "c_string m fmt [0x25, 0x78, 0x20]"
  shows "\<exists>k1. kbd_feed hw fmt scs (k, (m, sd)) = Some (k1, (m, fold (vga_putc hw)
        (concat (map key_text (fst (decode_keys m (orig_map k) (curr_map k) scs)))) sd))
     \<and> orig_map k1 = orig_map k \<and> curr_map k1 = snd (decode_keys m (orig_map k) (curr_map k) scs)"
proof (induction scs arbitrary: k sd)
  case (Cons sc scs)
  show ?case
  proof (cases "map_flag m (curr_map k) sc AND KBD_FLAG_MASK_PEND_MORE = 0")
    case True
    then show ?thesis
      using Cons.IH [of "k\<lparr>curr_map := orig_map k\<rparr>" "fold (vga_putc hw) (key_text (map_kc m (curr_map k) sc)) sd"]
      by (simp add: kbd_add_scancode_eq [OF assms] case_prod_beta Let_def)
  next
    case False
    then show ?thesis
      using Cons.IH [of "k\<lparr>curr_map := orig_map k + ucast (map_kc m (curr_map k) sc) * 512\<rparr>" sd]
      by (simp add: kbd_add_scancode_eq [OF assms])
  qed
qed simp

text \<open>A key map in which scan code 0xE0 leads to the second table and 0x1C has there the key
  code 0x61.\<close>

definition kbd_example :: mem where
  "kbd_example = (\<lambda>_. 0)(0x100 := 0x25, 0x101 := 0x78, 0x102 := 0x20,
     0x1000 + 2 * 0xE0 := 1, 0x1000 + 2 * 0xE0 + 1 := 0x80, 0x1200 + 2 * 0x1C := 0x61)"

theorem kbd_decodes_witness:
  "\<exists>k1. kbd_feed (recorder (\<lambda>_. 0)) 0x100 [0xE0, 0x1C] (kbd_init 0x1000 \<lparr>orig_map = 0, curr_map = 0\<rparr>, (kbd_example, vga_example, []))
     = Some (k1, (kbd_example, fold (vga_putc (recorder (\<lambda>_. 0))) [0x36, 0x31, 0x20] (vga_example, []))) \<and> curr_map k1 = 0x1000"
proof -
  let ?k = "kbd_init 0x1000 \<lparr>orig_map = 0, curr_map = 0\<rparr>"
  have str: "c_string kbd_example 0x100 [0x25, 0x78, 0x20]"
    by (simp add: c_string_def bytes_at_def kbd_example_def)
  have dec: "decode_keys kbd_example (orig_map ?k) (curr_map ?k) [0xE0, 0x1C] = ([0x61], 0x1000)"
    by (simp add: kbd_init_def map_flag_def map_kc_def sizeof_sc_kc_def kbd_example_def KBD_FLAG_MASK_PEND_MORE_def)
  have "pf_digits 0 R16 0x61 [] = [0x36, 0x31]"
    by (simp add: pf_digits_snoc [of 0 R16 "0x61"] pf_digits_snoc [of 0 R16 6] digit_char_def)
  then have shown: "key_text 0x61 = [0x36, 0x31, 0x20]" by (simp add: key_text_def)
  show ?thesis
    using kbd_decodes [OF str, of "recorder (\<lambda>_. 0)" "[0xE0, 0x1C]" ?k "(vga_example, [])"]
    unfolding dec fst_conv snd_conv by (simp only: list.map concat.simps append_Nil2 shown) blast
qed

end
