(* ===== verification/Kernel_Lib.thy ===== *)
theory Kernel_Lib
  imports Kernel_Memory
begin

text \<open>
  The helper functions of \<^verbatim>\<open>src/sys/kernel.c\<close>: checksums over arrays of 8- to 64-bit
  numbers and the search for a signature in memory.
\<close>

section \<open>Operations\<close>

definition panic :: "string \<Rightarrow> kerror + 'a" where
  "panic msg = Inl (Panic msg)"

definition xchg :: "u32 \<Rightarrow> u32 \<Rightarrow> u32 \<times> u32" where
  "xchg old n_val = (old, n_val)"

text \<open>The body of the macro \<^verbatim>\<open>checksum_x\<close> for the type of the elements; \<open>data i\<close> is
  \<^verbatim>\<open>data[i]\<close>. A negative length runs the loop zero times.\<close>

fun checksum_x :: "(nat \<Rightarrow> 'w::len word) \<Rightarrow> nat \<Rightarrow> 'w word" where
  "checksum_x data 0 = 0"
| "checksum_x data (Suc i) = checksum_x data i + data i"

definition checksum_8 :: "mem \<Rightarrow> u32 \<Rightarrow> int \<Rightarrow> u8" where
  "checksum_8 m data len = checksum_x (\<lambda>i. m (data + of_nat i)) (nat len)"

definition checksum_16 :: "mem \<Rightarrow> u32 \<Rightarrow> int \<Rightarrow> u16" where
  "checksum_16 m data len = checksum_x (\<lambda>i. load16 m (data + 2 * of_nat i)) (nat len)"

definition checksum_32 :: "mem \<Rightarrow> u32 \<Rightarrow> int \<Rightarrow> u32" where
  "checksum_32 m data len = checksum_x (\<lambda>i. load32 m (data + 4 * of_nat i)) (nat len)"

definition checksum_64 :: "mem \<Rightarrow> u32 \<Rightarrow> int \<Rightarrow> u64" where
  "checksum_64 m data len = checksum_x (\<lambda>i. load64 m (data + 8 * of_nat i)) (nat len)"

definition signature_at :: "mem \<Rightarrow> u32 \<Rightarrow> int \<Rightarrow> u64 \<Rightarrow> bool" where
  "signature_at m a bytes sig \<longleftrightarrow>
     (if bytes = 1 then m a = ucast sig
      else if bytes = 2 then load16 m a = ucast sig
      else if bytes = 4 then load32 m a = ucast sig
      else if bytes = 8 then load64 m a = sig
      else False)"

partial_function (option) find_signature_loop ::
  "mem \<Rightarrow> u32 \<Rightarrow> u64 \<Rightarrow> int \<Rightarrow> u64 \<Rightarrow> int \<Rightarrow> u64 \<Rightarrow> u32 option" where
  "find_signature_loop m data len bytes sig align i =
     (if i < len then
        if signature_at m (data + ucast i) bytes sig then Some (data + ucast i)
        else find_signature_loop m data len bytes sig align (i + of_int align)
      else Some 0)"

definition find_signature :: "mem \<Rightarrow> u32 \<Rightarrow> u64 \<Rightarrow> int \<Rightarrow> u64 \<Rightarrow> int \<Rightarrow> u32 option" where
  "find_signature m data len bytes sig align = find_signature_loop m data len bytes sig align 0"

section \<open>Lemmas\<close>

lemma unat_checksum_x: "unat (checksum_x data n) = (\<Sum>i<n. unat (data i)) mod 2 ^ LENGTH('w)"
  for data :: "nat \<Rightarrow> 'w::len word"
  by (induction n) (simp_all add: unat_word_ariths mod_simps)

text \<open>The search visits the multiples of the alignment below the length, in order.\<close>

lemma find_signature_loop_spec:
  fixes a n :: nat and len :: u64
  assumes "0 < a" and "unat len + a < 2 ^ 64" and "n * a < unat len + a"
  shows "\<exists>r. find_signature_loop m data len bytes sig (int a) (of_nat (n * a)) = Some r \<and>
     ((\<exists>k \<ge> n. k * a < unat len \<and> signature_at m (data + of_nat (k * a)) bytes sig
         \<and> (\<forall>j. n \<le> j \<and> j < k \<longrightarrow> \<not> signature_at m (data + of_nat (j * a)) bytes sig)
         \<and> r = data + of_nat (k * a))
      \<or> (\<forall>k \<ge> n. k * a < unat len \<longrightarrow> \<not> signature_at m (data + of_nat (k * a)) bytes sig) \<and> r = 0)"
  using assms(3)
proof (induction "unat len + a - n * a" arbitrary: n rule: less_induct)
  case less
  let ?hit = "\<lambda>k. signature_at m (data + of_nat (k * a)) bytes sig"
  have un: "unat (of_nat (n * a) :: u64) = n * a"
    using less.prems assms(2) by (intro unat_of_nat_small) simp
  have addr: "ucast (of_nat (n * a) :: u64) = (of_nat (n * a) :: u32)"
    by (simp add: word_unat_eq_iff unsigned_ucast_eq unsigned_of_nat del: of_nat_mult)
  note step = find_signature_loop.simps [of m data len bytes sig "int a" "of_nat (n * a)", unfolded addr]
  consider (stop) "\<not> n * a < unat len" | (hit) "n * a < unat len" "?hit n" | (go) "n * a < unat len" "\<not> ?hit n"
    by blast
  then show ?case
  proof cases
    case stop
    moreover have "\<not> k * a < unat len" if "n \<le> k" for k
      using stop mult_le_mono1 [OF that, of a] by linarith
    ultimately show ?thesis by (auto simp: step word_less_nat_alt un simp del: of_nat_mult)
  next
    case hit
    then show ?thesis by (auto simp: step word_less_nat_alt un simp del: of_nat_mult)
  next
    case go
    have "of_nat (n * a) + of_int (int a) = (of_nat (Suc n * a) :: u64)" by simp
    then have eq: "find_signature_loop m data len bytes sig (int a) (of_nat (n * a))
        = find_signature_loop m data len bytes sig (int a) (of_nat (Suc n * a))"
      using go by (simp add: step word_less_nat_alt un add.commute [of "of_nat a"] del: of_nat_mult)
    have split: "n \<le> k \<longleftrightarrow> k = n \<or> Suc n \<le> k" for k by auto
    have dec: "unat len + a - Suc n * a < unat len + a - n * a" and bnd: "Suc n * a < unat len + a"
      using go(1) assms(1) by simp_all
    from less.hyps [OF dec bnd] obtain r where r: "find_signature_loop m data len bytes sig (int a) (of_nat (Suc n * a)) = Some r"
      "(\<exists>k \<ge> Suc n. k * a < unat len \<and> ?hit k \<and> (\<forall>j. Suc n \<le> j \<and> j < k \<longrightarrow> \<not> ?hit j) \<and> r = data + of_nat (k * a))
       \<or> (\<forall>k \<ge> Suc n. k * a < unat len \<longrightarrow> \<not> ?hit k) \<and> r = 0"
      by blast
    show ?thesis
      unfolding eq r(1) split using r(2) go(2) by blast
  qed
qed

section \<open>Properties\<close>

text \<open>\<^verbatim>\<open>checksum_8\<close> is the sum of the bytes modulo 256, so a table passes the
  check "checksum is 0" exactly when its bytes add up to a multiple of 256.\<close>

lemma checksum_8_sum:
  "unat (checksum_8 m data len) = (\<Sum>i<nat len. unat (m (data + of_nat i))) mod 256
   \<and> (checksum_8 m data len = 0 \<longleftrightarrow> 256 dvd (\<Sum>i<nat len. unat (m (data + of_nat i))))"
  using unat_checksum_x [of "\<lambda>i. m (data + of_nat i)" "nat len"]
  by (simp add: checksum_8_def word_unat_eq_iff dvd_eq_mod_eq_0)

text \<open>\<^verbatim>\<open>find_signature\<close> with a positive alignment ends, and returns the first
  aligned address below the length that holds the signature, or NULL when there is none.\<close>

lemma find_signature_first:
  assumes "0 < a" and "unat len + a < 2 ^ 64"
  shows "\<exists>r. find_signature m data len bytes sig (int a) = Some r \<and>
     ((\<exists>k. k * a < unat len \<and> signature_at m (data + of_nat (k * a)) bytes sig
         \<and> (\<forall>j < k. \<not> signature_at m (data + of_nat (j * a)) bytes sig) \<and> r = data + of_nat (k * a))
      \<or> (\<forall>k. k * a < unat len \<longrightarrow> \<not> signature_at m (data + of_nat (k * a)) bytes sig) \<and> r = 0)"
  using find_signature_loop_spec [OF assms, of 0 m data bytes sig] assms(1)
  by (simp add: find_signature_def)

lemma find_signature_first_witness:
  "\<exists>r. find_signature ((\<lambda>_. 0)(0x104 := 0x5F)) 0x100 8 1 0x5F 4 = Some r \<and> r = 0x104"
proof -
  obtain r where r: "find_signature ((\<lambda>_. 0)(0x104 := 0x5F)) 0x100 8 1 0x5F (int 4) = Some r"
    "(\<exists>k. k * 4 < unat (8 :: u64) \<and> signature_at ((\<lambda>_. 0)(0x104 := 0x5F)) (0x100 + of_nat (k * 4)) 1 0x5F
         \<and> (\<forall>j < k. \<not> signature_at ((\<lambda>_. 0)(0x104 := 0x5F)) (0x100 + of_nat (j * 4)) 1 0x5F)
         \<and> r = 0x100 + of_nat (k * 4))
      \<or> (\<forall>k. k * 4 < unat (8 :: u64) \<longrightarrow> \<not> signature_at ((\<lambda>_. 0)(0x104 := 0x5F)) (0x100 + of_nat (k * 4)) 1 0x5F) \<and> r = 0"
    using find_signature_first [of 4 8 "(\<lambda>_. 0)(0x104 := 0x5F)" "0x100" 1 "0x5F"] by auto
  from r(2) have "r = 0x104"
    by (auto simp: signature_at_def split: if_splits dest: spec [of _ 1])
  with r(1) show ?thesis by simp
qed

end
