(* ===== verification/Acpi.thy ===== *)
theory Acpi
  imports Ioapic Gdt Kernel_Lib Kernel_String
begin

text \<open>
  The search for the ACPI tables and the processors they list, \<^verbatim>\<open>src/arch/x86/apic.c\<close>,
  over physical memory. The global \<^verbatim>\<open>rsdp\<close> is at the address \<open>at_rsdp\<close> the linker
  chose. A loop over a table that never ends is \<^const>\<open>None\<close>; a processor beyond the array
  \<^verbatim>\<open>cpus\<close> is an error.
\<close>

section \<open>State and operations\<close>

definition RSDP_SIGNATURE :: u64 where "RSDP_SIGNATURE = 0x2052545020445352"
definition FADT_SIGNATURE :: u32 where "FADT_SIGNATURE = 0x50434146"
definition APIC_SIGNATURE :: u32 where "APIC_SIGNATURE = 0x43495041"
definition MADT_TYPE_LAPIC :: u8 where "MADT_TYPE_LAPIC = 0"
definition MADT_TYPE_IOAPIC :: u8 where "MADT_TYPE_IOAPIC = 1"
definition APIC_ERROR_FADT_UNAVAILABLE :: int where "APIC_ERROR_FADT_UNAVAILABLE = -1"
definition APIC_ERROR_CHECKSUM :: int where "APIC_ERROR_CHECKSUM = -2"
definition APIC_SUCCESS :: int where "APIC_SUCCESS = 0"

record acpi_info =
  pm_preferred :: u8
  acpi_boot_flags :: u16

text \<open>The fields of the packed tables, by their offsets.\<close>

definition sizeof_rsdp :: u32 where "sizeof_rsdp = 24"
definition rsdp_rsdt_addr :: "mem \<Rightarrow> u32 \<Rightarrow> u32" where "rsdp_rsdt_addr m a = load32 m (a + 16)"
definition sizeof_sdth :: u32 where "sizeof_sdth = 36"
definition sdth_sig :: "mem \<Rightarrow> u32 \<Rightarrow> u32" where "sdth_sig m a = load32 m a"
definition sdth_length :: "mem \<Rightarrow> u32 \<Rightarrow> u32" where "sdth_length m a = load32 m (a + 4)"
definition fadt_preferred_PM_profile :: "mem \<Rightarrow> u32 \<Rightarrow> u8" where "fadt_preferred_PM_profile m a = m (a + 45)"
definition fadt_boot_flags :: "mem \<Rightarrow> u32 \<Rightarrow> u16" where "fadt_boot_flags m a = load16 m (a + 109)"
definition sizeof_madt :: u32 where "sizeof_madt = 44"
definition madt_lapic_addr :: "mem \<Rightarrow> u32 \<Rightarrow> u32" where "madt_lapic_addr m a = load32 m (a + 36)"
definition madt_h_type :: "mem \<Rightarrow> u32 \<Rightarrow> u8" where "madt_h_type m a = m a"
definition madt_h_length :: "mem \<Rightarrow> u32 \<Rightarrow> u8" where "madt_h_length m a = m (a + 1)"
definition plapic_apic_id :: "mem \<Rightarrow> u32 \<Rightarrow> u8" where "plapic_apic_id m a = m (a + 3)"
definition ioapic_id :: "mem \<Rightarrow> u32 \<Rightarrow> u8" where "ioapic_id m a = m (a + 2)"
definition ioapic_addr :: "mem \<Rightarrow> u32 \<Rightarrow> u32" where "ioapic_addr m a = load32 m (a + 4)"

record acpi_state =
  ac_mem :: mem
  cpus :: "cpu_info list"
  num_cpus :: int
  ac_local_apic :: u32
  ac_io_apic :: IO_apic

text \<open>One search loop of \<^verbatim>\<open>find_rsdp\<close>: \<open>n\<close> addresses from \<open>a\<close> on; the address found
  or the number of matches so far.\<close>

fun rsdp_scan :: "mem \<Rightarrow> u64 \<Rightarrow> nat \<Rightarrow> nat \<Rightarrow> u32 \<Rightarrow> nat \<Rightarrow> u32 + nat" where
  "rsdp_scan m sig ignore 0 a found = Inr found"
| "rsdp_scan m sig ignore (Suc n) a found =
     (if load64 m a = sig then
        if found = ignore then Inl a else rsdp_scan m sig ignore n (a + 1) (found + 1)
      else rsdp_scan m sig ignore n (a + 1) found)"

definition ebda_start :: "mem \<Rightarrow> u32" where
  "ebda_start m = ucast (ucast (push_bit 4 (ucast (load16 m (BIOS_DATA_ADDR + 14)) :: u32)) :: u8)"

definition find_rsdp :: "mem \<Rightarrow> nat \<Rightarrow> u32" where
  "find_rsdp m ignore =
     (case rsdp_scan m (ucast (ucast RSDP_SIGNATURE :: u16)) ignore 1024 (ebda_start m) 0 of
        Inl a \<Rightarrow> a
      | Inr found \<Rightarrow>
          (case rsdp_scan m RSDP_SIGNATURE ignore (unat (MAIN_BIOS_END - MAIN_BIOS_START)) MAIN_BIOS_START found of
             Inl a \<Rightarrow> a | Inr _ \<Rightarrow> 0))"

partial_function (option) apic_init_loop :: "mem \<Rightarrow> nat \<Rightarrow> u32 option" where
  "apic_init_loop m matches =
     (let trsdp = find_rsdp m matches in
      if trsdp = 0 then Some 0
      else if checksum_8 m trsdp 20 \<noteq> 0 then apic_init_loop m (matches + 1)
      else Some trsdp)"

definition apic_init :: "u32 \<Rightarrow> acpi_state \<Rightarrow> (bool \<times> acpi_state) option" where
  "apic_init at_rsdp s =
     Option.bind (apic_init_loop (ac_mem s) 0) (\<lambda>trsdp.
     Some (if trsdp = 0 then (False, s)
           else (True, s\<lparr>ac_mem := snd (memcpy at_rsdp trsdp sizeof_rsdp (ac_mem s))\<rparr>)))"

partial_function (option) sdt_scan :: "mem \<Rightarrow> u32 \<Rightarrow> u32 \<Rightarrow> u32 \<Rightarrow> u32 option" where
  "sdt_scan m rsdt sig ptr =
     (if ptr < rsdt + sdth_length m rsdt then
        let tmp = load32 m ptr in
        if sdth_sig m tmp = sig then Some tmp else sdt_scan m rsdt sig (ptr + 4)
      else Some 0)"

definition find_sdt_entry :: "mem \<Rightarrow> u32 \<Rightarrow> u32 \<Rightarrow> u32 option" where
  "find_sdt_entry m rsdp sig =
     (let rsdt = rsdp_rsdt_addr m rsdp in sdt_scan m rsdt sig (rsdt + sizeof_sdth))"

definition apic_find_info :: "u32 \<Rightarrow> acpi_info \<Rightarrow> acpi_state \<Rightarrow> (int \<times> acpi_info) option" where
  "apic_find_info at_rsdp info s =
     (let mem = ac_mem s in
      Option.bind (find_sdt_entry mem at_rsdp FADT_SIGNATURE) (\<lambda>m.
      Some (if m = 0 then (APIC_ERROR_FADT_UNAVAILABLE, info)
            else if checksum_8 mem m (sint (sdth_length mem m)) \<noteq> 0 then (APIC_ERROR_CHECKSUM, info)
            else (APIC_SUCCESS, info\<lparr>pm_preferred := fadt_preferred_PM_profile mem m,
                    acpi_boot_flags := fadt_boot_flags mem m\<rparr>))))"

text \<open>The entry of a processor, and the loop over the entries of the MADT with its variables
  \<^verbatim>\<open>ret\<close> and \<^verbatim>\<open>found_flags\<close>.\<close>

definition FOUND_LAPIC :: u32 where "FOUND_LAPIC = 1"
definition FOUND_IOAPIC :: u32 where "FOUND_IOAPIC = 2"

definition set_cpu :: "nat \<Rightarrow> u8 \<Rightarrow> cpu_info \<Rightarrow> cpu_info" where
  "set_cpu ret apic_id c = c\<lparr>cpu_id := apic_id, cpu_boot_cpu := (ret = 0),
     cpu_started := (if ret = 0 then 1 else 0), cpu_num_cli := 0, cpu_int_enabled := False\<rparr>"

partial_function (option) madt_loop ::
  "u32 \<Rightarrow> u32 \<Rightarrow> nat \<Rightarrow> u32 \<Rightarrow> acpi_state \<Rightarrow> (kerror + (nat \<times> u32 \<times> acpi_state)) option" where
  "madt_loop m tmp ret found_flags s =
     (let mem = ac_mem s in
      if tmp < m + sdth_length mem m then
        let next_tmp = tmp + ucast (madt_h_length mem tmp) in
        if madt_h_type mem tmp = MADT_TYPE_LAPIC then
          if unat MAX_CPUS \<le> ret then Some (Inl (Out_of_bounds (of_nat ret)))
          else madt_loop m next_tmp (ret + 1) (found_flags OR FOUND_LAPIC)
                 (s\<lparr>cpus := (cpus s)[ret := set_cpu ret (plapic_apic_id mem tmp) (cpus s ! ret)]\<rparr>)
        else if madt_h_type mem tmp = MADT_TYPE_IOAPIC then
          madt_loop m next_tmp ret (found_flags OR FOUND_IOAPIC)
            (s\<lparr>ac_io_apic := (ac_io_apic s)\<lparr>io_id := ioapic_id mem tmp, io_addr := ioapic_addr mem tmp\<rparr>\<rparr>)
        else madt_loop m next_tmp ret found_flags s
      else Some (Inr (ret, found_flags, s)))"

definition apic_find_cpus :: "u32 \<Rightarrow> acpi_state \<Rightarrow> (kerror + (int \<times> acpi_state)) option" where
  "apic_find_cpus at_rsdp s =
     Option.bind (find_sdt_entry (ac_mem s) at_rsdp APIC_SIGNATURE) (\<lambda>m.
     if m = 0 then Some (Inr (0, s))
     else
       let s = s\<lparr>ac_local_apic := madt_lapic_addr (ac_mem s) m\<rparr>; valid_mask = FOUND_LAPIC OR FOUND_IOAPIC in
       Option.bind (madt_loop m (m + sizeof_madt) 0 0 s) (\<lambda>r.
       Some (ebind r (\<lambda>(ret, found_flags, s).
         let s = s\<lparr>num_cpus := int ret\<rparr>
         in if found_flags AND valid_mask \<noteq> valid_mask then Inr (0, s) else Inr (int ret, s)))))"

section \<open>Finding the root pointer\<close>

definition scan_hits :: "mem \<Rightarrow> u64 \<Rightarrow> nat \<Rightarrow> u32 \<Rightarrow> u32 list" where
  "scan_hits m sig n a = filter (\<lambda>x. load64 m x = sig) (map (\<lambda>k. a + of_nat k) [0..<n])"

lemma scan_hits_Suc:
  "scan_hits m sig (Suc n) a = (if load64 m a = sig then a # scan_hits m sig n (a + 1) else scan_hits m sig n (a + 1))"
  by (simp add: scan_hits_def upt_conv_Cons map_Suc_upt [symmetric] comp_def add.assoc del: upt_Suc)

lemma rsdp_scan_hits:
  "found \<le> ignore \<Longrightarrow> rsdp_scan m sig ignore n a found =
     (let h = scan_hits m sig n a in
      if ignore - found < length h then Inl (h ! (ignore - found)) else Inr (found + length h))"
proof (induction n arbitrary: a found)
  case 0
  then show ?case by (simp add: scan_hits_def)
next
  case (Suc n)
  consider "load64 m a \<noteq> sig" | "load64 m a = sig" "found = ignore" | "load64 m a = sig" "found < ignore"
    using Suc.prems by linarith
  then show ?case
  proof cases
    case 3
    then have "ignore - found = Suc (ignore - Suc found)" by simp
    with 3 show ?thesis using Suc.IH [of "Suc found" "a + 1"] by (simp add: scan_hits_Suc Let_def)
  qed (use Suc in \<open>simp_all add: scan_hits_Suc Let_def\<close>)
qed

text \<open>The candidates in the order the code meets them.\<close>

definition rsdp_candidates :: "mem \<Rightarrow> u32 list" where
  "rsdp_candidates m = scan_hits m 0x5352 1024 (ebda_start m) @ scan_hits m RSDP_SIGNATURE 0x1FFFF 0xE0000"

lemma find_rsdp_nth:
  "find_rsdp m k = (if k < length (rsdp_candidates m) then rsdp_candidates m ! k else 0)"
proof -
  let ?h = "scan_hits m 0x5352 1024 (ebda_start m)" and ?g = "scan_hits m RSDP_SIGNATURE 0x1FFFF 0xE0000"
  have sig: "ucast (ucast RSDP_SIGNATURE :: u16) = (0x5352 :: u64)" by (simp add: RSDP_SIGNATURE_def)
  have area: "MAIN_BIOS_END = 0xFFFFF" "MAIN_BIOS_START = 0xE0000"
    by (simp_all add: layout_defs)
  show ?thesis
  proof (cases "k < length ?h")
    case True
    then show ?thesis
      by (simp add: find_rsdp_def sig rsdp_scan_hits [of 0] Let_def rsdp_candidates_def nth_append)
  next
    case False
    then have "length ?h \<le> k" by simp
    then show ?thesis
      by (auto simp: find_rsdp_def sig area rsdp_scan_hits [of 0] rsdp_scan_hits [OF \<open>length ?h \<le> k\<close>] Let_def
          rsdp_candidates_def nth_append)
  qed
qed

lemma apic_init_loop_eq:
  "apic_init_loop m k = Some (case find (\<lambda>a. checksum_8 m a 20 = 0) (takeWhile (\<lambda>a. a \<noteq> 0) (drop k (rsdp_candidates m)))
     of Some a \<Rightarrow> a | None \<Rightarrow> 0)"
proof (induction "length (rsdp_candidates m) - k" arbitrary: k)
  case 0
  then show ?case by (simp add: apic_init_loop.simps [of m k] find_rsdp_nth)
next
  case (Suc n)
  then have k: "k < length (rsdp_candidates m)" by simp
  have IH: "apic_init_loop m (Suc k) = Some (case find (\<lambda>a. checksum_8 m a 20 = 0)
      (takeWhile (\<lambda>a. a \<noteq> 0) (drop (Suc k) (rsdp_candidates m))) of Some a \<Rightarrow> a | None \<Rightarrow> 0)"
    using Suc by simp
  have "drop k (rsdp_candidates m) = find_rsdp m k # drop (Suc k) (rsdp_candidates m)"
    using k by (simp add: Cons_nth_drop_Suc find_rsdp_nth)
  then show ?case
    by (simp add: apic_init_loop.simps [of m k] IH Let_def)
qed

section \<open>Tables\<close>

lemma sdt_scan_find:
  assumes "unat ptr + 4 * n < 2 ^ 32" and "\<forall>k < n. unat ptr + 4 * k < E" and "E \<le> unat ptr + 4 * n"
    and "E = unat (rsdt + sdth_length m rsdt)"
  shows "sdt_scan m rsdt sig ptr = Some (case find (\<lambda>t. sdth_sig m t = sig) (map (\<lambda>k. load32 m (ptr + 4 * of_nat k)) [0..<n])
     of Some t \<Rightarrow> t | None \<Rightarrow> 0)"
  using assms(1,2,3)
proof (induction n arbitrary: ptr)
  case 0
  then show ?case by (simp add: sdt_scan.simps [of m rsdt sig ptr] word_less_nat_alt assms(4) [symmetric])
next
  case (Suc n)
  have lt: "ptr < rsdt + sdth_length m rsdt"
    using Suc.prems(2) by (auto simp: word_less_nat_alt assms(4) [symmetric])
  have u: "unat (ptr + 4) = unat ptr + 4" using Suc.prems(1) by (simp add: unat_word_ariths)
  have shift: "map (\<lambda>k. load32 m (ptr + 4 * of_nat k)) [0..<Suc n]
      = load32 m ptr # map (\<lambda>k. load32 m (ptr + 4 + 4 * of_nat k)) [0..<n]"
    by (simp add: upt_conv_Cons map_Suc_upt [symmetric] comp_def distrib_left add.assoc del: upt_Suc)
  have "sdt_scan m rsdt sig (ptr + 4) = Some (case find (\<lambda>t. sdth_sig m t = sig) (map (\<lambda>k. load32 m (ptr + 4 + 4 * of_nat k)) [0..<n])
     of Some t \<Rightarrow> t | None \<Rightarrow> 0)"
  proof (rule Suc.IH)
    show "\<forall>k < n. unat (ptr + 4) + 4 * k < E"
    proof safe
      fix k assume "k < n"
      with Suc.prems(2) [rule_format, of "Suc k"] show "unat (ptr + 4) + 4 * k < E" by (simp add: u)
    qed
  qed (use Suc.prems u in simp_all)
  then show ?case unfolding shift by (simp add: sdt_scan.simps [of m rsdt sig ptr] lt Let_def)
qed

fun fill_cpus :: "nat \<Rightarrow> u8 list \<Rightarrow> cpu_info list \<Rightarrow> cpu_info list" where
  "fill_cpus ret [] cl = cl"
| "fill_cpus ret (i # ids) cl = fill_cpus (ret + 1) ids (cl[ret := set_cpu ret i (cl ! ret)])"

lemma length_fill_cpus [simp]: "length (fill_cpus ret ids cl) = length cl"
  by (induction ret ids cl rule: fill_cpus.induct) simp_all

lemma nth_fill_cpus:
  "ret + length ids \<le> length cl \<Longrightarrow> k < length cl \<Longrightarrow> fill_cpus ret ids cl ! k =
     (if ret \<le> k \<and> k < ret + length ids then set_cpu k (ids ! (k - ret)) (cl ! k) else cl ! k)"
proof (induction ret ids cl rule: fill_cpus.induct)
  case (2 ret i ids cl)
  show ?case
    using 2 by (cases "k = ret"; cases "ret \<le> k") (auto simp: nth_Cons' Suc_diff_le)
qed auto

text \<open>\<open>madt_chain mem e a ent\<close>: following the lengths from \<open>a\<close> on gives the entries at the
  addresses \<open>ent\<close> and then the end \<open>e\<close> of the table.\<close>

fun madt_chain :: "mem \<Rightarrow> u32 \<Rightarrow> u32 \<Rightarrow> u32 list \<Rightarrow> bool" where
  "madt_chain mem e a [] \<longleftrightarrow> e \<le> a"
| "madt_chain mem e a (x # xs) \<longleftrightarrow> x = a \<and> a < e \<and> madt_chain mem e (a + ucast (madt_h_length mem a)) xs"

definition lapic_ids :: "mem \<Rightarrow> u32 list \<Rightarrow> u8 list" where
  "lapic_ids mem ent = map (plapic_apic_id mem) (filter (\<lambda>a. madt_h_type mem a = MADT_TYPE_LAPIC) ent)"

definition has_ioapic :: "mem \<Rightarrow> u32 list \<Rightarrow> bool" where
  "has_ioapic mem ent \<longleftrightarrow> (\<exists>a \<in> set ent. madt_h_type mem a = MADT_TYPE_IOAPIC)"

lemma madt_loop_chain:
  assumes "madt_chain (ac_mem s) (m + sdth_length (ac_mem s) m) a ent" and "ret \<le> 8"
  shows "if ret + length (lapic_ids (ac_mem s) ent) \<le> 8
     then \<exists>fl io. madt_loop m a ret ff s = Some (Inr (ret + length (lapic_ids (ac_mem s) ent), fl,
              s\<lparr>cpus := fill_cpus ret (lapic_ids (ac_mem s) ent) (cpus s), ac_io_apic := io\<rparr>))
          \<and> fl = ff OR (if lapic_ids (ac_mem s) ent \<noteq> [] then FOUND_LAPIC else 0) OR (if has_ioapic (ac_mem s) ent then FOUND_IOAPIC else 0)
     else madt_loop m a ret ff s = Some (Inl (Out_of_bounds 8))"
  using assms
proof (induction ent arbitrary: a ret ff s)
  case Nil
  then show ?case
    by (auto simp: madt_loop.simps [of m a] lapic_ids_def has_ioapic_def Let_def intro: exI [of _ "ac_io_apic s"])
next
  case (Cons x ent)
  have x: "x = a" "a < m + sdth_length (ac_mem s) m"
    and rest: "madt_chain (ac_mem s) (m + sdth_length (ac_mem s) m) (a + ucast (madt_h_length (ac_mem s) a)) ent"
    using Cons.prems(1) by simp_all
  have max: "unat MAX_CPUS = 8" by (simp add: MAX_CPUS_def)
  note step = madt_loop.simps [of m a ret ff s]
  consider (lapic) "madt_h_type (ac_mem s) a = MADT_TYPE_LAPIC"
    | (io) "madt_h_type (ac_mem s) a = MADT_TYPE_IOAPIC" "madt_h_type (ac_mem s) a \<noteq> MADT_TYPE_LAPIC"
    | (other) "madt_h_type (ac_mem s) a \<noteq> MADT_TYPE_IOAPIC" "madt_h_type (ac_mem s) a \<noteq> MADT_TYPE_LAPIC"
    by blast
  then show ?case
  proof cases
    case lapic
    let ?s = "s\<lparr>cpus := (cpus s)[ret := set_cpu ret (plapic_apic_id (ac_mem s) a) (cpus s ! ret)]\<rparr>"
    have ids: "lapic_ids (ac_mem s) (x # ent) = plapic_apic_id (ac_mem s) a # lapic_ids (ac_mem s) ent"
      "has_ioapic (ac_mem s) (x # ent) = has_ioapic (ac_mem s) ent"
      using lapic x(1) by (simp_all add: lapic_ids_def has_ioapic_def MADT_TYPE_LAPIC_def MADT_TYPE_IOAPIC_def)
    show ?thesis
    proof (cases "ret < 8")
      case True
      then show ?thesis
        using Cons.IH [of ?s "a + ucast (madt_h_length (ac_mem s) a)" "ret + 1" "ff OR FOUND_LAPIC"] rest lapic x
        unfolding ids by (auto simp: step Let_def max or.assoc or.left_idem or.commute or.left_commute) (rule exI, rule refl)+
    next
      case False
      then show ?thesis
        using Cons.prems(2) lapic x madt_loop.simps [of m a 8 ff s] unfolding ids by (simp add: Let_def max)
    qed
  next
    case io
    let ?s = "s\<lparr>ac_io_apic := (ac_io_apic s)\<lparr>io_id := ioapic_id (ac_mem s) a, io_addr := ioapic_addr (ac_mem s) a\<rparr>\<rparr>"
    have ids: "lapic_ids (ac_mem s) (x # ent) = lapic_ids (ac_mem s) ent" "has_ioapic (ac_mem s) (x # ent)"
      using io x(1) by (simp_all add: lapic_ids_def has_ioapic_def)
    show ?thesis
      using Cons.IH [of ?s "a + ucast (madt_h_length (ac_mem s) a)" ret "ff OR FOUND_IOAPIC"] rest io x Cons.prems(2) ids
      by (auto simp: step Let_def or.assoc or.left_idem or.commute or.left_commute) (rule exI, rule refl)+
  next
    case other
    have ids: "lapic_ids (ac_mem s) (x # ent) = lapic_ids (ac_mem s) ent" "has_ioapic (ac_mem s) (x # ent) = has_ioapic (ac_mem s) ent"
      using other x(1) by (simp_all add: lapic_ids_def has_ioapic_def)
    show ?thesis
      using Cons.IH [of s "a + ucast (madt_h_length (ac_mem s) a)" ret ff] rest other x Cons.prems(2) unfolding ids
      by (auto simp: step Let_def)
  qed
qed

section \<open>Properties\<close>

text \<open>\<^verbatim>\<open>find_sdt_entry\<close> returns the first table of the root table that has the signature, or
  NULL, for a root table that does not reach the end of memory.\<close>

lemma find_sdt_entry_first:
  fixes m :: mem and rsdp :: u32
  defines "rsdt \<equiv> rsdp_rsdt_addr m rsdp"
  defines "len \<equiv> unat (sdth_length m rsdt)"
  assumes "unat rsdt + len + 4 < 2 ^ 32" and "36 \<le> len"
  shows "find_sdt_entry m rsdp sig = Some (case find (\<lambda>t. sdth_sig m t = sig)
      (map (\<lambda>k. load32 m (rsdt + 36 + 4 * of_nat k)) [0..<(len - 36 + 3) div 4]) of Some t \<Rightarrow> t | None \<Rightarrow> 0)"
proof -
  let ?n = "(len - 36 + 3) div 4"
  have u: "unat (rsdt + 36) = unat rsdt + 36" using assms(3,4) by (simp add: unat_word_ariths)
  have e: "unat (rsdt + sdth_length m rsdt) = unat rsdt + len"
    using assms(3) by (simp add: len_def unat_word_ariths)
  have n: "4 * ?n \<le> len - 36 + 3" "len - 36 \<le> 4 * ?n" by simp_all
  have below: "\<forall>k < ?n. unat (rsdt + 36) + 4 * k < unat rsdt + len"
  proof safe
    fix k assume "k < ?n"
    then have "4 * k + 4 \<le> len - 36 + 3" using n(1) by linarith
    then show "unat (rsdt + 36) + 4 * k < unat rsdt + len" using assms(4) by (simp add: u)
  qed
  show ?thesis
    unfolding find_sdt_entry_def rsdt_def [symmetric] Let_def sizeof_sdth_def
  proof (rule sdt_scan_find [OF _ below])
    show "unat (rsdt + 36) + 4 * ?n < 2 ^ 32" using n(1) assms(3,4) by (simp add: u)
    show "unat rsdt + len \<le> unat (rsdt + 36) + 4 * ?n" using n(2) by (simp add: u)
  qed (simp add: e)
qed



text \<open>A machine with one processor (identifier 5) and one I/O APIC, described at 0x200.\<close>

definition acpi_example_mem :: mem where
  "acpi_example_mem = (\<lambda>_. 0)(0x21 := 1, 0x104 := 40, 0x125 := 2,
     0x200 := 0x41, 0x201 := 0x50, 0x202 := 0x49, 0x203 := 0x43, 0x204 := 64, 0x226 := 0xE0, 0x227 := 0xFE,
     0x22D := 8, 0x22F := 5, 0x234 := 1, 0x235 := 12, 0x236 := 2, 0x23A := 0xC0, 0x23B := 0xFE)"

lemma acpi_example_table:
  "find_sdt_entry acpi_example_mem 0x10 APIC_SIGNATURE = Some 0x200"
  "madt_chain acpi_example_mem (0x200 + sdth_length acpi_example_mem 0x200) (0x200 + 44) [0x22C, 0x234]"
  "lapic_ids acpi_example_mem [0x22C, 0x234] = [5]"
  "has_ioapic acpi_example_mem [0x22C, 0x234]"
  by (simp_all add: acpi_example_mem_def find_sdt_entry_def sdt_scan.simps [of _ "0x100" _ "0x124"] Let_def rsdp_rsdt_addr_def sizeof_sdth_def
      sdth_length_def sdth_sig_def APIC_SIGNATURE_def lapic_ids_def has_ioapic_def madt_h_type_def madt_h_length_def
      plapic_apic_id_def MADT_TYPE_LAPIC_def MADT_TYPE_IOAPIC_def load32_def push_bit_eq_mult)


end
