(* ===== verification/Multiboot.thy ===== *)
theory Multiboot
  imports Pmm Kernel_String
begin

text \<open>
  The part of \<^verbatim>\<open>src/sys/multiboot1.c\<close> the boot depends on: the check of the boot loader's
  flags and the move of a named module to its place. The structures the boot loader passes are
  read from memory by the offsets of their fields.
\<close>

section \<open>Operations\<close>

definition MULTIBOOT_INFO_MEM :: u32 where "MULTIBOOT_INFO_MEM = 1"
definition MULTIBOOT_INFO_MODS :: u32 where "MULTIBOOT_INFO_MODS = 8"
definition MULTIBOOT_INFO_MMAP :: u32 where "MULTIBOOT_INFO_MMAP = 64"

definition mb_flags :: "mem \<Rightarrow> u32 \<Rightarrow> u32" where "mb_flags m p = load32 m p"
definition mb_mods_count :: "mem \<Rightarrow> u32 \<Rightarrow> u32" where "mb_mods_count m p = load32 m (p + 20)"
definition mb_mods_addr :: "mem \<Rightarrow> u32 \<Rightarrow> u32" where "mb_mods_addr m p = load32 m (p + 24)"
definition mb_mmap_length :: "mem \<Rightarrow> u32 \<Rightarrow> u32" where "mb_mmap_length m p = load32 m (p + 44)"
definition mb_mmap_addr :: "mem \<Rightarrow> u32 \<Rightarrow> u32" where "mb_mmap_addr m p = load32 m (p + 48)"

definition mod_start :: "mem \<Rightarrow> u32 \<Rightarrow> u32" where "mod_start m p = load32 m p"
definition mod_end :: "mem \<Rightarrow> u32 \<Rightarrow> u32" where "mod_end m p = load32 m (p + 4)"
definition mod_name :: "mem \<Rightarrow> u32 \<Rightarrow> u32" where "mod_name m p = load32 m (p + 8)"
definition sizeof_multiboot_module :: u32 where "sizeof_multiboot_module = 16"

text \<open>The loop over the modules that are left. The bounds of the module are read again after
  the copy.\<close>

fun move_module_loop ::
  "nat \<Rightarrow> u32 \<Rightarrow> u32 \<Rightarrow> u32 \<Rightarrow> ('a) pmm_state_scheme \<Rightarrow> (bool \<times> ('a) pmm_state_scheme) option" where
  "move_module_loop 0 mm name to s = Some (False, s)"
| "move_module_loop (Suc n) mm name to s =
     Option.bind (strcmp (mod_name (pmem s) mm) name (pmem s)) (\<lambda>r.
     if r = 0 then
       let s = s\<lparr>pmem := snd (memcpy to (mod_start (pmem s) mm) (mod_end (pmem s) mm - mod_start (pmem s) mm) (pmem s))\<rparr>
       in Some (True, pmm_mark_mem_taken (mod_start (pmem s) mm) (mod_end (pmem s) mm) s)
     else move_module_loop n (mm + sizeof_multiboot_module) name to s)"

definition move_module ::
  "u32 \<Rightarrow> u32 \<Rightarrow> u32 \<Rightarrow> ('a) pmm_state_scheme \<Rightarrow> (bool \<times> ('a) pmm_state_scheme) option" where
  "move_module m name to s =
     move_module_loop (unat (mb_mods_count (pmem s) m)) (mb_mods_addr (pmem s) m) name to s"

definition check_necessary_flags :: "u32 \<Rightarrow> kerror + unit" where
  "check_necessary_flags flags =
     (if flags AND MULTIBOOT_INFO_MEM = 0 then Inl (Panic ''Multiboot: No information about memory'')
      else if flags AND MULTIBOOT_INFO_MODS = 0 then Inl (Panic ''Multiboot: No information about modules loaded'')
      else Inr ())"

section \<open>Properties\<close>

text \<open>The descriptor of module \<open>k\<close>, and what a copy needs: pointers that are not NULL, a
  destination \<^verbatim>\<open>memcpy\<close> can fill going upwards, and a descriptor outside it.\<close>

definition mod_at :: "mem \<Rightarrow> u32 \<Rightarrow> nat \<Rightarrow> u32" where
  "mod_at m p k = mb_mods_addr m p + 16 * of_nat k"

definition mod_len :: "mem \<Rightarrow> u32 \<Rightarrow> u32" where
  "mod_len m d = mod_end m d - mod_start m d"

definition copy_ok :: "mem \<Rightarrow> u32 \<Rightarrow> u32 \<Rightarrow> bool" where
  "copy_ok m d to \<longleftrightarrow> mod_start m d \<noteq> 0 \<and> to \<noteq> 0
     \<and> (to = mod_start m d \<or> mod_len m d \<le> to - mod_start m d)
     \<and> (\<forall>j \<in> {0, 1, 2, 3, 4, 5, 6, 7}. mod_len m d \<le> d + j - to)"

definition copied :: "mem \<Rightarrow> u32 \<Rightarrow> u32 \<Rightarrow> mem" where
  "copied m d to = (\<lambda>k. if k - to < mod_len m d then m (mod_start m d + (k - to)) else m k)"

definition module_names :: "mem \<Rightarrow> u32 \<Rightarrow> nat \<Rightarrow> u8 list list \<Rightarrow> bool" where
  "module_names m mm n names \<longleftrightarrow> length names = n
     \<and> (\<forall>k < n. mod_name m (mm + 16 * of_nat k) \<noteq> 0 \<and> c_string m (mod_name m (mm + 16 * of_nat k)) (names ! k))"

lemma module_names_Cons:
  "module_names m mm (Suc n) (x # names) \<longleftrightarrow>
     mod_name m mm \<noteq> 0 \<and> c_string m (mod_name m mm) x \<and> module_names m (mm + 16) n names"
  by (auto simp: module_names_def All_less_Suc2 distrib_left add.assoc)

lemma copied_descriptor:
  assumes "copy_ok m d to"
  shows "mod_start (copied m d to) d = mod_start m d" "mod_end (copied m d to) d = mod_end m d"
proof -
  have "\<not> d + j - to < mod_len m d" if "j \<in> {0, 1, 2, 3, 4, 5, 6, 7}" for j
    using assms that by (auto simp: copy_ok_def linorder_not_less)
  from this [of 0] this [of 1] this [of 2] this [of 3] this [of 4] this [of 5] this [of 6] this [of 7]
  show "mod_start (copied m d to) d = mod_start m d" "mod_end (copied m d to) d = mod_end m d"
    unfolding mod_start_def [of "copied m d to"] mod_end_def [of "copied m d to"] load32_def
    by (simp_all add: copied_def add.assoc mod_start_def mod_end_def load32_def)
qed

lemma move_module_loop_none:
  assumes "module_names (pmem s) mm n names" and "c_string (pmem s) name nm" and "name \<noteq> 0" and "nm \<notin> set names"
  shows "move_module_loop n mm name to s = Some (False, s)"
  using assms
proof (induction n arbitrary: mm names)
  case (Suc n)
  then obtain x xs where names: "names = x # xs" by (cases names) (auto simp: module_names_def)
  with Suc.prems have hd: "mod_name (pmem s) mm \<noteq> 0" "c_string (pmem s) (mod_name (pmem s) mm) x" "module_names (pmem s) (mm + 16) n xs"
    by (simp_all add: module_names_Cons)
  then show ?case
    using strcmp_result [OF hd(2) Suc.prems(2) hd(1) Suc.prems(3)] Suc.IH [OF hd(3) Suc.prems(2,3)] Suc.prems(4)
    by (auto simp: names sizeof_multiboot_module_def)
qed simp

lemma move_module_loop_first:
  assumes "module_names (pmem s) mm n names" and "c_string (pmem s) name nm" and "name \<noteq> 0"
    and "k < n" and "names ! k = nm" and "nm \<notin> set (take k names)" and "copy_ok (pmem s) (mm + 16 * of_nat k) to"
  shows "move_module_loop n mm name to s = Some (True,
     pmm_mark_mem_taken (mod_start (pmem s) (mm + 16 * of_nat k)) (mod_end (pmem s) (mm + 16 * of_nat k))
       (s\<lparr>pmem := copied (pmem s) (mm + 16 * of_nat k) to\<rparr>))"
  using assms
proof (induction n arbitrary: mm names k)
  case (Suc n)
  then obtain x xs where names: "names = x # xs" by (cases names) (auto simp: module_names_def)
  with Suc.prems have hd: "mod_name (pmem s) mm \<noteq> 0" "c_string (pmem s) (mod_name (pmem s) mm) x" "module_names (pmem s) (mm + 16) n xs"
    by (simp_all add: module_names_Cons)
  obtain r where r: "strcmp (mod_name (pmem s) mm) name (pmem s) = Some r" "r = 0 \<longleftrightarrow> x = nm"
    using strcmp_result [OF hd(2) Suc.prems(2) hd(1) Suc.prems(3)] by auto
  show ?case
  proof (cases k)
    case 0
    with Suc.prems have ok: "copy_ok (pmem s) mm to" and "x = nm" by (simp_all add: names)
    have "snd (memcpy to (mod_start (pmem s) mm) (mod_end (pmem s) mm - mod_start (pmem s) mm) (pmem s)) = copied (pmem s) mm to"
      using ok by (simp add: memcpy_def copy_ok_def memcpy_loop_0 copied_def mod_len_def)
    then show ?thesis using 0 r \<open>x = nm\<close> copied_descriptor [OF ok] by (simp add: Let_def)
  next
    case (Suc j)
    with Suc.prems have "x \<noteq> nm" by (auto simp: names)
    moreover have "mm + 16 + 16 * of_nat j = mm + 16 * of_nat k" by (simp add: Suc distrib_left add.assoc)
    ultimately show ?thesis
      using Suc Suc.prems r Suc.IH [OF hd(3) Suc.prems(2,3), of j]
      by (simp add: names sizeof_multiboot_module_def add.assoc)
  qed
qed simp

text \<open>\<^verbatim>\<open>move_module\<close> returns. Without a module of the name it reports failure and
  changes nothing. Otherwise the first module of that name is copied as it was to the
  destination and the blocks it came from are marked as taken.\<close>

lemma move_module_first:
  assumes "module_names (pmem s) (mb_mods_addr (pmem s) mb) (unat (mb_mods_count (pmem s) mb)) names"
    and "c_string (pmem s) name nm" and "name \<noteq> 0"
  shows "(nm \<notin> set names \<longrightarrow> move_module mb name to s = Some (False, s))
     \<and> (\<forall>k < length names. names ! k = nm \<and> nm \<notin> set (take k names) \<and> copy_ok (pmem s) (mod_at (pmem s) mb k) to \<longrightarrow>
          move_module mb name to s = Some (True,
            pmm_mark_mem_taken (mod_start (pmem s) (mod_at (pmem s) mb k)) (mod_end (pmem s) (mod_at (pmem s) mb k))
              (s\<lparr>pmem := copied (pmem s) (mod_at (pmem s) mb k) to\<rparr>)))"
proof -
  have "length names = unat (mb_mods_count (pmem s) mb)" using assms(1) by (simp add: module_names_def)
  then show ?thesis
    using move_module_loop_none [OF assms] move_module_loop_first [OF assms]
    by (auto simp: move_module_def mod_at_def)
qed

text \<open>One module named \<^verbatim>\<open>a\<close> of 3 bytes at 0x2000.\<close>

definition multiboot_example :: pmm_state where
  "multiboot_example = \<lparr>pmem = (\<lambda>_. 0)(0x114 := 1, 0x119 := 2, 0x201 := 0x20, 0x204 := 3, 0x205 := 0x20, 0x209 := 3,
      0x300 := 97, 0x400 := 97, 0x2000 := 7, 0x2001 := 8, 0x2002 := 9),
     pmm_bitmap = 0x100000, pmm_bitmap_sz = 1024\<rparr>"

lemma move_module_first_witness:
  "\<exists>s. move_module 0x100 0x400 0x7000 multiboot_example = Some (True, s) \<and> pmem s 0x7001 = 8"
proof -
  let ?m = "pmem multiboot_example"
  have fields: "mb_mods_count ?m 0x100 = 1" "mb_mods_addr ?m 0x100 = 0x200" "mod_at ?m 0x100 0 = 0x200"
    "mod_start ?m 0x200 = 0x2000" "mod_end ?m 0x200 = 0x2003" "mod_name ?m 0x200 = 0x300" "mod_len ?m 0x200 = 3"
    by (simp_all add: multiboot_example_def mb_mods_count_def mb_mods_addr_def mod_at_def mod_start_def mod_end_def
        mod_name_def mod_len_def load32_def push_bit_eq_mult)
  have names: "module_names ?m (mb_mods_addr ?m 0x100) (unat (mb_mods_count ?m 0x100)) [[97]]"
    "c_string ?m 0x400 [97]"
    by (simp_all add: module_names_def fields) (simp_all add: multiboot_example_def c_string_def bytes_at_def)
  have ok: "copy_ok ?m (mod_at ?m 0x100 0) 0x7000" by (simp add: copy_ok_def fields)
  have "move_module 0x100 0x400 0x7000 multiboot_example
      = Some (True, pmm_mark_mem_taken 0x2000 0x2003 (multiboot_example\<lparr>pmem := copied ?m 0x200 0x7000\<rparr>))"
    using move_module_first [OF names, of "0x7000"] ok by (simp add: fields)
  moreover have "pmem (pmm_mark_mem_taken 0x2000 0x2003 (multiboot_example\<lparr>pmem := copied ?m 0x200 0x7000\<rparr>)) 0x7001 = 8"
    by (simp add: pmm_mark_mem_taken_def align_downwards_def align_upwards_def PMM_BLK_SZ_def layout_defs
        pmm_mark_loop.simps pmm_set_block_def bitmap_set_def multiboot_example_def copied_def mod_len_def
        mod_start_def mod_end_def load32_def push_bit_eq_mult)
  ultimately show ?thesis by auto
qed

text \<open>The boot stops exactly when one of the two necessary flags is missing.\<close>

lemma check_necessary_flags_iff:
  "(\<exists>e. check_necessary_flags flags = Inl e) \<longleftrightarrow> \<not> (bit flags 0 \<and> bit flags 3)"
proof -
  have "flags AND MULTIBOOT_INFO_MEM = 0 \<longleftrightarrow> \<not> bit flags 0" "flags AND MULTIBOOT_INFO_MODS = 0 \<longleftrightarrow> \<not> bit flags 3"
    using and_exp_eq_0_iff_not_bit [of flags 0] and_exp_eq_0_iff_not_bit [of flags 3]
    by (simp_all add: MULTIBOOT_INFO_MEM_def MULTIBOOT_INFO_MODS_def)
  then show ?thesis by (simp add: check_necessary_flags_def)
qed

end
