(* ===== verification/Unit_Tests.thy ===== *)
theory Unit_Tests
  imports Kernel_String Kernel_Lib Heap
begin

text \<open>
  The unit tests of the code that are compiled for a test kernel, run on the model: those of
  \<^verbatim>\<open>string.c\<close>, \<^verbatim>\<open>kernel.c\<close>, \<^verbatim>\<open>pmm.c\<close> and \<^verbatim>\<open>heap.c\<close>. Where the
  compiler puts string literals and local arrays is a parameter. A test returns 0 or the number of
  the check that failed.
\<close>

section \<open>The tests\<close>

definition TSTRLEN :: u32 where "TSTRLEN = 5"
definition TDIFF :: int where "TDIFF = -1"

text \<open>A check of a test that goes on with \<open>rest\<close> or returns \<open>n\<close>.\<close>

definition check :: "bool \<Rightarrow> int \<Rightarrow> mem \<Rightarrow> (int \<times> mem) option \<Rightarrow> (int \<times> mem) option" where
  "check ok n m rest = (if ok then rest else Some (n, m))"

definition string_test_cmp :: "u32 \<Rightarrow> u32 \<Rightarrow> u32 \<Rightarrow> mem \<Rightarrow> (int \<times> mem) option" where
  "string_test_cmp str1 str2 str12 m =
     Option.bind (strcmp str1 str2 m) (\<lambda>r. check (r = TDIFF) 1 m (
     Option.bind (strcmp str2 str1 m) (\<lambda>r. check (r = - TDIFF) 2 m (
     Option.bind (strcmp 0 str1 m) (\<lambda>r. check (r = STRING_NULL_ERROR) 3 m (
     Option.bind (strcmp str1 str1 m) (\<lambda>r. check (r = 0) 4 m (
     Option.bind (strcmp str1 str12 m) (\<lambda>r. check (r = 0) 5 m (
     check (strncmp str1 str2 TSTRLEN m = TDIFF) 6 m (
     check (memcmp str1 str2 TSTRLEN m = TDIFF) 7 m (
     check (strncmp str1 str2 (TSTRLEN - 1) m = 0) 8 m (
     check (memcmp str1 str2 (TSTRLEN - 1) m = 0) 9 m (
     check (strncmp 0 str2 TSTRLEN m = STRING_NULL_ERROR) 10 m (
     check (memcmp str1 0 TSTRLEN m = STRING_NULL_ERROR) 11 m (Some (0, m)))))))))))))))))"

text \<open>The initialisation of a local array.\<close>

fun put_bytes :: "u32 \<Rightarrow> u8 list \<Rightarrow> mem \<Rightarrow> mem" where
  "put_bytes a [] m = m"
| "put_bytes a (x # xs) m = put_bytes (a + 1) xs (m(a := x))"

definition test1 :: "u8 list" where "test1 = [0x74, 0x65, 0x73, 0x74, 0x31]"
definition test2 :: "u8 list" where "test2 = [0x74, 0x65, 0x73, 0x74, 0x32]"

definition string_test_len :: "u32 \<Rightarrow> mem \<Rightarrow> (int \<times> mem) option" where
  "string_test_len str1 m =
     (let m = put_bytes str1 (test1 @ [0, 0, 0, 0, 0]) m in
      Option.bind (strlen 0 m) (\<lambda>r. check (r = 0) 1 m (
      Option.bind (strlen str1 m) (\<lambda>r. check (r = TSTRLEN) 2 m (
      let m = m(str1 + 1 := 0) in
      Option.bind (strlen str1 m) (\<lambda>r. check (r = 1) 3 m (
      let m = m(str1 := 0) in
      Option.bind (strlen str1 m) (\<lambda>r. check (r = 0) 4 m (Some (0, m))))))))))"

definition string_test_set :: "u32 \<Rightarrow> u32 \<Rightarrow> mem \<Rightarrow> (int \<times> mem) option" where
  "string_test_set str1 lit m =
     (let m = snd (memset str1 0x41 10 m) in
      check (memcmp str1 lit 10 m = 0) 1 m (
      let m = snd (memset str1 0 10 m) in
      check (\<forall>i \<in> set [0..<10]. m (str1 + of_nat i) = 0) 2 m (
      let (r, m) = memset 0 0 1024 m in check (r = 0) 3 m (Some (0, m)))))"

definition string_test_cpy :: "u32 \<Rightarrow> u32 \<Rightarrow> mem \<Rightarrow> (int \<times> mem) option" where
  "string_test_cpy str1 str2 m =
     Option.bind (strcpy str2 str1 m) (\<lambda>(_, m).
     Option.bind (strcmp str1 str2 m) (\<lambda>r. check (r = 0) 1 m (
     let m = m(str2 := 0); m = snd (memcpy str2 str1 TSTRLEN m) in
     check (memcmp str1 str2 TSTRLEN m = 0) 2 m (Some (0, m)))))"

text \<open>\<^verbatim>\<open>kernel_generic_unit_test\<close> on the tests before the NULL at the end of the array, of
  which there is at least one.\<close>

fun kernel_generic_unit_test :: "(mem \<Rightarrow> (int \<times> mem) option) list \<Rightarrow> mem \<Rightarrow> (bool \<times> mem) option" where
  "kernel_generic_unit_test [] m = None"
| "kernel_generic_unit_test (t # ts) m =
     Option.bind (t m) (\<lambda>(res, m).
       if res \<noteq> 0 then Some (False, m) else if ts = [] then Some (True, m) else kernel_generic_unit_test ts m)"

text \<open>The literals of the string tests.\<close>

record literals =
  lit_str1 :: u32
  lit_str2 :: u32
  lit_str12 :: u32
  lit_A :: u32

text \<open>The local arrays of the tests are on the stack from \<open>sp\<close> on.\<close>

definition string_run_all_tests :: "literals \<Rightarrow> u32 \<Rightarrow> mem \<Rightarrow> (bool \<times> mem) option" where
  "string_run_all_tests l sp =
     kernel_generic_unit_test [string_test_cmp (lit_str1 l) (lit_str2 l) (lit_str12 l), string_test_len sp,
       string_test_set sp (lit_A l), string_test_cpy (lit_str1 l) sp]"

fun checksum_fill :: "(nat \<Rightarrow> u8) \<Rightarrow> u32 \<Rightarrow> nat \<Rightarrow> mem \<Rightarrow> mem" where
  "checksum_fill f data 0 m = m"
| "checksum_fill f data (Suc n) m = (checksum_fill f data n m)(data + of_nat n := f n)"

definition kernel_test_checksum :: "u32 \<Rightarrow> mem \<Rightarrow> (int \<times> mem) option" where
  "kernel_test_checksum data m =
     (let m = checksum_fill of_nat data 10 m in
      check (checksum_8 m data 10 = (10 * 9) div 2) 1 m (
      let m = checksum_fill (\<lambda>i. 0xFF - of_nat i) data 10 m in
      check (checksum_8 m data 10 = 0xC9) 2 m (Some (0, m))))"

definition kernel_run_all_tests :: "u32 \<Rightarrow> mem \<Rightarrow> (bool \<times> mem) option" where
  "kernel_run_all_tests sp = kernel_generic_unit_test [kernel_test_checksum sp]"

definition pmm_test_defines :: "u32 \<Rightarrow> mem \<Rightarrow> (int \<times> mem) option" where
  "pmm_test_defines arr m =
     (let m = snd (memset arr 0 2 m); m = bitmap_set arr 1 m in
      check (bitmap_is_set arr 1 m) 1 m (
      let m = bitmap_unset arr 1 m in
      check (m arr = 0) 2 m (
      let m = bitmap_set arr 2 m; m = bitmap_set arr 3 m in
      check (bitmap_is_set arr 2 m \<and> bitmap_is_set arr 3 m) 3 m (
      let m = bitmap_set arr 8 m in
      check (bitmap_is_set arr 8 m) 4 m (
      let num = align_downwards 0 4096 in check (num = 0) 5 m (
      let num = align_downwards 100 4096 in check (num = 0) 6 m (
      let num = align_downwards 5000 4096 in check (num = 4096) 7 m (
      let num = align_upwards num 4096 in check (num = 4096) 8 m (
      let num = num - 1; num = align_upwards num 4096 in check (num = 4096) 9 m (
      let num = num + 1; num = align_upwards num 4096 in check (num = 8192) 10 m (Some (0, m))))))))))))"

definition pmm_run_all_tests_before :: "u32 \<Rightarrow> mem \<Rightarrow> (bool \<times> mem) option" where
  "pmm_run_all_tests_before sp = kernel_generic_unit_test [pmm_test_defines sp]"

text \<open>The test of the heap, with its loops through the page walk.\<close>

function write_loop :: "u32 \<Rightarrow> u32 \<Rightarrow> u32 \<Rightarrow> ('a) vmm_state_scheme \<Rightarrow> kerror + ('a) vmm_state_scheme" where
  "write_loop addr sz i s =
     (if i < sz then ebind (vstore32 (addr + 4 * i) i s) (\<lambda>s. write_loop addr sz (i + 1) s) else Inr s)"
  by pat_completeness auto
termination
  by (relation "measure (\<lambda>(addr, sz, i, s). unat sz - unat i)") auto

function read_loop :: "u32 \<Rightarrow> u32 \<Rightarrow> u32 \<Rightarrow> ('a) vmm_state_scheme \<Rightarrow> kerror + bool" where
  "read_loop addr sz i s =
     (if i < sz then ebind (vload32 (addr + 4 * i) s) (\<lambda>v. if v \<noteq> i then Inr False else read_loop addr sz (i + 1) s)
      else Inr True)"
  by pat_completeness auto
termination
  by (relation "measure (\<lambda>(addr, sz, i, s). unat sz - unat i)") auto

declare write_loop.simps [simp del] read_loop.simps [simp del]

definition write_read :: "u32 \<Rightarrow> u32 \<Rightarrow> ('a) vmm_state_scheme \<Rightarrow> kerror + (bool \<times> ('a) vmm_state_scheme)" where
  "write_read addr sz s =
     ebind (write_loop addr sz 0 s) (\<lambda>s. ebind (read_loop addr sz 0 s) (\<lambda>b. Inr (b, s)))"

text \<open>Allocate, and check the address and that the memory can be used.\<close>

definition alloc_check ::
  "u32 \<Rightarrow> u32 \<Rightarrow> ('a) heap_state_scheme \<Rightarrow> (kerror + (bool \<times> ('a) heap_state_scheme)) option" where
  "alloc_check n curr_heap_addr s =
     oebind (heap_malloc (4 * n) s) (\<lambda>(alloc, s).
     if alloc \<noteq> curr_heap_addr then Some (Inr (False, s)) else Some (write_read alloc n s))"

definition TEST_SZ1 :: u32 where "TEST_SZ1 = 100"
definition TEST_SZ2 :: u32 where "TEST_SZ2 = 5000"

definition heap_run_all_tests :: "('a) heap_state_scheme \<Rightarrow> (kerror + (bool \<times> ('a) heap_state_scheme)) option" where
  "heap_run_all_tests s =
     (let curr_heap_addr = HEAP_START + sizeof_LLMalloc in
      oebind (alloc_check TEST_SZ1 curr_heap_addr s) (\<lambda>(ok, s). if \<not> ok then Some (Inr (False, s)) else
      let alloc = curr_heap_addr; curr_heap_addr = curr_heap_addr + (sizeof_LLMalloc + 4 * TEST_SZ1) in
      oebind (alloc_check TEST_SZ2 curr_heap_addr s) (\<lambda>(ok, s). if \<not> ok then Some (Inr (False, s)) else
      let alloc2 = curr_heap_addr in
      oebind (Some (heap_free alloc s)) (\<lambda>s.
      let curr_heap_addr = HEAP_START + sizeof_LLMalloc in
      oebind (alloc_check TEST_SZ1 curr_heap_addr s) (\<lambda>(ok, s). if \<not> ok then Some (Inr (False, s)) else
      let alloc = curr_heap_addr in
      oebind (Some (heap_free alloc s)) (\<lambda>s.
      oebind (Some (heap_free alloc2 s)) (\<lambda>s. Some (Inr (True, s)))))))))"

section \<open>Their results\<close>

lemma check_simps [simp]: "check True n m r = r" "check False n m r = Some (n, m)"
  by (simp_all add: check_def)

text \<open>A test passes and changes only the local array at \<open>sp\<close>.\<close>

definition passes :: "u32 \<Rightarrow> (int \<times> mem) option \<Rightarrow> mem \<Rightarrow> bool" where
  "passes sp r m \<longleftrightarrow> (\<exists>m'. r = Some (0, m') \<and> (\<forall>k. 10 \<le> k - sp \<longrightarrow> m' k = m k))"

lemma passesI: "r = Some (0, m') \<Longrightarrow> (\<And>k. 10 \<le> k - sp \<Longrightarrow> m' k = m k) \<Longrightarrow> passes sp r m"
  by (auto simp: passes_def)

lemma kernel_generic_unit_test_passes:
  assumes "ts \<noteq> []" and "\<And>t n. t \<in> set ts \<Longrightarrow> (\<And>k. 10 \<le> k - sp \<Longrightarrow> n k = m k) \<Longrightarrow> passes sp (t n) n"
  shows "\<exists>m'. kernel_generic_unit_test ts m = Some (True, m') \<and> (\<forall>k. 10 \<le> k - sp \<longrightarrow> m' k = m k)"
  using assms
proof (induction ts arbitrary: m)
  case (Cons t ts)
  obtain m1 where m1: "t m = Some (0, m1)" "\<forall>k. 10 \<le> k - sp \<longrightarrow> m1 k = m k"
    using Cons.prems(2) [of t m] by (auto simp: passes_def)
  show ?case
  proof (cases "ts = []")
    case False
    have "\<exists>m'. kernel_generic_unit_test ts m1 = Some (True, m') \<and> (\<forall>k. 10 \<le> k - sp \<longrightarrow> m' k = m1 k)"
      using Cons.prems(2) m1(2) by (intro Cons.IH [OF False]) auto
    then show ?thesis using m1 False by auto
  qed (use m1 in auto)
qed simp

lemma test_bytes:
  assumes "c_string m a [b0, b1, b2, b3, b4]"
  shows "m a = b0" "m (a + 1) = b1" "m (a + 2) = b2" "m (a + 3) = b3" "m (a + 4) = b4" "m (a + 5) = 0"
  using c_stringD(3) [OF assms, of 0] c_stringD(3) [OF assms, of 1] c_stringD(3) [OF assms, of 2]
    c_stringD(3) [OF assms, of 3] c_stringD(3) [OF assms, of 4] c_stringD(2) [OF assms]
  by simp_all

lemma string_test_cmp_passes:
  assumes "c_string m l1 test1" and "c_string m l2 test2" and "c_string m l12 test1" and "l1 \<noteq> 0" and "l2 \<noteq> 0" and "l12 \<noteq> 0"
  shows "passes sp (string_test_cmp l1 l2 l12 m) m"
proof -
  note b1 = test_bytes [OF assms(1) [unfolded test1_def]] and b2 = test_bytes [OF assms(2) [unfolded test2_def]]
    and b12 = test_bytes [OF assms(3) [unfolded test1_def]]
  have c1: "strcmp l1 l2 m = Some (-1)" "strcmp l2 l1 m = Some 1"
    using assms(4,5) by (simp_all add: strcmp_def while_inc.simps b1 b2)
  have c2: "strcmp 0 l1 m = Some STRING_NULL_ERROR" "strcmp l1 l1 m = Some 0" "strcmp l1 l12 m = Some 0"
    using assms(4,6) by (simp_all add: strcmp_def while_inc.simps b1 b12)
  have c3: "strncmp l1 l2 5 m = -1" "strncmp l1 l2 4 m = 0"
    using assms(4,5) by (simp_all add: strncmp_def strncmp_loop.simps b1 b2)
  have c4: "memcmp l1 l2 5 m = -1" "memcmp l1 l2 4 m = 0"
    using assms(4,5) by (simp_all add: memcmp_def memcmp_loop.simps b1 b2)
  have c5: "strncmp 0 l2 5 m = STRING_NULL_ERROR" "memcmp l1 0 5 m = STRING_NULL_ERROR"
    by (simp_all add: strncmp_def memcmp_def)
  show ?thesis
    by (simp add: passes_def string_test_cmp_def TSTRLEN_def TDIFF_def c1 c2 c3 c4 c5)
qed

lemma outside_array: "10 \<le> k - sp \<Longrightarrow> j < 10 \<Longrightarrow> k \<noteq> sp + j" for k sp j :: u32
  by auto

lemma outside_prefix: "10 \<le> d \<Longrightarrow> n \<le> 10 \<Longrightarrow> n \<le> d" "10 \<le> d \<Longrightarrow> n \<le> 10 \<Longrightarrow> \<not> d < n" for d n :: u32
  by auto

lemma string_test_len_passes: "sp \<noteq> 0 \<Longrightarrow> passes sp (string_test_len sp m) m"
  using outside_array [of _ sp 0] outside_array [of _ sp 1] outside_array [of _ sp 2] outside_array [of _ sp 3]
    outside_array [of _ sp 4] outside_array [of _ sp 5] outside_array [of _ sp 6] outside_array [of _ sp 7]
    outside_array [of _ sp 8] outside_array [of _ sp 9]
  by (simp add: passes_def string_test_len_def TSTRLEN_def test1_def strlen_def while_inc.simps Let_def)

lemma ten: "10 = Suc (Suc (Suc (Suc (Suc (Suc (Suc (Suc (Suc (Suc 0)))))))))" by simp

lemma checksum_x_ten: "checksum_x d 10 = d 0 + d 1 + d 2 + d 3 + d 4 + d 5 + d 6 + d 7 + d 8 + d 9"
  unfolding ten by (simp add: eval_nat_numeral)

lemma checksum_fill_nth: "k < n \<Longrightarrow> n \<le> 10 \<Longrightarrow> checksum_fill f data n m (data + of_nat k) = f k"
proof (induction n)
  case (Suc n)
  have "(of_nat k :: u32) = of_nat n \<longleftrightarrow> k = n" using Suc.prems by (auto simp: word_unat_eq_iff unat_of_nat)
  with Suc show ?case by (cases "k = n") auto
qed simp

lemma checksum_fill_other: "10 \<le> k - data \<Longrightarrow> n \<le> 10 \<Longrightarrow> checksum_fill f data n m k = m k"
proof (induction n)
  case (Suc n)
  then have "of_nat n < (10 :: u32)" by (simp add: word_less_nat_alt unat_of_nat)
  with Suc show ?case by auto
qed simp

lemma checksum_of_fill: "checksum_8 (checksum_fill f data 10 m) data 10
    = f 0 + f 1 + f 2 + f 3 + f 4 + f 5 + f 6 + f 7 + f 8 + f 9"
  using checksum_fill_nth [of 0 10 f data m] checksum_fill_nth [of 1 10 f data m] checksum_fill_nth [of 2 10 f data m]
    checksum_fill_nth [of 3 10 f data m] checksum_fill_nth [of 4 10 f data m] checksum_fill_nth [of 5 10 f data m]
    checksum_fill_nth [of 6 10 f data m] checksum_fill_nth [of 7 10 f data m] checksum_fill_nth [of 8 10 f data m]
    checksum_fill_nth [of 9 10 f data m]
  by (simp add: checksum_8_def checksum_x_ten)

lemma kernel_test_checksum_passes: "passes data (kernel_test_checksum data m) m"
  by (simp add: passes_def kernel_test_checksum_def checksum_of_fill checksum_fill_other Let_def)

lemma pmm_test_defines_passes: "arr \<noteq> 0 \<Longrightarrow> passes arr (pmm_test_defines arr m) m"
  using outside_array [of _ arr 0] outside_array [of _ arr 1] outside_prefix(2) [of _ 2]
  by (simp add: passes_def pmm_test_defines_def memset_def memset_loop_spec bitmap_set_def bitmap_unset_def bitmap_is_set_def
      align_downwards_def align_upwards_def Let_def)

lemma memcmp_equal:
  assumes "p \<noteq> 0" and "q \<noteq> 0" and "\<And>j. j < n \<Longrightarrow> m (p + j) = m (q + j)"
  shows "memcmp p q n m = 0"
proof -
  have "memcmp_loop p q n i m = 0" for i
    using assms(3) by (induction p q n i m rule: memcmp_loop.induct) (simp add: memcmp_loop.simps)
  then show ?thesis using assms(1,2) by (simp add: memcmp_def)
qed

text \<open>The string literals: their bytes, and none of them in the local array.\<close>

definition literal :: "u32 \<Rightarrow> u32 \<Rightarrow> u8 list \<Rightarrow> mem \<Rightarrow> bool" where
  "literal sp a xs m \<longleftrightarrow> a \<noteq> 0 \<and> length xs < 2 ^ 32 \<and> c_string m a xs \<and> (\<forall>j \<le> of_nat (length xs). 10 \<le> a + j - sp)
     \<and> of_nat (length xs + 1) \<le> sp - a"

lemma literal_frame:
  assumes "literal sp a xs m" and "\<And>k. 10 \<le> k - sp \<Longrightarrow> n k = m k"
  shows "literal sp a xs n"
proof -
  have l: "c_string m a xs" "\<forall>j \<le> of_nat (length xs). 10 \<le> a + j - sp" using assms(1) by (auto simp: literal_def)
  have "n (a + j) = m (a + j)" if "j \<le> of_nat (length xs)" for j using l(2) that assms(2) by auto
  then have "c_string n a xs"
    using c_stringD [OF l(1)] assms(1) l(1) by (intro c_stringI) (auto simp: literal_def c_string_def)
  then show ?thesis using assms(1) by (simp add: literal_def)
qed

lemma string_test_set_passes:
  assumes "literal sp lA (replicate 10 0x41) m" and "sp \<noteq> 0"
  shows "passes sp (string_test_set sp lA m) m"
proof -
  let ?m = "snd (memset sp 0x41 10 m)"
  have l: "lA \<noteq> 0" "c_string m lA (replicate 10 0x41)" "\<forall>j \<le> 10. 10 \<le> lA + j - sp"
    using assms(1) by (simp_all add: literal_def)
  have m: "?m k = (if k - sp < 10 then 0x41 else m k)" for k
    using assms(2) by (simp add: memset_def memset_loop_spec)
  have "m (lA + j) = 0x41" if "j < 10" for j
    using c_stringD(3) [OF l(2), of j] that by simp
  moreover have "\<not> lA + j - sp < 10" if "j < 10" for j
    using l(3) that by (auto simp: not_less)
  ultimately have "memcmp sp lA 10 ?m = 0"
    using assms(2) l(1) by (intro memcmp_equal) (simp_all add: m)
  moreover have "snd (memset sp 0 10 ?m) (sp + of_nat i) = 0" if "i \<in> set [0..<10]" for i
  proof -
    have "of_nat i < (10 :: u32)" using that by (auto simp: word_less_nat_alt unat_of_nat)
    then show ?thesis using assms(2) by (simp add: memset_def memset_loop_spec)
  qed
  moreover have "memset 0 0 1024 x = (0, x)" for x by (simp add: memset_def)
  moreover have "snd (memset sp 0 10 ?m) k = m k" if "10 \<le> k - sp" for k
    using assms(2) that by (auto simp: memset_def memset_loop_spec)
  ultimately show ?thesis
    by (intro passesI [of _ "snd (memset sp 0 10 ?m)"]) (simp_all add: string_test_set_def Let_def del: set_upt)
qed

lemma string_test_cpy_passes:
  assumes "literal sp l1 test1 m" and "sp \<noteq> 0"
  shows "passes sp (string_test_cpy l1 sp m) m"
proof -
  have len: "of_nat (length test1) = (5 :: u32)" "of_nat (length test1 + 1) = (6 :: u32)" by (simp_all add: test1_def)
  have l: "l1 \<noteq> 0" "c_string m l1 test1" "\<forall>j \<le> 5. 10 \<le> l1 + j - sp" "6 \<le> sp - l1"
    using assms(1) unfolding literal_def len by auto
  obtain m1 where m1: "strcpy sp l1 m = Some (sp, m1)" "c_string m1 sp test1" "\<forall>k. 6 \<le> k - sp \<longrightarrow> m1 k = m k"
    using strcpy_correct [OF l(2) _ assms(2) l(1)] l(4) unfolding len by (auto simp: test1_def)
  have "literal sp l1 test1 m1" using m1(3) outside_prefix(1) [of _ 6] by (intro literal_frame [OF assms(1)]) simp
  then have c: "strcmp l1 sp m1 = Some 0"
    using strcmp_result [of m1 l1 test1 sp test1] m1(2) l(1) assms(2) by (auto simp: literal_def)
  let ?n = "m1(sp := 0)" and ?m2 = "snd (memcpy sp l1 5 (m1(sp := 0)))"
  have m2: "?m2 k = (if k - sp < 5 then ?n (l1 + (k - sp)) else ?n k)" for k
  proof -
    have "5 \<le> sp - l1" using order_trans [OF _ l(4), of 5] by simp
    then show ?thesis using memcpy_loop_0 [of sp l1 5 ?n] l(1) assms(2) by (simp add: memcpy_def)
  qed
  have "memcmp l1 sp 5 ?m2 = 0"
  proof (rule memcmp_equal [OF l(1) assms(2)])
    fix j :: u32 assume j: "j < 5"
    then have "10 \<le> l1 + j - sp" using l(3) by auto
    then have "?m2 (l1 + j) = ?n (l1 + j)" unfolding m2 using outside_prefix(2) [of "l1 + j - sp" 5] by simp
    then show "?m2 (l1 + j) = ?m2 (sp + j)" using j by (simp add: m2)
  qed
  moreover have "?m2 k = m k" if "10 \<le> k - sp" for k
    using m1(3) that outside_prefix [OF that, of 5] outside_prefix [OF that, of 6] outside_array [OF that, of 0]
    unfolding m2 by simp
  ultimately show ?thesis
    by (intro passesI [of _ ?m2]) (simp_all add: string_test_cpy_def m1(1) c TSTRLEN_def Let_def)
qed

text \<open>The literals of the string tests, as the compiler places them.\<close>

definition literals_at :: "literals \<Rightarrow> u32 \<Rightarrow> mem \<Rightarrow> bool" where
  "literals_at l sp m \<longleftrightarrow> literal sp (lit_str1 l) test1 m \<and> literal sp (lit_str2 l) test2 m
     \<and> literal sp (lit_str12 l) test1 m \<and> literal sp (lit_A l) (replicate 10 0x41) m"

lemma string_tests_run:
  assumes "sp \<noteq> 0" and "literals_at l sp m"
  shows "\<exists>m'. string_run_all_tests l sp m = Some (True, m') \<and> (\<forall>k. 10 \<le> k - sp \<longrightarrow> m' k = m k)"
  unfolding string_run_all_tests_def
proof (rule kernel_generic_unit_test_passes)
  fix t n
  assume t: "t \<in> set [string_test_cmp (lit_str1 l) (lit_str2 l) (lit_str12 l), string_test_len sp,
      string_test_set sp (lit_A l), string_test_cpy (lit_str1 l) sp]"
    and n: "\<And>k. 10 \<le> k - sp \<Longrightarrow> n k = m k"
  have lits: "literal sp (lit_str1 l) test1 n" "literal sp (lit_str2 l) test2 n"
    "literal sp (lit_str12 l) test1 n" "literal sp (lit_A l) (replicate 10 0x41) n"
    using assms(2) unfolding literals_at_def by (auto intro: literal_frame [OF _ n])
  then have "passes sp (string_test_cmp (lit_str1 l) (lit_str2 l) (lit_str12 l) n) n"
    by (intro string_test_cmp_passes) (simp_all add: literal_def)
  with t show "passes sp (t n) n"
    using string_test_len_passes [OF assms(1)] string_test_set_passes [OF lits(4) assms(1)]
      string_test_cpy_passes [OF lits(1) assms(1)] by auto
qed simp

section \<open>Properties\<close>

text \<open>C38: The unit tests of \<^verbatim>\<open>string.c\<close>, \<^verbatim>\<open>kernel.c\<close> and \<^verbatim>\<open>pmm.c\<close> all
  pass, wherever the compiler puts the literals (outside the stack frame of the tests) and
  whatever else is in memory, and they write to nothing but their local arrays.\<close>

theorem unit_tests_pass:
  assumes "sp \<noteq> 0" and "literals_at l sp m"
  shows "\<exists>m1 m2 m3. pmm_run_all_tests_before sp m = Some (True, m1) \<and> string_run_all_tests l sp m1 = Some (True, m2)
     \<and> kernel_run_all_tests sp m2 = Some (True, m3) \<and> (\<forall>k. 10 \<le> k - sp \<longrightarrow> m3 k = m k)"
proof -
  obtain m1 where m1: "pmm_run_all_tests_before sp m = Some (True, m1)" "\<forall>k. 10 \<le> k - sp \<longrightarrow> m1 k = m k"
    using kernel_generic_unit_test_passes [of "[pmm_test_defines sp]" sp m] pmm_test_defines_passes [OF assms(1)]
    unfolding pmm_run_all_tests_before_def by auto
  have "literals_at l sp m1" using assms(2) m1(2) unfolding literals_at_def by (auto intro: literal_frame)
  then obtain m2 where m2: "string_run_all_tests l sp m1 = Some (True, m2)" "\<forall>k. 10 \<le> k - sp \<longrightarrow> m2 k = m1 k"
    using string_tests_run [OF assms(1)] by blast
  obtain m3 where m3: "kernel_run_all_tests sp m2 = Some (True, m3)" "\<forall>k. 10 \<le> k - sp \<longrightarrow> m3 k = m2 k"
    using kernel_generic_unit_test_passes [of "[kernel_test_checksum sp]" sp m2] kernel_test_checksum_passes [of sp]
    unfolding kernel_run_all_tests_def by auto
  show ?thesis using m1 m2 m3 by auto
qed

definition example_literals :: literals where
  "example_literals = \<lparr>lit_str1 = 0x1000, lit_str2 = 0x1008, lit_str12 = 0x1000, lit_A = 0x1010\<rparr>"

definition example_memory :: mem where
  "example_memory = put_bytes 0x1000 (test1 @ [0]) (put_bytes 0x1008 (test2 @ [0]) (put_bytes 0x1010 (replicate 10 0x41) (\<lambda>_. 0)))"

lemma literal_low:
  assumes "c_string m a xs" and "length xs \<le> 20" and "0 < a" and "a < 0x2000"
  shows "literal 0x8000 a xs m"
proof -
  have l: "unat (of_nat (length xs) :: u32) = length xs" using assms(2) by (simp add: unat_of_nat)
  have "10 \<le> a + j - 0x8000" if "j \<le> of_nat (length xs)" for j
  proof -
    have "a + j - 0x8000 = a + j + 0xFFFF8000" by simp
    then show ?thesis
      using that assms(2-4) l by (simp only:) (simp add: word_le_nat_alt word_less_nat_alt unat_word_ariths)
  qed
  moreover have "of_nat (length xs + 1) \<le> 0x8000 - a"
    using assms(2-4) l by (simp add: word_le_nat_alt word_less_nat_alt unat_sub unat_word_ariths)
  ultimately show ?thesis using assms by (simp add: literal_def)
qed

lemma example_literals_at: "literals_at example_literals 0x8000 example_memory"
  unfolding literals_at_def
  by (intro conjI literal_low)
    (simp_all add: example_literals_def example_memory_def test1_def test2_def c_string_def bytes_at_def ten)

theorem unit_tests_pass_witness:
  "\<exists>m1 m2 m3. pmm_run_all_tests_before 0x8000 example_memory = Some (True, m1)
     \<and> string_run_all_tests example_literals 0x8000 m1 = Some (True, m2)
     \<and> kernel_run_all_tests 0x8000 m2 = Some (True, m3) \<and> (\<forall>k. 10 \<le> k - 0x8000 \<longrightarrow> m3 k = example_memory k)"
  by (rule unit_tests_pass [OF _ example_literals_at]) simp

lemma alloc_check_large: "alloc_check TEST_SZ2 a s = Some (Inl (Panic ''We don't have memory pages that big''))"
  by (simp add: alloc_check_def TEST_SZ2_def heap_malloc.simps [of _ s] heap_align_def sizeof_LLMalloc_def)

text \<open>The unit test of the heap never passes: its second allocation, of 20000 bytes, is larger
  than a page, which \<^verbatim>\<open>heap_malloc\<close> refuses with a panic.\<close>

lemma heap_test_never_passes: "heap_run_all_tests s \<noteq> Some (Inr (True, s'))"
  by (auto simp: heap_run_all_tests_def Let_def alloc_check_large oebind_def split: option.splits sum.splits)

end
