(* ===== verification/Kmain.thy ===== *)
theory Kmain
  imports Kernel_Cpu Kbd Acpi Multiboot Unit_Tests
begin

text \<open>
  The boot of the kernel, \<^verbatim>\<open>kmain\<close> of \<^verbatim>\<open>src/sys/kmain.c\<close>: the components in the order
  in which they are initialised, each on its part of one state. What the linker and the assembly
  decide (addresses of data and code, the values of ESP and EBP, whether the processor is
  supported, and whether this is a test kernel) is the record \<open>boot_env\<close>. Messages are left out,
  and so is the newline at the end of the text of a panic.
\<close>

section \<open>State\<close>

record ('m, 'd) kernel =
  k_machine :: "('m, 'd) machine"
  k_screen :: vga_screen
  k_kbd :: kbd_state
  k_channel_status :: u16
  k_registered :: "ps2_devices list"
  k_ainfo :: acpi_info

record boot_env =
  be_sc2_name :: u32
  be_bootap_name :: u32
  be_rsdp :: u32
  be_stubs :: stubs
  be_idt :: u32
  be_idt_ptr :: u32
  be_cpu_at :: "u32 \<Rightarrow> cpu_addrs"
  be_ps2_names :: "nat \<Rightarrow> u32"
  be_kbd_name :: u32
  be_process_dummy :: u32
  be_cpu_ap_enter :: u32
  be_cpu_supported :: bool
  be_esp :: u32
  be_ebp :: u32
  be_TEST_KERNEL :: bool
  be_literals :: literals
  be_test_frame :: u32

definition DEFAULT_BG :: vga_color where "DEFAULT_BG = Black"
definition DEFAULT_FG :: vga_color where "DEFAULT_FG = White"

definition k_proc :: "('m, 'd) kernel \<Rightarrow> proc_state" where
  "k_proc k = mc_proc (k_machine k)"

definition put_proc :: "proc_state \<Rightarrow> ('m, 'd) kernel \<Rightarrow> ('m, 'd) kernel" where
  "put_proc p k = k\<lparr>k_machine := (k_machine k)\<lparr>mc_proc := p\<rparr>\<rparr>"

definition acpi_part :: "('m, 'd) kernel \<Rightarrow> acpi_state" where
  "acpi_part k = \<lparr>ac_mem = pmem (k_proc k), cpus = mc_cpus (k_machine k), num_cpus = mc_num_cpus (k_machine k),
     ac_local_apic = local_apic (k_proc k), ac_io_apic = mc_io_apic (k_machine k)\<rparr>"

definition put_acpi :: "acpi_state \<Rightarrow> ('m, 'd) kernel \<Rightarrow> ('m, 'd) kernel" where
  "put_acpi a k = k\<lparr>k_machine := (k_machine k)\<lparr>mc_proc := (k_proc k)\<lparr>pmem := ac_mem a, local_apic := ac_local_apic a\<rparr>,
     mc_cpus := cpus a, mc_num_cpus := num_cpus a, mc_io_apic := ac_io_apic a\<rparr>\<rparr>"

definition ps2_part :: "('m, 'd) kernel \<Rightarrow> 'd ps2_state" where
  "ps2_part k = \<lparr>channel_status = k_channel_status k, registered = k_registered k,
     ps2_handlers = interrupt_handlers (k_proc k), ps2_mem = pmem (k_proc k), ps2_dev = mc_dev (k_machine k)\<rparr>"

definition put_ps2 :: "'d ps2_state \<Rightarrow> ('m, 'd) kernel \<Rightarrow> ('m, 'd) kernel" where
  "put_ps2 p k = k\<lparr>k_channel_status := channel_status p, k_registered := registered p,
     k_machine := (k_machine k)\<lparr>mc_proc := (k_proc k)\<lparr>interrupt_handlers := ps2_handlers p, pmem := ps2_mem p\<rparr>,
       mc_dev := ps2_dev p\<rparr>\<rparr>"

section \<open>The stages of the boot\<close>

text \<open>The tests of a test kernel.\<close>

definition test_main :: "'d device \<Rightarrow> boot_env \<Rightarrow> u32 \<Rightarrow> ('m, 'd) kernel \<Rightarrow> (kerror + ('m, 'd) kernel) option" where
  "test_main hw e mb k =
     Option.bind (vga_init DEFAULT_FG DEFAULT_BG (k_screen k)) (\<lambda>scr.
     let (n, u) = uart_init hw (uart_part (k_machine k));
         k = k\<lparr>k_screen := scr, k_machine := put_uart u (k_machine k)\<rparr>
     in if n \<noteq> 0 then Some (Inl (Panic ''NO UART''))
     else
       oebind (Some (check_necessary_flags (mb_flags (pmem (k_proc k)) mb))) (\<lambda>_.
       Option.bind (pmm_run_all_tests_before (be_test_frame e) (pmem (k_proc k))) (\<lambda>(ok, mem).
       if \<not> ok then Some (Inl (Panic ''pmm_run_all_tests_before() failed''))
       else
         let p = (k_proc k)\<lparr>pmem := mem\<rparr> in
         Option.bind (init_pmm (mb_mmap_addr (pmem p) mb) (mb_mmap_length (pmem p) mb) p) (\<lambda>(_, p).
         Option.bind (string_run_all_tests (be_literals e) (be_test_frame e) (pmem p)) (\<lambda>(ok, mem).
         if \<not> ok then Some (Inl (Panic ''string_run_all_tests failed''))
         else
           Option.bind (kernel_run_all_tests (be_test_frame e) mem) (\<lambda>(ok, mem).
           if \<not> ok then Some (Inl (Panic ''kernel_run_all_tests failed''))
           else Some (Inr (put_proc (p\<lparr>pmem := mem\<rparr>) k))))))))"

text \<open>Up to the modules: the screen, the frame allocator and the two modules.\<close>

definition kmain_memory ::
  "boot_env \<Rightarrow> u32 \<Rightarrow> u32 \<Rightarrow> u32 \<Rightarrow> ('m, 'd) kernel \<Rightarrow> (kerror + ('m, 'd) kernel) option" where
  "kmain_memory e mb mem_start mem_end k =
     Option.bind (vga_init DEFAULT_FG DEFAULT_BG (k_screen k)) (\<lambda>scr.
     let k = k\<lparr>k_screen := scr\<rparr> in
     oebind (Some (check_necessary_flags (mb_flags (pmem (k_proc k)) mb))) (\<lambda>_.
     Option.bind (init_pmm (mb_mmap_addr (pmem (k_proc k)) mb) (mb_mmap_length (pmem (k_proc k)) mb) (k_proc k)) (\<lambda>(_, p).
     let p = pmm_mark_mem_taken mem_start mem_end p in
     Option.bind (move_module mb (be_sc2_name e) MODULE1_LOCATION p) (\<lambda>(found, p).
     if \<not> found then Some (Inl (Panic ''Unable to move sc2.bin''))
     else
       let k = put_proc p k; k = k\<lparr>k_kbd := kbd_init MODULE1_LOCATION (k_kbd k)\<rparr> in
       Option.bind (move_module mb (be_bootap_name e) 0x7000 (k_proc k)) (\<lambda>(found, p).
       if \<not> found then Some (Inl (Panic ''Unable to move bootapp.bin''))
       else if \<not> be_cpu_supported e then Some (Inl (Panic ''CPU not supported''))
       else Some (Inr (put_proc p k)))))))"

text \<open>The tables of the firmware and the local APIC.\<close>

definition kmain_apic :: "'m mmio \<Rightarrow> boot_env \<Rightarrow> ('m, 'd) kernel \<Rightarrow> (kerror + ('m, 'd) kernel) option" where
  "kmain_apic mm e k =
     Option.bind (apic_init (be_rsdp e) (acpi_part k)) (\<lambda>(found, a).
     if \<not> found then Some (Inl (Panic ''APIC NOT found''))
     else
       let k = put_acpi a k in
       Option.bind (apic_find_info (be_rsdp e) (k_ainfo k) (acpi_part k)) (\<lambda>(r, info).
       if r \<noteq> 0 then Some (Inl (Panic ''Unable to store information about system''))
       else
         let k = k\<lparr>k_ainfo := info\<rparr> in
         oebind (apic_find_cpus (be_rsdp e) (acpi_part k)) (\<lambda>(n, a).
         if n = 0 then Some (Inl (Panic ''0 CPUs''))
         else
           let k = put_acpi a k in
           Option.bind (lapic_install mm (lapic_part (k_machine k))) (\<lambda>(installed, la).
           if \<not> installed then Some (Inl (Panic ''Unable to install local APIC''))
           else
             let (_, la) = lapic_read_version mm la
             in Some (Inr (k\<lparr>k_machine := put_lapic la (k_machine k)\<rparr>))))))"

text \<open>Descriptor tables, interrupt controllers, drivers and paging.\<close>

definition kmain_tables :: "'m mmio \<Rightarrow> 'd device \<Rightarrow> boot_env \<Rightarrow> ('m, 'd) kernel \<Rightarrow> kerror + ('m, 'd) kernel" where
  "kmain_tables mm hw e k =
     ebind (machine_gdt_install mm (be_cpu_at e) (k_machine k)) (\<lambda>m.
     let m = m\<lparr>mc_dev := pic_init hw (mc_dev m)\<rparr>;
         m = m\<lparr>mc_mmio := snd (ioapic_install mm (mc_io_apic m) (mc_mmio m))\<rparr>;
         m = m\<lparr>mc_idt := idt_install (be_stubs e) (be_idt e) (mc_idt m)\<rparr>;
         m = m\<lparr>mc_proc := (mc_proc m)\<lparr>interrupt_handlers := isr_install (interrupt_handlers (mc_proc m))\<rparr>\<rparr>;
         k = k\<lparr>k_machine := m\<rparr>;
         k = put_ps2 (snd (ps2_init hw (be_ps2_names e) (ps2_part k))) k;
         k = put_ps2 (snd (ps2kbd_init (be_ps2_names e) (be_kbd_name e) (ps2_part k))) k;
         k = k\<lparr>k_machine := put_uart (snd (uart_init hw (uart_part (k_machine k)))) (k_machine k)\<rparr>;
         k = put_proc ((k_proc k)\<lparr>interrupt_handlers := syscall_init (interrupt_handlers (k_proc k))\<rparr>) k
     in ebind (vmm_init (k_proc k)) (\<lambda>p. Inr (put_proc p k)))"

text \<open>The kernel's own stack, heap and first process, and the other processors, which run
  \<open>ap\<close> meanwhile. The boot processor ends in user mode.\<close>

definition kmain_run ::
  "'m mmio \<Rightarrow> 'd device \<Rightarrow> (nat \<Rightarrow> ('m, 'd) machine \<Rightarrow> ('m, 'd) machine) \<Rightarrow> boot_env \<Rightarrow> u32 \<Rightarrow> ('m, 'd) kernel
     \<Rightarrow> (kerror + ('m, 'd) kernel) option" where
  "kmain_run mm hw ap e stack k =
     oebind (move_stack KERNEL_STACK_TOP KERNEL_STACK_SZ stack (be_esp e) (be_ebp e) (k_proc k)) (\<lambda>(_, _, p).
     oebind (heap_init p) (\<lambda>p.
     oebind (process_init (be_process_dummy e) p) (\<lambda>(_, p).
     oebind (cpu_start_aps mm hw ap (be_cpu_ap_enter e) (be_idt_ptr e) ((k_machine k)\<lparr>mc_proc := p\<rparr>)) (\<lambda>m.
     Some (Inr (k\<lparr>k_machine := m\<rparr>))))))"

definition kmain ::
  "'m mmio \<Rightarrow> 'd device \<Rightarrow> (nat \<Rightarrow> ('m, 'd) machine \<Rightarrow> ('m, 'd) machine) \<Rightarrow> boot_env \<Rightarrow> u32 \<Rightarrow> u32 \<Rightarrow> u32 \<Rightarrow> u32
     \<Rightarrow> ('m, 'd) kernel \<Rightarrow> (kerror + ('m, 'd) kernel) option" where
  "kmain mm hw ap e mb mem_start mem_end stack k =
     (if mem_end > MAX_KERNEL_MEM then Some (Inl (Panic ''Kernel is too large''))
      else if \<not> VM_VALID then Some (Inl (Panic ''Virtual memory is NOT valid''))
      else
        oebind (if be_TEST_KERNEL e then test_main hw e mb k else Some (Inr k)) (\<lambda>k.
        oebind (kmain_memory e mb mem_start mem_end k) (\<lambda>k.
        oebind (kmain_apic mm e k) (\<lambda>k.
        oebind (Some (kmain_tables mm hw e k)) (\<lambda>k.
        kmain_run mm hw ap e stack k)))))"

section \<open>What the stages leave behind\<close>

lemma boot_bitmap_cong:
  assumes "\<forall>b < pmm_bitmap_sz s. pmem t (pmm_bitmap s + b div 8) = pmem s (pmm_bitmap s + b div 8)"
    and "paging t = paging s" and "pmm_bitmap t = pmm_bitmap s" and "pmm_bitmap_sz t = pmm_bitmap_sz s"
  shows "boot_inv t = boot_inv s" and "b < pmm_bitmap_sz s \<Longrightarrow> b \<in> taken t \<longleftrightarrow> b \<in> taken s"
proof -
  show tk: "b \<in> taken t \<longleftrightarrow> b \<in> taken s" if "b < pmm_bitmap_sz s" for b
    using assms that by (simp add: taken_def pmm_is_taken_def bitmap_is_set_def)
  have "bitmap_page t = bitmap_page s" by (simp add: bitmap_page_def fun_eq_iff assms)
  then show "boot_inv t = boot_inv s" using tk assms by (auto simp: boot_inv_def pmm_inv_def)
qed

lemma machine_gdt_keeps:
  assumes "fst (machine_cpuid mm m) < MAX_CPUS"
  obtains m' where "machine_gdt_install mm at m = Inr m'" "\<exists>c. mc_proc m' = (mc_proc m)\<lparr>cpu := c\<rparr>"
    "mc_num_cpus m' = mc_num_cpus m" "length (mc_cpus m') = length (mc_cpus m)"
proof -
  obtain id m1 where id: "machine_cpuid mm m = (id, m1)" by fastforce
  obtain d where m1: "m1 = m\<lparr>mc_mmio := d\<rparr>" using machine_cpuid_proc [of mm m] id by auto
  obtain c r where g: "gdt_install (at id) (mc_cpus m1 ! unat id, mc_segs m1) = (c, r)" by fastforce
  show thesis
    using assms id g by (intro that [of "m1\<lparr>mc_cpus := (mc_cpus m1)[unat id := c], mc_segs := r, mc_proc := (mc_proc m1)\<lparr>cpu := c\<rparr>\<rparr>"])
      (auto simp: machine_gdt_install_def m1 not_le)
qed

lemma uart_init_handlers:
  "uart_handlers (snd (uart_init hw u)) = uart_handlers u
     \<or> uart_handlers (snd (uart_init hw u)) = (uart_handlers u)(IRQ_COM1 := Uart_interrupt_com1)"
  by (auto simp: uart_init_def Let_def case_prod_beta uart_out_def uart_in_def uart_set_baud_rate_def
      register_interrupt_handler_def UART_COM1_IRQ_def IRQ4_def IRQ_COM1_def)

lemma vmm_init_handlers:
  assumes "boot_inv s" and "1024 \<le> pmm_bitmap_sz s"
    and "0 < b" "b < pmm_bitmap_sz s" "b \<notin> taken s" "0 < c" "c < pmm_bitmap_sz s" "c \<notin> taken s" "b \<noteq> c"
  shows "\<exists>s'. vmm_init s = Inr s' \<and> interrupt_handlers s' = (interrupt_handlers s)(14 := Vmm_handle_page_fault)"
proof -
  obtain s' D where s': "vmm_init s = Inr s'" "s' = s\<lparr>pmem := pmem s', kernel_dir := D, current_dir := D, cr3 := D, paging := True,
       local_apic := LAPIC_PHYS_VIRT_ADDR, interrupt_handlers := (interrupt_handlers s)(14 := Vmm_handle_page_fault)\<rparr>"
    by (rule boot_tables [OF assms])
  have "interrupt_handlers s' = (interrupt_handlers s)(14 := Vmm_handle_page_fault)" by (subst s'(2)) simp
  with s'(1) show ?thesis by blast
qed

text \<open>The vectors the drivers may take.\<close>

definition driver_table :: "isr_table \<Rightarrow> bool" where
  "driver_table t \<longleftrightarrow> t IRQ_SPURIOUS = Irq_spurious \<and> t IRQ_KEYBOARD \<in> {Dummy_int_handler, Ps2_handle_interrupt_1st}
     \<and> t IRQ_PS2 \<in> {Dummy_int_handler, Ps2_handle_interrupt_2nd} \<and> t IRQ_COM1 \<in> {Dummy_int_handler, Uart_interrupt_com1}
     \<and> (\<forall>v. v \<notin> {14, IRQ_KEYBOARD, IRQ_COM1, IRQ_PS2, IRQ_SPURIOUS, 0x80} \<longrightarrow> t v = Dummy_int_handler)"

lemma driver_table_install: "driver_table (isr_install t)"
  by (simp add: driver_table_def isr_install_all IRQ_KEYBOARD_def IRQ_COM1_def IRQ_PS2_def IRQ_SPURIOUS_def)

lemma driver_table_ps2:
  assumes "driver_table (ps2_handlers s)" and "channel_status s < 0x8000" and "length (registered s) = 2"
  shows "driver_table (ps2_handlers (snd (ps2_init hw name_at s)))"
  using ps2_init_result [OF assms(2,3), of hw name_at] assms(1)
  by (auto simp: driver_table_def Let_def case_prod_beta IRQ_KEYBOARD_def IRQ_COM1_def IRQ_PS2_def IRQ_SPURIOUS_def split: if_splits)

lemma driver_table_uart: "driver_table (uart_handlers u) \<Longrightarrow> driver_table (uart_handlers (snd (uart_init hw u)))"
  using uart_init_handlers [of hw u]
  by (auto simp: driver_table_def IRQ_KEYBOARD_def IRQ_COM1_def IRQ_PS2_def IRQ_SPURIOUS_def)

text \<open>Before the tables are set up: the drivers' state as the compiler initialises it, paging off,
  frames for the page directory and a page table, and the buffers of the PS/2 driver outside the
  bitmap of the frame allocator.\<close>

definition tables_ready :: "'m mmio \<Rightarrow> boot_env \<Rightarrow> ('m, 'd) kernel \<Rightarrow> bool" where
  "tables_ready mm e k \<longleftrightarrow> fst (machine_cpuid mm (k_machine k)) < MAX_CPUS
     \<and> k_channel_status k < 0x8000 \<and> length (k_registered k) = 2
     \<and> boot_inv (k_proc k) \<and> 1024 \<le> pmm_bitmap_sz (k_proc k)
     \<and> (\<forall>b < pmm_bitmap_sz (k_proc k). \<not> name_buffers (be_ps2_names e) (pmm_bitmap (k_proc k) + b div 8))
     \<and> (\<exists>b c. 0 < b \<and> b < pmm_bitmap_sz (k_proc k) \<and> b \<notin> taken (k_proc k)
          \<and> 0 < c \<and> c < pmm_bitmap_sz (k_proc k) \<and> c \<notin> taken (k_proc k) \<and> b \<noteq> c)"

text \<open>Up to \<^verbatim>\<open>vmm_init\<close>: the state it is called in, with the frame allocator as it was.\<close>

lemma kmain_tables_to_vmm:
  assumes "tables_ready mm e k"
  shows "\<exists>k1. kmain_tables mm hw e k = ebind (vmm_init (k_proc k1)) (\<lambda>p. Inr (put_proc p k1))
     \<and> boot_inv (k_proc k1) \<and> pmm_bitmap_sz (k_proc k1) = pmm_bitmap_sz (k_proc k)
     \<and> bitmap_page (k_proc k1) = bitmap_page (k_proc k)
     \<and> (\<forall>b < pmm_bitmap_sz (k_proc k). b \<in> taken (k_proc k1) \<longleftrightarrow> b \<in> taken (k_proc k))
     \<and> last_pid (k_proc k1) = last_pid (k_proc k)
     \<and> mc_num_cpus (k_machine k1) = mc_num_cpus (k_machine k) \<and> length (mc_cpus (k_machine k1)) = length (mc_cpus (k_machine k))
     \<and> (\<forall>v < 256. gate_offset (idt_entries (mc_idt (k_machine k1)) ! v) = vector_stub (be_stubs e) v)
     \<and> interrupt_handlers (k_proc k1) 0x80 = Syscall_handler
     \<and> driver_table ((interrupt_handlers (k_proc k1))(14 := Vmm_handle_page_fault))"
proof -
  let ?names = "be_ps2_names e"
  obtain m where m: "machine_gdt_install mm (be_cpu_at e) (k_machine k) = Inr m" "\<exists>c. mc_proc m = (k_proc k)\<lparr>cpu := c\<rparr>"
    "mc_num_cpus m = mc_num_cpus (k_machine k)" "length (mc_cpus m) = length (mc_cpus (k_machine k))"
    using machine_gdt_keeps [of mm "k_machine k" "be_cpu_at e"] assms unfolding tables_ready_def k_proc_def by metis
  define m1 where "m1 = m\<lparr>mc_dev := pic_init hw (mc_dev m), mc_mmio := snd (ioapic_install mm (mc_io_apic m) (mc_mmio m)),
     mc_idt := idt_install (be_stubs e) (be_idt e) (mc_idt m),
     mc_proc := (mc_proc m)\<lparr>interrupt_handlers := isr_install (interrupt_handlers (mc_proc m))\<rparr>\<rparr>"
  define k1 where "k1 = k\<lparr>k_machine := m1\<rparr>"
  define p1 where "p1 = snd (ps2_init hw ?names (ps2_part k1))"
  define k2 where "k2 = put_ps2 p1 k1"
  define p2 where "p2 = snd (ps2kbd_init ?names (be_kbd_name e) (ps2_part k2))"
  define k3 where "k3 = put_ps2 p2 k2"
  define u where "u = snd (uart_init hw (uart_part (k_machine k3)))"
  define k4 where "k4 = k3\<lparr>k_machine := put_uart u (k_machine k3)\<rparr>"
  define k5 where "k5 = put_proc ((k_proc k4)\<lparr>interrupt_handlers := syscall_init (interrupt_handlers (k_proc k4))\<rparr>) k4"
  have run: "kmain_tables mm hw e k = ebind (vmm_init (k_proc k5)) (\<lambda>p. Inr (put_proc p k5))"
    using m(1) by (simp add: kmain_tables_def Let_def m1_def [symmetric] k1_def [symmetric] p1_def [symmetric]
        k2_def [symmetric] p2_def [symmetric] k3_def [symmetric] u_def [symmetric] k4_def [symmetric] k5_def [symmetric])
  have st: "channel_status (ps2_part k1) < 0x8000" "length (registered (ps2_part k1)) = 2"
    using assms by (simp_all add: tables_ready_def ps2_part_def k1_def)
  have "driver_table (ps2_handlers (ps2_part k1))" by (simp add: ps2_part_def k1_def k_proc_def m1_def driver_table_install)
  from driver_table_ps2 [OF this st] have "driver_table (ps2_handlers p1)" by (simp add: p1_def)
  then have "driver_table (ps2_handlers p2)"
    by (simp add: p2_def ps2kbd_init_def ps2_register_keeps) (simp add: ps2_part_def k2_def put_ps2_def k_proc_def)
  then have "driver_table (uart_handlers (uart_part (k_machine k3)))"
    by (simp add: uart_part_def k3_def put_ps2_def k_proc_def)
  then have dt: "driver_table (uart_handlers u)" unfolding u_def by (rule driver_table_uart)
  have mem: "pmem (k_proc k5) a = pmem (k_proc k) a" if "\<not> name_buffers ?names a" for a
  proof -
    have "pmem (k_proc k5) a = ps2_mem p2 a"
      by (simp add: k5_def put_proc_def k_proc_def k4_def put_uart_def k3_def put_ps2_def)
    also have "\<dots> = ps2_mem p1 a"
      using that by (simp add: p2_def ps2kbd_init_def ps2_register_keeps) (simp add: ps2_part_def k2_def put_ps2_def k_proc_def)
    also have "\<dots> = ps2_mem (ps2_part k1) a" unfolding p1_def by (rule ps2_init_mem [OF st that])
    also have "\<dots> = pmem (k_proc k) a" using m(2) by (auto simp: ps2_part_def k1_def k_proc_def m1_def)
    finally show ?thesis .
  qed
  have flds: "paging (k_proc k5) = paging (k_proc k)" "pmm_bitmap (k_proc k5) = pmm_bitmap (k_proc k)"
    "pmm_bitmap_sz (k_proc k5) = pmm_bitmap_sz (k_proc k)"
    using m(2) by (auto simp: k5_def put_proc_def k_proc_def k4_def put_uart_def k3_def put_ps2_def k2_def k1_def m1_def)
  note bm = boot_bitmap_cong [OF _ flds]
  have "\<forall>b < pmm_bitmap_sz (k_proc k). pmem (k_proc k5) (pmm_bitmap (k_proc k) + b div 8) = pmem (k_proc k) (pmm_bitmap (k_proc k) + b div 8)"
    using mem assms by (simp add: tables_ready_def)
  note bm = bm [OF this]
  have bi: "boot_inv (k_proc k5)" using bm(1) assms by (simp add: tables_ready_def)
  have bp: "bitmap_page (k_proc k5) = bitmap_page (k_proc k)" by (simp add: bitmap_page_def fun_eq_iff flds)
  have h5: "interrupt_handlers (k_proc k5) = (uart_handlers u)(0x80 := Syscall_handler)"
    by (simp add: k5_def put_proc_def k_proc_def k4_def put_uart_def syscall_init_def register_interrupt_handler_def)
  have mach: "mc_idt (k_machine k5) = idt_install (be_stubs e) (be_idt e) (mc_idt m)"
    "mc_num_cpus (k_machine k5) = mc_num_cpus m" "mc_cpus (k_machine k5) = mc_cpus m"
    by (simp_all add: put_proc_def k5_def k4_def put_uart_def k3_def put_ps2_def k2_def k1_def m1_def)
  have lp: "last_pid (k_proc k5) = last_pid (k_proc k)"
    using m(2) by (auto simp: k5_def put_proc_def k_proc_def k4_def put_uart_def k3_def put_ps2_def k2_def k1_def m1_def)
  have "driver_table ((interrupt_handlers (k_proc k5))(14 := Vmm_handle_page_fault))"
    using dt unfolding h5 by (auto simp: driver_table_def IRQ_KEYBOARD_def IRQ_COM1_def IRQ_PS2_def IRQ_SPURIOUS_def)
  then show ?thesis
    using run bi bp bm(2) flds(3) lp mach m(3,4) h5 idt_install_entry gate_offset_pack by (intro exI [of _ k5]) simp
qed

text \<open>The interrupts after the boot, the composition of \<^verbatim>\<open>idt_install\<close>,
  \<^verbatim>\<open>isr_install\<close>, the drivers, \<^verbatim>\<open>syscall_init\<close> and \<^verbatim>\<open>vmm_init\<close>: whatever the
  devices answer, this part of \<^verbatim>\<open>kmain\<close> comes to its end with paging on and the invariant of
  the page tables; every vector leads to its stub; page faults, system calls and spurious
  interrupts have their handlers, the keyboard, the second PS/2 port and the serial port have
  theirs or the dummy, and all other vectors have the dummy.\<close>

lemma kmain_tables_runs:
  assumes "tables_ready mm e k"
  shows "\<exists>k'. kmain_tables mm hw e k = Inr k' \<and> vmm_inv (k_proc k')
     \<and> (\<forall>v < 256. gate_offset (idt_entries (mc_idt (k_machine k')) ! v) = vector_stub (be_stubs e) v)
     \<and> interrupt_handlers (k_proc k') 14 = Vmm_handle_page_fault \<and> interrupt_handlers (k_proc k') 0x80 = Syscall_handler
     \<and> driver_table (interrupt_handlers (k_proc k'))"
proof -
  obtain k1 where k1: "kmain_tables mm hw e k = ebind (vmm_init (k_proc k1)) (\<lambda>p. Inr (put_proc p k1))" "boot_inv (k_proc k1)"
    "pmm_bitmap_sz (k_proc k1) = pmm_bitmap_sz (k_proc k)"
    "\<forall>b < pmm_bitmap_sz (k_proc k). b \<in> taken (k_proc k1) \<longleftrightarrow> b \<in> taken (k_proc k)"
    "\<forall>v < 256. gate_offset (idt_entries (mc_idt (k_machine k1)) ! v) = vector_stub (be_stubs e) v"
    "interrupt_handlers (k_proc k1) 0x80 = Syscall_handler" "driver_table ((interrupt_handlers (k_proc k1))(14 := Vmm_handle_page_fault))"
    using kmain_tables_to_vmm [OF assms, of hw] by blast
  obtain b c where bc: "0 < b" "b < pmm_bitmap_sz (k_proc k)" "b \<notin> taken (k_proc k)" "0 < c" "c < pmm_bitmap_sz (k_proc k)"
    "c \<notin> taken (k_proc k)" "b \<noteq> c"
    using assms by (auto simp: tables_ready_def)
  have "1024 \<le> pmm_bitmap_sz (k_proc k1)" "b \<notin> taken (k_proc k1)" "c \<notin> taken (k_proc k1)" using assms k1(3,4) bc by (simp_all add: tables_ready_def)
  then obtain p where p: "vmm_init (k_proc k1) = Inr p" "vmm_inv p"
    "interrupt_handlers p = (interrupt_handlers (k_proc k1))(14 := Vmm_handle_page_fault)"
    using vmm_init_inv [of "k_proc k1" b c] vmm_init_handlers [of "k_proc k1" b c] bc k1(2,3) by auto
  then show ?thesis
    using k1(1,5-7) by (intro exI [of _ "put_proc p k1"]) (simp add: put_proc_def k_proc_def)
qed

end
