(* ===== verification/Heap_Init.thy ===== *)
theory Heap_Init
  imports Heap Frames
begin

text \<open>
  The first block of the heap, \<^verbatim>\<open>heap_init\<close> of \<^verbatim>\<open>src/sys/heap.c\<close>: 1024 pages, each with
  a frame of its own, through the frame allocator and \<^verbatim>\<open>vmm_map_page\<close>. How many frames are left
  decides whether it comes to its end.
\<close>

section \<open>The pages of the first block\<close>

lemma heap_page_index:
  assumes "i < 1024"
  shows "ADDR2INDEX (HEAP_START + i * 4096) = (HEAP_START div MB4, i)" and "(HEAP_START + i * 4096) mod 4096 = 0"
proof -
  have i: "unat i < 1024" using assms by (simp add: word_less_nat_alt)
  have v: "unat (0x20000000 + i * 4096) = 0x20000000 + unat i * 4096" using i by (simp add: unat_word_ariths)
  have "(0x20000000 + unat i * 4096) div 0x400000 = 128" using i by (intro div_nat_eqI) simp_all
  then have d: "(0x20000000 + i * 4096) div 0x400000 = 128" by (simp add: word_unat_eq_iff unat_div_distrib v)
  have "(0x20000000 + unat i * 4096) mod 0x400000 = unat i * 4096" using i by (intro mod_nat_eqI) auto
  then have "(0x20000000 + i * 4096) mod 0x400000 div 4096 = i"
    by (simp add: word_unat_eq_iff unat_div_distrib unat_mod_distrib v)
  with d show "ADDR2INDEX (HEAP_START + i * 4096) = (HEAP_START div MB4, i)" by (simp add: ADDR2INDEX_eq layout_defs)
  have "unat i * 4096 mod 4096 = 0" by simp
  then have "(0x20000000 + unat i * 4096) mod 4096 = 0" by (simp add: mod_add_eq [symmetric] del: mod_add_eq)
  then show "(HEAP_START + i * 4096) mod 4096 = 0"
    by (simp add: layout_defs word_unat_eq_iff unat_mod_distrib v)
qed

lemma heap_dir: "HEAP_START div MB4 < 1023" by (simp add: layout_defs)

text \<open>What the loop needs from page \<open>i\<close> on: the pages are free, and there are frames for them
  and, if it is missing, for their page table.\<close>

definition heap_pages_ready :: "u32 \<Rightarrow> ('a) heap_state_scheme \<Rightarrow> bool" where
  "heap_pages_ready i s \<longleftrightarrow> vmm_inv s \<and> blocks_allocked s = i
     \<and> (\<forall>j. i \<le> j \<and> j < 1024 \<longrightarrow> mappings s (HEAP_START div MB4, j) = None)
     \<and> unat (1024 - i) + (if page_present (pde s (HEAP_START div MB4)) then 0 else 1) \<le> frames_left s"

text \<open>The frames that takes, and the state afterwards: every page has a frame of its own.\<close>

definition heap_frames :: "u32 \<Rightarrow> ('a) vmm_state_scheme \<Rightarrow> nat" where
  "heap_frames i s = unat (1024 - i) + (if page_present (pde s (HEAP_START div MB4)) then 0 else 1)"

definition heap_pages_mapped :: "u32 \<Rightarrow> ('a) vmm_state_scheme \<Rightarrow> ('a) vmm_state_scheme \<Rightarrow> bool" where
  "heap_pages_mapped i s s' \<longleftrightarrow> keeps {v. fst v = HEAP_START div MB4 \<and> i \<le> snd v} (heap_frames i s) s s'
     \<and> (\<forall>j. i \<le> j \<and> j < 1024 \<longrightarrow> (\<exists>f. held_page s' (HEAP_START + j * 4096) f))"

lemma heap_map_step:
  assumes ready: "heap_pages_ready i s" and i: "i < 1024"
  obtains f s1 s2 where "pmm_alloc_first s = (f, s1)"
    "vmm_map_page f (HEAP_START + i * 4096) X86_PAGE_WRITABLE s1 = Inr (VMM_SUCCESS, s2)"
    "heap_pages_ready (i + 1) (s2\<lparr>blocks_allocked := blocks_allocked s2 + 1\<rparr>)"
    "held_page s2 (HEAP_START + i * 4096) f" "\<exists>m. s2 = s\<lparr>pmem := m\<rparr>"
    "keeps {(HEAP_START div MB4, i)} (if page_present (pde s (HEAP_START div MB4)) then 1 else 2) s s2"
    "page_present (pde s2 (HEAP_START div MB4))"
proof -
  let ?D = "HEAP_START div MB4" and ?v = "HEAP_START + i * 4096"
  have inv: "vmm_inv s" and bl: "blocks_allocked s = i"
    and none: "\<forall>j. i \<le> j \<and> j < 1024 \<longrightarrow> mappings s (?D, j) = None" and left: "heap_frames i s \<le> frames_left s"
    using ready by (simp_all add: heap_pages_ready_def heap_frames_def)
  have n: "unat (1024 - i) = 1024 - unat i" "unat (1024 - (i + 1)) = 1023 - unat i" "unat i < 1024"
    using i by (simp_all add: unat_sub word_less_nat_alt word_le_nat_alt unat_word_ariths)
  note ix = heap_page_index [OF i]
  have "(if page_present (pde s (fst (ADDR2INDEX ?v))) then 1 else 2) \<le> frames_left s" "fst (ADDR2INDEX ?v) < 1023"
    using left n heap_dir by (auto simp: heap_frames_def ix split: if_splits)
  from alloc_and_map [OF inv this(1) ix(2) this(2)] none i ix obtain f s1 s2 where
    al: "pmm_alloc_first s = (f, s1)" and s2: "vmm_map_page f ?v X86_PAGE_WRITABLE s1 = Inr (VMM_SUCCESS, s2)"
    "keeps {(?D, i)} (if page_present (pde s ?D) then 1 else 2) s s2" "\<exists>m. s2 = s\<lparr>pmem := m\<rparr>"
    "page_present (pde s2 ?D)" "held_page s2 ?v f"
    by (metis fst_conv order_refl)
  let ?t = "s2\<lparr>blocks_allocked := blocks_allocked s2 + 1\<rparr>"
  have view: "vmm_view ?t s2" by (simp add: vmm_view_def)
  have tb: "blocks_allocked ?t = i + 1" using s2(3) bl by auto
  have tm: "mappings s2 (?D, j) = None" if "i + 1 \<le> j" "j < 1024" for j
  proof -
    have "i \<le> j" "j \<noteq> i" using that i inc_le_iff_less [OF i, of j] by auto
    then show ?thesis using none that(2) keepsD(3) [OF s2(2), of "(?D, j)"] by simp
  qed
  have "unat (1024 - (i + 1)) \<le> frames_left s2"
    using keepsD(4) [OF s2(2)] left n by (auto simp: heap_frames_def split: if_splits)
  then have "heap_pages_ready (i + 1) ?t"
    using tb tm keepsD(1) [OF s2(2)] s2(4) frames_view(1) [OF view] vmm_view_simps(1,2,4) [OF view]
    by (simp add: heap_pages_ready_def)
  then show thesis using al s2 by (intro that [of f s1 s2])
qed

lemma heap_map_loop_maps:
  assumes "heap_pages_ready i s" and "i \<le> 1024"
  shows "\<exists>s'. heap_map_loop i s = Inr s' \<and> heap_pages_mapped i s s'"
  using assms
proof (induction i s rule: heap_map_loop.induct)
  case (1 i s)
  show ?case
  proof (cases "i < 1024")
    case True
    let ?D = "HEAP_START div MB4"
    obtain f s1 s2 where st: "pmm_alloc_first s = (f, s1)"
      "vmm_map_page f (HEAP_START + i * 4096) X86_PAGE_WRITABLE s1 = Inr (VMM_SUCCESS, s2)"
      "heap_pages_ready (i + 1) (s2\<lparr>blocks_allocked := blocks_allocked s2 + 1\<rparr>)"
      "held_page s2 (HEAP_START + i * 4096) f" "\<exists>m. s2 = s\<lparr>pmem := m\<rparr>"
      "keeps {(?D, i)} (if page_present (pde s ?D) then 1 else 2) s s2" "page_present (pde s2 ?D)"
      using heap_map_step [OF "1.prems"(1) True] .
    have lt: "i < HEAP_BLOCKS" using True by (simp add: layout_defs)
    have bl: "blocks_allocked s1 = i"
      using "1.prems"(1) pmm_alloc_first_only_mem [of s] st(1) by (auto simp: heap_pages_ready_def)
    let ?t = "s2\<lparr>blocks_allocked := blocks_allocked s2 + 1\<rparr>"
    have view: "vmm_view ?t s2" by (simp add: vmm_view_def)
    obtain s' where s': "heap_map_loop (i + 1) ?t = Inr s'" "heap_pages_mapped (i + 1) ?t s'"
      using "1.IH" [OF lt refl st(1) [symmetric] _ st(3) inc_le [OF True], of 0] by auto
    have run: "heap_map_loop i s = Inr s'"
      using st(1,2) s'(1) bl lt by (simp add: heap_map_loop.simps [of i s] VMM_SUCCESS_def)
    have "vmm_view s' s'" by (simp add: vmm_view_def)
    with view have k: "keeps {v. fst v = ?D \<and> i + 1 \<le> snd v} (heap_frames (i + 1) s2) s2 s'"
      using s'(2) keeps_view [OF view, of s' s'] vmm_view_simps(4) [OF view] by (simp add: heap_pages_mapped_def heap_frames_def)
    have step: "i + 1 \<le> j \<longleftrightarrow> i < j" for j using inc_le_iff_less [OF True] .
    have "heap_frames (i + 1) s2 + (if page_present (pde s ?D) then 1 else 2) = heap_frames i s"
      using True st(7) by (simp add: heap_frames_def unat_sub word_less_nat_alt word_le_nat_alt unat_word_ariths)
    then have "keeps {v. fst v = ?D \<and> i \<le> snd v} (heap_frames i s) s s'"
      using keeps_trans [OF st(6) k] by (elim keeps_weaken) (auto simp: step)
    moreover have "\<exists>f. held_page s' (HEAP_START + j * 4096) f" if "i \<le> j" "j < 1024" for j
      using that s'(2) keepsD(2) [OF k st(4)] by (cases "j = i") (auto simp: heap_pages_mapped_def step)
    ultimately show ?thesis using run by (auto simp: heap_pages_mapped_def)
  next
    case False
    with "1.prems" have "i = 1024" by auto
    then have "heap_map_loop i s = Inr s" by (subst heap_map_loop.simps) (simp add: layout_defs)
    moreover have "heap_pages_mapped i s s"
      using "1.prems"(1) \<open>i = 1024\<close> by (auto simp: heap_pages_mapped_def heap_pages_ready_def keeps_refl)
    ultimately show ?thesis by blast
  qed
qed

lemma heap_map_loop_frame: "heap_map_loop i s = Inr s' \<Longrightarrow> \<exists>m b. s' = s\<lparr>pmem := m, blocks_allocked := b\<rparr>"
proof (induction i s arbitrary: s' rule: heap_map_loop.induct)
  case (1 i s)
  show ?case
  proof (cases "i < HEAP_BLOCKS")
    case True
    obtain f s1 where al: "pmm_alloc_first s = (f, s1)" by fastforce
    with pmm_alloc_first_only_mem [of s] obtain m1 where s1: "s1 = s\<lparr>pmem := m1\<rparr>" by auto
    obtain s2 where s2: "vmm_map_page f (HEAP_START + blocks_allocked s1 * 4096) X86_PAGE_WRITABLE s1 = Inr (0, s2)"
      and rec: "heap_map_loop (i + 1) (s2\<lparr>blocks_allocked := blocks_allocked s2 + 1\<rparr>) = Inr s'"
      using 1(2) True al by (auto simp: heap_map_loop.simps [of i s] ebind_Inr_iff split: if_splits)
    obtain m2 where "s2 = s1\<lparr>pmem := m2\<rparr>" using vmm_map_page_only_mem [OF s2] by blast
    then show ?thesis using 1(1) [OF True refl al [symmetric] _ rec, of 0] s1 by auto
  next
    case False
    with 1(2) have "s' = s\<lparr>pmem := pmem s, blocks_allocked := blocks_allocked s\<rparr>" by (simp add: heap_map_loop.simps [of i s])
    then show ?thesis by blast
  qed
qed

lemma spinlock_acquire_fresh: "spinlock_acquire (init_spinlock l i) = Some ((init_spinlock l i)\<lparr>locked := 1\<rparr>)"
  unfolding spinlock_acquire_def by (subst spinlock_spin.simps) (simp add: lock_defs)

lemma heap_init_runs:
  assumes "heap_pages_ready 0 (s\<lparr>blocks_allocked := 0\<rparr>)"
  shows "\<exists>s'. heap_init s = Some (Inr s') \<and> heap_ok s' [HEAP_START] \<and> ll_used (nodes s' HEAP_START) = 0
     \<and> ll_size (nodes s' HEAP_START) = 4096 * HEAP_BLOCKS - sizeof_LLMalloc \<and> locked (kheap_lock s') = 0
     \<and> heap_pages_mapped 0 s s' \<and> (\<forall>sz \<le> 4076. heap_fits sz s') \<and> heap_state.more s' = heap_state.more s
     \<and> kernel_dir s' = kernel_dir s \<and> local_apic s' = local_apic s"
proof -
  define l where "l = (init_spinlock (kheap_lock s) LOCK_HEAP)\<lparr>locked := 1\<rparr>"
  define t where "t = s\<lparr>kheap_lock := l, blocks_allocked := 0\<rparr>"
  have view: "vmm_view t (s\<lparr>blocks_allocked := 0\<rparr>)" "vmm_view t s" by (simp_all add: t_def vmm_view_def)
  have "heap_pages_ready 0 t"
    using assms unfolding heap_pages_ready_def vmm_view_simps(1,2,4) [OF view(1)] frames_view(1) [OF view(1)]
    by (simp add: t_def)
  then obtain t' where t': "heap_map_loop 0 t = Inr t'" "heap_pages_mapped 0 t t'" using heap_map_loop_maps by fastforce
  note K = heap_map_loop_keeps [OF t'(1), simplified]
  define n where "n = node_upd HEAP_START (\<lambda>b. b\<lparr>ll_size := 4096 * HEAP_BLOCKS - sizeof_LLMalloc, ll_used := 0,
                ll_magic1 := 0xabcd, ll_magic2 := 0xef\<rparr>) (node_upd HEAP_START (\<lambda>b. b\<lparr>ll_next := HEAP_START, ll_prev := HEAP_START\<rparr>) t')"
  define s' where "s' = n\<lparr>kern_heap := HEAP_START, kheap_lock := spinlock_release (kheap_lock n)\<rparr>"
  have run: "heap_init s = Some (Inr s')"
    using t'(1) spinlock_acquire_fresh [of "kheap_lock s" LOCK_HEAP]
    by (simp add: heap_init_def l_def [symmetric] heap_get_new_block_def Let_def s'_def n_def)
      (simp add: t_def)
  have sz: "ll_size (nodes s' HEAP_START) = 0x3FFFF0" "ll_used (nodes s' HEAP_START) = 0" "ll_next (nodes s' HEAP_START) = HEAP_START"
    "kern_heap s' = HEAP_START" "locked (kheap_lock s') = 0"
    by (simp_all add: s'_def n_def node_upd_def sizeof_LLMalloc_def layout_defs lock_defs)
  have bl: "blocks_allocked s' = 1024"
    using K by (simp add: s'_def n_def node_upd_def t_def layout_defs)
  have ok: "heap_ok s' [HEAP_START]"
    by (simp add: heap_ok_def sz bl heap_limit_def)
  have fits: "heap_fits x s'" if "x \<le> 4076" for x
  proof -
    have x: "unat x \<le> 4076" "unat (x mod 4) < 4" using that by (simp_all add: word_le_nat_alt unat_mod_distrib)
    then have "unat (heap_align x) \<le> 4079" by (simp add: heap_align_def unat_word_ariths)
    then have "heap_align x \<le> 4080" "heap_align x \<le> 0x3FFFF0" by (simp_all add: word_le_nat_alt)
    then show ?thesis
      using x ok sz by (auto simp: heap_fits_def block_fits_def sizeof_LLMalloc_def intro!: exI [of _ "[HEAP_START]"])
  qed
  have view': "vmm_view t' s'" by (simp add: vmm_view_def s'_def n_def node_upd_def)
  have "heap_pages_mapped 0 s s'"
    using t'(2) keeps_view [OF view(2) view'] frames_view(2) [OF view'] vmm_view_simps(4) [OF view(2)]
    by (simp add: heap_pages_mapped_def heap_frames_def)
  moreover have "heap_state.more s' = heap_state.more s" "kernel_dir s' = kernel_dir s" "local_apic s' = local_apic s"
    using heap_map_loop_frame [OF t'(1)] by (auto simp: s'_def n_def node_upd_def t_def)
  ultimately show ?thesis using run ok sz fits by (intro exI [of _ s']) (simp add: sizeof_LLMalloc_def layout_defs)
qed

section \<open>Properties\<close>

text \<open>C4: \<^verbatim>\<open>heap_init\<close> with paging on, the first 4 MB of the heap's addresses free and a frame for
  each of these pages and, if it is missing, one for their page table: it comes to its end without a
  panic or a page fault. The heap is well formed, with one free block that fills these 4 MB, every
  page of it has a frame of its own, the tables keep their invariant, no other page is mapped
  differently and no more frames are taken. So a request of up to a page less the header succeeds.\<close>

theorem heap_init_establishes:
  assumes "heap_pages_ready 0 (s\<lparr>blocks_allocked := 0\<rparr>)"
  shows "\<exists>s'. heap_init s = Some (Inr s') \<and> heap_ok s' [HEAP_START] \<and> ll_used (nodes s' HEAP_START) = 0
     \<and> ll_size (nodes s' HEAP_START) = 4096 * HEAP_BLOCKS - sizeof_LLMalloc \<and> locked (kheap_lock s') = 0
     \<and> heap_pages_mapped 0 s s' \<and> (\<forall>sz \<le> 4076. heap_fits sz s')"
  using heap_init_runs [OF assms] by blast

text \<open>A machine with 8 MB, of which three frames are taken.\<close>

definition roomy_example :: heap_state where
  "roomy_example = heap_example\<lparr>pmm_bitmap_sz := 2048\<rparr>"

lemma roomy_example_inv: "vmm_inv roomy_example" "mappings roomy_example = mappings vmm_example" "pde roomy_example = pde vmm_example"
proof -
  let ?s = roomy_example and ?t = vmm_example
  have eq: "pmem ?s = pmem ?t" "paging ?s = paging ?t" "cr3 ?s = cr3 ?t" "pmm_bitmap ?s = pmm_bitmap ?t" "pmm_bitmap_sz ?s = 2048"
    by (simp_all add: roomy_example_def heap_example_def vmm_example_def)
  show pde: "pde ?s = pde ?t" by (simp add: fun_eq_iff pde_def eq)
  have ptbl: "ptbl ?s = ptbl ?t" by (simp add: fun_eq_iff ptbl_def pde)
  show "mappings ?s = mappings ?t" by (simp add: fun_eq_iff mappings_def pde pte_def ptbl eq)
  have tk: "taken ?s = taken ?t" by (simp add: taken_def pmm_is_taken_def eq)
  have bm: "bitmap_page ?s p \<longleftrightarrow> p = 1" for p
    unfolding bitmap_page_def eq using example_bitmap_byte by (auto simp: vmm_example_def intro: exI [of _ 0])
  have small: "p < 16 \<Longrightarrow> p < 2048" for p :: u32 by (erule order_less_trans) simp
  have sz: "pmm_bitmap_sz ?t = 16" by (simp add: vmm_example_def)
  note I = vmm_invD [OF vmm_example_inv, unfolded sz vmm_example_bitmap_page]
  show "vmm_inv ?s"
    unfolding vmm_inv_def eq pde ptbl tk bm
    using I(1,3-9) small vmm_example_taken by (simp add: pmm_inv_def eq)
qed

lemma roomy_example_frames: "1025 \<le> frames_left roomy_example"
proof -
  have "of_nat n \<in> free_frames roomy_example" if n: "8 \<le> n" "n < 1033" for n
  proof -
    have u: "unat (of_nat n :: u32) = n" using n by (simp add: unat_of_nat)
    have "unat (of_nat n div 8 :: u32) = n div 8" by (simp add: unat_div_distrib u)
    moreover have "1 \<le> n div 8" "n div 8 < 130" using n by auto
    ultimately have u': "0x1000 < unat (0x1000 + of_nat n div 8 :: u32)" "unat (0x1000 + of_nat n div 8 :: u32) < 0x2000"
      by (simp_all add: unat_word_ariths)
    have "pmem roomy_example (0x1000 + of_nat n div 8) = 0"
      using u' by (auto simp: roomy_example_def heap_example_def vmm_example_def store32_def word_unat_eq_iff)
    then have "of_nat n \<notin> taken roomy_example"
      by (simp add: taken_def pmm_is_taken_def bitmap_is_set_def) (simp add: roomy_example_def heap_example_def)
    then show ?thesis
      using u n by (simp add: free_frames_def word_less_nat_alt) (simp add: roomy_example_def)
  qed
  then show ?thesis using card_frames [of 8 1033 "free_frames roomy_example"] by (simp add: frames_left_def)
qed

lemma roomy_example_ready: "heap_pages_ready 0 (roomy_example\<lparr>blocks_allocked := 0\<rparr>)"
proof -
  let ?s = "roomy_example\<lparr>blocks_allocked := 0\<rparr>"
  have view: "vmm_view ?s roomy_example" by (simp add: vmm_view_def)
  show ?thesis
    unfolding heap_pages_ready_def vmm_view_simps(1,2,4) [OF view] frames_view(1) [OF view] roomy_example_inv(2)
    using roomy_example_inv(1) roomy_example_frames by (simp add: vmm_example_unmapped)
qed

theorem heap_init_establishes_witness:
  "\<exists>s'. heap_init roomy_example = Some (Inr s') \<and> heap_ok s' [HEAP_START] \<and> heap_fits 100 s'
     \<and> (\<exists>f. data_page s' (HEAP_START + 0x3FF000) f)"
proof -
  obtain s' where s': "heap_init roomy_example = Some (Inr s')" "heap_ok s' [HEAP_START]" "heap_pages_mapped 0 roomy_example s'"
    "\<forall>sz \<le> 4076. heap_fits sz s'"
    using heap_init_establishes [OF roomy_example_ready] by blast
  have "\<exists>f. held_page s' (HEAP_START + 1023 * 4096) f"
    using s'(3) unfolding heap_pages_mapped_def by (elim conjE allE [of _ 1023]) simp
  then show ?thesis using s' by (auto simp: held_page_def)
qed

end
