(* ===== verification/Stack_Move.thy ===== *)
theory Stack_Move
  imports Kernel_Cpu
begin

text \<open>
  What \<^verbatim>\<open>move_stack\<close> of \<^verbatim>\<open>src/sys/kernel.c\<close> leaves on the new stack of the boot
  processor: the words of the old one, with pointers into the old stack moved along.
\<close>

section \<open>Identity mapped memory\<close>

text \<open>An address in a page of data that is mapped onto itself.\<close>

definition plain :: "('a) vmm_state_scheme \<Rightarrow> u32 \<Rightarrow> bool" where
  "plain s a \<longleftrightarrow> held_page s (a div 4096 * 4096) (a div 4096 * 4096)"

lemma page_base:
  fixes a :: u32
  shows "a div 4096 * 4096 + a mod 4096 = a" and "(a div 4096 * 4096) mod 4096 = 0" and "a mod 4096 < 4096"
    and "a div 4096 * 4096 div 4096 = a div 4096"
proof -
  show sum: "a div 4096 * 4096 + a mod 4096 = a" by (rule div_mult_mod_eq)
  have "unat a div 4096 * 4096 < 4294967296" using unat_u32_less [of a] div_times_less_eq_dividend [of "unat a" 4096] by simp
  then have "unat (a div 4096 * 4096) = unat a div 4096 * 4096" by (simp add: unat_word_ariths)
  then show z: "(a div 4096 * 4096) mod 4096 = 0" by (simp add: word_unat_eq_iff unat_mod_distrib)
  show less: "a mod 4096 < 4096" by (simp add: word_less_nat_alt unat_mod_distrib)
  show "a div 4096 * 4096 div 4096 = a div 4096" using page_offset(2) [OF z less] sum by simp
qed

lemma plainD:
  assumes "plain s a"
  shows "data_page s (a div 4096 * 4096) (a div 4096 * 4096)" and "physical wr a s = Some a"
proof -
  show dp: "data_page s (a div 4096 * 4096) (a div 4096 * 4096)" using assms by (simp add: plain_def held_page_def)
  show "physical wr a s = Some a" using data_page_physical [OF dp page_base(3) [of a], of wr] page_base(1) [of a] by simp
qed

lemma plain_keeps: "keeps V n s t \<Longrightarrow> plain s a \<Longrightarrow> plain t a"
  unfolding plain_def by (rule keepsD(2))

lemma plain_same_page: "a div 4096 = b div 4096 \<Longrightarrow> plain s a = plain s b"
  by (simp add: plain_def)

lemma plain_byte:
  assumes "plain s a"
  shows "vload8 a s = Inr (pmem s a)" and "vstore8 a b s = Inr (s\<lparr>pmem := (pmem s)(a := b)\<rparr>)"
    and "keeps {} 0 s (s\<lparr>pmem := (pmem s)(a := b)\<rparr>)"
proof -
  show "vload8 a s = Inr (pmem s a)" "vstore8 a b s = Inr (s\<lparr>pmem := (pmem s)(a := b)\<rparr>)"
    by (simp_all add: vload8_def vstore8_def plainD(2) [OF assms])
  have "only_page (a div 4096 * 4096 div 4096) s (s\<lparr>pmem := (pmem s)(a := b)\<rparr>)"
    using only_page_byte [OF page_base(2) page_base(3) [of a], of a s b] page_base(1) [of a] by simp
  then show "keeps {} 0 s (s\<lparr>pmem := (pmem s)(a := b)\<rparr>)" by (rule keeps_write [OF plainD(1) [OF assms]])
qed

lemma plain_word:
  assumes "plain s a" and "aligned4 a"
  shows "vload32 a s = Inr (load32 (pmem s) a)" and "vstore32 a v s = Inr (s\<lparr>pmem := store32 (pmem s) a v\<rparr>)"
    and "keeps {} 0 s (s\<lparr>pmem := store32 (pmem s) a v\<rparr>)"
proof -
  show "vload32 a s = Inr (load32 (pmem s) a)" "vstore32 a v s = Inr (s\<lparr>pmem := store32 (pmem s) a v\<rparr>)"
    by (simp_all add: vload32_def vstore32_def plainD(2) [OF assms(1)])
  have "unat (a mod 4096) mod 4 = 0" using assms(2) by (simp add: aligned4_def unat_mod_distrib mod_mod_cancel)
  then have "4 * (unat (a mod 4096) div 4) = unat (a mod 4096)" using mult_div_mod_eq [of 4 "unat (a mod 4096)"] by linarith
  moreover have "unat (a mod 4096) < 4096" using page_base(3) [of a] by (simp add: word_less_nat_alt)
  ultimately have eq: "4 * (a mod 4096 div 4) = a mod 4096" "a mod 4096 div 4 < 1024"
    by (simp_all add: word_unat_eq_iff unat_word_ariths unat_div_distrib word_less_nat_alt)
  have "only_page (a div 4096 * 4096 div 4096) s (s\<lparr>pmem := store32 (pmem s) a v\<rparr>)"
    using only_page_store32 [OF page_base(2) eq(2), of a s v] page_base(1) [of a] eq(1) by simp
  then show "keeps {} 0 s (s\<lparr>pmem := store32 (pmem s) a v\<rparr>)" by (rule keeps_write [OF plainD(1) [OF assms(1)]])
qed

lemma vmemcpy_plain:
  assumes "vmm_inv s" and "i \<le> n" and "\<forall>j < n. plain s (d + j) \<and> plain s (src + j)"
  shows "vmemcpy_loop d src n i s = Inr (s\<lparr>pmem := memcpy_loop d src n i (pmem s)\<rparr>)
     \<and> keeps {} 0 s (s\<lparr>pmem := memcpy_loop d src n i (pmem s)\<rparr>)"
  using assms
proof (induction "unat n - unat i" arbitrary: i s)
  case 0
  then have "i = n" by (simp add: word_le_nat_alt word_unat_eq_iff)
  with 0 show ?case by (simp add: vmemcpy_loop.simps [of _ _ n n] memcpy_loop.simps [of _ _ n n] keeps_refl)
next
  case (Suc x)
  have i: "i < n" using Suc.hyps(2) by (simp add: word_less_nat_alt)
  let ?m = "(pmem s)(d + i := pmem s (src + i))" and ?t = "s\<lparr>pmem := (pmem s)(d + i := pmem s (src + i))\<rparr>"
  have pl: "plain s (d + i)" "plain s (src + i)" using Suc.prems(3) i by simp_all
  have k: "keeps {} 0 s ?t" by (rule plain_byte(3) [OF pl(1)])
  have "x = unat n - unat (i + 1)" "i + 1 \<le> n" using Suc.hyps(2) i by (simp_all add: inc_le)
  moreover have "\<forall>j < n. plain ?t (d + j) \<and> plain ?t (src + j)" using Suc.prems(3) plain_keeps [OF k] by blast
  ultimately have IH: "vmemcpy_loop d src n (i + 1) ?t = Inr (?t\<lparr>pmem := memcpy_loop d src n (i + 1) (pmem ?t)\<rparr>)"
    "keeps {} 0 ?t (?t\<lparr>pmem := memcpy_loop d src n (i + 1) (pmem ?t)\<rparr>)"
    using Suc.hyps(1) [of "i + 1" ?t] keepsD(1) [OF k] by blast+
  have "keeps {} 0 s (s\<lparr>pmem := memcpy_loop d src n (i + 1) ?m\<rparr>)" using keeps_trans [OF k IH(2)] by simp
  then show ?case
    using i IH(1) plain_byte(1) [OF pl(2)] plain_byte(2) [OF pl(1), of "pmem s (src + i)"]
    by (simp add: vmemcpy_loop.simps [of _ _ n i] memcpy_loop.simps [of _ _ n i])
qed

section \<open>The pages of the new stack\<close>

text \<open>The two pages of the stack are mapped onto themselves since \<^verbatim>\<open>vmm_init\<close>; the page
  above them, whose first word the loops touch too, is not.\<close>

definition stack_room :: "proc_state \<Rightarrow> bool" where
  "stack_room s \<longleftrightarrow> plain s 0x3FE000 \<and> plain s 0x3FF000 \<and> mappings s (1, 0) = None \<and> 4 \<le> frames_left s"

lemma alloc_and_map_used:
  assumes "plain s va" and "va mod 4096 = 0" and "1 \<le> frames_left s"
  obtains f s1 r s2 where "pmm_alloc_first s = (f, s1)" "vmm_map_page f va X86_PAGE_WRITABLE s1 = Inr (r, s2)"
    "keeps {} 1 s s2" "\<exists>m. s2 = s\<lparr>pmem := m\<rparr>" "same_data s s2"
proof -
  have eq: "va div 4096 * 4096 = va" using page_base(1) [of va] assms(2) by simp
  have dp: "data_page s va va" using plainD(1) [OF assms(1)] by (simp add: eq)
  then have used: "vmm_inv s" "mappings s (ADDR2INDEX va) \<noteq> None" "fst (ADDR2INDEX va) < 1023" by (auto simp: data_page_def)
  then have pres: "page_present (pde s (fst (ADDR2INDEX va)))" by (cases "ADDR2INDEX va") (auto simp: mappings_def split: if_splits)
  obtain f s1 r s2 where r: "pmm_alloc_first s = (f, s1)" "vmm_map_page f va X86_PAGE_WRITABLE s1 = Inr (r, s2)"
    "keeps {ADDR2INDEX va} 1 s s2" "\<exists>m. s2 = s\<lparr>pmem := m\<rparr>" "mappings s2 = mappings s" "same_data s s2"
    by (rule alloc_and_map [OF used(1) _ assms(2) used(3)]) (use assms(3) used(2) pres in auto)
  have "keeps {} 1 s s2" using r(3,5) by (simp add: keeps_def)
  then show thesis using r by (intro that)
qed

lemma move_stack_map_runs:
  assumes "stack_room s"
  obtains s' f where "move_stack_map 0x3FE000 0x400000 s = Some (Inr s')" "keeps {(1, 0)} 4 s s'" "same_data s s'"
    "held_page s' 0x400000 f" "f div 4096 \<notin> taken s" "\<exists>m. s' = s\<lparr>pmem := m\<rparr>"
proof -
  have room: "plain s 0x3FE000" "plain s 0x3FF000" "mappings s (1, 0) = None" "4 \<le> frames_left s"
    using assms by (simp_all add: stack_room_def)
  have ix: "ADDR2INDEX 0x400000 = (1, 0)" by (simp add: ADDR2INDEX_eq layout_defs)
  have inv: "vmm_inv s" using plainD(1) [OF room(1)] by (simp add: data_page_def)
  have left: "(if page_present (pde s (fst (ADDR2INDEX 0x400000))) then 1 else 2) \<le> frames_left s" "(0x400000 :: u32) mod 4096 = 0"
    "fst (ADDR2INDEX 0x400000) < 1023" using room(4) by (simp_all add: ix)
  obtain f s1 r t1 where 1: "pmm_alloc_first s = (f, s1)" "vmm_map_page f 0x400000 X86_PAGE_WRITABLE s1 = Inr (r, t1)"
    "keeps {(1, 0)} (if page_present (pde s 1) then 1 else 2) s t1" "held_page t1 0x400000 f" "same_data s t1" "f div 4096 \<notin> taken s"
    "\<exists>m. t1 = s\<lparr>pmem := m\<rparr>"
    by (rule alloc_and_map [OF inv left]) (use room(3) in \<open>auto simp: ix intro: that\<close>)
  have k1: "keeps {(1, 0)} 2 s t1" by (rule keeps_weaken [OF 1(3)]) simp_all
  have p1: "plain t1 0x3FF000" "(0x3FF000 :: u32) mod 4096 = 0" "1 \<le> frames_left t1" using plain_keeps [OF k1 room(2)] keepsD(4) [OF k1] room(4) by simp_all
  obtain f2 s2 r2 t2 where 2: "pmm_alloc_first t1 = (f2, s2)" "vmm_map_page f2 0x3FF000 X86_PAGE_WRITABLE s2 = Inr (r2, t2)"
    "keeps {} 1 t1 t2" "same_data t1 t2" "\<exists>m. t2 = t1\<lparr>pmem := m\<rparr>"
    by (rule alloc_and_map_used [OF p1])
  have k2: "keeps {(1, 0)} 3 s t2" using keeps_trans [OF k1 2(3)] by simp
  have p2: "plain t2 0x3FE000" "(0x3FE000 :: u32) mod 4096 = 0" "1 \<le> frames_left t2" using plain_keeps [OF k2 room(1)] keepsD(4) [OF k2] room(4) by simp_all
  obtain f3 s3 r3 t3 where 3: "pmm_alloc_first t2 = (f3, s3)" "vmm_map_page f3 0x3FE000 X86_PAGE_WRITABLE s3 = Inr (r3, t3)"
    "keeps {} 1 t2 t3" "same_data t2 t3" "\<exists>m. t3 = t2\<lparr>pmem := m\<rparr>"
    by (rule alloc_and_map_used [OF p2])
  have k3: "keeps {(1, 0)} 4 s t3" using keeps_trans [OF k2 3(3)] by simp
  have "move_stack_map 0x3FE000 0x400000 s = Some (Inr t3)"
    using 1(1,2) 2(1,2) 3(1,2)
    by (simp add: move_stack_map.simps [of _ "0x400000"] move_stack_map.simps [of _ "0x3FF000"] move_stack_map.simps [of _ "0x3FE000"]
        move_stack_map.simps [of _ "0x3FD000"])
  moreover have "same_data s t3" using same_data_trans [OF same_data_trans [OF 1(5) k1 2(4)] k2 3(4)] .
  moreover have "held_page t3 0x400000 f" using keepsD(2) [OF 3(3) keepsD(2) [OF 2(3) 1(4)]] .
  moreover have "\<exists>m. t3 = s\<lparr>pmem := m\<rparr>" using 1(7) 2(5) 3(5) by auto
  ultimately show thesis using k3 1(6) by (intro that)
qed

section \<open>Moving the pointers\<close>

definition moved_word :: "u32 \<Rightarrow> u32 \<Rightarrow> u32 \<Rightarrow> u32 \<Rightarrow> u32" where
  "moved_word old_stack init_esp offset w = (if old_stack < w \<and> w < init_esp then w + offset else w)"

lemma move_stack_word_plain:
  assumes "plain s a" and "aligned4 a"
  obtains m where "move_stack_word old_stack init_esp offset a s = Inr (s\<lparr>pmem := m\<rparr>)" "keeps {} 0 s (s\<lparr>pmem := m\<rparr>)"
    "\<And>b. aligned4 b \<Longrightarrow> load32 m b = (if b = a then moved_word old_stack init_esp offset (load32 (pmem s) a) else load32 (pmem s) b)"
proof (cases "old_stack < load32 (pmem s) a \<and> load32 (pmem s) a < init_esp")
  case True
  then show thesis
    using plain_word [OF assms] load32_store32_other [OF assms(2)]
    by (intro that [of "store32 (pmem s) a (load32 (pmem s) a + offset)"])
      (auto simp: move_stack_word_def moved_word_def load32_store32_same)
next
  case False
  have "keeps {} 0 s s" using plainD(1) [OF assms(1)] by (intro keeps_refl) (simp add: data_page_def)
  then show thesis
    using False plain_word(1) [OF assms] by (intro that [of "pmem s"]) (auto simp: move_stack_word_def moved_word_def)
qed

lemma stack_word:
  assumes "k < 2048"
  defines "a \<equiv> 0x3FE000 + 4 * of_nat k :: u32"
  shows "unat a = 0x3FE000 + 4 * k" and "aligned4 a" and "0x3FE000 \<le> a" and "a < 0x400000"
proof -
  show u: "unat a = 0x3FE000 + 4 * k" using assms(1) by (simp add: a_def unat_word_ariths unat_of_nat)
  show "aligned4 a" by (simp add: aligned4_def u)
  show "0x3FE000 \<le> a" "a < 0x400000" using assms(1) by (simp_all add: word_le_nat_alt word_less_nat_alt u)
qed

lemma move_stack_fix_words:
  assumes "vmm_inv s" and "\<forall>a. 0x3FE000 \<le> a \<and> a < 0x400000 \<longrightarrow> plain s a" and "k \<le> 2048"
  shows "\<exists>m. move_stack_fix old_stack init_esp offset 0x3FE000 (0x3FDFFC + 4 * of_nat k) s = Some (Inr (s\<lparr>pmem := m\<rparr>))
     \<and> keeps {} 0 s (s\<lparr>pmem := m\<rparr>)
     \<and> (\<forall>a. aligned4 a \<and> 0x3FE000 \<le> a \<and> unat a < 0x3FE000 + 4 * k
          \<longrightarrow> load32 m a = moved_word old_stack init_esp offset (load32 (pmem s) a))
     \<and> (\<forall>a. aligned4 a \<and> 0x3FE000 + 4 * k \<le> unat a \<longrightarrow> load32 m a = load32 (pmem s) a)"
  using assms
proof (induction k arbitrary: s)
  case 0
  have "s = s\<lparr>pmem := pmem s\<rparr>" by simp
  with 0 show ?case
    by (intro exI [of _ "pmem s"]) (auto simp: move_stack_fix.simps [of _ _ _ _ "0x3FDFFC"] keeps_refl word_le_nat_alt)
next
  case (Suc k)
  let ?a = "0x3FE000 + 4 * of_nat k :: u32"
  have k: "k < 2048" using Suc.prems(3) by simp
  note A = stack_word [OF k]
  have pl: "plain s ?a" using Suc.prems(2) A(3,4) by blast
  obtain m1 where m1: "move_stack_word old_stack init_esp offset ?a s = Inr (s\<lparr>pmem := m1\<rparr>)" "keeps {} 0 s (s\<lparr>pmem := m1\<rparr>)"
    "\<And>b. aligned4 b \<Longrightarrow> load32 m1 b = (if b = ?a then moved_word old_stack init_esp offset (load32 (pmem s) ?a) else load32 (pmem s) b)"
    by (rule move_stack_word_plain [OF pl A(2)]) (rule that)
  let ?t = "s\<lparr>pmem := m1\<rparr>"
  have "\<forall>a. 0x3FE000 \<le> a \<and> a < 0x400000 \<longrightarrow> plain ?t a" using Suc.prems(2) plain_keeps [OF m1(2)] by blast
  from Suc.IH [OF keepsD(1) [OF m1(2)] this] k obtain m where
    m: "move_stack_fix old_stack init_esp offset 0x3FE000 (0x3FDFFC + 4 * of_nat k) ?t = Some (Inr (?t\<lparr>pmem := m\<rparr>))"
    "keeps {} 0 ?t (?t\<lparr>pmem := m\<rparr>)"
    "\<And>a. aligned4 a \<Longrightarrow> 0x3FE000 \<le> a \<Longrightarrow> unat a < 0x3FE000 + 4 * k \<Longrightarrow> load32 m a = moved_word old_stack init_esp offset (load32 m1 a)"
    "\<And>a. aligned4 a \<Longrightarrow> 0x3FE000 + 4 * k \<le> unat a \<Longrightarrow> load32 m a = load32 m1 a"
    by auto
  have i: "0x3FDFFC + 4 * of_nat (Suc k) = ?a" "?a - 4 = 0x3FDFFC + 4 * of_nat k" by simp_all
  have "move_stack_fix old_stack init_esp offset 0x3FE000 ?a s = Some (Inr (s\<lparr>pmem := m\<rparr>))"
    using m(1) m1(1) A(3) by (simp add: move_stack_fix.simps [of _ _ _ _ ?a] i(2))
  moreover have "keeps {} 0 s (s\<lparr>pmem := m\<rparr>)" using keeps_trans [OF m1(2) m(2)] by simp
  moreover have "load32 m b = moved_word old_stack init_esp offset (load32 (pmem s) b)"
    if b: "aligned4 b" "0x3FE000 \<le> b" "unat b < 0x3FE000 + 4 * Suc k" for b
  proof (cases "b = ?a")
    case True
    then show ?thesis using m(4) [OF b(1)] m1(3) [OF b(1)] A(1) by simp
  next
    case False
    then have "unat b \<noteq> 0x3FE000 + 4 * k" using A(1) by (auto simp: word_unat_eq_iff)
    moreover have "unat b mod 4 = 0" using b(1) by (simp add: aligned4_def)
    ultimately have "unat b < 0x3FE000 + 4 * k" using b(3) by presburger
    then show ?thesis using m(3) [OF b(1,2)] m1(3) [OF b(1)] False by simp
  qed
  moreover have "load32 m b = load32 (pmem s) b" if "aligned4 b" "0x3FE000 + 4 * Suc k \<le> unat b" for b
    using m(4) [OF that(1)] m1(3) [OF that(1)] that(2) A(1) by auto
  ultimately show ?case unfolding i(1) by blast
qed

section \<open>The move\<close>

text \<open>The old stack, from the stack pointer up to where it started: no larger than the new one, in
  pages mapped onto themselves below it.\<close>

definition old_stack_ok :: "u32 \<Rightarrow> u32 \<Rightarrow> proc_state \<Rightarrow> bool" where
  "old_stack_ok old_stack init_esp s \<longleftrightarrow> old_stack \<noteq> 0 \<and> old_stack \<le> init_esp \<and> init_esp \<le> 0x3FE000
     \<and> init_esp - old_stack \<le> 0x2000 \<and> (\<forall>a. old_stack \<le> a \<and> a < init_esp \<longrightarrow> plain s a)"

lemma stack_pages_plain:
  assumes "plain s 0x3FE000" and "plain s 0x3FF000" and "0x3FE000 \<le> a" and "a < 0x400000"
  shows "plain s a"
proof -
  have u: "0x3FE000 \<le> unat a" "unat a < 0x400000" using assms(3,4) by (simp_all add: word_le_nat_alt word_less_nat_alt)
  have "unat a div 4096 = 0x3FE \<or> unat a div 4096 = 0x3FF"
  proof (cases "unat a < 0x3FF000")
    case True
    then have "unat a div 4096 = 0x3FE" using u by (intro div_nat_eqI) simp_all
    then show ?thesis ..
  next
    case False
    then have "unat a div 4096 = 0x3FF" using u by (intro div_nat_eqI) simp_all
    then show ?thesis ..
  qed
  then have "a div 4096 = 0x3FE000 div 4096 \<or> a div 4096 = 0x3FF000 div 4096" by (simp add: word_unat_eq_iff unat_div_distrib)
  then show ?thesis using assms(1,2) plain_same_page [of a _ s] by blast
qed

lemma stack_geometry:
  assumes "old_stack_ok old_stack init_esp s"
  defines "n \<equiv> init_esp - old_stack" and "d \<equiv> old_stack + (0x400000 - init_esp)"
  shows "unat n = unat init_esp - unat old_stack" and "unat d = 0x400000 - unat n" and "unat n \<le> 0x2000"
    and "d - old_stack = 0x400000 - init_esp" and "n \<le> d - old_stack" and "j < n \<Longrightarrow> unat (old_stack + j) = unat old_stack + unat j"
    and "j < n \<Longrightarrow> unat (d + j) = unat d + unat j"
proof -
  have le: "unat old_stack \<le> unat init_esp" "unat init_esp \<le> 0x3FE000" "old_stack \<le> init_esp" "init_esp \<le> 0x3FE000" "unat n \<le> 0x2000"
    using assms(1) by (simp_all add: old_stack_ok_def n_def word_le_nat_alt)
  show n: "unat n = unat init_esp - unat old_stack" using le by (simp add: n_def unat_sub)
  show "unat n \<le> 0x2000" by (rule le(5))
  show off: "d - old_stack = 0x400000 - init_esp" by (simp add: d_def)
  have "init_esp \<le> 0x400000" using le(4) by (rule order.trans) simp
  then have o: "unat (0x400000 - init_esp) = 0x400000 - unat init_esp" by (simp add: unat_sub)
  then show "n \<le> d - old_stack" using le n off by (simp add: word_le_nat_alt)
  have "unat d = unat old_stack + (0x400000 - unat init_esp)"
    unfolding d_def using o le by (subst unat_add_small) simp_all
  then show d: "unat d = 0x400000 - unat n" using n le by simp
  show "unat (old_stack + j) = unat old_stack + unat j" if "j < n"
    using that le n by (intro unat_add_small) (simp add: word_less_nat_alt)
  show "unat (d + j) = unat d + unat j" if "j < n"
    using that le n d by (intro unat_add_small) (simp add: word_less_nat_alt)
qed

text \<open>The bytes of a word of the new stack and of the word it is copied from.\<close>

lemma stack_bytes:
  assumes ok: "old_stack_ok old_stack init_esp s" and a: "aligned4 a" "old_stack + (0x400000 - init_esp) \<le> a" "a < 0x400000"
    and i: "unat i \<le> 3"
  defines "n \<equiv> init_esp - old_stack" and "d \<equiv> old_stack + (0x400000 - init_esp)"
  shows "a + i - d < n" and "old_stack + (a + i - d) = a - (0x400000 - init_esp) + i"
    and "0x3FE000 \<le> a + i" and "a + i < 0x400000" and "plain s (a - (0x400000 - init_esp) + i)"
proof -
  note G = stack_geometry [OF ok, folded n_def d_def]
  have "unat a mod 4 = 0" "unat d \<le> unat a" "unat a < 0x400000"
    using a by (simp_all add: aligned4_def word_le_nat_alt word_less_nat_alt d_def)
  then have u: "unat d \<le> unat a" "unat a + 3 < 0x400000" by presburger+
  have ai: "unat (a + i) = unat a + unat i" using u i by (intro unat_add_small) simp
  then have di: "unat (a + i - d) = unat a + unat i - unat d" using u by (simp add: unat_sub word_le_nat_alt)
  then show less: "a + i - d < n" using u i G(2,3) by (simp add: word_less_nat_alt)
  show eq: "old_stack + (a + i - d) = a - (0x400000 - init_esp) + i" by (simp add: G(4) [symmetric])
  show "0x3FE000 \<le> a + i" "a + i < 0x400000" using u i ai G(2,3) by (simp_all add: word_le_nat_alt word_less_nat_alt)
  have "unat (a + i - d) < unat n" using less by (simp add: word_less_nat_alt)
  then have "old_stack \<le> old_stack + (a + i - d)" "old_stack + (a + i - d) < init_esp"
    using G(1) G(6) [OF less] by (simp_all add: word_le_nat_alt word_less_nat_alt)
  then show "plain s (a - (0x400000 - init_esp) + i)" using ok unfolding eq by (simp add: old_stack_ok_def)
qed

lemma move_stack_copy:
  assumes "plain s 0x3FE000" and "plain s 0x3FF000" and ok: "old_stack_ok old_stack init_esp s"
  defines "n \<equiv> init_esp - old_stack" and "d \<equiv> old_stack + (0x400000 - init_esp)"
  shows "\<exists>m. vmemcpy d old_stack n s = Inr (s\<lparr>pmem := m\<rparr>) \<and> keeps {} 0 s (s\<lparr>pmem := m\<rparr>)
     \<and> (\<forall>a. aligned4 a \<and> d \<le> a \<and> a < 0x400000 \<longrightarrow> load32 m a = load32 (pmem s) (a - (0x400000 - init_esp)))"
proof -
  note G = stack_geometry [OF ok, folded n_def d_def]
  have inv: "vmm_inv s" using plainD(1) [OF assms(1)] by (simp add: data_page_def)
  have pl: "plain s (d + j)" "plain s (old_stack + j)" if "j < n" for j
  proof -
    have j: "unat j < unat n" using that by (simp add: word_less_nat_alt)
    have "0x3FE000 \<le> d + j" "d + j < 0x400000"
      using j G(2,3) G(7) [OF that] by (simp_all add: word_le_nat_alt word_less_nat_alt)
    then show "plain s (d + j)" by (rule stack_pages_plain [OF assms(1,2)])
    have "old_stack \<le> old_stack + j" "old_stack + j < init_esp"
      using j G(1) G(6) [OF that] by (simp_all add: word_le_nat_alt word_less_nat_alt)
    then show "plain s (old_stack + j)" using ok by (simp add: old_stack_ok_def)
  qed
  define m where "m = memcpy_loop d old_stack n 0 (pmem s)"
  have m: "m = (\<lambda>k. if k - d < n then pmem s (old_stack + (k - d)) else pmem s k)"
    unfolding m_def using G(5) by (intro memcpy_loop_0) simp
  have "d \<noteq> 0" "old_stack \<noteq> 0" using G(2,3) ok by (auto simp: old_stack_ok_def)
  then have "vmemcpy d old_stack n s = Inr (s\<lparr>pmem := m\<rparr>)" "keeps {} 0 s (s\<lparr>pmem := m\<rparr>)"
    using vmemcpy_plain [OF inv, of 0 n d old_stack] pl by (simp_all add: vmemcpy_def m_def)
  moreover have "load32 m a = load32 (pmem s) (a - (0x400000 - init_esp))" if a: "aligned4 a" "d \<le> a" "a < 0x400000" for a
  proof -
    have b: "m (a + i) = pmem s (a - (0x400000 - init_esp) + i)" if "unat i \<le> 3" for i
      using stack_bytes(1,2) [OF ok a(1) a(2) [unfolded d_def] a(3) that, folded n_def d_def] unfolding m by (simp only: if_True)
    show ?thesis unfolding load32_def using b [of 0] b [of 1] b [of 2] b [of 3] by simp
  qed
  ultimately show ?thesis by blast
qed

text \<open>The first step of the fix loop is on the word above the new stack, in a frame of its own.\<close>

lemma move_stack_word_above:
  assumes "held_page s 0x400000 f"
  obtains m where "move_stack_word old_stack init_esp offset 0x400000 s = Inr (s\<lparr>pmem := m\<rparr>)" "keeps {} 0 s (s\<lparr>pmem := m\<rparr>)"
    "\<And>a. a div 4096 \<noteq> f div 4096 \<Longrightarrow> m a = pmem s a"
proof -
  have dp: "data_page s 0x400000 f" using assms by (simp add: held_page_def)
  have f: "f mod 4096 = 0" using data_page_frame [OF dp] by simp
  note W = data_page_word [OF dp, of 0, simplified]
  show thesis
  proof (cases "old_stack < load32 (pmem s) f \<and> load32 (pmem s) f < init_esp")
    case True
    let ?m = "store32 (pmem s) f (load32 (pmem s) f + offset)"
    have "only_page (f div 4096) s (s\<lparr>pmem := ?m\<rparr>)" using only_page_store32 [OF f, of 0] by simp
    then show thesis
      using True W(1,2) keeps_write [OF dp] by (intro that [of ?m]) (auto simp: move_stack_word_def only_page_def)
  next
    case False
    have "keeps {} 0 s s" using dp by (intro keeps_refl) (simp add: data_page_def)
    then show thesis using False W(1) by (intro that [of "pmem s"]) (auto simp: move_stack_word_def)
  qed
qed

lemma move_stack_run:
  assumes room: "stack_room s" and ok: "old_stack_ok old_stack init_esp s"
  defines "offset \<equiv> KERNEL_STACK_TOP - init_esp"
  shows "\<exists>s'. move_stack KERNEL_STACK_TOP KERNEL_STACK_SZ init_esp old_stack old_base s = Some (Inr (old_stack + offset, old_base + offset, s'))
     \<and> keeps {(1, 0)} 4 s s' \<and> (\<exists>m. s' = s\<lparr>pmem := m\<rparr>)
     \<and> (\<forall>a. aligned4 a \<and> old_stack + offset \<le> a \<and> a < KERNEL_STACK_TOP \<longrightarrow>
          (\<exists>w. vload32 (a - offset) s = Inr w \<and> vload32 a s' = Inr (moved_word old_stack init_esp offset w)))"
proof -
  let ?d = "old_stack + offset" and ?n = "init_esp - old_stack"
  have top: "KERNEL_STACK_TOP = 0x400000" "KERNEL_STACK_TOP - KERNEL_STACK_SZ = 0x3FE000" "offset = 0x400000 - init_esp"
    by (simp_all add: layout_defs offset_def)
  have pl: "plain s 0x3FE000" "plain s 0x3FF000" using room by (simp_all add: stack_room_def)
  obtain s1 f where s1: "move_stack_map 0x3FE000 0x400000 s = Some (Inr s1)" "keeps {(1, 0)} 4 s s1" "same_data s s1"
    "held_page s1 0x400000 f" "f div 4096 \<notin> taken s" "\<exists>m. s1 = s\<lparr>pmem := m\<rparr>"
    by (rule move_stack_map_runs [OF room])
  have pl1: "plain s1 0x3FE000" "plain s1 0x3FF000" "old_stack_ok old_stack init_esp s1"
    using plain_keeps [OF s1(2)] pl ok by (simp_all add: old_stack_ok_def)
  obtain m2 where m2: "vmemcpy ?d old_stack ?n s1 = Inr (s1\<lparr>pmem := m2\<rparr>)" "keeps {} 0 s1 (s1\<lparr>pmem := m2\<rparr>)"
    "\<And>a. aligned4 a \<Longrightarrow> ?d \<le> a \<Longrightarrow> a < 0x400000 \<Longrightarrow> load32 m2 a = load32 (pmem s1) (a - offset)"
    using move_stack_copy [OF pl1] unfolding top(3) by blast
  let ?s2 = "s1\<lparr>pmem := m2\<rparr>"
  obtain m3 where m3: "move_stack_word old_stack init_esp offset 0x400000 ?s2 = Inr (?s2\<lparr>pmem := m3\<rparr>)" "keeps {} 0 ?s2 (?s2\<lparr>pmem := m3\<rparr>)"
    "\<And>a. a div 4096 \<noteq> f div 4096 \<Longrightarrow> m3 a = pmem ?s2 a"
    by (rule move_stack_word_above [OF keepsD(2) [OF m2(2) s1(4)], of old_stack init_esp offset]) (rule that)
  let ?s3 = "s1\<lparr>pmem := m3\<rparr>"
  have k3: "keeps {(1, 0)} 4 s ?s3" using keeps_trans [OF s1(2) keeps_trans [OF m2(2) m3(2)]] by simp
  have "\<forall>a. 0x3FE000 \<le> a \<and> a < 0x400000 \<longrightarrow> plain ?s3 a" using stack_pages_plain plain_keeps [OF k3] pl by blast
  from move_stack_fix_words [OF keepsD(1) [OF k3] this, of 2048 old_stack init_esp offset] obtain m4 where
    m4: "move_stack_fix old_stack init_esp offset 0x3FE000 0x3FFFFC ?s3 = Some (Inr (?s3\<lparr>pmem := m4\<rparr>))" "keeps {} 0 ?s3 (?s3\<lparr>pmem := m4\<rparr>)"
    "\<And>a. aligned4 a \<Longrightarrow> 0x3FE000 \<le> a \<Longrightarrow> unat a < 0x400000 \<Longrightarrow> load32 m4 a = moved_word old_stack init_esp offset (load32 m3 a)"
    by auto
  let ?s4 = "s1\<lparr>pmem := m4\<rparr>"
  have k4: "keeps {(1, 0)} 4 s ?s4" using keeps_trans [OF k3 m4(2)] by simp
  have run: "move_stack KERNEL_STACK_TOP KERNEL_STACK_SZ init_esp old_stack old_base s = Some (Inr (?d, old_base + offset, ?s4))"
    unfolding move_stack_def Let_def top(2) unfolding top(1) top(3) [symmetric]
    using s1(1) m2(1) m3(1) m4(1) by (simp add: move_stack_fix.simps [of _ _ _ _ "0x400000"])
  have "\<exists>w. vload32 (a - offset) s = Inr w \<and> vload32 a ?s4 = Inr (moved_word old_stack init_esp offset w)"
    if a: "aligned4 a" "?d \<le> a" "a < 0x400000" for a
  proof -
    note B = stack_bytes(3-5) [OF ok a [unfolded top(3)], folded top(3)]
    have old: "pmem s1 (a - offset + i) = pmem s (a - offset + i)" if "unat i \<le> 3" for i
      using same_dataD [OF s1(3)] B(3) [OF that] page_base(4) [of "a - offset + i"] by (simp add: plain_def)
    then have "load32 (pmem s1) (a - offset) = load32 (pmem s) (a - offset)"
      unfolding load32_def using old [of 0] old [of 1] old [of 2] old [of 3] by simp
    moreover have new: "m3 (a + i) = m2 (a + i)" if "unat i \<le> 3" for i
    proof (rule m3(3) [simplified])
      have "plain s (a + i)" by (rule stack_pages_plain [OF pl B(1,2) [OF that]])
      then show "(a + i) div 4096 \<noteq> f div 4096" using s1(5) page_base(4) [of "a + i"] by (auto simp: plain_def held_page_def)
    qed
    then have "load32 m3 a = load32 m2 a" unfolding load32_def using new [of 0] new [of 1] new [of 2] new [of 3] by simp
    moreover have a': "0x3FE000 \<le> a" "unat a < 0x400000" using B(1) [of 0] a(3) by (simp_all add: word_less_nat_alt)
    ultimately have "load32 m4 a = moved_word old_stack init_esp offset (load32 (pmem s) (a - offset))"
      using m4(3) [OF a(1)] m2(3) [OF a] by simp
    moreover have "plain ?s4 a" using stack_pages_plain [OF pl a'(1) a(3)] by (rule plain_keeps [OF k4])
    moreover have "vload32 (a - offset) s = Inr (load32 (pmem s) (a - offset))"
      using plainD(2) [OF B(3) [of 0], of False] by (simp add: vload32_def)
    ultimately show ?thesis using plain_word(1) [OF _ a(1), of ?s4] by simp
  qed
  moreover obtain m1 where "s1 = s\<lparr>pmem := m1\<rparr>" using s1(6) by blast
  ultimately show ?thesis using run k4 unfolding top(1) by (intro exI [of _ ?s4]) auto
qed

end
