(* ===== verification/Boot.thy ===== *)
theory Boot
  imports Kmain Heap_Init Stack_Move
begin

text \<open>
  The last two stages of \<^verbatim>\<open>kmain\<close> together: from the state with paging off, in which the
  tables are set up, to user mode on the boot processor with all other processors running. Every
  stage hands its successor what it needs: pages mapped onto themselves, pages that are free, and
  frames.
\<close>

section \<open>The memory \<^verbatim>\<open>vmm_init\<close> leaves\<close>

text \<open>Pages of the first 4 MB that stay pages of data: not the bitmap, not the window of the local
  APIC, and taken or above two free frames, of which the tables are made.\<close>

definition stays_data :: "u32 \<Rightarrow> ('a) vmm_state_scheme \<Rightarrow> u32 \<Rightarrow> bool" where
  "stays_data c s p \<longleftrightarrow> p < 1024 \<and> \<not> bitmap_page s p \<and> p \<noteq> LAPIC_PHYS_VIRT_ADDR div KB4 \<and> (p \<in> taken s \<or> p = 0 \<or> c < p)"

definition frames_above :: "('a) pmm_state_scheme \<Rightarrow> nat" where
  "frames_above s = card {b. 1024 \<le> b \<and> b < pmm_bitmap_sz s \<and> b \<notin> taken s}"

lemma page_index_low:
  fixes p :: u32
  assumes "p < 1024"
  shows "ADDR2INDEX (p * 4096) = (0, p)" and "p * 4096 mod 4096 = 0" and "p * 4096 div 4096 = p"
proof -
  have p: "unat p < 1024" using assms by (simp add: word_less_nat_alt)
  then have u: "unat (p * 4096) = unat p * 4096" by (simp add: unat_word_ariths)
  show "p * 4096 mod 4096 = 0" "p * 4096 div 4096 = p"
    by (simp_all add: word_unat_eq_iff unat_mod_distrib unat_div_distrib u)
  have "unat p * 4096 div 0x400000 = 0" "unat p * 4096 mod 0x400000 = unat p * 4096" using p by simp_all
  then show "ADDR2INDEX (p * 4096) = (0, p)"
    by (simp add: ADDR2INDEX_eq layout_defs word_unat_eq_iff unat_mod_distrib unat_div_distrib u)
qed

lemma vmm_init_memory:
  fixes s :: proc_state
  assumes boot: "boot_inv s" "1024 \<le> pmm_bitmap_sz s"
    and free: "0 < b" "b < c" "c < pmm_bitmap_sz s" "b \<notin> taken s" "c \<notin> taken s" "c < 1024"
  obtains s' where "vmm_init s = Inr s'" "vmm_inv s'" "heap_state.more s' = heap_state.more s"
    "interrupt_handlers s' = (interrupt_handlers s)(14 := Vmm_handle_page_fault)"
    "\<And>a. stays_data c s (a div 4096) \<Longrightarrow> plain s' a" "\<And>d i. d \<noteq> 0 \<Longrightarrow> mappings s' (d, i) = None"
    "frames_above s \<le> frames_left s'"
proof -
  have bc: "b < pmm_bitmap_sz s" "0 < c" "b \<noteq> c" "max b c = c" using free by (auto simp: max_def elim: order_less_trans)
  obtain D T s' where I: "vmm_init s = Inr s'" "vmm_inv s'"
    "mappings s' = (\<lambda>(d, j). if d = 0 \<and> j < 1024 then Some (boot_table j) else None)"
    "\<And>e. e < 1024 \<Longrightarrow> page_present (pde s' e) \<Longrightarrow> e = 1023 \<and> ptbl s' e = D \<or> e = 0 \<and> ptbl s' e = T"
    "\<forall>p < pmm_bitmap_sz s. p \<in> taken s' \<longleftrightarrow> p \<in> taken s \<or> p \<in> {D div 4096, T div 4096} \<or> p < 1024"
    "s' = s\<lparr>pmem := pmem s', kernel_dir := D, current_dir := D, cr3 := D, paging := True,
       local_apic := LAPIC_PHYS_VIRT_ADDR,
       interrupt_handlers := (interrupt_handlers s)(14 := Vmm_handle_page_fault)\<rparr>"
    "D div 4096 \<notin> taken s" "T div 4096 \<notin> taken s" "0 < D div 4096" "0 < T div 4096"
    "D div 4096 \<le> c" "T div 4096 \<le> c"
    by (rule boot_state [OF boot free(1) bc(1) free(4) bc(2) free(3,5) bc(3), unfolded bc(4)]) (rule that; assumption)
  define m where "m = pmem s'"
  have flds: "pmm_bitmap_sz s' = pmm_bitmap_sz s" "bitmap_page s' = bitmap_page s" "heap_state.more s' = heap_state.more s"
    "interrupt_handlers s' = (interrupt_handlers s)(14 := Vmm_handle_page_fault)"
    unfolding I(6) [folded m_def] by (simp_all add: bitmap_page_def fun_eq_iff)
  have "plain s' a" if a: "stays_data c s (a div 4096)" for a
  proof -
    let ?p = "a div 4096"
    have p: "?p < 1024" "\<not> bitmap_page s ?p" "?p \<noteq> LAPIC_PHYS_VIRT_ADDR div KB4" "?p \<in> taken s \<or> ?p = 0 \<or> c < ?p"
      using a by (simp_all add: stays_data_def)
    note ix = page_index_low [OF p(1)] and E = boot_table_entry [OF p(1)]
    have "?p \<noteq> D div 4096" "?p \<noteq> T div 4096" using p(4) I(7-12) by auto
    then have "ptbl s' e \<noteq> ?p * 4096" if "e < 1024" "page_present (pde s' e)" for e using I(4) [OF that] ix(3) by metis
    then have "data_frame s' (?p * 4096)" using p(2) ix(2,3) by (simp add: data_frame_def flds)
    moreover have "mappings s' (0, ?p) = Some (boot_table ?p)" using p(1) I(3) by simp
    moreover have "?p < pmm_bitmap_sz s" using p(1) boot(2) by (rule order_less_le_trans)
    moreover from this have "?p \<in> taken s'" using I(5) p(1) by blast
    ultimately show ?thesis
      using I(2) ix E p(3) by (simp add: plain_def held_page_def data_page_def flds KB4_def)
  qed
  moreover have "mappings s' (d, i) = None" if "d \<noteq> 0" for d i using that I(3) by simp
  moreover have "frames_above s \<le> frames_left s'"
    unfolding frames_above_def frames_left_def
  proof (intro card_mono subsetI)
    fix f assume "f \<in> {b. 1024 \<le> b \<and> b < pmm_bitmap_sz s \<and> b \<notin> taken s}"
    then have f: "1024 \<le> f" "f < pmm_bitmap_sz s" "f \<notin> taken s" by simp_all
    have "c < f" using free(6) f(1) by (rule order_less_le_trans)
    then have "0 < f" "f \<noteq> D div 4096" "f \<noteq> T div 4096" using I(11,12) bc(2) by (auto dest: order_less_trans)
    then show "f \<in> free_frames s'" using f I(5) by (auto simp: free_frames_def flds)
  qed simp
  ultimately show thesis using I(1,2) flds(3,4) by (intro that)
qed

section \<open>From paging to user mode\<close>

text \<open>What the last stage finds: the pages of the new stack, of the old stack, of the start-up
  code and of the BIOS data, nothing mapped above the first 4 MB, and frames for the new stack (4),
  the heap (1025), the stack of the first process (2) and the user code (2).\<close>

definition run_ready :: "boot_env \<Rightarrow> u32 \<Rightarrow> ('m, 'd) kernel \<Rightarrow> bool" where
  "run_ready e stack k \<longleftrightarrow>
     (let p = k_proc k in plain p 0x3FE000 \<and> plain p 0x3FF000 \<and> plain p 0x7000 \<and> plain p 0
        \<and> old_stack_ok (be_esp e) stack p \<and> (\<forall>d i. d \<noteq> 0 \<longrightarrow> mappings p (d, i) = None) \<and> 1033 \<le> frames_left p
        \<and> last_pid p = 0 \<and> nat (mc_num_cpus (k_machine k)) \<le> length (mc_cpus (k_machine k)))"

lemma boot_heap:
  fixes p :: proc_state
  assumes "vmm_inv p" and none: "\<forall>d i. d \<noteq> 0 \<and> (d, i) \<noteq> (1, 0) \<longrightarrow> mappings p (d, i) = None" and "1025 \<le> frames_left p"
  shows "\<exists>p'. heap_init p = Some (Inr p') \<and> heap_ok p' [HEAP_START] \<and> heap_fits sizeof_pcb p' \<and> last_pid p' = last_pid p
     \<and> keeps {v. fst v = HEAP_START div MB4} 1025 p p'"
proof -
  let ?p = "p\<lparr>blocks_allocked := 0\<rparr>"
  have view: "vmm_view ?p p" by (simp add: vmm_view_def)
  have "heap_pages_ready 0 ?p"
    unfolding heap_pages_ready_def vmm_view_simps(1,2,4) [OF view] frames_view(1) [OF view]
    using assms by (simp add: layout_defs)
  from heap_init_runs [OF this] obtain p' where p': "heap_init p = Some (Inr p')" "heap_ok p' [HEAP_START]"
    "heap_pages_mapped 0 p p'" "\<forall>sz \<le> 4076. heap_fits sz p'" "heap_state.more p' = heap_state.more p"
    by blast
  have "last_pid p' = last_pid p" using p'(5) by (cases p; cases p') simp
  moreover have "heap_fits sizeof_pcb p'" using p'(4) by (simp add: sizeof_pcb_def)
  moreover have "keeps {v. fst v = HEAP_START div MB4} 1025 p p'"
    by (rule keeps_weaken [OF p'(3) [unfolded heap_pages_mapped_def, THEN conjunct1]]) (auto simp: heap_frames_def)
  ultimately show ?thesis using p'(1,2) by blast
qed

lemma kstack_ready:
  assumes "vmm_inv p" and "last_pid p = 0" and "mappings p (64, 1) = None" and "2 \<le> frames_left p"
  shows "stack_ready p"
proof -
  have ix: "ADDR2INDEX (kstack_addr (last_pid p + 1)) = (64, 1)"
    by (simp add: assms(2) ADDR2INDEX_eq kstack_addr_def KSTACKSZ_def layout_defs)
  have left: "(if page_present (pde p (fst (ADDR2INDEX (kstack_addr (last_pid p + 1))))) then 1 else 2) \<le> frames_left p"
    and dir: "fst (ADDR2INDEX (kstack_addr (last_pid p + 1))) < 1023" using assms(4) by (simp_all add: ix)
  obtain f s1 where "pmm_alloc_first p = (f, s1)" "f \<noteq> 0" "map_legal (kstack_addr (last_pid p + 1)) X86_PAGE_WRITABLE s1"
    by (rule alloc_map_legal [OF assms(1) left dir, of X86_PAGE_WRITABLE]) (simp add: kernel_defs, simp add: kernel_defs, rule that)
  then show ?thesis using assms(3) ix by (simp add: stack_ready_def)
qed

lemma plain_low_pages:
  "plain p 0x7000 \<Longrightarrow> plain p 0 \<Longrightarrow> low_pages p"
  using plainD(1) [of p "0x7000"] plainD(1) [of p 0] by (simp add: low_pages_def)

text \<open>The stages one after the other.\<close>

lemma kmain_run_completes:
  fixes k :: "('m, 'd) kernel"
  assumes "run_ready e stack k" and "delivers mm TYPE('d)" and "ap_starts (be_cpu_ap_enter e) ap"
  shows "\<exists>esp' ebp' p1 p2 p3 k'. move_stack KERNEL_STACK_TOP KERNEL_STACK_SZ stack (be_esp e) (be_ebp e) (k_proc k) = Some (Inr (esp', ebp', p1))
     \<and> heap_init p1 = Some (Inr p2) \<and> heap_ok p2 [HEAP_START]
     \<and> process_init (be_process_dummy e) p2 = Some (Inr (1, p3)) \<and> pcb_pid (pcbs p3 (proc_current p3)) = 1
     \<and> kmain_run mm hw ap e stack k = Some (Inr k')
     \<and> (\<forall>j < nat (mc_num_cpus (k_machine k)). cpu_boot_cpu (mc_cpus (k_machine k) ! j) \<or> cpu_started (mc_cpus (k_machine k') ! j) = 1)
     \<and> reg_idtr (mc_idt (k_machine k')) = be_idt_ptr e \<and> interrupts (k_proc k')
     \<and> (\<forall>i < 6. vload8 (GB1 + of_nat i) (k_proc k') = Inr ([0xcd, 0x80, 0xcd, 0x80, 0xeb, 0xfe] ! i))"
proof -
  let ?p = "k_proc k"
  have R: "plain ?p 0x3FE000" "plain ?p 0x3FF000" "plain ?p 0x7000" "plain ?p 0" "old_stack_ok (be_esp e) stack ?p"
    "\<And>d i. d \<noteq> 0 \<Longrightarrow> mappings ?p (d, i) = None" "1033 \<le> frames_left ?p" "last_pid ?p = 0"
    "nat (mc_num_cpus (k_machine k)) \<le> length (mc_cpus (k_machine k))"
    using assms(1) by (simp_all add: run_ready_def Let_def)
  have room: "stack_room ?p" using R(1,2,6,7) by (simp add: stack_room_def)
  obtain p1 where p1: "move_stack KERNEL_STACK_TOP KERNEL_STACK_SZ stack (be_esp e) (be_ebp e) ?p
      = Some (Inr (be_esp e + (KERNEL_STACK_TOP - stack), be_ebp e + (KERNEL_STACK_TOP - stack), p1))"
    "keeps {(1, 0)} 4 ?p p1" "\<exists>m. p1 = ?p\<lparr>pmem := m\<rparr>"
    using move_stack_run [OF room R(5), of "be_ebp e"] by blast
  have pre1: "vmm_inv p1" "\<forall>d i. d \<noteq> 0 \<and> (d, i) \<noteq> (1, 0) \<longrightarrow> mappings p1 (d, i) = None" "1029 \<le> frames_left p1" "last_pid p1 = 0"
    using keepsD(1) [OF p1(2)] keepsD(3) [OF p1(2)] R(6) keepsD(4) [OF p1(2)] R(7,8) p1(3) by auto
  then obtain p2 where p2: "heap_init p1 = Some (Inr p2)" "heap_ok p2 [HEAP_START]" "heap_fits sizeof_pcb p2" "last_pid p2 = 0"
    "keeps {v. fst v = HEAP_START div MB4} 1025 p1 p2"
    using boot_heap [OF pre1(1,2)] by auto
  have m2: "mappings p2 (d, i) = None" if "d \<noteq> 0" "(d, i) \<noteq> (1, 0)" "d \<noteq> HEAP_START div MB4" for d i
    using keepsD(3) [OF p2(5), of "(d, i)"] pre1(2) that by simp
  have pre2: "vmm_inv p2" "4 \<le> frames_left p2" "heap_wf p2" using keepsD(1,4) [OF p2(5)] pre1(3) p2(2) by (auto simp: heap_wf_def)
  have ready: "stack_ready p2" using m2 [of 64 1] pre2 p2(4) by (intro kstack_ready) (simp_all add: layout_defs)
  have pid: "last_pid p2 + 1 < PROC_MAX_PID" by (simp add: p2(4) layout_defs)
  obtain q p3 where p3: "process_init (be_process_dummy e) p2 = Some (Inr (last_pid p2 + 1, p3))" "proc_current p3 = q"
    "pcbs p3 = (pcbs p2)(q := (pcbs p2 q)\<lparr>pcb_pid := last_pid p2 + 1,
         pcb_kstack := kstack_addr (last_pid p2 + 1), pcb_regs := kstack_addr (last_pid p2 + 1) + 4020,
         pcb_state := PROC_RUNNING, pcb_dirtable := cr3 p2, pcb_next := q\<rparr>)"
    "keeps {ADDR2INDEX (kstack_addr (last_pid p2 + 1))} 2 p2 p3"
    using process_init_run [OF pre2(1,3) p2(3) pid ready, of "be_process_dummy e"] by blast
  have ix: "ADDR2INDEX (kstack_addr (last_pid p2 + 1)) = (64, 1)" "ADDR2INDEX GB1 = (256, 0)"
    by (simp_all add: p2(4) ADDR2INDEX_eq kstack_addr_def KSTACKSZ_def layout_defs)
  have "mappings p3 (256, 0) = None" "2 \<le> frames_left p3"
    using keepsD(3) [OF p3(4), of "(256, 0)"] m2 [of 256 0] keepsD(4) [OF p3(4)] pre2(2) ix by (simp_all add: layout_defs)
  then have "user_page_room p3" by (simp add: user_page_room_def ix)
  moreover have "plain p3 a" if "plain ?p a" for a
    by (rule plain_keeps [OF p3(4) plain_keeps [OF p2(5) plain_keeps [OF p1(2) that]]])
  then have "low_pages p3" using R(3,4) by (intro plain_low_pages)
  ultimately have pages: "boot_pages (mc_proc ((k_machine k)\<lparr>mc_proc := p3\<rparr>))" by (simp add: boot_pages_def)
  have n: "nat (mc_num_cpus ((k_machine k)\<lparr>mc_proc := p3\<rparr>)) \<le> length (mc_cpus ((k_machine k)\<lparr>mc_proc := p3\<rparr>))" using R(9) by simp
  obtain m where m: "cpu_start_aps mm hw ap (be_cpu_ap_enter e) (be_idt_ptr e) ((k_machine k)\<lparr>mc_proc := p3\<rparr>) = Some (Inr m)"
    "\<forall>j < nat (mc_num_cpus (k_machine k)). cpu_boot_cpu (mc_cpus (k_machine k) ! j) \<or> cpu_started (mc_cpus m ! j) = 1"
    "reg_idtr (mc_idt m) = be_idt_ptr e" "interrupts (mc_proc m)"
    "\<forall>i < 6. vload8 (GB1 + of_nat i) (mc_proc m) = Inr ([0xcd, 0x80, 0xcd, 0x80, 0xeb, 0xfe] ! i)"
    using cpu_start_aps_run [OF assms(2,3) pages n, of hw "be_idt_ptr e"] by auto
  have "kmain_run mm hw ap e stack k = Some (Inr (k\<lparr>k_machine := m\<rparr>))"
    using p1(1) p2(1) p3(1) m(1) by (simp add: kmain_run_def)
  then show ?thesis
    using p1(1) p2(1,2,4) p3(1-3) m(2-5)
    by (intro exI conjI) (assumption | simp add: k_proc_def)+
qed

section \<open>The two stages\<close>

text \<open>Memory before the tables are set up: two free frames below 4 MB for them, the pages of the
  stacks, the start-up code and the BIOS data not used otherwise, and enough frames above 4 MB.\<close>

definition boot_memory :: "boot_env \<Rightarrow> u32 \<Rightarrow> proc_state \<Rightarrow> bool" where
  "boot_memory e stack p \<longleftrightarrow>
     (\<exists>b c. 0 < b \<and> b < c \<and> c < 1024 \<and> b \<notin> taken p \<and> c \<notin> taken p
        \<and> stays_data c p 0x3FE \<and> stays_data c p 0x3FF \<and> stays_data c p 7 \<and> stays_data c p 0
        \<and> (\<forall>a. be_esp e \<le> a \<and> a < stack \<longrightarrow> stays_data c p (a div 4096)))
     \<and> be_esp e \<noteq> 0 \<and> be_esp e \<le> stack \<and> stack \<le> 0x3FE000 \<and> stack - be_esp e \<le> 0x2000
     \<and> 1033 \<le> frames_above p \<and> last_pid p = 0"

lemma boot_memory_cong:
  assumes "pmm_bitmap_sz q = pmm_bitmap_sz p" and "bitmap_page q = bitmap_page p" and "1024 \<le> pmm_bitmap_sz p"
    and "\<forall>b < pmm_bitmap_sz p. b \<in> taken q \<longleftrightarrow> b \<in> taken p"
  shows "stays_data c q = stays_data c p" and "frames_above q = frames_above p"
proof -
  have "b < 1024 \<Longrightarrow> b < pmm_bitmap_sz p" for b by (rule order_less_le_trans [OF _ assms(3)])
  then show "stays_data c q = stays_data c p" using assms(2,4) by (auto simp: stays_data_def fun_eq_iff)
  have "{b. 1024 \<le> b \<and> b < pmm_bitmap_sz p \<and> b \<notin> taken q} = {b. 1024 \<le> b \<and> b < pmm_bitmap_sz p \<and> b \<notin> taken p}" using assms(4) by auto
  then show "frames_above q = frames_above p" by (simp add: frames_above_def assms(1))
qed

lemma kmain_tables_run_ready:
  assumes ready: "tables_ready mm e k" and mem: "boot_memory e stack (k_proc k)"
    and cpus: "nat (mc_num_cpus (k_machine k)) \<le> length (mc_cpus (k_machine k))"
  shows "\<exists>k1. kmain_tables mm hw e k = Inr k1 \<and> run_ready e stack k1 \<and> mc_num_cpus (k_machine k1) = mc_num_cpus (k_machine k)
     \<and> driver_table (interrupt_handlers (k_proc k1))"
proof -
  let ?p = "k_proc k"
  obtain k1 where k1: "kmain_tables mm hw e k = ebind (vmm_init (k_proc k1)) (\<lambda>p. Inr (put_proc p k1))" "boot_inv (k_proc k1)"
    "pmm_bitmap_sz (k_proc k1) = pmm_bitmap_sz ?p" "bitmap_page (k_proc k1) = bitmap_page ?p"
    "\<forall>b < pmm_bitmap_sz ?p. b \<in> taken (k_proc k1) \<longleftrightarrow> b \<in> taken ?p" "last_pid (k_proc k1) = last_pid ?p"
    "mc_num_cpus (k_machine k1) = mc_num_cpus (k_machine k)" "length (mc_cpus (k_machine k1)) = length (mc_cpus (k_machine k))"
    "driver_table ((interrupt_handlers (k_proc k1))(14 := Vmm_handle_page_fault))"
    using kmain_tables_to_vmm [OF ready, of hw] by blast
  have sz: "1024 \<le> pmm_bitmap_sz ?p" using ready by (simp add: tables_ready_def)
  note cong = boot_memory_cong [OF k1(3,4) sz k1(5)]
  obtain b c where bc: "0 < b" "b < c" "c < 1024" "b \<notin> taken ?p" "c \<notin> taken ?p" "stays_data c ?p 0x3FE" "stays_data c ?p 0x3FF"
    "stays_data c ?p 7" "stays_data c ?p 0" "\<forall>a. be_esp e \<le> a \<and> a < stack \<longrightarrow> stays_data c ?p (a div 4096)"
    using mem by (auto simp: boot_memory_def)
  have c: "c < pmm_bitmap_sz ?p" "b < pmm_bitmap_sz ?p" using bc(2,3) sz by (auto dest: order_less_le_trans order_less_trans)
  obtain p where p: "vmm_init (k_proc k1) = Inr p" "heap_state.more p = heap_state.more (k_proc k1)"
    "interrupt_handlers p = (interrupt_handlers (k_proc k1))(14 := Vmm_handle_page_fault)"
    "\<And>a. stays_data c (k_proc k1) (a div 4096) \<Longrightarrow> plain p a" "\<And>d i. d \<noteq> 0 \<Longrightarrow> mappings p (d, i) = None"
    "frames_above (k_proc k1) \<le> frames_left p"
    by (rule vmm_init_memory [OF k1(2) _ bc(1,2) _ _ _ bc(3)]) (use k1(3,5) sz c bc(4,5) in \<open>simp_all add: that\<close>)
  have pl: "plain p a" if "stays_data c ?p (a div 4096)" for a using p(4) that cong(1) by simp
  have "last_pid p = 0" using p(2) k1(6) mem by (cases p; cases "k_proc k1") (simp add: boot_memory_def)
  moreover have "old_stack_ok (be_esp e) stack p" using mem bc(10) pl by (simp add: old_stack_ok_def boot_memory_def)
  moreover have "1033 \<le> frames_left p" using p(6) cong(2) mem by (simp add: boot_memory_def)
  moreover have "plain p 0x3FE000" "plain p 0x3FF000" "plain p 0x7000" "plain p 0" using bc(6-9) by (auto intro: pl)
  ultimately have "run_ready e stack (put_proc p k1)"
    using p(5) cpus k1(7,8) by (simp add: run_ready_def put_proc_def k_proc_def)
  then show ?thesis using k1(1,7,9) p(1,3) by (intro exI [of _ "put_proc p k1"]) (simp add: put_proc_def k_proc_def)
qed

lemma boot_to_user_mode:
  fixes k :: "('m, 'd) kernel"
  assumes "tables_ready mm e k" and "boot_memory e stack (k_proc k)" and "nat (mc_num_cpus (k_machine k)) \<le> length (mc_cpus (k_machine k))"
    and "delivers mm TYPE('d)" and "ap_starts (be_cpu_ap_enter e) ap"
  shows "\<exists>k1 esp' ebp' p1 p2 p3 k'. kmain_tables mm hw e k = Inr k1
     \<and> move_stack KERNEL_STACK_TOP KERNEL_STACK_SZ stack (be_esp e) (be_ebp e) (k_proc k1) = Some (Inr (esp', ebp', p1))
     \<and> heap_init p1 = Some (Inr p2) \<and> heap_ok p2 [HEAP_START]
     \<and> process_init (be_process_dummy e) p2 = Some (Inr (1, p3)) \<and> pcb_pid (pcbs p3 (proc_current p3)) = 1
     \<and> kmain_run mm hw ap e stack k1 = Some (Inr k')
     \<and> (\<forall>j < nat (mc_num_cpus (k_machine k)). cpu_boot_cpu (mc_cpus (k_machine k1) ! j) \<or> cpu_started (mc_cpus (k_machine k') ! j) = 1)
     \<and> reg_idtr (mc_idt (k_machine k')) = be_idt_ptr e \<and> interrupts (k_proc k')
     \<and> (\<forall>i < 6. vload8 (GB1 + of_nat i) (k_proc k') = Inr ([0xcd, 0x80, 0xcd, 0x80, 0xeb, 0xfe] ! i))"
proof -
  obtain k1 where k1: "kmain_tables mm hw e k = Inr k1" "run_ready e stack k1" "mc_num_cpus (k_machine k1) = mc_num_cpus (k_machine k)"
    using kmain_tables_run_ready [OF assms(1-3), of hw] by blast
  from kmain_run_completes [OF k1(2) assms(4,5), of hw] show ?thesis unfolding k1(3) using k1(1) by blast
qed

text \<open>The same for \<^verbatim>\<open>kmain\<close> as a whole, when the stages before have come to their end.\<close>

lemma kmain_completes:
  fixes k :: "('m, 'd) kernel"
  assumes "mem_end \<le> MAX_KERNEL_MEM" and "\<not> be_TEST_KERNEL e" and "kmain_memory e mb mem_start mem_end k0 = Some (Inr k1)"
    and "kmain_apic mm e k1 = Some (Inr k)" and "tables_ready mm e k" and "boot_memory e stack (k_proc k)"
    and "nat (mc_num_cpus (k_machine k)) \<le> length (mc_cpus (k_machine k))"
    and "delivers mm TYPE('d)" and "ap_starts (be_cpu_ap_enter e) ap"
  shows "\<exists>k'. kmain mm hw ap e mb mem_start mem_end stack k0 = Some (Inr k') \<and> interrupts (k_proc k')"
proof -
  show ?thesis using VM_VALID_holds assms(1-4) boot_to_user_mode [OF assms(5-9), of hw] by (auto simp: kmain_def)
qed

section \<open>A machine to boot\<close>

text \<open>16 MB, of which the first two frames are taken, and two processors in the array of eight.\<close>

definition kernel_example :: "((u32 \<times> u32) list, (u16 \<times> u8) list) kernel" where
  "kernel_example = \<lparr>k_machine = machine_example\<lparr>mc_proc := proc_example\<lparr>pmem := (\<lambda>_. 0)(0x1000 := 3),
       pmm_bitmap_sz := 4096, paging := False\<rparr>, mc_cpus := mc_cpus machine_example @ replicate 6 gdt_example,
       mc_idt := (mc_idt machine_example)\<lparr>idt_entries := replicate 256
         \<lparr>idt_base_low = 0, idt_selector = 0, idt_zero = 0, idt_flags = 0, idt_base_high = 0\<rparr>\<rparr>\<rparr>, k_screen = vga_example, k_kbd = \<lparr>orig_map = 0, curr_map = 0\<rparr>,
     k_channel_status = 0, k_registered = replicate 2 \<lparr>dev_callback = Null_input, dev_active = False\<rparr>,
     k_ainfo = \<lparr>pm_preferred = 0, acpi_boot_flags = 0\<rparr>\<rparr>"

definition env_example :: boot_env where
  "env_example = \<lparr>be_sc2_name = 0x102000, be_bootap_name = 0x102010, be_rsdp = 0xE0000,
     be_stubs = \<lparr>stub_isr = (\<lambda>i. 0x100000 + of_nat i * 16), stub_irq = (\<lambda>i. 0x100200 + of_nat i * 16),
       stub_intr = (\<lambda>i. 0x100300 + of_nat i * 16), stub_none = 0x100400\<rparr>,
     be_idt = 0x103000, be_idt_ptr = 0x103800,
     be_cpu_at = (\<lambda>i. \<lparr>at_info = 0x105000, at_gdt_entries = 0x105010, at_gdt_ptr = 0x105050, at_tss = 0x105060, at_cpu = 0x1050D0\<rparr>), be_ps2_names = (\<lambda>i. 0x800 + of_nat i * 32), be_kbd_name = 0x102020, be_process_dummy = 0x100500,
     be_cpu_ap_enter = 0x100600, be_cpu_supported = True, be_esp = 0x106F00, be_ebp = 0x106F40, be_TEST_KERNEL = False,
     be_literals = example_literals, be_test_frame = 0x106E00\<rparr>"

lemma example_fields:
  "pmem (k_proc kernel_example) = (\<lambda>_. 0)(0x1000 := 3)" "pmm_bitmap (k_proc kernel_example) = 0x1000"
  "pmm_bitmap_sz (k_proc kernel_example) = 4096" "paging (k_proc kernel_example) = False" "local_apic (k_proc kernel_example) = 0"
  "last_pid (k_proc kernel_example) = 0"
  by (simp_all add: k_proc_def kernel_example_def proc_example_def heap_example_def heap_state.defs proc_state.defs)

lemma example_byte:
  fixes f :: u32
  assumes "f < 4096"
  shows "unat (0x1000 + f div 8) = 0x1000 + unat f div 8" and "(0x1000 + f div 8) div 4096 = 1"
proof -
  have f: "unat f div 8 < 512" using assms by (simp add: word_less_nat_alt)
  then show u: "unat (0x1000 + f div 8) = 0x1000 + unat f div 8" by (simp add: unat_word_ariths unat_div_distrib)
  show "(0x1000 + f div 8) div 4096 = 1" using f by (simp add: word_unat_eq_iff unat_div_distrib u)
qed

lemma example_bitmap: "bitmap_page (k_proc kernel_example) q \<longleftrightarrow> q = 1"
  unfolding bitmap_page_def example_fields using example_byte(2) by (auto intro: exI [of _ 0])

lemma example_taken:
  assumes "f < 4096"
  shows "f \<in> taken (k_proc kernel_example) \<longleftrightarrow> f = 0 \<or> f = 1"
proof (cases "unat f < 8")
  case True
  obtain n where n: "f = of_nat n" "n < 8" using True that [of "unat f"] by simp
  consider "n = 0" | "n = 1" | "n = 2" | "n = 3" | "n = 4" | "n = 5" | "n = 6" | "n = 7" using n(2) by linarith
  then show ?thesis
    by cases (simp_all add: n(1) taken_def pmm_is_taken_def bitmap_is_set_def example_fields)
next
  case False
  then have "0x1000 + f div 8 \<noteq> 0x1000" "f \<noteq> 0" "f \<noteq> 1" using example_byte(1) [OF assms] by (auto simp: word_unat_eq_iff)
  then show ?thesis by (simp add: taken_def pmm_is_taken_def bitmap_is_set_def example_fields)
qed

lemma example_tables_ready: "tables_ready (lapic_recorder 0 (\<lambda>_. 0)) env_example kernel_example"
proof -
  let ?p = "k_proc kernel_example"
  have "boot_inv ?p" using example_taken [of 1] by (simp add: boot_inv_def example_bitmap) (simp add: example_fields pmm_inv_def)
  moreover have "fst (machine_cpuid (lapic_recorder 0 (\<lambda>_. 0)) (k_machine kernel_example)) < MAX_CPUS"
    using example_fields(5) by (simp add: machine_cpuid_def lapic_cpuid_def lapic_part_def k_proc_def MAX_CPUS_def)
  moreover have "\<not> name_buffers (be_ps2_names env_example) (0x1000 + b div 8)" if "b < 4096" for b
  proof
    have b8: "unat (b div 8) < 512" using that by (simp add: word_less_nat_alt unat_div_distrib)
    assume "name_buffers (be_ps2_names env_example) (0x1000 + b div 8)"
    then have "0x1000 + b div 8 - 0x800 < 32 \<or> 0x1000 + b div 8 - 0x820 < 32"
      by (auto simp: name_buffers_def env_example_def PS2_MAX_REGISTERED_def PS2_MAX_NAME_SZ_def less_2_cases_iff)
    then have "b div 8 + 0x800 < 32 \<or> b div 8 + 0x7E0 < 32" by (simp add: add.commute)
    then show False using b8 by (auto simp: word_less_nat_alt unat_word_ariths)
  qed
  moreover have "k_channel_status kernel_example = 0" "length (k_registered kernel_example) = 2"
    by (simp_all add: kernel_example_def)
  ultimately show ?thesis
    using example_taken [of 2] example_taken [of 3] unfolding tables_ready_def example_fields
    by (intro conjI, simp_all) (rule exI [of _ 2], simp, rule exI [of _ 3], simp)
qed

lemma example_memory: "boot_memory env_example 0x106F80 (k_proc kernel_example)"
proof -
  let ?p = "k_proc kernel_example"
  have data: "stays_data 3 ?p q" if "q = 0 \<or> 3 < q" "q < 1024" "q \<noteq> LAPIC_PHYS_VIRT_ADDR div KB4" for q
    using that by (auto simp: stays_data_def example_bitmap)
  have "a div 4096 = 0x106" if "0x106F00 \<le> a" "a < 0x106F80" for a :: u32
  proof -
    have "unat a div 4096 = 0x106" using that by (intro div_nat_eqI) (simp_all add: word_le_nat_alt word_less_nat_alt)
    then show ?thesis by (simp add: word_unat_eq_iff unat_div_distrib)
  qed
  then have "\<forall>a. be_esp env_example \<le> a \<and> a < 0x106F80 \<longrightarrow> stays_data 3 ?p (a div 4096)"
    using data [of "0x106"] by (auto simp: env_example_def layout_defs)
  moreover have "stays_data 3 ?p 0x3FE" "stays_data 3 ?p 0x3FF" "stays_data 3 ?p 7" "stays_data 3 ?p 0"
    by (rule data; simp add: layout_defs)+
  moreover have "1033 \<le> frames_above ?p"
  proof -
    have "of_nat n \<in> {b. 1024 \<le> b \<and> b < pmm_bitmap_sz ?p \<and> b \<notin> taken ?p}" if n: "1024 \<le> n" "n < 4096" for n
    proof -
      have u: "unat (of_nat n :: u32) = n" using n by (simp add: unat_of_nat)
      then have "of_nat n < (4096 :: u32)" "1024 \<le> (of_nat n :: u32)" "of_nat n \<noteq> (0 :: u32)" "of_nat n \<noteq> (1 :: u32)"
        using n by (auto simp: word_less_nat_alt word_le_nat_alt)
      then show ?thesis using example_taken [of "of_nat n"] by (simp add: example_fields)
    qed
    then show ?thesis using card_frames [of 1024 4096 "{b. 1024 \<le> b \<and> b < pmm_bitmap_sz ?p \<and> b \<notin> taken ?p}"]
      by (simp add: frames_above_def)
  qed
  moreover have "2 \<notin> taken ?p" "3 \<notin> taken ?p" using example_taken [of 2] example_taken [of 3] by simp_all
  ultimately show ?thesis
    unfolding boot_memory_def example_fields
    by (intro conjI exI [of _ 2] exI [of _ 3]) (simp_all add: env_example_def)
qed

section \<open>The new stack\<close>

text \<open>C16: \<^verbatim>\<open>move_stack\<close> with the layout of the kernel, for an old stack of at most 8 KB in
  pages mapped onto themselves below the new one: it comes to its end without a fault, the new stack
  and base pointers are the old ones moved by the distance of the stacks, and every word of the new
  stack is the word of the old one, moved by the same distance exactly when it points into the old
  stack. Pages in use keep their frames, only the page above the new stack becomes mapped, and at most
  four frames are taken.\<close>

theorem move_stack_copies:
  assumes "stack_room s" and "old_stack_ok old_stack init_esp s"
  shows "\<exists>s'. move_stack KERNEL_STACK_TOP KERNEL_STACK_SZ init_esp old_stack old_base s
       = Some (Inr (old_stack + (KERNEL_STACK_TOP - init_esp), old_base + (KERNEL_STACK_TOP - init_esp), s'))
     \<and> keeps {(1, 0)} 4 s s'
     \<and> (\<forall>a. aligned4 a \<and> old_stack + (KERNEL_STACK_TOP - init_esp) \<le> a \<and> a < KERNEL_STACK_TOP \<longrightarrow>
          (\<exists>w. vload32 (a - (KERNEL_STACK_TOP - init_esp)) s = Inr w
             \<and> vload32 a s' = Inr (if old_stack < w \<and> w < init_esp then w + (KERNEL_STACK_TOP - init_esp) else w)))"
  using move_stack_run [OF assms, of old_base, unfolded moved_word_def] by blast

definition stack_example :: proc_state where
  "stack_example = (case kmain_tables (lapic_recorder 0 (\<lambda>_. 0)) (recorder (\<lambda>_. 0x55)) env_example kernel_example of
     Inr k \<Rightarrow> k_proc k | Inl _ \<Rightarrow> k_proc kernel_example)"

lemma stack_example_ready: "stack_room stack_example" "old_stack_ok 0x106F00 0x106F80 stack_example"
proof -
  have cpus: "nat (mc_num_cpus (k_machine kernel_example)) \<le> length (mc_cpus (k_machine kernel_example))"
    by (simp add: kernel_example_def machine_example_def)
  obtain k where k: "kmain_tables (lapic_recorder 0 (\<lambda>_. 0)) (recorder (\<lambda>_. 0x55)) env_example kernel_example = Inr k"
    "run_ready env_example 0x106F80 k"
    using kmain_tables_run_ready [OF example_tables_ready example_memory cpus, of "recorder (\<lambda>_. 0x55)"] by blast
  then show "stack_room stack_example" "old_stack_ok 0x106F00 0x106F80 stack_example"
    by (simp_all add: stack_example_def run_ready_def Let_def stack_room_def) (simp add: env_example_def)
qed

theorem move_stack_copies_witness:
  "\<exists>s' w. move_stack KERNEL_STACK_TOP KERNEL_STACK_SZ 0x106F80 0x106F00 0x106F40 stack_example = Some (Inr (0x3FFF80, 0x3FFFC0, s'))
     \<and> vload32 0x106F04 stack_example = Inr w
     \<and> vload32 0x3FFF84 s' = Inr (if 0x106F00 < w \<and> w < 0x106F80 then w + 0x2F9080 else w)"
proof -
  have off: "KERNEL_STACK_TOP - 0x106F80 = 0x2F9080" "KERNEL_STACK_TOP = 0x400000" by (simp_all add: layout_defs)
  obtain s' where s': "move_stack KERNEL_STACK_TOP KERNEL_STACK_SZ 0x106F80 0x106F00 0x106F40 stack_example
      = Some (Inr (0x106F00 + 0x2F9080, 0x106F40 + 0x2F9080, s'))"
    "\<forall>a. aligned4 a \<and> 0x106F00 + 0x2F9080 \<le> a \<and> a < KERNEL_STACK_TOP \<longrightarrow>
       (\<exists>w. vload32 (a - 0x2F9080) stack_example = Inr w
          \<and> vload32 a s' = Inr (if 0x106F00 < w \<and> w < 0x106F80 then w + 0x2F9080 else w))"
    using move_stack_copies [OF stack_example_ready, of "0x106F40", unfolded off(1)] by blast
  have "aligned4 0x3FFF84" by (simp add: aligned4_def)
  then have "\<exists>w. vload32 (0x3FFF84 - 0x2F9080) stack_example = Inr w
      \<and> vload32 0x3FFF84 s' = Inr (if 0x106F00 < w \<and> w < 0x106F80 then w + 0x2F9080 else w)"
    using s'(2) [rule_format, of "0x3FFF84"] by (simp only: off(2)) simp
  then show ?thesis using s'(1) by (simp only: diff_numeral_simps) simp
qed

end
