(* ===== verification/Pmm_Init.thy ===== *)
theory Pmm_Init
  imports Pmm
begin

text \<open>
  \<^verbatim>\<open>init_pmm\<close> of \<^verbatim>\<open>src/sys/pmm.c\<close>: what the bitmap of frames says after it has been
  built from the memory map of the boot loader. The map is a list of regions in increasing order;
  the bitmap goes to the first region of RAM with room for it, and everything the map does not
  describe as RAM is taken.
\<close>

section \<open>The memory map\<close>

text \<open>The map ends: its entries are those visited.\<close>

fun mmap_entries :: "mem \<Rightarrow> u32 \<Rightarrow> u32 \<Rightarrow> u32 list \<Rightarrow> bool" where
  "mmap_entries m stop a [] \<longleftrightarrow> stop \<le> a"
| "mmap_entries m stop a (e # el) \<longleftrightarrow> e = a \<and> a < stop \<and> mmap_entries m stop (mmap_next m a) el"

definition region_start :: "mem \<Rightarrow> u32 \<Rightarrow> nat" where
  "region_start m x = unat (mmap_base_addr_l m x)"

definition region_end :: "mem \<Rightarrow> u32 \<Rightarrow> nat" where
  "region_end m x = unat (mmap_base_addr_l m x) + unat (mmap_length_l m x)"

definition is_ram :: "mem \<Rightarrow> u32 \<Rightarrow> bool" where
  "is_ram m x \<longleftrightarrow> mmap_type m x = 1"

text \<open>Regions from address \<open>e\<close> on, in increasing order, without overlap, of two bytes at least
  and below 4 GB. The end of the last region of RAM, and the addresses in RAM.\<close>

fun map_sorted :: "mem \<Rightarrow> nat \<Rightarrow> u32 list \<Rightarrow> bool" where
  "map_sorted m e [] \<longleftrightarrow> True"
| "map_sorted m e (x # xs) \<longleftrightarrow> e \<le> region_start m x \<and> region_start m x + 2 \<le> region_end m x
     \<and> region_end m x < 2 ^ 32 \<and> map_sorted m (region_end m x) xs"

fun ram_end :: "mem \<Rightarrow> nat \<Rightarrow> u32 list \<Rightarrow> nat" where
  "ram_end m mx [] = mx"
| "ram_end m mx (x # xs) = ram_end m (if is_ram m x then region_end m x else mx) xs"

definition ram :: "mem \<Rightarrow> u32 list \<Rightarrow> nat \<Rightarrow> bool" where
  "ram m el a \<longleftrightarrow> (\<exists>x \<in> set el. is_ram m x \<and> region_start m x \<le> a \<and> a < region_end m x)"

text \<open>A region with room for the blocks of the bitmap, from its first whole block on.\<close>

definition room_for :: "mem \<Rightarrow> nat \<Rightarrow> u32 \<Rightarrow> bool" where
  "room_for m n x \<longleftrightarrow> is_ram m x \<and> ((region_start m x + 4095) div 4096 + n) * 4096 \<le> region_end m x"

text \<open>The addresses the third loop of \<^verbatim>\<open>init_pmm\<close> marks: gaps between regions and regions that
  are not RAM, as long as they begin and end below the last address of RAM.\<close>

fun hole :: "mem \<Rightarrow> nat \<Rightarrow> nat \<Rightarrow> u32 list \<Rightarrow> nat \<Rightarrow> bool" where
  "hole m mx e [] a \<longleftrightarrow> False"
| "hole m mx e (x # xs) a \<longleftrightarrow> region_start m x + 1 < mx \<and>
     (e \<le> a \<and> a < region_start m x
      \<or> \<not> is_ram m x \<and> region_end m x + 1 < mx \<and> region_start m x \<le> a \<and> a < region_end m x
      \<or> hole m mx (region_end m x) xs a)"

lemma map_sorted_above: "map_sorted m e el \<Longrightarrow> x \<in> set el \<Longrightarrow> e \<le> region_start m x"
  by (induction el arbitrary: e) fastforce+

lemma hole_above: "map_sorted m e el \<Longrightarrow> hole m mx e el a \<Longrightarrow> e \<le> a"
  by (induction el arbitrary: e) fastforce+

lemma ram_above: "map_sorted m e el \<Longrightarrow> ram m el a \<Longrightarrow> e \<le> a"
  using map_sorted_above [of m e el] by (auto simp: ram_def intro: order_trans)

lemma ram_end_cases: "map_sorted m e el \<Longrightarrow> ram_end m mx el = mx \<or> e + 2 \<le> ram_end m mx el"
proof (induction el arbitrary: e mx)
  case (Cons x el)
  then have "ram_end m (if is_ram m x then region_end m x else mx) el = (if is_ram m x then region_end m x else mx)
      \<or> region_end m x + 2 \<le> ram_end m (if is_ram m x then region_end m x else mx) el" by simp
  then show ?case using Cons.prems by (auto split: if_splits)
qed simp

text \<open>Below the end of RAM these are exactly the addresses that are not RAM.\<close>

lemma hole_iff_not_ram:
  assumes "map_sorted m e el" and "mx = ram_end m mx0 el" and "mx0 \<le> e" and "e \<le> a" and "a < mx"
  shows "hole m mx e el a \<longleftrightarrow> \<not> ram m el a"
  using assms
proof (induction el arbitrary: e mx0)
  case (Cons x el)
  let ?S = "region_start m x" and ?E = "region_end m x"
  have s: "e \<le> ?S" "?S + 2 \<le> ?E" "map_sorted m ?E el" using Cons.prems(1) by simp_all
  define mx1 where "mx1 = (if is_ram m x then ?E else mx0)"
  have mx: "mx = ram_end m mx1 el" using Cons.prems(2) by (simp add: mx1_def)
  have mx1: "mx1 \<le> ?E" using Cons.prems(3) s by (simp add: mx1_def)
  have low: "?S + 1 < mx" "\<not> is_ram m x \<longrightarrow> ?E + 1 < mx"
    using ram_end_cases [OF s(3), of mx1] mx s Cons.prems(3-5) by (auto simp: mx1_def split: if_splits)
  have tail: "\<not> hole m mx ?E el a" "\<not> ram m el a" if "a < ?E"
    using hole_above [OF s(3)] ram_above [OF s(3)] that by fastforce+
  have IH: "hole m mx ?E el a \<longleftrightarrow> \<not> ram m el a" if "?E \<le> a"
    by (rule Cons.IH [OF s(3) mx mx1 that Cons.prems(5)])
  have "ram m (x # el) a \<longleftrightarrow> (is_ram m x \<and> ?S \<le> a \<and> a < ?E) \<or> ram m el a" by (auto simp: ram_def)
  then show ?case using low tail IH Cons.prems(4) s(2) by (cases "a < ?E") auto
qed simp

section \<open>The loops over the map\<close>

lemma region_end_word: "region_end m x < 2 ^ 32 \<Longrightarrow> unat (mmap_base_addr_l m x + mmap_length_l m x) = region_end m x"
  by (simp add: region_end_def unat_word_ariths)

lemma pmm_max_loop_eq:
  assumes "mmap_entries m stop a el" and "map_sorted m e el"
  shows "pmm_max_loop m stop a mx = Some (of_nat (ram_end m (unat mx) el))"
  using assms
proof (induction el arbitrary: a e mx)
  case Nil
  then have "\<not> a < stop" by simp
  then show ?case by (simp add: pmm_max_loop.simps [of m stop a])
next
  case (Cons x el)
  have "unat (if mmap_type m a = 1 then mmap_base_addr_l m a + mmap_length_l m a else mx)
      = (if is_ram m x then region_end m x else unat mx)"
    using Cons.prems region_end_word [of m x] by (auto simp: is_ram_def)
  then show ?case
    using Cons.IH [of "mmap_next m a" "region_end m x" "if mmap_type m a = 1 then mmap_base_addr_l m a + mmap_length_l m a else mx"] Cons.prems
    by (auto simp: pmm_max_loop.simps [of m stop a])
qed

lemma align_upwards_mod: "align_upwards a PMM_BLK_SZ mod 4096 = 0"
proof -
  have "(a div 4096 * 4096 + 4096) mod 4096 = 0"
    by (simp add: word_unat_eq_iff unat_mod_distrib unat_word_ariths)
       (simp add: mod_mod_cancel)
  then show ?thesis by (simp add: align_upwards_def PMM_BLK_SZ_def)
qed

lemma align_both: "align_downwards (align_upwards a PMM_BLK_SZ) PMM_BLK_SZ = align_upwards a PMM_BLK_SZ"
  using align_upwards_mod [of a] by (simp add: align_downwards_def PMM_BLK_SZ_def)

text \<open>The base the code computes for the bitmap, and its test for room.\<close>

lemma align_upwards_unat:
  assumes "unat a \<le> 0xFFFFF000"
  shows "unat (align_upwards a PMM_BLK_SZ) = (unat a + 4095) div 4096 * 4096"
proof -
  let ?u = "align_upwards a PMM_BLK_SZ"
  have "unat (?u div PMM_BLK_SZ) = (unat a + 4095) div 4096" using assms by (intro align_upwards_block) (simp add: word_le_nat_alt)
  moreover have "unat ?u mod 4096 = 0" using align_upwards_mod [of a] by (simp add: word_unat_eq_iff unat_mod_distrib)
  ultimately show ?thesis by (auto simp: PMM_BLK_SZ_def unat_div_distrib)
qed

lemma room_test:
  assumes "region_end m x < 2 ^ 32" and "0 < n"
  shows "mmap_type m x = 1 \<and> n \<le> mmap_length_l m x div PMM_BLK_SZ
       \<and> n \<le> (mmap_base_addr_l m x + mmap_length_l m x - align_upwards (mmap_base_addr_l m x) PMM_BLK_SZ) div PMM_BLK_SZ
     \<longleftrightarrow> room_for m (unat n) x"
proof -
  let ?b = "mmap_base_addr_l m x" and ?l = "mmap_length_l m x"
  have n: "0 < unat n" using assms(2) by (simp add: word_less_nat_alt)
  have e: "unat (?b + ?l) = region_end m x" by (rule region_end_word [OF assms(1)])
  let ?A = "(region_start m x + 4095) div 4096 * 4096"
  have A: "region_start m x \<le> ?A" "?A < region_start m x + 4096" by linarith+
  have len: "n \<le> ?l div PMM_BLK_SZ \<longleftrightarrow> unat n * 4096 \<le> unat ?l"
    by (simp add: word_le_nat_alt unat_div_distrib PMM_BLK_SZ_def less_eq_div_iff_mult_less_eq)
  show ?thesis
  proof (cases "n \<le> ?l div PMM_BLK_SZ")
    case True
    then have l: "4096 \<le> unat ?l" using len n by linarith
    then have "unat ?b \<le> 0xFFFFF000" using assms(1) by (simp add: region_end_def)
    then have u: "unat (align_upwards ?b PMM_BLK_SZ) = ?A" using align_upwards_unat by (simp add: region_start_def)
    then have "unat (?b + ?l - align_upwards ?b PMM_BLK_SZ) = region_end m x - ?A"
      using l A by (subst unat_sub) (simp_all add: word_le_nat_alt e region_end_def region_start_def)
    then have "n \<le> (?b + ?l - align_upwards ?b PMM_BLK_SZ) div PMM_BLK_SZ \<longleftrightarrow> unat n * 4096 \<le> region_end m x - ?A"
      by (simp add: word_le_nat_alt unat_div_distrib PMM_BLK_SZ_def less_eq_div_iff_mult_less_eq)
    then show ?thesis using True n by (auto simp: room_for_def is_ram_def add_mult_distrib)
  next
    case False
    then have "\<not> room_for m (unat n) x" using len A by (auto simp: room_for_def region_end_def region_start_def add_mult_distrib)
    then show ?thesis using False by simp
  qed
qed

section \<open>The bitmap\<close>

text \<open>The bytes \<^verbatim>\<open>init_pmm\<close> may write to, one more than the bitmap needs when the number of
  blocks is a multiple of eight. What lies outside stays.\<close>

definition bitmap_bytes :: "u32 \<Rightarrow> u32 \<Rightarrow> u32 set" where
  "bitmap_bytes base sz = {k. k - base \<le> sz div 8}"

definition same_outside :: "u32 set \<Rightarrow> mem \<Rightarrow> mem \<Rightarrow> bool" where
  "same_outside W m m' \<longleftrightarrow> (\<forall>k. k \<notin> W \<longrightarrow> m' k = m k)"

lemma same_outside_refl [simp]: "same_outside W m m" by (simp add: same_outside_def)

lemma same_outside_trans: "same_outside W m m1 \<Longrightarrow> same_outside W m1 m2 \<Longrightarrow> same_outside W m m2"
  by (simp add: same_outside_def)

lemma bitmap_set_outside:
  assumes "b \<le> sz"
  shows "same_outside (bitmap_bytes base sz) m (bitmap_set base b m)"
proof -
  have "b div 8 \<le> sz div 8" using assms by (simp add: word_le_nat_alt unat_div_distrib div_le_mono)
  then show ?thesis by (auto simp: same_outside_def bitmap_bytes_def bitmap_set_def)
qed

text \<open>An entry of the map outside the bitmap.\<close>

definition entry_outside :: "u32 set \<Rightarrow> u32 \<Rightarrow> bool" where
  "entry_outside W x \<longleftrightarrow> (\<forall>j < 24. x + of_nat j \<notin> W)"

lemma entry_fields_same:
  assumes "same_outside W m m'" and "entry_outside W x"
  shows "mmap_base_addr_l m' x = mmap_base_addr_l m x" "mmap_length_l m' x = mmap_length_l m x"
    "mmap_type m' x = mmap_type m x" "mmap_next m' x = mmap_next m x"
proof -
  have "m' (x + of_nat j) = m (x + of_nat j)" if "j < 24" for j using assms that by (simp add: same_outside_def entry_outside_def)
  from this [of 0] this [of 1] this [of 2] this [of 3] this [of 4] this [of 5] this [of 6] this [of 7] this [of 12] this [of 13]
    this [of 14] this [of 15] this [of 20] this [of 21] this [of 22] this [of 23]
  show "mmap_base_addr_l m' x = mmap_base_addr_l m x" "mmap_length_l m' x = mmap_length_l m x"
    "mmap_type m' x = mmap_type m x" "mmap_next m' x = mmap_next m x"
    by (simp_all add: mmap_base_addr_l_def mmap_length_l_def mmap_type_def mmap_next_def mmap_size_def load32_def add.assoc)
qed

lemma pmm_zero_loop_eq: "pmm_zero_loop a n i m = (\<lambda>k. if i \<le> k - a \<and> k - a < n then 0 else m k)"
proof (induction a n i m rule: pmm_zero_loop.induct)
  case (1 a n i m)
  show ?case
  proof (cases "i < n")
    case True
    have "i \<le> k - a \<longleftrightarrow> k = a + i \<or> i + 1 \<le> k - a" for k
      using word_le_cases_inc [OF True, of "k - a"] inc_le [of i "k - a"] by (auto simp: order_le_less algebra_simps)
    then show ?thesis unfolding pmm_zero_loop.simps [of a n i] if_P [OF True] 1 [OF True] using True by (auto simp: fun_eq_iff)
  qed (auto simp: pmm_zero_loop.simps [of a n i] fun_eq_iff)
qed

lemma pmm_mark_bitmap_loop_eq:
  assumes "unat (a div PMM_BLK_SZ) + unat n \<le> unat sz"
  shows "same_outside (bitmap_bytes a sz) m (pmm_mark_bitmap_loop a n i m)
     \<and> (\<forall>b. bitmap_is_set a b (pmm_mark_bitmap_loop a n i m) \<longleftrightarrow> bitmap_is_set a b m
          \<or> unat (a div PMM_BLK_SZ) + unat i \<le> unat b \<and> unat b < unat (a div PMM_BLK_SZ) + unat n)"
  using assms
proof (induction a n i m rule: pmm_mark_bitmap_loop.induct)
  case (1 a n i m)
  show ?case
  proof (cases "i < n")
    case True
    let ?c = "i + a div PMM_BLK_SZ"
    have i: "unat i < unat n" using True by (simp add: word_less_nat_alt)
    have i1: "unat (i + 1) = unat i + 1" using inc_le [OF True] i unat_u32_less [of n] by (simp add: unat_word_ariths)
    have c: "unat ?c = unat (a div PMM_BLK_SZ) + unat i" using i 1(2) unat_u32_less [of sz] by (simp add: unat_word_ariths)
    then have "?c \<le> sz" using i 1(2) by (simp add: word_le_nat_alt)
    then have out: "same_outside (bitmap_bytes a sz) m (bitmap_set a ?c m)" by (rule bitmap_set_outside)
    have "b = ?c \<longleftrightarrow> unat b = unat (a div PMM_BLK_SZ) + unat i" for b using c by (simp add: word_unat_eq_iff)
    then show ?thesis
      using 1(1) [OF True 1(2)] same_outside_trans [OF out] True i
      by (auto simp: pmm_mark_bitmap_loop.simps [of a n i] i1)
  qed (auto simp: pmm_mark_bitmap_loop.simps [of a n i] word_less_nat_alt)
qed

text \<open>The bitmap after it has been placed: zero but for its own blocks.\<close>

lemma pmm_bytes_unat: "unat (pmm_bytes sz) = (unat sz + 7) div 8"
proof -
  have "unat sz div 8 + 1 < 2 ^ 32" using unat_u32_less [of sz] by simp
  then have "unat (sz div 8 + 1) = unat sz div 8 + 1" by (simp add: unat_word_ariths unat_div_distrib)
  moreover have "sz mod 8 = 0 \<longleftrightarrow> unat sz mod 8 = 0" by (simp add: word_unat_eq_iff unat_mod_distrib)
  ultimately show ?thesis by (auto simp: pmm_bytes_def Let_def unat_div_distrib) presburger+
qed

lemma byte_of_block: "b < sz \<Longrightarrow> b div 8 < pmm_bytes sz" for b :: u32
  by (simp add: word_less_nat_alt pmm_bytes_unat unat_div_distrib)

lemma bitmap_placed:
  fixes m :: mem
  assumes "unat (a div PMM_BLK_SZ) + unat n \<le> unat sz"
  defines "m' \<equiv> pmm_mark_bitmap_loop a n 0 (pmm_zero_loop a (pmm_bytes sz) 0 m)"
  shows "same_outside (bitmap_bytes a sz) m m'"
    and "b < sz \<Longrightarrow> bitmap_is_set a b m' \<longleftrightarrow> unat (a div PMM_BLK_SZ) \<le> unat b \<and> unat b < unat (a div PMM_BLK_SZ) + unat n"
proof -
  let ?z = "pmm_zero_loop a (pmm_bytes sz) 0 m"
  have "x < pmm_bytes sz \<Longrightarrow> x \<le> sz div 8" for x by (simp add: word_less_nat_alt word_le_nat_alt pmm_bytes_unat unat_div_distrib)
  then have "same_outside (bitmap_bytes a sz) m ?z" by (auto simp: same_outside_def bitmap_bytes_def pmm_zero_loop_eq)
  then show "same_outside (bitmap_bytes a sz) m m'"
    unfolding m'_def using pmm_mark_bitmap_loop_eq [OF assms(1)] same_outside_trans by blast
  show "bitmap_is_set a b m' \<longleftrightarrow> unat (a div PMM_BLK_SZ) \<le> unat b \<and> unat b < unat (a div PMM_BLK_SZ) + unat n" if "b < sz"
  proof -
    have "\<not> bitmap_is_set a b ?z" using byte_of_block [OF that] by (simp add: bitmap_is_set_def pmm_zero_loop_eq)
    then show ?thesis unfolding m'_def using pmm_mark_bitmap_loop_eq [OF assms(1), of ?z 0] by simp
  qed
qed

lemma pmm_place_bitmap_eq:
  assumes "mmap_entries (pmem s) stop a el" and "map_sorted (pmem s) e el"
    and "0 < pmm_blocks_bitmap (pmm_bitmap_sz s)"
    and "find (room_for (pmem s) (unat (pmm_blocks_bitmap (pmm_bitmap_sz s)))) el = Some x"
  shows "pmm_place_bitmap stop a s = Some (s\<lparr>pmm_bitmap := align_upwards (mmap_base_addr_l (pmem s) x) PMM_BLK_SZ,
     pmem := pmm_mark_bitmap_loop (align_upwards (mmap_base_addr_l (pmem s) x) PMM_BLK_SZ) (pmm_blocks_bitmap (pmm_bitmap_sz s)) 0
       (pmm_zero_loop (align_upwards (mmap_base_addr_l (pmem s) x) PMM_BLK_SZ) (pmm_bytes (pmm_bitmap_sz s)) 0 (pmem s))\<rparr>)"
  using assms(1,2,4)
proof (induction el arbitrary: a e)
  case (Cons y el)
  have y: "y = a" "a < stop" "mmap_entries (pmem s) stop (mmap_next (pmem s) a) el" "region_end (pmem s) a < 2 ^ 32"
    "map_sorted (pmem s) (region_end (pmem s) a) el"
    using Cons.prems(1,2) by auto
  note test = room_test [OF y(4) assms(3)]
  show ?case
  proof (cases "room_for (pmem s) (unat (pmm_blocks_bitmap (pmm_bitmap_sz s))) a")
    case True
    then have "x = a" using Cons.prems(3) y(1) by simp
    then show ?thesis using True test y(2) by (simp add: pmm_place_bitmap.simps [of stop a] Let_def align_both)
  next
    case False
    then have "pmm_place_bitmap stop a s = pmm_place_bitmap stop (mmap_next (pmem s) a) s"
      unfolding pmm_place_bitmap.simps [of stop a s] Let_def align_both test using y(2) by simp
    then show ?thesis using Cons.IH [OF y(3,5)] Cons.prems(3) False y(1) by simp
  qed
qed simp

section \<open>Gaps and reserved regions\<close>

lemma covering_block:
  fixes S E b :: nat
  assumes "S < E"
  shows "S div 4096 \<le> b \<and> b * 4096 < E \<longleftrightarrow> (\<exists>a. S \<le> a \<and> a < E \<and> a div 4096 = b)"
proof -
  have "b * 4096 < E \<longleftrightarrow> b < (E + 4095) div 4096"
    using less_eq_div_iff_mult_less_eq [of 4096 "b + 1" "E + 4095"] by (simp add: Suc_le_eq)
  then show ?thesis using covering_blocks [OF assms, of b] by auto
qed

lemma pmm_mark_while_run:
  assumes "\<And>m'. same_outside (bitmap_bytes (pmm_bitmap s) (pmm_bitmap_sz s)) (pmem s) m' \<Longrightarrow> lim m' = L"
    and "unat L \<le> 0xFFFFF000" and "unat L \<le> unat (pmm_bitmap_sz s) * 4096 + 4096" and "unat a mod 4096 = 0"
  shows "\<exists>m'. pmm_mark_while lim a s = Some (s\<lparr>pmem := m'\<rparr>) \<and> same_outside (bitmap_bytes (pmm_bitmap s) (pmm_bitmap_sz s)) (pmem s) m'
     \<and> (\<forall>b. bitmap_is_set (pmm_bitmap s) b m' \<longleftrightarrow> bitmap_is_set (pmm_bitmap s) b (pmem s)
          \<or> unat a div 4096 \<le> unat b \<and> unat b * 4096 < unat L)"
  using assms
proof (induction "unat L - unat a" arbitrary: a s rule: less_induct)
  case less
  let ?W = "bitmap_bytes (pmm_bitmap s) (pmm_bitmap_sz s)"
  have L: "lim (pmem s) = L" using less.prems(1) by simp
  show ?case
  proof (cases "a < L")
    case False
    then have "unat L \<le> unat a" by (simp add: word_less_nat_alt)
    then have "\<not> (unat a div 4096 \<le> b \<and> b * 4096 < unat L)" for b using less.prems(4) by auto
    then have "\<not> (unat a div 4096 \<le> unat b \<and> unat b * 4096 < unat L)" for b :: u32 by blast
    then show ?thesis using False L by (intro exI [of _ "pmem s"]) (auto simp: pmm_mark_while.simps [of lim a])
  next
    case True
    let ?c = "a div PMM_BLK_SZ" and ?s = "pmm_set_block (a div PMM_BLK_SZ) s"
    have a: "unat a < unat L" using True by (simp add: word_less_nat_alt)
    have next_a: "unat (a + PMM_BLK_SZ) = unat a + 4096" using a less.prems(2) by (simp add: PMM_BLK_SZ_def unat_word_ariths)
    have step: "(unat a + 4096) div 4096 = unat a div 4096 + 1" by simp
    have c: "unat ?c = unat a div 4096" by (simp add: PMM_BLK_SZ_def unat_div_distrib)
    have "?c \<le> pmm_bitmap_sz s" using a less.prems(3) c by (simp add: word_le_nat_alt)
    then have out: "same_outside ?W (pmem s) (pmem ?s)" unfolding pmm_set_block_def by (simp add: bitmap_set_outside)
    have fields: "pmm_bitmap ?s = pmm_bitmap s" "pmm_bitmap_sz ?s = pmm_bitmap_sz s" by simp_all
    have "\<exists>m'. pmm_mark_while lim (a + PMM_BLK_SZ) ?s = Some (?s\<lparr>pmem := m'\<rparr>)
         \<and> same_outside (bitmap_bytes (pmm_bitmap ?s) (pmm_bitmap_sz ?s)) (pmem ?s) m'
         \<and> (\<forall>b. bitmap_is_set (pmm_bitmap ?s) b m' \<longleftrightarrow> bitmap_is_set (pmm_bitmap ?s) b (pmem ?s)
              \<or> unat (a + PMM_BLK_SZ) div 4096 \<le> unat b \<and> unat b * 4096 < unat L)"
    proof (rule less.hyps)
      show "lim m' = L" if "same_outside (bitmap_bytes (pmm_bitmap ?s) (pmm_bitmap_sz ?s)) (pmem ?s) m'" for m'
        using less.prems(1) same_outside_trans [OF out] that unfolding fields by blast
    qed (use less.prems(2-4) a next_a in simp_all)
    then obtain m' where m': "pmm_mark_while lim (a + PMM_BLK_SZ) ?s = Some (?s\<lparr>pmem := m'\<rparr>)" "same_outside ?W (pmem ?s) m'"
      "\<And>b. bitmap_is_set (pmm_bitmap s) b m' \<longleftrightarrow> bitmap_is_set (pmm_bitmap s) b (pmem ?s)
         \<or> unat a div 4096 + 1 \<le> unat b \<and> unat b * 4096 < unat L"
      unfolding fields next_a step by blast
    have "bitmap_is_set (pmm_bitmap s) b m' \<longleftrightarrow> bitmap_is_set (pmm_bitmap s) b (pmem s)
        \<or> unat a div 4096 \<le> unat b \<and> unat b * 4096 < unat L" for b
    proof -
      have "unat a = unat a div 4096 * 4096" using less.prems(4) by auto
      then have "b = ?c \<or> unat a div 4096 + 1 \<le> unat b \<and> unat b * 4096 < unat L \<longleftrightarrow> unat a div 4096 \<le> unat b \<and> unat b * 4096 < unat L"
        using a c by (auto simp: word_unat_eq_iff)
      moreover have "bitmap_is_set (pmm_bitmap s) b (pmem ?s) \<longleftrightarrow> b = ?c \<or> bitmap_is_set (pmm_bitmap s) b (pmem s)"
        by (simp add: pmm_set_block_def)
      ultimately show ?thesis using m'(3) [of b] by blast
    qed
    moreover have "?s\<lparr>pmem := m'\<rparr> = s\<lparr>pmem := m'\<rparr>" by (simp add: pmm_set_block_def)
    ultimately show ?thesis
      using m'(1) same_outside_trans [OF out m'(2)] True L by (intro exI [of _ m']) (simp add: pmm_mark_while.simps [of lim a s])
  qed
qed

text \<open>The loop from an address rounded down marks the blocks of the addresses up to the limit.\<close>

lemma align_downwards_unat: "unat (align_downwards a PMM_BLK_SZ) = unat a div 4096 * 4096"
proof -
  have "unat (a - a mod 4096) = unat a - unat a mod 4096" by (simp add: unat_sub word_le_nat_alt unat_mod_distrib)
  then show ?thesis unfolding align_downwards_def PMM_BLK_SZ_def by (simp only: minus_mod_eq_div_mult)
qed

lemma pmm_mark_range:
  assumes "\<And>m'. same_outside (bitmap_bytes (pmm_bitmap s) (pmm_bitmap_sz s)) (pmem s) m' \<Longrightarrow> lim m' = L"
    and "unat L \<le> 0xFFFFF000" and "unat L \<le> unat (pmm_bitmap_sz s) * 4096 + 4096"
  shows "\<exists>m'. (if a < L then pmm_mark_while lim (align_downwards a PMM_BLK_SZ) s else Some s) = Some (s\<lparr>pmem := m'\<rparr>)
     \<and> same_outside (bitmap_bytes (pmm_bitmap s) (pmm_bitmap_sz s)) (pmem s) m'
     \<and> (\<forall>b. bitmap_is_set (pmm_bitmap s) b m' \<longleftrightarrow> bitmap_is_set (pmm_bitmap s) b (pmem s)
          \<or> (\<exists>c. unat a \<le> c \<and> c < unat L \<and> c div 4096 = unat b))"
proof (cases "a < L")
  case True
  then have "unat a < unat L" by (simp add: word_less_nat_alt)
  note cover = covering_block [OF this]
  have "unat (align_downwards a PMM_BLK_SZ) mod 4096 = 0" by (simp add: align_downwards_unat)
  from pmm_mark_while_run [OF assms this] show ?thesis using True cover by (simp add: align_downwards_unat)
next
  case False
  then have "\<not> (\<exists>c. unat a \<le> c \<and> c < unat L \<and> c div 4096 = b)" for b by (auto simp: word_less_nat_alt)
  then show ?thesis using False by (intro exI [of _ "pmem s"]) auto
qed

lemma pmm_mark_reserved_run:
  fixes mx :: u32
  assumes "mmap_entries m stop a el" and "map_sorted m (unat expected) el"
    and "\<forall>x \<in> set el. entry_outside (bitmap_bytes (pmm_bitmap s) (pmm_bitmap_sz s)) x"
    and "same_outside (bitmap_bytes (pmm_bitmap s) (pmm_bitmap_sz s)) m (pmem s)"
    and "0 < unat mx" and "unat mx \<le> 0xFFFFF000" and "unat mx \<le> unat (pmm_bitmap_sz s) * 4096 + 4096"
  shows "\<exists>m'. pmm_mark_reserved stop mx a expected s = Some (s\<lparr>pmem := m'\<rparr>)
     \<and> same_outside (bitmap_bytes (pmm_bitmap s) (pmm_bitmap_sz s)) (pmem s) m'
     \<and> (\<forall>b. bitmap_is_set (pmm_bitmap s) b m' \<longleftrightarrow> bitmap_is_set (pmm_bitmap s) b (pmem s)
          \<or> (\<exists>c. hole m (unat mx) (unat expected) el c \<and> c div 4096 = unat b))"
  using assms
proof (induction el arbitrary: a expected s)
  case Nil
  then have "\<not> a < stop" by simp
  then show ?case by (intro exI [of _ "pmem s"]) (simp add: pmm_mark_reserved.simps [of stop mx a])
next
  case (Cons x el)
  let ?W = "bitmap_bytes (pmm_bitmap s) (pmm_bitmap_sz s)"
  have x: "x = a" "a < stop" "mmap_entries m stop (mmap_next m a) el" using Cons.prems(1) by auto
  let ?S = "region_start m a" and ?E = "region_end m a"
  have srt: "unat expected \<le> ?S" "?S + 2 \<le> ?E" "?E < 2 ^ 32" "map_sorted m ?E el" using Cons.prems(2) x(1) by auto
  have Eu: "unat (mmap_base_addr_l m a + mmap_length_l m a) = ?E" by (rule region_end_word [OF srt(3)])
  have Su: "unat (mmap_base_addr_l m a) = ?S" by (simp add: region_start_def)
  have same: "mmap_base_addr_l m' a = mmap_base_addr_l m a" "mmap_length_l m' a = mmap_length_l m a"
    "mmap_type m' a = mmap_type m a" "mmap_next m' a = mmap_next m a" if "same_outside ?W (pmem s) m'" for m'
    using entry_fields_same [OF same_outside_trans [OF Cons.prems(4) that]] Cons.prems(3) x(1) by auto
  have mx1: "unat (mx - 1) = unat mx - 1" using Cons.prems(5) by (subst unat_sub) (simp_all add: word_le_nat_alt)
  have below: "mmap_base_addr_l m a < mx - 1 \<longleftrightarrow> ?S + 1 < unat mx" "mmap_base_addr_l m a + mmap_length_l m a < mx - 1 \<longleftrightarrow> ?E + 1 < unat mx"
    by (auto simp: word_less_nat_alt Su Eu mx1)
  show ?case
  proof (cases "?S + 1 < unat mx")
    case False
    then show ?thesis using same [of "pmem s"] below x(1)
      by (intro exI [of _ "pmem s"]) (simp add: pmm_mark_reserved.simps [of stop mx a])
  next
    case True
    have "\<exists>m'. (if expected < mmap_base_addr_l m a then pmm_mark_while (\<lambda>m. mmap_base_addr_l m a) (align_downwards expected PMM_BLK_SZ) s else Some s)
         = Some (s\<lparr>pmem := m'\<rparr>) \<and> same_outside ?W (pmem s) m'
       \<and> (\<forall>b. bitmap_is_set (pmm_bitmap s) b m' \<longleftrightarrow> bitmap_is_set (pmm_bitmap s) b (pmem s)
            \<or> (\<exists>c. unat expected \<le> c \<and> c < unat (mmap_base_addr_l m a) \<and> c div 4096 = unat b))"
      by (rule pmm_mark_range) (use same(1) True Cons.prems(6,7) in \<open>simp_all add: Su\<close>)
    then obtain m1 where m1: "(if expected < mmap_base_addr_l m a then pmm_mark_while (\<lambda>m. mmap_base_addr_l m a) (align_downwards expected PMM_BLK_SZ) s else Some s)
         = Some (s\<lparr>pmem := m1\<rparr>)" "same_outside ?W (pmem s) m1"
      "\<And>b. bitmap_is_set (pmm_bitmap s) b m1 \<longleftrightarrow> bitmap_is_set (pmm_bitmap s) b (pmem s)
            \<or> (\<exists>c. unat expected \<le> c \<and> c < ?S \<and> c div 4096 = unat b)"
      unfolding Su by blast
    let ?s1 = "s\<lparr>pmem := m1\<rparr>"
    have step2: "\<exists>m'. (if mmap_type m a \<noteq> 1 \<and> ?E + 1 < unat mx then pmm_mark_while (\<lambda>m. mmap_base_addr_l m a + mmap_length_l m a)
           (align_downwards (mmap_base_addr_l m a) PMM_BLK_SZ) ?s1 else Some ?s1)
         = Some (s\<lparr>pmem := m'\<rparr>) \<and> same_outside ?W m1 m'
       \<and> (\<forall>b. bitmap_is_set (pmm_bitmap s) b m' \<longleftrightarrow> bitmap_is_set (pmm_bitmap s) b m1
            \<or> (mmap_type m a \<noteq> 1 \<and> ?E + 1 < unat mx \<and> (\<exists>c. ?S \<le> c \<and> c < ?E \<and> c div 4096 = unat b)))"
    proof (cases "mmap_type m a \<noteq> 1 \<and> ?E + 1 < unat mx")
      case True
      have lt: "mmap_base_addr_l m a < mmap_base_addr_l m a + mmap_length_l m a" using srt(2) by (simp add: word_less_nat_alt Eu Su)
      have "\<exists>m'. (if mmap_base_addr_l m a < mmap_base_addr_l m a + mmap_length_l m a then pmm_mark_while (\<lambda>m. mmap_base_addr_l m a + mmap_length_l m a)
             (align_downwards (mmap_base_addr_l m a) PMM_BLK_SZ) ?s1 else Some ?s1) = Some (?s1\<lparr>pmem := m'\<rparr>)
           \<and> same_outside (bitmap_bytes (pmm_bitmap ?s1) (pmm_bitmap_sz ?s1)) (pmem ?s1) m'
           \<and> (\<forall>b. bitmap_is_set (pmm_bitmap ?s1) b m' \<longleftrightarrow> bitmap_is_set (pmm_bitmap ?s1) b (pmem ?s1)
                \<or> (\<exists>c. unat (mmap_base_addr_l m a) \<le> c \<and> c < unat (mmap_base_addr_l m a + mmap_length_l m a) \<and> c div 4096 = unat b))"
        by (rule pmm_mark_range) (use same(1,2) same_outside_trans [OF m1(2)] True Cons.prems(6,7) in \<open>simp_all add: Eu\<close>)
      then show ?thesis using True lt unfolding Eu Su by simp
    qed (auto intro: exI [of _ m1])
    then obtain m2 where m2: "(if mmap_type m a \<noteq> 1 \<and> ?E + 1 < unat mx then pmm_mark_while (\<lambda>m. mmap_base_addr_l m a + mmap_length_l m a)
           (align_downwards (mmap_base_addr_l m a) PMM_BLK_SZ) ?s1 else Some ?s1) = Some (s\<lparr>pmem := m2\<rparr>)" "same_outside ?W m1 m2"
       "\<And>b. bitmap_is_set (pmm_bitmap s) b m2 \<longleftrightarrow> bitmap_is_set (pmm_bitmap s) b m1
            \<or> (mmap_type m a \<noteq> 1 \<and> ?E + 1 < unat mx \<and> (\<exists>c. ?S \<le> c \<and> c < ?E \<and> c div 4096 = unat b))" by blast
    let ?s2 = "s\<lparr>pmem := m2\<rparr>" and ?e2 = "mmap_base_addr_l m a + mmap_length_l m a"
    have out2: "same_outside ?W (pmem s) m2" by (rule same_outside_trans [OF m1(2) m2(2)])
    have "\<exists>m'. pmm_mark_reserved stop mx (mmap_next m a) ?e2 ?s2 = Some (?s2\<lparr>pmem := m'\<rparr>)
       \<and> same_outside (bitmap_bytes (pmm_bitmap ?s2) (pmm_bitmap_sz ?s2)) (pmem ?s2) m'
       \<and> (\<forall>b. bitmap_is_set (pmm_bitmap ?s2) b m' \<longleftrightarrow> bitmap_is_set (pmm_bitmap ?s2) b (pmem ?s2)
            \<or> (\<exists>c. hole m (unat mx) (unat ?e2) el c \<and> c div 4096 = unat b))"
      by (rule Cons.IH [OF x(3)]) (use srt(4) Cons.prems(3-7) same_outside_trans [OF Cons.prems(4) out2] in \<open>simp_all add: Eu\<close>)
    then obtain m3 where m3: "pmm_mark_reserved stop mx (mmap_next m a) ?e2 ?s2 = Some (s\<lparr>pmem := m3\<rparr>)" "same_outside ?W m2 m3"
      "\<And>b. bitmap_is_set (pmm_bitmap s) b m3 \<longleftrightarrow> bitmap_is_set (pmm_bitmap s) b m2 \<or> (\<exists>c. hole m (unat mx) ?E el c \<and> c div 4096 = unat b)"
      unfolding Eu by auto
    have "pmm_mark_reserved stop mx a expected s = Some (s\<lparr>pmem := m3\<rparr>)"
      using True x(2) below m1(1) m2(1) m3(1) same [OF same_outside_refl] same [OF m1(2)] same [OF out2]
      by (simp add: pmm_mark_reserved.simps [of stop mx a] split del: if_split cong: if_cong)
    moreover have "bitmap_is_set (pmm_bitmap s) b m3 \<longleftrightarrow> bitmap_is_set (pmm_bitmap s) b (pmem s)
        \<or> (\<exists>c. hole m (unat mx) (unat expected) (x # el) c \<and> c div 4096 = unat b)" for b
      unfolding m3(3) m2(3) m1(3) using True x(1) by (auto simp: is_ram_def)
    ultimately show ?thesis using same_outside_trans [OF out2 m3(2)] by blast
  qed
qed

text \<open>\<^verbatim>\<open>pmm_mark_mem_taken\<close> writes to the bitmap only.\<close>

lemma pmm_mark_loop_outside:
  assumes "unat j \<le> unat (pmm_bitmap_sz s) + 1"
  shows "\<exists>m'. pmm_mark_loop i j s = s\<lparr>pmem := m'\<rparr> \<and> same_outside (bitmap_bytes (pmm_bitmap s) (pmm_bitmap_sz s)) (pmem s) m'"
  using assms
proof (induction i j s rule: pmm_mark_loop.induct)
  case (1 i j s)
  show ?case
  proof (cases "i < j")
    case True
    have "i \<le> pmm_bitmap_sz s" using True 1(2) by (simp add: word_less_nat_alt word_le_nat_alt)
    then have out: "same_outside (bitmap_bytes (pmm_bitmap s) (pmm_bitmap_sz s)) (pmem s) (pmem (pmm_set_block i s))"
      by (simp add: pmm_set_block_def bitmap_set_outside)
    obtain m' where "pmm_mark_loop (i + 1) j (pmm_set_block i s) = pmm_set_block i s\<lparr>pmem := m'\<rparr>"
      "same_outside (bitmap_bytes (pmm_bitmap s) (pmm_bitmap_sz s)) (pmem (pmm_set_block i s)) m'"
      using 1(1) [OF True] 1(2) by auto
    then show ?thesis using True same_outside_trans [OF out]
      by (intro exI [of _ m']) (simp add: pmm_mark_loop.simps [of i j s] pmm_set_block_def)
  qed (auto simp: pmm_mark_loop.simps [of i j s] intro: exI [of _ "pmem s"])
qed

lemma pmm_mark_mem_taken_run:
  assumes "a < e" and "unat e \<le> 0xFFFFF000" and "unat e \<le> unat (pmm_bitmap_sz s) * 4096 + 4096"
  shows "\<exists>m'. pmm_mark_mem_taken a e s = s\<lparr>pmem := m'\<rparr>
     \<and> same_outside (bitmap_bytes (pmm_bitmap s) (pmm_bitmap_sz s)) (pmem s) m'
     \<and> (\<forall>b. bitmap_is_set (pmm_bitmap s) b m' \<longleftrightarrow> bitmap_is_set (pmm_bitmap s) b (pmem s)
          \<or> (\<exists>c. unat a \<le> c \<and> c < unat e \<and> c div 4096 = unat b))"
proof -
  have e: "e \<le> 0xFFFFF000" using assms(2) by (simp add: word_le_nat_alt)
  have "unat (align_upwards e PMM_BLK_SZ div PMM_BLK_SZ) \<le> unat (pmm_bitmap_sz s) + 1"
    unfolding align_upwards_block [OF e] using assms(3) by linarith
  from pmm_mark_loop_outside [OF this, of "align_downwards a PMM_BLK_SZ div PMM_BLK_SZ"] obtain m' where
    m': "pmm_mark_mem_taken a e s = s\<lparr>pmem := m'\<rparr>" "same_outside (bitmap_bytes (pmm_bitmap s) (pmm_bitmap_sz s)) (pmem s) m'"
    by (auto simp: pmm_mark_mem_taken_def Let_def)
  have "(\<exists>c. a \<le> c \<and> c < e \<and> b = c div PMM_BLK_SZ) \<longleftrightarrow> (\<exists>c. unat a \<le> c \<and> c < unat e \<and> c div 4096 = unat b)" for b
  proof
    assume "\<exists>c. unat a \<le> c \<and> c < unat e \<and> c div 4096 = unat b"
    then obtain c where c: "unat a \<le> c" "c < unat e" "c div 4096 = unat b" by blast
    then have "unat (of_nat c :: u32) = c" using unat_u32_less [of e] by (intro unat_of_nat_small) simp
    with c show "\<exists>c. a \<le> c \<and> c < e \<and> b = c div PMM_BLK_SZ"
      by (intro exI [of _ "of_nat c"]) (simp add: word_le_nat_alt word_less_nat_alt word_unat_eq_iff unat_div_distrib PMM_BLK_SZ_def)
  qed (auto simp: word_le_nat_alt word_less_nat_alt unat_div_distrib PMM_BLK_SZ_def)
  then have "bitmap_is_set (pmm_bitmap s) b m' \<longleftrightarrow> bitmap_is_set (pmm_bitmap s) b (pmem s)
      \<or> (\<exists>c. unat a \<le> c \<and> c < unat e \<and> c div 4096 = unat b)" for b
    using pmm_mark_mem_taken_exact [OF assms(1) e, of s] by (auto simp: m'(1) taken_def pmm_is_taken_def set_eq_iff)
  then show ?thesis using m' by blast
qed

section \<open>Initialisation\<close>

text \<open>The memory map as \<^verbatim>\<open>init_pmm\<close> needs it: the regions in order, RAM that ends below the last
  block of the address space, and a region with room for the bitmap, which does not reach the map
  itself.\<close>

definition map_ready :: "u32 \<Rightarrow> u32 \<Rightarrow> mem \<Rightarrow> u32 list \<Rightarrow> u32 \<Rightarrow> bool" where
  "map_ready mmap len m el x \<longleftrightarrow> mmap_entries m (mmap + len) mmap el \<and> map_sorted m 0 el
     \<and> 4096 \<le> ram_end m 0 el \<and> ram_end m 0 el \<le> 0xFFFFF000
     \<and> find (room_for m (unat (pmm_blocks_bitmap (of_nat (ram_end m 0 el div 4096))))) el = Some x
     \<and> (\<forall>y \<in> set el. entry_outside (bitmap_bytes (of_nat ((region_start m x + 4095) div 4096 * 4096)) (of_nat (ram_end m 0 el div 4096))) y)"

lemma pmm_blocks_bitmap_unat:
  assumes "0 < sz" and "unat sz \<le> 0x100000"
  shows "0 < unat (pmm_blocks_bitmap sz)" and "(unat sz + 7) div 8 \<le> unat (pmm_blocks_bitmap sz) * 4096"
    and "unat (pmm_blocks_bitmap sz) \<le> 33"
proof -
  have b: "unat (pmm_bytes sz div 4096) = (unat sz + 7) div 8 div 4096" by (simp add: unat_div_distrib pmm_bytes_unat)
  have m: "sz mod 32768 = 0 \<longleftrightarrow> unat sz mod 32768 = 0" by (simp add: word_unat_eq_iff unat_mod_distrib)
  have z: "0 < unat sz" using assms(1) by (simp add: word_less_nat_alt)
  have le: "(unat sz + 7) div 8 div 4096 \<le> 32" using assms(2) by linarith
  then have u: "unat (pmm_bytes sz div 4096 + 1) = (unat sz + 7) div 8 div 4096 + 1" by (simp add: unat_word_ariths(1) unat_div_distrib pmm_bytes_unat)
  have k: "unat (pmm_blocks_bitmap sz) = (if unat sz mod 32768 = 0 then (unat sz + 7) div 8 div 4096 else (unat sz + 7) div 8 div 4096 + 1)"
    by (simp add: pmm_blocks_bitmap_def Let_def PMM_BLK_SZ_def m b u)
  show "unat (pmm_blocks_bitmap sz) \<le> 33" using le by (simp add: k)
  show "(unat sz + 7) div 8 \<le> unat (pmm_blocks_bitmap sz) * 4096"
  proof (cases "unat sz mod 32768 = 0")
    case True
    then obtain q where "unat sz = 32768 * q" by auto
    then have "(unat sz + 7) div 8 = 4096 * q" by presburger
    then show ?thesis using True by (simp add: k)
  next
    case False
    then show ?thesis by (simp add: k)
  qed
  then show "0 < unat (pmm_blocks_bitmap sz)" using z by linarith
qed

lemma ram_end_ge: "map_sorted m e el \<Longrightarrow> mx \<le> e \<Longrightarrow> mx \<le> ram_end m mx el"
  using ram_end_cases [of m e el mx] by auto

lemma ram_end_max: "map_sorted m e el \<Longrightarrow> y \<in> set el \<Longrightarrow> is_ram m y \<Longrightarrow> mx \<le> e \<Longrightarrow> region_end m y \<le> ram_end m mx el"
proof (induction el arbitrary: e mx)
  case (Cons x el)
  have s: "map_sorted m (region_end m x) el" "e \<le> region_end m x" using Cons.prems(1) by auto
  show ?case
  proof (cases "y = x")
    case True
    then show ?thesis using ram_end_ge [OF s(1) order_refl] Cons.prems(3) by simp
  next
    case False
    then show ?thesis using Cons.IH [OF s(1)] Cons.prems s(2) by simp
  qed
qed simp

text \<open>The place of the bitmap, in numbers.\<close>

lemma bitmap_place:
  assumes "map_ready mmap len m el x"
  defines "A \<equiv> (region_start m x + 4095) div 4096" and "E \<equiv> ram_end m 0 el"
  defines "n \<equiv> pmm_blocks_bitmap (of_nat (E div 4096))"
  shows "unat (of_nat E :: u32) = E" and "unat (of_nat (E div 4096) :: u32) = E div 4096" and "0 < n" and "A + unat n \<le> E div 4096"
    and "unat (align_upwards (mmap_base_addr_l m x) PMM_BLK_SZ) = A * 4096"
    and "align_upwards (mmap_base_addr_l m x) PMM_BLK_SZ = of_nat (A * 4096)"
proof -
  have r: "map_sorted m 0 el" "4096 \<le> E" "E \<le> 0xFFFFF000" "find (room_for m (unat n)) el = Some x"
    using assms(1) by (simp_all add: map_ready_def E_def n_def)
  show e: "unat (of_nat E :: u32) = E" and sz: "unat (of_nat (E div 4096) :: u32) = E div 4096"
    using r(3) by (auto intro!: unat_of_nat_small)
  have "1 \<le> E div 4096" using r(2) by (simp add: less_eq_div_iff_mult_less_eq)
  then have "0 < unat n" unfolding n_def using r(3) by (intro pmm_blocks_bitmap_unat(1)) (simp_all add: word_less_nat_alt sz)
  then show "0 < n" by (simp add: word_less_nat_alt)
  have x: "x \<in> set el" "room_for m (unat n) x" using r(4) by (auto simp: find_Some_iff)
  then have "(A + unat n) * 4096 \<le> region_end m x" "region_end m x \<le> E"
    using ram_end_max [OF r(1), of x 0] by (simp_all add: room_for_def A_def E_def)
  then have An: "(A + unat n) * 4096 \<le> E" by simp
  then show "A + unat n \<le> E div 4096" by (simp add: less_eq_div_iff_mult_less_eq)
  have "region_start m x \<le> A * 4096" unfolding A_def by linarith
  then have b: "unat (mmap_base_addr_l m x) \<le> 0xFFFFF000" using An r(3) by (simp add: region_start_def)
  show u: "unat (align_upwards (mmap_base_addr_l m x) PMM_BLK_SZ) = A * 4096"
    using align_upwards_unat [OF b] by (simp add: A_def region_start_def)
  then show "align_upwards (mmap_base_addr_l m x) PMM_BLK_SZ = of_nat (A * 4096)" by (metis of_nat_unat ucast_id)
qed

lemma init_pmm_run:
  assumes "map_ready mmap len (pmem s) el x"
  shows "\<exists>s'. init_pmm mmap len s = Some (of_nat (ram_end (pmem s) 0 el), s')
     \<and> s' = s\<lparr>pmem := pmem s', pmm_bitmap := of_nat ((region_start (pmem s) x + 4095) div 4096 * 4096),
          pmm_bitmap_sz := of_nat (ram_end (pmem s) 0 el div 4096)\<rparr>
     \<and> same_outside (bitmap_bytes (pmm_bitmap s') (pmm_bitmap_sz s')) (pmem s) (pmem s')
     \<and> (\<forall>b < pmm_bitmap_sz s'. b \<in> taken s' \<longleftrightarrow> b = 0
          \<or> (\<exists>c. c div 4096 = unat b \<and> \<not> ram (pmem s) el c)
          \<or> unat (pmm_bitmap s') div 4096 \<le> unat b \<and> unat b < unat (pmm_bitmap s') div 4096 + unat (pmm_blocks_bitmap (pmm_bitmap_sz s')))"
proof -
  let ?m = "pmem s" and ?E = "ram_end (pmem s) 0 el"
  define A where "A = (region_start (pmem s) x + 4095) div 4096"
  define sz :: u32 where "sz = of_nat (?E div 4096)"
  define base :: u32 where "base = of_nat (A * 4096)"
  define n where "n = pmm_blocks_bitmap sz"
  have r: "mmap_entries ?m (mmap + len) mmap el" "map_sorted ?m 0 el" "4096 \<le> ?E" "?E \<le> 0xFFFFF000"
    "find (room_for ?m (unat n)) el = Some x" "\<forall>y \<in> set el. entry_outside (bitmap_bytes base sz) y"
    using assms by (simp_all add: map_ready_def sz_def base_def n_def A_def)
  note place = bitmap_place [OF assms]
  have E: "unat (of_nat ?E :: u32) = ?E" and szu: "unat sz = ?E div 4096" and n: "0 < n" and An: "A + unat n \<le> unat sz"
    and al: "align_upwards (mmap_base_addr_l ?m x) PMM_BLK_SZ = base" and bu: "unat base = A * 4096"
    using place by (simp_all add: sz_def A_def n_def base_def)
  have sz': "of_nat ?E div PMM_BLK_SZ = sz" using szu by (simp add: word_unat_eq_iff unat_div_distrib PMM_BLK_SZ_def E)
  have A: "unat (base div PMM_BLK_SZ) = A" by (simp add: PMM_BLK_SZ_def unat_div_distrib bu)
  let ?s0 = "s\<lparr>pmm_bitmap_sz := sz\<rparr>"
  define m1 where "m1 = pmm_mark_bitmap_loop base n 0 (pmm_zero_loop base (pmm_bytes sz) 0 ?m)"
  let ?s1 = "s\<lparr>pmem := m1, pmm_bitmap := base, pmm_bitmap_sz := sz\<rparr>"
  have p1: "pmm_place_bitmap (mmap + len) mmap ?s0 = Some ?s1"
    using pmm_place_bitmap_eq [of ?s0 "mmap + len" mmap el 0 x] r(1,2,5) n by (simp add: n_def [symmetric] al m1_def)
  have m1: "same_outside (bitmap_bytes base sz) ?m m1" "\<And>b. b < sz \<Longrightarrow> bitmap_is_set base b m1 \<longleftrightarrow> A \<le> unat b \<and> unat b < A + unat n"
    using bitmap_placed [where a = base and n = n and sz = sz and m = ?m] An by (simp_all add: A m1_def)
  have "\<exists>m'. pmm_mark_reserved (mmap + len) (of_nat ?E) mmap 0 ?s1 = Some (?s1\<lparr>pmem := m'\<rparr>)
     \<and> same_outside (bitmap_bytes (pmm_bitmap ?s1) (pmm_bitmap_sz ?s1)) (pmem ?s1) m'
     \<and> (\<forall>b. bitmap_is_set (pmm_bitmap ?s1) b m' \<longleftrightarrow> bitmap_is_set (pmm_bitmap ?s1) b (pmem ?s1)
          \<or> (\<exists>c. hole ?m (unat (of_nat ?E :: u32)) (unat (0 :: u32)) el c \<and> c div 4096 = unat b))"
    by (rule pmm_mark_reserved_run [OF r(1)]) (use r m1(1) E szu in simp_all)
  then obtain m2 where m2: "pmm_mark_reserved (mmap + len) (of_nat ?E) mmap 0 ?s1 = Some (?s1\<lparr>pmem := m2\<rparr>)"
    "same_outside (bitmap_bytes base sz) m1 m2"
    "\<And>b. bitmap_is_set base b m2 \<longleftrightarrow> bitmap_is_set base b m1 \<or> (\<exists>c. hole ?m ?E 0 el c \<and> c div 4096 = unat b)"
    by (auto simp: E)
  let ?s' = "pmm_set_block 0 (?s1\<lparr>pmem := m2\<rparr>)"
  have run: "init_pmm mmap len s = Some (of_nat ?E, ?s')"
    using pmm_max_loop_eq [OF r(1,2), of 0] p1 m2(1) by (simp add: init_pmm_def pmm_get_max_space_def Let_def sz')
  have out: "same_outside (bitmap_bytes base sz) ?m (pmem ?s')"
    using same_outside_trans [OF same_outside_trans [OF m1(1) m2(2)] bitmap_set_outside [of 0 sz base m2]] by (simp add: pmm_set_block_def)
  have holes: "(\<exists>c. hole ?m ?E 0 el c \<and> c div 4096 = unat b) \<longleftrightarrow> (\<exists>c. c div 4096 = unat b \<and> \<not> ram ?m el c)" if "b < sz" for b :: u32
  proof -
    have "c < ?E" if "c div 4096 = unat b" for c
      using \<open>b < sz\<close> that szu by (simp add: word_less_nat_alt)
    then show ?thesis using hole_iff_not_ram [OF r(2) refl order_refl] by auto
  qed
  have tk: "b \<in> taken ?s' \<longleftrightarrow> b = 0 \<or> (\<exists>c. c div 4096 = unat b \<and> \<not> ram ?m el c) \<or> A \<le> unat b \<and> unat b < A + unat n" if "b < sz" for b
    using m2(3) [of b] m1(2) [OF that] holes [OF that] by (auto simp: taken_def pmm_is_taken_def pmm_set_block_def)
  have eq: "?s' = s\<lparr>pmem := pmem ?s', pmm_bitmap := base, pmm_bitmap_sz := sz\<rparr>" by (simp add: pmm_set_block_def)
  show ?thesis
    unfolding A_def [symmetric] base_def [symmetric] sz_def [symmetric]
    using run eq out tk by (intro exI [of _ ?s']) (simp add: bu n_def)
qed

text \<open>C6: \<^verbatim>\<open>init_pmm\<close> returns on a sorted memory map and gives the end of RAM. The bitmap
  starts at the first whole block of the first region of RAM with room for it, and has one bit for
  every block below the end of RAM. Taken are exactly block 0, the blocks of the bitmap and every
  block with an address the map does not describe as RAM. Memory outside the bitmap stays.\<close>

theorem init_pmm_exact:
  assumes "map_ready mmap len (pmem s) el x"
  shows "\<exists>s'. init_pmm mmap len s = Some (of_nat (ram_end (pmem s) 0 el), s')
     \<and> s' = s\<lparr>pmem := pmem s', pmm_bitmap := of_nat ((region_start (pmem s) x + 4095) div 4096 * 4096),
          pmm_bitmap_sz := of_nat (ram_end (pmem s) 0 el div 4096)\<rparr>
     \<and> same_outside (bitmap_bytes (pmm_bitmap s') (pmm_bitmap_sz s')) (pmem s) (pmem s')
     \<and> (\<forall>b < pmm_bitmap_sz s'. b \<in> taken s' \<longleftrightarrow> b = 0
          \<or> (\<exists>c. c div 4096 = unat b \<and> \<not> ram (pmem s) el c)
          \<or> unat (pmm_bitmap s') div 4096 \<le> unat b \<and> unat b < unat (pmm_bitmap s') div 4096 + unat (pmm_blocks_bitmap (pmm_bitmap_sz s')))"
  by (rule init_pmm_run [OF assms])

text \<open>A machine with 16 MB: RAM up to 0x9FC00, a reserved region up to 0xA0000, RAM from 1 MB on.\<close>

definition map_example :: pmm_state where
  "map_example = \<lparr>pmem = (\<lambda>_. 0)(0x5000 := 20, 0x500D := 0xFC, 0x500E := 9, 0x5014 := 1,
      0x5018 := 20, 0x501D := 0xFC, 0x501E := 9, 0x5025 := 4, 0x502C := 2,
      0x5030 := 20, 0x5036 := 0x10, 0x503E := 0xF0, 0x5044 := 1), pmm_bitmap = 0, pmm_bitmap_sz = 0\<rparr>"

lemma map_example_regions:
  "mmap_next (pmem map_example) 0x5000 = 0x5018" "mmap_next (pmem map_example) 0x5018 = 0x5030" "mmap_next (pmem map_example) 0x5030 = 0x5048"
  "region_start (pmem map_example) 0x5000 = 0" "region_end (pmem map_example) 0x5000 = 0x9FC00" "is_ram (pmem map_example) 0x5000"
  "region_start (pmem map_example) 0x5018 = 0x9FC00" "region_end (pmem map_example) 0x5018 = 0xA0000" "\<not> is_ram (pmem map_example) 0x5018"
  "region_start (pmem map_example) 0x5030 = 0x100000" "region_end (pmem map_example) 0x5030 = 0x1000000" "is_ram (pmem map_example) 0x5030"
  by (simp_all add: map_example_def mmap_next_def mmap_size_def region_start_def region_end_def is_ram_def mmap_base_addr_l_def
      mmap_length_l_def mmap_type_def load32_def push_bit_eq_mult)

lemma low_bitmap_outside:
  assumes "0x5000 \<le> y" and "y < 0x6000"
  shows "entry_outside (bitmap_bytes 0 4096) y"
proof -
  have "unat (y + of_nat j) = unat y + j" if "j < 24" for j
    using that assms by (simp add: unat_word_ariths word_less_nat_alt unat_of_nat)
  then show ?thesis using assms by (auto simp: entry_outside_def bitmap_bytes_def word_le_nat_alt)
qed

lemma blocks_16MB: "pmm_blocks_bitmap 4096 = 1"
  by (simp add: pmm_blocks_bitmap_def pmm_bytes_def PMM_BLK_SZ_def)

lemma map_example_ready: "map_ready 0x5000 72 (pmem map_example) [0x5000, 0x5018, 0x5030] 0x5000"
  by (simp add: map_ready_def map_example_regions room_for_def blocks_16MB low_bitmap_outside)

theorem init_pmm_exact_witness:
  "\<exists>s'. init_pmm 0x5000 72 map_example = Some (0x1000000, s') \<and> pmm_bitmap s' = 0 \<and> pmm_bitmap_sz s' = 4096
     \<and> 0x9F \<in> taken s' \<and> 0xF0 \<in> taken s' \<and> 0x9E \<notin> taken s' \<and> 0x100 \<notin> taken s'"
proof -
  obtain s' where s': "init_pmm 0x5000 72 map_example = Some (0x1000000, s')"
    "s' = map_example\<lparr>pmem := pmem s', pmm_bitmap := 0, pmm_bitmap_sz := 4096\<rparr>"
    "\<forall>b < pmm_bitmap_sz s'. b \<in> taken s' \<longleftrightarrow> b = 0 \<or> (\<exists>c. c div 4096 = unat b \<and> \<not> ram (pmem map_example) [0x5000, 0x5018, 0x5030] c)
       \<or> unat (pmm_bitmap s') div 4096 \<le> unat b \<and> unat b < unat (pmm_bitmap s') div 4096 + unat (pmm_blocks_bitmap (pmm_bitmap_sz s'))"
    using init_pmm_exact [OF map_example_ready] by (auto simp: map_example_regions)
  have f: "pmm_bitmap s' = 0" "pmm_bitmap_sz s' = 4096" by (subst s'(2), simp)+
  have tk: "b \<in> taken s' \<longleftrightarrow> (\<exists>c. c div 4096 = unat b \<and> \<not> (c < 0x9FC00 \<or> 0x100000 \<le> c \<and> c < 0x1000000))"
    if "0 < b" "b < 4096" for b
    using s'(3) [rule_format, of b] that by (auto simp: f blocks_16MB ram_def map_example_regions word_less_nat_alt)
  have "c div 4096 = b \<longleftrightarrow> b * 4096 \<le> c \<and> c < b * 4096 + 4096" for b c :: nat by linarith
  note tk = tk [unfolded this]
  have "0x9F \<in> taken s'" using tk [of "0x9F"] by (auto intro: exI [of _ "0x9FC00"])
  moreover have "0xF0 \<in> taken s'" using tk [of "0xF0"] by (auto intro: exI [of _ "0xF0000"])
  moreover have "0x9E \<notin> taken s'" "0x100 \<notin> taken s'" using tk [of "0x9E"] tk [of "0x100"] by auto
  ultimately show ?thesis using s'(1) f by blast
qed

end
