(* ===== verification/Boot_Memory.thy ===== *)
theory Boot_Memory
  imports Boot Pmm_Init
begin

text \<open>
  The first stage of \<^verbatim>\<open>kmain\<close>: the frame allocator is built from the memory map, the memory of
  the kernel is taken out of it, and the two modules of the boot loader are moved to their places.
  Afterwards exactly the RAM that holds neither the bitmap, the kernel nor the modules as the boot
  loader left them is free.
\<close>

section \<open>What the boot loader leaves\<close>

text \<open>The bytes of the boot information and of the descriptors and names of the modules.\<close>

definition span :: "u32 \<Rightarrow> nat \<Rightarrow> u32 set" where
  "span a n = {a + of_nat j |j. j < n}"

definition boot_bytes :: "mem \<Rightarrow> u32 \<Rightarrow> u8 list list \<Rightarrow> u32 set" where
  "boot_bytes m mb names = span mb 52 \<union> (\<Union>k < length names. span (mod_at m mb k) 12)
     \<union> (\<Union>k < length names. span (mod_name m (mod_at m mb k)) (Suc (length (names ! k))))"

definition has_module :: "mem \<Rightarrow> u32 \<Rightarrow> u8 list \<Rightarrow> nat \<Rightarrow> u8 list list \<Rightarrow> bool" where
  "has_module m name nm k names \<longleftrightarrow> name \<noteq> 0 \<and> c_string m name nm \<and> k < length names \<and> names ! k = nm \<and> nm \<notin> set (take k names)"

abbreviation boot_names :: "mem \<Rightarrow> u32 \<Rightarrow> u8 list list \<Rightarrow> bool" where
  "boot_names m mb names \<equiv> module_names m (mb_mods_addr m mb) (unat (mb_mods_count m mb)) names"

lemma span_same: "same_outside V m m' \<Longrightarrow> span a n \<inter> V = {} \<Longrightarrow> j < n \<Longrightarrow> m' (a + of_nat j) = m (a + of_nat j)"
  by (auto simp: same_outside_def span_def)

lemma load32_same:
  assumes "same_outside V m m'" and "span a n \<inter> V = {}" and "i + 3 < n"
  shows "load32 m' (a + of_nat i) = load32 m (a + of_nat i)"
  using span_same [OF assms(1,2), of i] span_same [OF assms(1,2), of "i + 1"] span_same [OF assms(1,2), of "i + 2"]
    span_same [OF assms(1,2), of "i + 3"] assms(3)
  by (simp add: load32_def ac_simps)

lemma c_string_same:
  assumes "same_outside V m m'" and "span a (Suc (length xs)) \<inter> V = {}" and "c_string m a xs"
  shows "c_string m' a xs"
proof -
  have "bytes_at m' a (length xs) = bytes_at m a (length xs)" using span_same [OF assms(1,2)] by (simp add: bytes_at_def)
  then show ?thesis using assms(3) span_same [OF assms(1,2), of "length xs"] by (simp add: c_string_def)
qed

text \<open>They are read the same in a memory that agrees on them.\<close>

lemma boot_bytes_same:
  assumes "same_outside V m m'" and "boot_bytes m mb names \<inter> V = {}" and "boot_names m mb names"
  shows "mb_flags m' mb = mb_flags m mb" "mod_at m' mb k = mod_at m mb k" "boot_names m' mb names"
    "k < length names \<Longrightarrow> mod_start m' (mod_at m mb k) = mod_start m (mod_at m mb k)"
    "k < length names \<Longrightarrow> mod_end m' (mod_at m mb k) = mod_end m (mod_at m mb k)"
proof -
  have parts: "span mb 52 \<inter> V = {}" "\<And>k. k < length names \<Longrightarrow> span (mod_at m mb k) 12 \<inter> V = {}"
    "\<And>k. k < length names \<Longrightarrow> span (mod_name m (mod_at m mb k)) (Suc (length (names ! k))) \<inter> V = {}"
    using assms(2) by (auto simp: boot_bytes_def)
  note mb = load32_same [OF assms(1) parts(1)]
  show "mb_flags m' mb = mb_flags m mb" using mb [of 0] by (simp add: mb_flags_def)
  have f: "mb_mods_addr m' mb = mb_mods_addr m mb" "mb_mods_count m' mb = mb_mods_count m mb"
    using mb [of 24] mb [of 20] by (simp_all add: mb_mods_addr_def mb_mods_count_def)
  then show "mod_at m' mb k = mod_at m mb k" by (simp add: mod_at_def)
  have d: "mod_start m' (mod_at m mb k) = mod_start m (mod_at m mb k)" "mod_end m' (mod_at m mb k) = mod_end m (mod_at m mb k)"
    "mod_name m' (mod_at m mb k) = mod_name m (mod_at m mb k)" if "k < length names" for k
    using load32_same [OF assms(1) parts(2) [OF that], of 0] load32_same [OF assms(1) parts(2) [OF that], of 4]
      load32_same [OF assms(1) parts(2) [OF that], of 8] by (simp_all add: mod_start_def mod_end_def mod_name_def)
  then show "k < length names \<Longrightarrow> mod_start m' (mod_at m mb k) = mod_start m (mod_at m mb k)"
    "k < length names \<Longrightarrow> mod_end m' (mod_at m mb k) = mod_end m (mod_at m mb k)" by simp_all
  show "boot_names m' mb names"
    using assms(3) d(3) c_string_same [OF assms(1) parts(3)]
    by (auto simp: module_names_def f mod_at_def)
qed

section \<open>One module\<close>

definition dest :: "mem \<Rightarrow> u32 \<Rightarrow> u32 \<Rightarrow> u32 set" where
  "dest m d to = {k. k - to < mod_len m d}"

lemma bitmap_byte: "b < sz \<Longrightarrow> base + b div 8 \<in> bitmap_bytes base sz"
  by (simp add: bitmap_bytes_def word_le_nat_alt word_less_nat_alt unat_div_distrib div_le_mono)

lemma bitmap_same: "same_outside V m m' \<Longrightarrow> V \<inter> bitmap_bytes base sz = {} \<Longrightarrow> b < sz \<Longrightarrow> bitmap_is_set base b m' = bitmap_is_set base b m"
  using bitmap_byte [of b sz base] by (auto simp: bitmap_is_set_def same_outside_def)

lemma move_module_step:
  fixes s :: "('a) pmm_state_scheme"
  defines "m \<equiv> pmem s" and "W \<equiv> bitmap_bytes (pmm_bitmap s) (pmm_bitmap_sz s)"
  assumes "boot_names m mb names" and "has_module m name nm k names" and "d = mod_at m mb k" and "copy_ok m d to" and "dest m d to \<inter> W = {}"
    and "mod_start m d < mod_end m d" and "unat (mod_end m d) \<le> 0xFFFFF000" and "unat (mod_end m d) \<le> unat (pmm_bitmap_sz s) * 4096 + 4096"
  shows "\<exists>m'. move_module mb name to s = Some (True, s\<lparr>pmem := m'\<rparr>) \<and> same_outside (W \<union> dest m d to) m m'
     \<and> (\<forall>j < mod_len m d. m' (to + j) = m (mod_start m d + j))
     \<and> (\<forall>b < pmm_bitmap_sz s. bitmap_is_set (pmm_bitmap s) b m' \<longleftrightarrow> bitmap_is_set (pmm_bitmap s) b m
          \<or> (\<exists>c. unat (mod_start m d) \<le> c \<and> c < unat (mod_end m d) \<and> c div 4096 = unat b))"
proof -
  let ?m1 = "copied m d to" and ?s1 = "s\<lparr>pmem := copied m d to\<rparr>"
  have len: "length names = unat (mb_mods_count m mb)" using assms(3) by (simp add: module_names_def)
  have run: "move_module mb name to s = Some (True, pmm_mark_mem_taken (mod_start m d) (mod_end m d) ?s1)"
    unfolding move_module_def m_def [symmetric]
    using move_module_loop_first [where s = s and mm = "mb_mods_addr m mb" and n = "unat (mb_mods_count m mb)" and names = names and nm = nm and k = k
        and name = name and to = to] assms(3,4,6) len
    by (simp add: has_module_def assms(5) mod_at_def m_def [symmetric])
  have out1: "same_outside (dest m d to) m ?m1" by (auto simp: same_outside_def dest_def copied_def)
  obtain m' where m': "pmm_mark_mem_taken (mod_start m d) (mod_end m d) ?s1 = ?s1\<lparr>pmem := m'\<rparr>" "same_outside W ?m1 m'"
    "\<And>b. bitmap_is_set (pmm_bitmap s) b m' \<longleftrightarrow> bitmap_is_set (pmm_bitmap s) b ?m1
       \<or> (\<exists>c. unat (mod_start m d) \<le> c \<and> c < unat (mod_end m d) \<and> c div 4096 = unat b)"
    using pmm_mark_mem_taken_run [OF assms(8,9), of ?s1] assms(10) by (auto simp: W_def)
  have "m' (to + j) = m (mod_start m d + j)" if "j < mod_len m d" for j
  proof -
    have "to + j \<in> dest m d to" using that by (simp add: dest_def)
    then have "to + j \<notin> W" using assms(7) by auto
    then show ?thesis using m'(2) that by (simp add: same_outside_def copied_def)
  qed
  moreover have "same_outside (W \<union> dest m d to) m m'" using out1 m'(2) by (simp add: same_outside_def)
  moreover have "bitmap_is_set (pmm_bitmap s) b ?m1 = bitmap_is_set (pmm_bitmap s) b m" if "b < pmm_bitmap_sz s" for b
    by (rule bitmap_same [OF out1 _ that]) (use assms(7) W_def in auto)
  ultimately show ?thesis using run m' by (intro exI [of _ m']) auto
qed

section \<open>The stage as a whole\<close>

text \<open>What the boot loader has to leave. The boot information is outside the bitmap and the place
  of the first module, the modules are outside what is written before they are copied, and their
  places are apart and outside the bitmap. Kernel and modules end below the end of RAM.\<close>

definition boot_info_ready ::
  "boot_env \<Rightarrow> u32 \<Rightarrow> u32 \<Rightarrow> u32 \<Rightarrow> mem \<Rightarrow> u32 list \<Rightarrow> u32 \<Rightarrow> u8 list list \<Rightarrow> nat \<Rightarrow> nat \<Rightarrow> bool" where
  "boot_info_ready e mb mem_start mem_end m el x names i j \<longleftrightarrow>
     (let W = bitmap_bytes (of_nat ((region_start m x + 4095) div 4096 * 4096)) (of_nat (ram_end m 0 el div 4096));
          d1 = mod_at m mb i; d2 = mod_at m mb j; D1 = dest m d1 MODULE1_LOCATION; D2 = dest m d2 0x7000
      in bit (mb_flags m mb) 0 \<and> bit (mb_flags m mb) 3 \<and> be_cpu_supported e
       \<and> map_ready (mb_mmap_addr m mb) (mb_mmap_length m mb) m el x
       \<and> boot_names m mb names \<and> has_module m (be_sc2_name e) (names ! i) i names \<and> has_module m (be_bootap_name e) (names ! j) j names
       \<and> copy_ok m d1 MODULE1_LOCATION \<and> copy_ok m d2 0x7000
       \<and> (boot_bytes m mb names \<union> span (be_sc2_name e) (Suc (length (names ! i))) \<union> span (be_bootap_name e) (Suc (length (names ! j)))
            \<union> dest m d1 (mod_start m d1) \<union> dest m d2 (mod_start m d2)) \<inter> W = {}
       \<and> (boot_bytes m mb names \<union> span (be_bootap_name e) (Suc (length (names ! j))) \<union> dest m d2 (mod_start m d2)) \<inter> D1 = {}
       \<and> D1 \<inter> W = {} \<and> D2 \<inter> W = {} \<and> D1 \<inter> D2 = {}
       \<and> mem_start < mem_end \<and> mod_start m d1 < mod_end m d1 \<and> mod_start m d2 < mod_end m d2
       \<and> unat mem_end \<le> ram_end m 0 el \<and> unat (mod_end m d1) \<le> ram_end m 0 el \<and> unat (mod_end m d2) \<le> ram_end m 0 el)"

lemma check_flags_pass: "bit flags 0 \<Longrightarrow> bit flags 3 \<Longrightarrow> check_necessary_flags flags = Inr ()"
  using check_necessary_flags_iff [of flags] by (cases "check_necessary_flags flags") auto

lemma has_module_same:
  assumes "same_outside V m m'" and "span name (Suc (length nm)) \<inter> V = {}" and "has_module m name nm k names"
  shows "has_module m' name nm k names"
  using c_string_same [OF assms(1,2)] assms(3) by (simp add: has_module_def)

lemma copy_ok_same:
  assumes "mod_start m' d = mod_start m d" and "mod_end m' d = mod_end m d"
  shows "copy_ok m' d to = copy_ok m d to" "dest m' d to = dest m d to" "mod_len m' d = mod_len m d"
  using assms by (simp_all add: copy_ok_def dest_def mod_len_def)

lemma move_module_from:
  fixes s :: "('a) pmm_state_scheme"
  defines "W \<equiv> bitmap_bytes (pmm_bitmap s) (pmm_bitmap_sz s)"
  assumes same: "same_outside V m (pmem s)" and bytes: "boot_bytes m mb names \<inter> V = {}" "span name (Suc (length nm)) \<inter> V = {}"
    and names: "boot_names m mb names" "has_module m name nm k names" and d: "d = mod_at m mb k"
    and ok: "copy_ok m d to" "dest m d to \<inter> W = {}" "mod_start m d < mod_end m d"
    and bound: "unat (mod_end m d) \<le> 0xFFFFF000" "unat (mod_end m d) \<le> unat (pmm_bitmap_sz s) * 4096 + 4096"
  shows "\<exists>m'. move_module mb name to s = Some (True, s\<lparr>pmem := m'\<rparr>) \<and> same_outside (W \<union> dest m d to) (pmem s) m'
     \<and> (\<forall>q < mod_len m d. m' (to + q) = pmem s (mod_start m d + q))
     \<and> (\<forall>b < pmm_bitmap_sz s. bitmap_is_set (pmm_bitmap s) b m' \<longleftrightarrow> bitmap_is_set (pmm_bitmap s) b (pmem s)
          \<or> (\<exists>c. unat (mod_start m d) \<le> c \<and> c < unat (mod_end m d) \<and> c div 4096 = unat b))"
proof -
  have k: "k < length names" using names(2) by (simp add: has_module_def)
  note b = boot_bytes_same [OF same bytes(1) names(1)]
  have f: "mod_start (pmem s) d = mod_start m d" "mod_end (pmem s) d = mod_end m d" using b(4,5) [OF k] by (simp_all add: d)
  note c = copy_ok_same [OF f]
  show ?thesis
    using move_module_step [OF b(3) has_module_same [OF same bytes(2) names(2)], of d to] ok bound b(2)
    by (simp add: d [symmetric] c f W_def [symmetric])
qed

text \<open>The frame allocator with the kernel taken out.\<close>

lemma init_and_kernel:
  fixes s :: "('a) pmm_state_scheme"
  defines "m \<equiv> pmem s"
  assumes map: "map_ready mmap len m el x" and kern: "mem_start < mem_end" "unat mem_end \<le> ram_end m 0 el"
  defines "base \<equiv> of_nat ((region_start m x + 4095) div 4096 * 4096)" and "sz \<equiv> of_nat (ram_end m 0 el div 4096)"
  obtains s1 m2 where "init_pmm mmap len s = Some (of_nat (ram_end m 0 el), s1)"
    and "pmm_mark_mem_taken mem_start mem_end s1 = s\<lparr>pmem := m2, pmm_bitmap := base, pmm_bitmap_sz := sz\<rparr>"
    and "same_outside (bitmap_bytes base sz) m m2"
    and "\<And>b. b < sz \<Longrightarrow> bitmap_is_set base b m2 \<longleftrightarrow> b = 0
       \<or> (\<exists>c. c div 4096 = unat b \<and> (\<not> ram m el c \<or> unat mem_start \<le> c \<and> c < unat mem_end))
       \<or> unat base div 4096 \<le> unat b \<and> unat b < unat base div 4096 + unat (pmm_blocks_bitmap sz)"
proof -
  obtain t where t: "init_pmm mmap len s = Some (of_nat (ram_end m 0 el), t)"
    "t = s\<lparr>pmem := pmem t, pmm_bitmap := base, pmm_bitmap_sz := sz\<rparr>" "same_outside (bitmap_bytes (pmm_bitmap t) (pmm_bitmap_sz t)) m (pmem t)"
    "\<forall>b < pmm_bitmap_sz t. b \<in> taken t \<longleftrightarrow> b = 0 \<or> (\<exists>c. c div 4096 = unat b \<and> \<not> ram m el c)
       \<or> unat (pmm_bitmap t) div 4096 \<le> unat b \<and> unat b < unat (pmm_bitmap t) div 4096 + unat (pmm_blocks_bitmap (pmm_bitmap_sz t))"
    using init_pmm_run [OF map [unfolded m_def]] unfolding m_def base_def sz_def by blast
  have f: "pmm_bitmap t = base" "pmm_bitmap_sz t = sz" by (subst t(2), simp)+
  have E: "ram_end m 0 el \<le> 0xFFFFF000" "unat sz = ram_end m 0 el div 4096"
    using map bitmap_place(2) [OF map] by (simp_all add: map_ready_def sz_def)
  have "unat mem_end \<le> 0xFFFFF000" "unat mem_end \<le> unat sz * 4096 + 4096" using kern(2) E by linarith+
  then obtain m2 where m2: "pmm_mark_mem_taken mem_start mem_end t = t\<lparr>pmem := m2\<rparr>" "same_outside (bitmap_bytes base sz) (pmem t) m2"
    "\<And>b. bitmap_is_set base b m2 \<longleftrightarrow> bitmap_is_set base b (pmem t) \<or> (\<exists>c. unat mem_start \<le> c \<and> c < unat mem_end \<and> c div 4096 = unat b)"
    using pmm_mark_mem_taken_run [OF kern(1), of t] unfolding f by blast
  show thesis
  proof (rule that [OF t(1)])
    show "pmm_mark_mem_taken mem_start mem_end t = s\<lparr>pmem := m2, pmm_bitmap := base, pmm_bitmap_sz := sz\<rparr>"
      unfolding m2(1) by (subst t(2)) simp
    show "same_outside (bitmap_bytes base sz) m m2" using same_outside_trans t(3) m2(2) unfolding f by blast
    show "bitmap_is_set base b m2 \<longleftrightarrow> b = 0
       \<or> (\<exists>c. c div 4096 = unat b \<and> (\<not> ram m el c \<or> unat mem_start \<le> c \<and> c < unat mem_end))
       \<or> unat base div 4096 \<le> unat b \<and> unat b < unat base div 4096 + unat (pmm_blocks_bitmap sz)" if "b < sz" for b
      using t(4) that m2(3) [of b] unfolding f by (auto simp: taken_def pmm_is_taken_def f)
  qed
qed

text \<open>The memory a piece of the boot occupies, by blocks.\<close>

definition occupied :: "mem \<Rightarrow> u32 \<Rightarrow> u32 \<Rightarrow> u32 list \<Rightarrow> (u32 \<times> u32) list \<Rightarrow> nat \<Rightarrow> bool" where
  "occupied m base sz el rs b \<longleftrightarrow> b = 0
     \<or> (\<exists>c. c div 4096 = b \<and> (\<not> ram m el c \<or> (\<exists>(s, e) \<in> set rs. unat s \<le> c \<and> c < unat e)))
     \<or> unat base div 4096 \<le> b \<and> b < unat base div 4096 + unat (pmm_blocks_bitmap sz)"

lemma boot_frames_run:
  fixes s :: "('a) pmm_state_scheme"
  defines "m \<equiv> pmem s"
  assumes "boot_info_ready e mb mem_start mem_end m el x names i j"
  defines "d1 \<equiv> mod_at m mb i" and "d2 \<equiv> mod_at m mb j"
  defines "base \<equiv> of_nat ((region_start m x + 4095) div 4096 * 4096)" and "sz \<equiv> of_nat (ram_end m 0 el div 4096)"
  shows "\<exists>s1 s2 m4. init_pmm (mb_mmap_addr m mb) (mb_mmap_length m mb) s = Some (of_nat (ram_end m 0 el), s1)
     \<and> move_module mb (be_sc2_name e) MODULE1_LOCATION (pmm_mark_mem_taken mem_start mem_end s1) = Some (True, s2)
     \<and> move_module mb (be_bootap_name e) 0x7000 s2 = Some (True, s\<lparr>pmem := m4, pmm_bitmap := base, pmm_bitmap_sz := sz\<rparr>)
     \<and> (\<forall>b < sz. bitmap_is_set base b m4 \<longleftrightarrow>
          occupied m base sz el [(mem_start, mem_end), (mod_start m d1, mod_end m d1), (mod_start m d2, mod_end m d2)] (unat b))
     \<and> (\<forall>q < mod_len m d1. m4 (MODULE1_LOCATION + q) = m (mod_start m d1 + q))
     \<and> (\<forall>q < mod_len m d2. m4 (0x7000 + q) = m (mod_start m d2 + q))"
proof -
  define W D1 where "W = bitmap_bytes base sz" and "D1 = dest m d1 MODULE1_LOCATION"
  note ready = assms(2) [unfolded boot_info_ready_def Let_def, folded d1_def d2_def base_def sz_def, folded W_def D1_def]
  have map: "map_ready (mb_mmap_addr m mb) (mb_mmap_length m mb) (pmem s) el x" and kern: "mem_start < mem_end" "unat mem_end \<le> ram_end (pmem s) 0 el"
    using ready by (simp_all add: m_def)
  have "ram_end m 0 el \<le> 0xFFFFF000" "unat sz = ram_end m 0 el div 4096"
    using map bitmap_place(2) [OF map] by (simp_all add: map_ready_def m_def sz_def)
  then have room: "unat a \<le> 0xFFFFF000" "unat a \<le> unat sz * 4096 + 4096" if "unat a \<le> ram_end m 0 el" for a :: u32
    using that by linarith+
  obtain s1 m2 where s1: "init_pmm (mb_mmap_addr m mb) (mb_mmap_length m mb) s = Some (of_nat (ram_end m 0 el), s1)"
    "pmm_mark_mem_taken mem_start mem_end s1 = s\<lparr>pmem := m2, pmm_bitmap := base, pmm_bitmap_sz := sz\<rparr>" "same_outside W m m2"
    "\<And>b. b < sz \<Longrightarrow> bitmap_is_set base b m2 \<longleftrightarrow> b = 0 \<or> (\<exists>c. c div 4096 = unat b \<and> (\<not> ram m el c \<or> unat mem_start \<le> c \<and> c < unat mem_end))
       \<or> unat base div 4096 \<le> unat b \<and> unat b < unat base div 4096 + unat (pmm_blocks_bitmap sz)"
    by (rule init_and_kernel [OF map kern, folded m_def, folded base_def sz_def, folded W_def]) (rule that)
  let ?s2 = "s\<lparr>pmem := m2, pmm_bitmap := base, pmm_bitmap_sz := sz\<rparr>"
  have "\<exists>m'. move_module mb (be_sc2_name e) MODULE1_LOCATION ?s2 = Some (True, ?s2\<lparr>pmem := m'\<rparr>)
     \<and> same_outside (bitmap_bytes (pmm_bitmap ?s2) (pmm_bitmap_sz ?s2) \<union> dest m d1 MODULE1_LOCATION) (pmem ?s2) m'
     \<and> (\<forall>q < mod_len m d1. m' (MODULE1_LOCATION + q) = pmem ?s2 (mod_start m d1 + q))
     \<and> (\<forall>b < pmm_bitmap_sz ?s2. bitmap_is_set (pmm_bitmap ?s2) b m' \<longleftrightarrow> bitmap_is_set (pmm_bitmap ?s2) b (pmem ?s2)
          \<or> (\<exists>c. unat (mod_start m d1) \<le> c \<and> c < unat (mod_end m d1) \<and> c div 4096 = unat b))"
    by (rule move_module_from [where V = W and names = names and nm = "names ! i" and k = i])
      (use ready room s1(3) in \<open>auto simp: d1_def W_def D1_def\<close>)
  then obtain m3 where m3: "move_module mb (be_sc2_name e) MODULE1_LOCATION ?s2 = Some (True, ?s2\<lparr>pmem := m3\<rparr>)"
    "same_outside (W \<union> D1) m2 m3" "\<And>q. q < mod_len m d1 \<Longrightarrow> m3 (MODULE1_LOCATION + q) = m2 (mod_start m d1 + q)"
    "\<And>b. b < sz \<Longrightarrow> bitmap_is_set base b m3 \<longleftrightarrow> bitmap_is_set base b m2
       \<or> (\<exists>c. unat (mod_start m d1) \<le> c \<and> c < unat (mod_end m d1) \<and> c div 4096 = unat b)"
    by (auto simp: W_def D1_def)
  let ?s3 = "?s2\<lparr>pmem := m3\<rparr>"
  have out3: "same_outside (W \<union> D1) m m3" using s1(3) m3(2) by (simp add: same_outside_def)
  have "\<exists>m'. move_module mb (be_bootap_name e) 0x7000 ?s3 = Some (True, ?s3\<lparr>pmem := m'\<rparr>)
     \<and> same_outside (bitmap_bytes (pmm_bitmap ?s3) (pmm_bitmap_sz ?s3) \<union> dest m d2 0x7000) (pmem ?s3) m'
     \<and> (\<forall>q < mod_len m d2. m' (0x7000 + q) = pmem ?s3 (mod_start m d2 + q))
     \<and> (\<forall>b < pmm_bitmap_sz ?s3. bitmap_is_set (pmm_bitmap ?s3) b m' \<longleftrightarrow> bitmap_is_set (pmm_bitmap ?s3) b (pmem ?s3)
          \<or> (\<exists>c. unat (mod_start m d2) \<le> c \<and> c < unat (mod_end m d2) \<and> c div 4096 = unat b))"
    by (rule move_module_from [where V = "W \<union> D1" and names = names and nm = "names ! j" and k = j])
      (use ready room out3 in \<open>auto simp: d2_def W_def\<close>)
  then obtain m4 where m4: "move_module mb (be_bootap_name e) 0x7000 ?s3 = Some (True, ?s2\<lparr>pmem := m4\<rparr>)"
    "same_outside (W \<union> dest m d2 0x7000) m3 m4" "\<And>q. q < mod_len m d2 \<Longrightarrow> m4 (0x7000 + q) = m3 (mod_start m d2 + q)"
    "\<And>b. b < sz \<Longrightarrow> bitmap_is_set base b m4 \<longleftrightarrow> bitmap_is_set base b m3
       \<or> (\<exists>c. unat (mod_start m d2) \<le> c \<and> c < unat (mod_end m d2) \<and> c div 4096 = unat b)"
    by (auto simp: W_def)
  have "bitmap_is_set base b m4 \<longleftrightarrow>
      occupied m base sz el [(mem_start, mem_end), (mod_start m d1, mod_end m d1), (mod_start m d2, mod_end m d2)] (unat b)" if "b < sz" for b
    unfolding m4(4) [OF that] m3(4) [OF that] s1(4) [OF that] occupied_def by (auto simp: word_unat_eq_iff)
  moreover have "m4 (MODULE1_LOCATION + q) = m (mod_start m d1 + q)" if "q < mod_len m d1" for q
  proof -
    have "MODULE1_LOCATION + q \<in> D1" "mod_start m d1 + q \<in> dest m d1 (mod_start m d1)" using that by (simp_all add: D1_def dest_def)
    then have "MODULE1_LOCATION + q \<notin> W \<union> dest m d2 0x7000" "mod_start m d1 + q \<notin> W" using ready by auto
    then show ?thesis using m4(2) m3(3) [OF that] s1(3) by (simp add: same_outside_def)
  qed
  moreover have "m4 (0x7000 + q) = m (mod_start m d2 + q)" if "q < mod_len m d2" for q
  proof -
    have "mod_start m d2 + q \<in> dest m d2 (mod_start m d2)" using that by (simp add: dest_def)
    then have "mod_start m d2 + q \<notin> W \<union> D1" using ready by auto
    then show ?thesis using m4(3) [OF that] out3 by (simp add: same_outside_def)
  qed
  ultimately show ?thesis using s1(1,2) m3(1) m4(1) by (intro exI [of _ s1] exI [of _ ?s3] exI [of _ m4]) simp
qed

text \<open>The pages the bitmap lies in are among its blocks.\<close>

lemma bitmap_pages_occupied:
  assumes "map_ready mmap len m el x"
  defines "base \<equiv> of_nat ((region_start m x + 4095) div 4096 * 4096)" and "sz \<equiv> of_nat (ram_end m 0 el div 4096)"
  assumes "b < sz"
  shows "occupied m base sz el rs (unat ((base + b div 8) div 4096))"
proof -
  define A where "A = (region_start m x + 4095) div 4096"
  note place = bitmap_place [OF assms(1), folded A_def sz_def]
  have base: "unat base = A * 4096" using place(5,6) by (simp add: base_def A_def)
  have E: "ram_end m 0 el \<le> 0xFFFFF000" "unat sz = ram_end m 0 el div 4096" using assms(1) place(2) by (simp_all add: map_ready_def)
  have "0 < sz" using assms(4) by (rule order_le_less_trans [OF word_zero_le])
  then have n: "(unat sz + 7) div 8 \<le> unat (pmm_blocks_bitmap sz) * 4096" using E by (intro pmm_blocks_bitmap_unat(2)) simp_all
  have b: "unat b div 8 < unat (pmm_blocks_bitmap sz) * 4096" using n assms(4) by (simp add: word_less_nat_alt)
  have "unat (base + b div 8) = A * 4096 + unat b div 8"
    using b place(4) E by (simp add: unat_word_ariths unat_div_distrib base sz_def [symmetric])
  then have "unat ((base + b div 8) div 4096) = A + unat b div 8 div 4096" by (simp add: unat_div_distrib)
  moreover have "unat b div 8 div 4096 < unat (pmm_blocks_bitmap sz)" using b by (simp add: div_less_iff_less_mult)
  ultimately show ?thesis by (simp add: occupied_def base)
qed

text \<open>C7: The first stage of \<^verbatim>\<open>kmain\<close> comes to its end when the boot loader has left a sorted memory
  map and the two modules, outside what the kernel writes meanwhile. The frame allocator is then ready
  for paging to be turned on, and taken are exactly block 0, everything that is not RAM, the bitmap,
  the kernel and the modules as the boot loader left them. The key map and the start code of the other
  processors are at their places unchanged, and the keyboard driver uses the key map.\<close>

theorem kmain_memory_frames:
  fixes k :: "('m, 'd) kernel"
  defines "m \<equiv> pmem (k_proc k)"
  assumes "boot_info_ready e mb mem_start mem_end m el x names i j" and "\<not> paging (k_proc k)"
  shows "\<exists>k'. kmain_memory e mb mem_start mem_end k = Some (Inr k') \<and> boot_inv (k_proc k')
     \<and> (\<forall>b < pmm_bitmap_sz (k_proc k'). b \<in> taken (k_proc k') \<longleftrightarrow>
          occupied m (pmm_bitmap (k_proc k')) (pmm_bitmap_sz (k_proc k')) el
            [(mem_start, mem_end), (mod_start m (mod_at m mb i), mod_end m (mod_at m mb i)), (mod_start m (mod_at m mb j), mod_end m (mod_at m mb j))] (unat b))
     \<and> (\<forall>q < mod_len m (mod_at m mb i). pmem (k_proc k') (MODULE1_LOCATION + q) = m (mod_start m (mod_at m mb i) + q))
     \<and> (\<forall>q < mod_len m (mod_at m mb j). pmem (k_proc k') (0x7000 + q) = m (mod_start m (mod_at m mb j) + q))
     \<and> k_kbd k' = kbd_init MODULE1_LOCATION (k_kbd k)"
proof -
  define base :: u32 where "base = of_nat ((region_start m x + 4095) div 4096 * 4096)"
  define sz :: u32 where "sz = of_nat (ram_end m 0 el div 4096)"
  let ?d1 = "mod_at m mb i" and ?d2 = "mod_at m mb j"
  let ?rs = "[(mem_start, mem_end), (mod_start m ?d1, mod_end m ?d1), (mod_start m ?d2, mod_end m ?d2)]"
  have ready: "bit (mb_flags m mb) 0" "bit (mb_flags m mb) 3" "be_cpu_supported e" and map: "map_ready (mb_mmap_addr m mb) (mb_mmap_length m mb) m el x"
    using assms(2) by (simp_all add: boot_info_ready_def Let_def)
  obtain s1 s2 m4 where run: "init_pmm (mb_mmap_addr m mb) (mb_mmap_length m mb) (k_proc k) = Some (of_nat (ram_end m 0 el), s1)"
    "move_module mb (be_sc2_name e) MODULE1_LOCATION (pmm_mark_mem_taken mem_start mem_end s1) = Some (True, s2)"
    "move_module mb (be_bootap_name e) 0x7000 s2 = Some (True, (k_proc k)\<lparr>pmem := m4, pmm_bitmap := base, pmm_bitmap_sz := sz\<rparr>)"
    and tk: "\<forall>b < sz. bitmap_is_set base b m4 \<longleftrightarrow> occupied m base sz el ?rs (unat b)"
    and copies: "\<forall>q < mod_len m ?d1. m4 (MODULE1_LOCATION + q) = m (mod_start m ?d1 + q)"
      "\<forall>q < mod_len m ?d2. m4 (0x7000 + q) = m (mod_start m ?d2 + q)"
    using boot_frames_run [OF assms(2) [unfolded m_def], folded m_def, folded base_def sz_def] by blast
  let ?p = "(k_proc k)\<lparr>pmem := m4, pmm_bitmap := base, pmm_bitmap_sz := sz\<rparr>"
  have taken: "b \<in> taken ?p \<longleftrightarrow> occupied m base sz el ?rs (unat b)" if "b < sz" for b
    using tk that by (simp add: taken_def pmm_is_taken_def)
  have "ram_end m 0 el \<le> 0xFFFFF000" using map by (simp add: map_ready_def)
  then have "unat sz \<le> 0x100000" unfolding sz_def bitmap_place(2) [OF map] by linarith
  then have "boot_inv ?p"
    using assms(3) taken bitmap_pages_occupied [OF map, folded base_def sz_def]
    by (auto simp: boot_inv_def pmm_inv_def word_le_nat_alt bitmap_page_def)
  moreover obtain scr where "vga_init DEFAULT_FG DEFAULT_BG (k_screen k) = Some scr" using vga_init_eq by blast
  then obtain k' where "kmain_memory e mb mem_start mem_end k = Some (Inr k')" "k_proc k' = ?p" "k_kbd k' = kbd_init MODULE1_LOCATION (k_kbd k)"
    using run ready check_flags_pass [OF ready(1,2)] unfolding kmain_memory_def
    by (simp add: k_proc_def m_def put_proc_def oebind_def Let_def)
  ultimately show ?thesis using taken copies by (intro exI [of _ k']) simp
qed

section \<open>A boot loader\<close>

text \<open>Sets of addresses within bounds.\<close>

definition between :: "nat \<Rightarrow> nat \<Rightarrow> u32 set" where
  "between lo hi = {k. lo \<le> unat k \<and> unat k < hi}"

lemma between_disjoint: "hi \<le> lo' \<or> hi' \<le> lo \<Longrightarrow> A \<subseteq> between lo hi \<Longrightarrow> B \<subseteq> between lo' hi' \<Longrightarrow> A \<inter> B = {}"
  by (force simp: between_def)

lemma span_between:
  assumes "unat a + n \<le> 2 ^ 32"
  shows "span a n \<subseteq> between (unat a) (unat a + n)"
proof
  fix k assume "k \<in> span a n"
  then obtain j where j: "k = a + of_nat j" "j < n" by (auto simp: span_def)
  then have "unat k = unat a + j" using assms by (simp add: unat_word_ariths unat_of_nat)
  then show "k \<in> between (unat a) (unat a + n)" using j(2) by (simp add: between_def)
qed

lemma offset_between:
  assumes "unat a + n \<le> 2 ^ 32"
  shows "{k. unat (k - a) < n} \<subseteq> between (unat a) (unat a + n)"
proof
  fix k assume "k \<in> {k. unat (k - a) < n}"
  then have "unat (k - a + a) = unat (k - a) + unat a" "unat (k - a) < n" using assms unat_word_ariths(1) [of "k - a" a] by auto
  then show "k \<in> between (unat a) (unat a + n)" by (simp add: between_def)
qed

text \<open>The machine of 16 MB again: boot information at 0x6000, one module of four bytes with the name
  \<^verbatim>\<open>s\<close> and one of two bytes with the name \<^verbatim>\<open>b\<close>.\<close>

definition loader_memory :: mem where
  "loader_memory = (pmem map_example)(0x6000 := 9, 0x6014 := 2, 0x6019 := 0x61, 0x602C := 72, 0x6031 := 0x50,
     0x6102 := 0x20, 0x6104 := 4, 0x6106 := 0x20, 0x6109 := 0x62,
     0x6111 := 0x10, 0x6112 := 0x20, 0x6114 := 2, 0x6115 := 0x10, 0x6116 := 0x20, 0x6118 := 4, 0x6119 := 0x62,
     0x6200 := 115, 0x6204 := 98, 0x102000 := 115, 0x102010 := 98,
     0x200000 := 1, 0x200001 := 2, 0x200002 := 3, 0x200003 := 4, 0x201000 := 0xEB, 0x201001 := 0xFE)"

definition loader_example :: "((u32 \<times> u32) list, (u16 \<times> u8) list) kernel" where
  "loader_example = put_proc ((k_proc kernel_example)\<lparr>pmem := loader_memory\<rparr>) kernel_example"

lemma loader_fields:
  "mb_flags loader_memory 0x6000 = 9" "mb_mods_count loader_memory 0x6000 = 2" "mb_mods_addr loader_memory 0x6000 = 0x6100"
  "mb_mmap_length loader_memory 0x6000 = 72" "mb_mmap_addr loader_memory 0x6000 = 0x5000"
  "mod_start loader_memory 0x6100 = 0x200000" "mod_end loader_memory 0x6100 = 0x200004" "mod_name loader_memory 0x6100 = 0x6200"
  "mod_start loader_memory 0x6110 = 0x201000" "mod_end loader_memory 0x6110 = 0x201002" "mod_name loader_memory 0x6110 = 0x6204"
  by (simp_all add: loader_memory_def map_example_def mb_flags_def mb_mods_count_def mb_mods_addr_def mb_mmap_length_def mb_mmap_addr_def
      mod_start_def mod_end_def mod_name_def load32_def push_bit_eq_mult)

lemma loader_regions:
  "mmap_next loader_memory 0x5000 = 0x5018" "mmap_next loader_memory 0x5018 = 0x5030" "mmap_next loader_memory 0x5030 = 0x5048"
  "region_start loader_memory 0x5000 = 0" "region_end loader_memory 0x5000 = 0x9FC00" "is_ram loader_memory 0x5000"
  "region_start loader_memory 0x5018 = 0x9FC00" "region_end loader_memory 0x5018 = 0xA0000" "\<not> is_ram loader_memory 0x5018"
  "region_start loader_memory 0x5030 = 0x100000" "region_end loader_memory 0x5030 = 0x1000000" "is_ram loader_memory 0x5030"
  by (simp_all add: loader_memory_def map_example_def mmap_next_def mmap_size_def region_start_def region_end_def is_ram_def mmap_base_addr_l_def
      mmap_length_l_def mmap_type_def load32_def push_bit_eq_mult)

lemma loader_map: "map_ready 0x5000 72 loader_memory [0x5000, 0x5018, 0x5030] 0x5000"
  by (simp add: map_ready_def loader_regions room_for_def blocks_16MB low_bitmap_outside)

lemma loader_names:
  "c_string loader_memory 0x6200 [115]" "c_string loader_memory 0x6204 [98]"
  "c_string loader_memory 0x102000 [115]" "c_string loader_memory 0x102010 [98]"
  by (simp_all add: c_string_def bytes_at_def loader_memory_def map_example_def)

lemma loader_modules:
  "module_names loader_memory 0x6100 2 [[115], [98]]" "has_module loader_memory 0x102000 [115] 0 [[115], [98]]"
  "has_module loader_memory 0x102010 [98] (Suc 0) [[115], [98]]"
  using loader_names by (auto simp: module_names_def has_module_def less_2_cases_iff loader_fields)

lemma loader_spans:
  "boot_bytes loader_memory 0x6000 [[115], [98]] \<subseteq> between 0x6000 0x6300"
  "span 0x102000 (Suc (Suc 0)) \<subseteq> between 0x102000 0x102002" "span 0x102010 (Suc (Suc 0)) \<subseteq> between 0x102010 0x102012"
  "dest loader_memory 0x6100 0x200000 \<subseteq> between 0x200000 0x200004" "dest loader_memory 0x6110 0x201000 \<subseteq> between 0x201000 0x201002"
  "dest loader_memory 0x6100 MODULE1_LOCATION \<subseteq> between 0x3EE000 0x3EE004" "dest loader_memory 0x6110 0x7000 \<subseteq> between 0x7000 0x7002"
  "bitmap_bytes 0 4096 \<subseteq> between 0 513"
proof -
  show "span 0x102000 (Suc (Suc 0)) \<subseteq> between 0x102000 0x102002" "span 0x102010 (Suc (Suc 0)) \<subseteq> between 0x102010 0x102012"
    using span_between [of "0x102000" "Suc (Suc 0)"] span_between [of "0x102010" "Suc (Suc 0)"] by simp_all
  have "span 0x6000 52 \<subseteq> between 0x6000 0x6300" "span 0x6100 12 \<subseteq> between 0x6000 0x6300" "span 0x6110 12 \<subseteq> between 0x6000 0x6300"
    "span 0x6200 (Suc (Suc 0)) \<subseteq> between 0x6000 0x6300" "span 0x6204 (Suc (Suc 0)) \<subseteq> between 0x6000 0x6300"
    using span_between [of "0x6000" 52] span_between [of "0x6100" 12] span_between [of "0x6110" 12] span_between [of "0x6200" "Suc (Suc 0)"] span_between [of "0x6204" "Suc (Suc 0)"]
    by (auto simp: between_def)
  then show "boot_bytes loader_memory 0x6000 [[115], [98]] \<subseteq> between 0x6000 0x6300"
    by (simp add: boot_bytes_def mod_at_def loader_fields lessThan_Suc)
  show "dest loader_memory 0x6100 0x200000 \<subseteq> between 0x200000 0x200004" "dest loader_memory 0x6110 0x201000 \<subseteq> between 0x201000 0x201002"
    "dest loader_memory 0x6100 MODULE1_LOCATION \<subseteq> between 0x3EE000 0x3EE004" "dest loader_memory 0x6110 0x7000 \<subseteq> between 0x7000 0x7002"
    using offset_between [of "0x200000" 4] offset_between [of "0x201000" 2] offset_between [of "0x3EE000" 4] offset_between [of "0x7000" 2]
    by (auto simp: dest_def mod_len_def loader_fields word_less_nat_alt layout_defs)
  show "bitmap_bytes 0 4096 \<subseteq> between 0 513" by (auto simp: bitmap_bytes_def between_def word_le_nat_alt)
qed

lemma loader_ready: "boot_info_ready env_example 0x6000 0x100000 0x110000 loader_memory [0x5000, 0x5018, 0x5030] 0x5000 [[115], [98]] 0 1"
proof -
  note dis = between_disjoint [OF _ loader_spans(1) loader_spans(8)] between_disjoint [OF _ loader_spans(2,8)] between_disjoint [OF _ loader_spans(3,8)]
    between_disjoint [OF _ loader_spans(4,8)] between_disjoint [OF _ loader_spans(5,8)] between_disjoint [OF _ loader_spans(6,8)]
    between_disjoint [OF _ loader_spans(7,8)] between_disjoint [OF _ loader_spans(1,6)] between_disjoint [OF _ loader_spans(3,6)]
    between_disjoint [OF _ loader_spans(5,6)] between_disjoint [OF _ loader_spans(6,7)]
  have at: "mod_at loader_memory 0x6000 0 = 0x6100" "mod_at loader_memory 0x6000 (Suc 0) = 0x6110" by (simp_all add: mod_at_def loader_fields)
  have ok: "copy_ok loader_memory 0x6100 MODULE1_LOCATION" "copy_ok loader_memory 0x6110 0x7000"
    by (simp_all add: copy_ok_def mod_len_def loader_fields layout_defs)
  have env: "be_sc2_name env_example = 0x102000" "be_bootap_name env_example = 0x102010" "be_cpu_supported env_example"
    by (simp_all add: env_example_def)
  show ?thesis
    by (simp add: boot_info_ready_def Let_def loader_fields loader_regions at ok env loader_map loader_modules Int_Un_distrib2 dis)
qed

theorem kmain_memory_frames_witness:
  "\<exists>k'. kmain_memory env_example 0x6000 0x100000 0x110000 loader_example = Some (Inr k') \<and> boot_inv (k_proc k')
     \<and> pmem (k_proc k') 0x7001 = 0xFE \<and> pmem (k_proc k') (MODULE1_LOCATION + 2) = 3"
proof -
  have f: "pmem (k_proc loader_example) = loader_memory" "\<not> paging (k_proc loader_example)"
    by (simp_all add: loader_example_def k_proc_def put_proc_def kernel_example_def)
  obtain k' where k': "kmain_memory env_example 0x6000 0x100000 0x110000 loader_example = Some (Inr k')" "boot_inv (k_proc k')"
    "\<forall>q < 4. pmem (k_proc k') (MODULE1_LOCATION + q) = loader_memory (0x200000 + q)"
    "\<forall>q < 2. pmem (k_proc k') (0x7000 + q) = loader_memory (0x201000 + q)"
    using kmain_memory_frames [of env_example "0x6000" "0x100000" "0x110000" loader_example, OF _ f(2), unfolded f(1), OF loader_ready]
    by (auto simp: mod_at_def mod_len_def loader_fields)
  have "pmem (k_proc k') (0x7000 + 1) = 0xFE" "pmem (k_proc k') (MODULE1_LOCATION + 2) = 3"
    using k'(3) [rule_format, of 2] k'(4) [rule_format, of 1] by (simp_all add: loader_memory_def)
  then show ?thesis using k'(1,2) by auto
qed

end
