(* ===== verification/Kernel_Types.thy ===== *)
theory Kernel_Types
  imports Kmain
begin

text \<open>
  The arrays of the kernel keep the sizes they are declared with through the whole boot: the
  processors of \<^verbatim>\<open>hal.h\<close> with their descriptor tables, the table of gates of
  \<^verbatim>\<open>idt.c\<close> and the registered devices of \<^verbatim>\<open>ps2.c\<close>, and the number of processors never
  exceeds its array. So every index the code computes below these bounds names an element.
\<close>

section \<open>The declared sizes\<close>

definition cpus_typed :: "cpu_info list \<Rightarrow> bool" where
  "cpus_typed cl \<longleftrightarrow> length cl = unat MAX_CPUS \<and> (\<forall>c \<in> set cl. length (cpu_gdt_entries c) = NUM_GDT_ENTRIES)"

definition machine_typed :: "('m, 'd) machine \<Rightarrow> bool" where
  "machine_typed m \<longleftrightarrow> cpus_typed (mc_cpus m) \<and> 0 \<le> mc_num_cpus m \<and> mc_num_cpus m \<le> uint MAX_CPUS
     \<and> length (idt_entries (mc_idt m)) = 256"

definition kernel_typed :: "('m, 'd) kernel \<Rightarrow> bool" where
  "kernel_typed k \<longleftrightarrow> machine_typed (k_machine k) \<and> length (k_registered k) = PS2_MAX_REGISTERED"

lemma oebind_Inr_iff: "oebind m f = Some (Inr y) \<longleftrightarrow> (\<exists>x. m = Some (Inr x) \<and> f x = Some (Inr y))"
  by (auto simp: oebind_def split: option.splits sum.splits)

lemma cpus_typed_update:
  "cpus_typed cl \<Longrightarrow> length (cpu_gdt_entries c) = NUM_GDT_ENTRIES \<Longrightarrow> cpus_typed (cl[i := c])"
  by (auto simp: cpus_typed_def dest!: set_update_subset_insert [THEN subsetD])

lemma cpus_typed_nth: "cpus_typed cl \<Longrightarrow> i < unat MAX_CPUS \<Longrightarrow> length (cpu_gdt_entries (cl ! i)) = NUM_GDT_ENTRIES"
  by (simp add: cpus_typed_def)

text \<open>Only the process part, the screen, the keyboard and the devices change.\<close>

lemma kernel_typed_updates [simp]:
  "kernel_typed (k\<lparr>k_screen := scr\<rparr>) = kernel_typed k" "kernel_typed (k\<lparr>k_kbd := kb\<rparr>) = kernel_typed k"
  "kernel_typed (k\<lparr>k_ainfo := i\<rparr>) = kernel_typed k" "kernel_typed (put_proc p k) = kernel_typed k"
  "kernel_typed (k\<lparr>k_machine := put_uart u m\<rparr>) = kernel_typed (k\<lparr>k_machine := m\<rparr>)"
  "kernel_typed (k\<lparr>k_machine := put_lapic la m\<rparr>) = kernel_typed (k\<lparr>k_machine := m\<rparr>)"
  "kernel_typed (k\<lparr>k_screen := scr, k_machine := m\<rparr>) = kernel_typed (k\<lparr>k_machine := m\<rparr>)"
  "machine_typed (m\<lparr>mc_proc := p\<rparr>) = machine_typed m" "machine_typed (put_lapic la m) = machine_typed m"
  "machine_typed (put_uart u m) = machine_typed m" "machine_typed (m\<lparr>mc_mmio := d\<rparr>) = machine_typed m"
  "machine_typed (m\<lparr>mc_dev := dv\<rparr>) = machine_typed m"
  by (simp_all add: kernel_typed_def machine_typed_def put_proc_def put_uart_def put_lapic_def)

lemma put_proc_channel: "k_channel_status (put_proc p k) = k_channel_status k" "k_channel_status (put_acpi a k) = k_channel_status k"
  by (simp_all add: put_proc_def put_acpi_def)

lemma kernel_typed_id [simp]: "kernel_typed (k\<lparr>k_machine := k_machine k\<rparr>) = kernel_typed k"
  by (simp add: kernel_typed_def)

section \<open>The stages of the boot\<close>

lemma kmain_memory_typed:
  assumes "kmain_memory e mb mem_start mem_end k = Some (Inr k')" and "kernel_typed k"
  shows "kernel_typed k' \<and> k_channel_status k' = k_channel_status k"
  using assms by (auto simp: kmain_memory_def put_proc_channel Let_def oebind_Inr_iff bind_eq_Some_conv split: if_splits)

lemma test_main_typed:
  assumes "test_main hw e mb k = Some (Inr k')" and "kernel_typed k"
  shows "kernel_typed k' \<and> k_channel_status k' = k_channel_status k"
proof -
  obtain n u where u: "uart_init hw (uart_part (k_machine k)) = (n, u)" by fastforce
  show ?thesis using assms by (auto simp: test_main_def put_proc_channel u Let_def oebind_Inr_iff bind_eq_Some_conv split: if_splits)
qed

text \<open>The table of processors the firmware describes.\<close>

definition acpi_typed :: "acpi_state \<Rightarrow> bool" where
  "acpi_typed a \<longleftrightarrow> cpus_typed (cpus a) \<and> 0 \<le> num_cpus a \<and> num_cpus a \<le> uint MAX_CPUS"

lemma kernel_typed_acpi:
  "kernel_typed k \<Longrightarrow> acpi_typed a \<Longrightarrow> kernel_typed (put_acpi a k)" "kernel_typed k \<Longrightarrow> acpi_typed (acpi_part k)"
  by (simp_all add: kernel_typed_def machine_typed_def acpi_typed_def put_acpi_def acpi_part_def)

lemma madt_loop_typed:
  assumes "madt_loop m tmp ret flags s = Some (Inr (n, fl, t))" and "cpus_typed (cpus s)" and "ret \<le> unat MAX_CPUS"
  shows "cpus_typed (cpus t) \<and> n \<le> unat MAX_CPUS"
proof -
  let ?P = "\<lambda>ret (s :: acpi_state) (r :: kerror + nat \<times> u32 \<times> acpi_state). cpus_typed (cpus s) \<and> ret \<le> unat MAX_CPUS \<longrightarrow>
    (case r of Inl e \<Rightarrow> True | Inr (n, _, t) \<Rightarrow> cpus_typed (cpus t) \<and> n \<le> unat MAX_CPUS)"
  have "?P ret s (Inr (n, fl, t))"
  proof (rule madt_loop.raw_induct [of "\<lambda>m tmp ret flags s r. ?P ret s r", OF _ assms(1)], intro impI, elim conjE)
    fix loop m tmp ret flags s and r :: "kerror + nat \<times> u32 \<times> acpi_state"
    assume IH: "\<And>m tmp ret flags s r. loop m tmp ret flags s = Some r \<Longrightarrow> ?P ret s r"
      and s: "cpus_typed (cpus s)" "ret \<le> unat MAX_CPUS"
      and body: "(let mem = ac_mem s in
      if tmp < m + sdth_length mem m then
        let next_tmp = tmp + ucast (madt_h_length mem tmp) in
        if madt_h_type mem tmp = MADT_TYPE_LAPIC then
          if unat MAX_CPUS \<le> ret then Some (Inl (Out_of_bounds (of_nat ret)))
          else loop m next_tmp (ret + 1) (flags OR FOUND_LAPIC)
                 (s\<lparr>cpus := (cpus s)[ret := set_cpu ret (plapic_apic_id mem tmp) (cpus s ! ret)]\<rparr>)
        else if madt_h_type mem tmp = MADT_TYPE_IOAPIC then
          loop m next_tmp ret (flags OR FOUND_IOAPIC)
            (s\<lparr>ac_io_apic := (ac_io_apic s)\<lparr>io_id := ioapic_id mem tmp, io_addr := ioapic_addr mem tmp\<rparr>\<rparr>)
        else loop m next_tmp ret flags s
      else Some (Inr (ret, flags, s))) = Some r"
    have upd: "cpus_typed ((cpus s)[ret := set_cpu ret x (cpus s ! ret)])" if "ret < unat MAX_CPUS" for x
      using s(1) cpus_typed_nth [OF s(1) that] by (intro cpus_typed_update) (simp_all add: set_cpu_def)
    let ?tag = "madt_h_type (ac_mem s) tmp"
    show "case r of Inl e \<Rightarrow> True | Inr (n, _, t) \<Rightarrow> cpus_typed (cpus t) \<and> n \<le> unat MAX_CPUS"
    proof (cases "tmp < m + sdth_length (ac_mem s) m")
      case True
      consider "?tag = MADT_TYPE_LAPIC" "unat MAX_CPUS \<le> ret" | "?tag = MADT_TYPE_LAPIC" "ret < unat MAX_CPUS"
        | "?tag \<noteq> MADT_TYPE_LAPIC" "?tag = MADT_TYPE_IOAPIC" | "?tag \<noteq> MADT_TYPE_LAPIC" "?tag \<noteq> MADT_TYPE_IOAPIC" by fastforce
      then show ?thesis
      proof cases
        case 1
        then show ?thesis using body True by (auto simp: Let_def)
      next
        case 2
        with body True have "loop m (tmp + ucast (madt_h_length (ac_mem s) tmp)) (ret + 1) (flags OR FOUND_LAPIC)
            (s\<lparr>cpus := (cpus s)[ret := set_cpu ret (plapic_apic_id (ac_mem s) tmp) (cpus s ! ret)]\<rparr>) = Some r" by (simp add: Let_def)
        from IH [OF this] 2(2) upd show ?thesis by simp
      next
        case 3
        with body True have "loop m (tmp + ucast (madt_h_length (ac_mem s) tmp)) ret (flags OR FOUND_IOAPIC)
            (s\<lparr>ac_io_apic := (ac_io_apic s)\<lparr>io_id := ioapic_id (ac_mem s) tmp, io_addr := ioapic_addr (ac_mem s) tmp\<rparr>\<rparr>) = Some r"
          by (simp add: Let_def)
        from IH [OF this] s show ?thesis by simp
      next
        case 4
        with body True have "loop m (tmp + ucast (madt_h_length (ac_mem s) tmp)) ret flags s = Some r" by (simp add: Let_def)
        from IH [OF this] s show ?thesis by simp
      qed
    qed (use body s in \<open>auto simp: Let_def\<close>)
  qed
  then show ?thesis using assms(2,3) by simp
qed

lemma apic_find_cpus_typed:
  assumes "apic_find_cpus at_rsdp a = Some (Inr (n, a'))" and "acpi_typed a"
  shows "acpi_typed a'"
proof -
  obtain m where m: "find_sdt_entry (ac_mem a) at_rsdp APIC_SIGNATURE = Some m"
    using assms(1) by (auto simp: apic_find_cpus_def bind_eq_Some_conv)
  show ?thesis
  proof (cases "m = 0")
    case True
    then show ?thesis using assms m by (simp add: apic_find_cpus_def)
  next
    case False
    let ?s = "a\<lparr>ac_local_apic := madt_lapic_addr (ac_mem a) m\<rparr>"
    obtain ret fl t where t: "madt_loop m (m + sizeof_madt) 0 0 ?s = Some (Inr (ret, fl, t))" "a' = t\<lparr>num_cpus := int ret\<rparr>"
      using assms(1) m False by (auto simp: apic_find_cpus_def bind_eq_Some_conv ebind_Inr_iff Let_def split: if_splits)
    have "cpus_typed (cpus t) \<and> ret \<le> unat MAX_CPUS"
      by (rule madt_loop_typed [OF t(1)]) (use assms(2) in \<open>simp_all add: acpi_typed_def\<close>)
    then show ?thesis by (simp add: acpi_typed_def t(2) layout_defs)
  qed
qed

lemma apic_init_typed:
  assumes "apic_init at_rsdp a = Some (b, a')" and "acpi_typed a"
  shows "acpi_typed a'"
  using assms by (auto simp: apic_init_def acpi_typed_def bind_eq_Some_conv split: if_splits)

lemma kmain_apic_typed:
  assumes "kmain_apic mm e k = Some (Inr k')" and "kernel_typed k"
  shows "kernel_typed k' \<and> k_channel_status k' = k_channel_status k"
proof -
  obtain a where a: "apic_init (be_rsdp e) (acpi_part k) = Some (True, a)" using assms(1) by (auto simp: kmain_apic_def bind_eq_Some_conv split: if_splits)
  let ?k1 = "put_acpi a k"
  have k1: "kernel_typed ?k1" using kernel_typed_acpi assms(2) apic_init_typed [OF a] by blast
  obtain info n a2 la where *: "apic_find_cpus (be_rsdp e) (acpi_part (?k1\<lparr>k_ainfo := info\<rparr>)) = Some (Inr (n, a2))"
    "k' = (put_acpi a2 (?k1\<lparr>k_ainfo := info\<rparr>))\<lparr>k_machine := put_lapic la (k_machine (put_acpi a2 (?k1\<lparr>k_ainfo := info\<rparr>)))\<rparr>"
    using assms(1) a by (auto simp: kmain_apic_def bind_eq_Some_conv oebind_Inr_iff Let_def case_prod_beta split: if_splits)
  have "kernel_typed (?k1\<lparr>k_ainfo := info\<rparr>)" using k1 by simp
  then have "kernel_typed (put_acpi a2 (?k1\<lparr>k_ainfo := info\<rparr>))" using kernel_typed_acpi apic_find_cpus_typed [OF *(1)] by blast
  then show ?thesis by (simp add: *(2) put_proc_channel)
qed

lemma machine_gdt_install_typed:
  assumes "machine_gdt_install mm at m = Inr m'" and "machine_typed m"
  shows "machine_typed m'"
proof -
  obtain id m1 where id: "machine_cpuid mm m = (id, m1)" by fastforce
  obtain d where m1: "m1 = m\<lparr>mc_mmio := d\<rparr>" using machine_cpuid_proc [of mm m] id by auto
  obtain c r where g: "gdt_install (at id) (mc_cpus m1 ! unat id, mc_segs m1) = (c, r)" by fastforce
  have ok: "\<not> MAX_CPUS \<le> id" "m' = m1\<lparr>mc_cpus := (mc_cpus m1)[unat id := c], mc_segs := r, mc_proc := (mc_proc m1)\<lparr>cpu := c\<rparr>\<rparr>"
    using assms(1) id g by (auto simp: machine_gdt_install_def split: if_splits)
  have cpus: "cpus_typed (mc_cpus m1)" using assms(2) by (simp add: machine_typed_def m1)
  then have "length (cpu_gdt_entries (mc_cpus m1 ! unat id)) = NUM_GDT_ENTRIES"
    using ok(1) by (intro cpus_typed_nth) (simp_all add: not_le word_less_nat_alt)
  then have "length (cpu_gdt_entries c) = NUM_GDT_ENTRIES"
    using g by (auto simp: gdt_install_def gdt_set_gate_def write_tss_def Let_def)
  then show ?thesis using cpus_typed_update [OF cpus] assms(2) by (simp add: ok(2) machine_typed_def m1)
qed

lemma idt_install_length: "length (idt_entries (idt_install st addr s)) = 256"
proof -
  have "length (idt_entries (idt_fill_loop none n s)) = length (idt_entries s)" for none n s
    by (induction n arbitrary: s) (simp_all add: idt_set_gate_def)
  moreover have "length (idt_entries (fold (\<lambda>(num, base) s. idt_set_gate num base 0x08 0x8E s) gs s)) = length (idt_entries s)" for gs s
    by (induction gs arbitrary: s) (auto simp: idt_set_gate_def)
  ultimately show ?thesis by (simp add: idt_install_def Let_def)
qed

lemma kmain_tables_typed:
  assumes "kmain_tables mm hw e k = Inr k'" and "kernel_typed k" and "k_channel_status k < 0x8000"
  shows "kernel_typed k'"
proof -
  let ?names = "be_ps2_names e"
  obtain m where m: "machine_gdt_install mm (be_cpu_at e) (k_machine k) = Inr m" using assms(1) by (auto simp: kmain_tables_def ebind_Inr_iff)
  have tm: "machine_typed m" using machine_gdt_install_typed [OF m] assms(2) by (simp add: kernel_typed_def)
  define m1 where "m1 = m\<lparr>mc_dev := pic_init hw (mc_dev m), mc_mmio := snd (ioapic_install mm (mc_io_apic m) (mc_mmio m)),
     mc_idt := idt_install (be_stubs e) (be_idt e) (mc_idt m),
     mc_proc := (mc_proc m)\<lparr>interrupt_handlers := isr_install (interrupt_handlers (mc_proc m))\<rparr>\<rparr>"
  define k1 where "k1 = k\<lparr>k_machine := m1\<rparr>"
  define k2 where "k2 = put_ps2 (snd (ps2_init hw ?names (ps2_part k1))) k1"
  define k3 where "k3 = put_ps2 (snd (ps2kbd_init ?names (be_kbd_name e) (ps2_part k2))) k2"
  define k4 where "k4 = k3\<lparr>k_machine := put_uart (snd (uart_init hw (uart_part (k_machine k3)))) (k_machine k3)\<rparr>"
  define k5 where "k5 = put_proc ((k_proc k4)\<lparr>interrupt_handlers := syscall_init (interrupt_handlers (k_proc k4))\<rparr>) k4"
  obtain p where p: "k' = put_proc p k5"
    using assms(1) m by (auto simp: kmain_tables_def Let_def ebind_Inr_iff m1_def [symmetric] k1_def [symmetric]
        k2_def [symmetric] k3_def [symmetric] k4_def [symmetric] k5_def [symmetric])
  have "machine_typed m1" using tm idt_install_length by (simp add: m1_def machine_typed_def)
  then have mt: "machine_typed (k_machine k3)" by (simp add: k3_def put_ps2_def k2_def k1_def)
  have r1: "length (registered (ps2_part k1)) = 2" "channel_status (ps2_part k1) < 0x8000"
    using assms(2,3) by (simp_all add: ps2_part_def k1_def kernel_typed_def PS2_MAX_REGISTERED_def)
  have "length (k_registered k2) = 2" using ps2_init_registered [OF r1(2,1)] by (simp add: k2_def put_ps2_def)
  then have "length (k_registered k3) = 2"
    by (simp add: k3_def put_ps2_def ps2kbd_init_def ps2_register_def ps2_part_def Let_def)
  then have "kernel_typed k3" using mt by (simp add: kernel_typed_def PS2_MAX_REGISTERED_def)
  then show ?thesis by (simp add: p k5_def k4_def)
qed

lemma cpu_wait_started_typed:
  assumes "cpu_wait_started ap i m = Some m'" and "machine_typed m" and "\<And>m. machine_typed m \<Longrightarrow> machine_typed (ap m)"
  shows "machine_typed m'"
proof -
  let ?P = "\<lambda>(ap' :: ('a, 'b) machine \<Rightarrow> ('a, 'b) machine) (i :: nat) m m'. ap' = ap \<and> machine_typed m \<longrightarrow> machine_typed m'"
  have "?P ap i m m'"
  proof (rule cpu_wait_started.raw_induct [of ?P, OF _ assms(1)], intro impI, elim conjE)
    fix loop ap' i m m'
    assume IH: "\<And>ap' i m m'. loop ap' i m = Some m' \<Longrightarrow> ap' = ap \<and> machine_typed m \<longrightarrow> machine_typed m'"
      and body: "(if cpu_started (mc_cpus m ! i) \<noteq> 1 then loop ap' i (ap' m) else Some m) = Some m'"
      and eq: "ap' = ap" "machine_typed m"
    show "machine_typed m'" using IH [of ap i "ap m" m'] body eq assms(3) [OF eq(2)] by (auto split: if_splits)
  qed
  then show ?thesis using assms(2) by blast
qed

lemma cpu_start_loop_typed:
  assumes "\<And>i m. machine_typed m \<Longrightarrow> machine_typed (ap i m)"
  shows "cpu_start_loop mm hw ap entry n i stack m = Some (Inr m') \<Longrightarrow> machine_typed m \<Longrightarrow> machine_typed m'"
proof (induction n arbitrary: i stack m)
  case (Suc n)
  show ?case
  proof (cases "cpu_boot_cpu (mc_cpus m ! i)")
    case True
    then show ?thesis using Suc by auto
  next
    case False
    obtain p la t where "cpu_wait_started (ap i) i (put_lapic la (m\<lparr>mc_proc := p\<rparr>)) = Some t"
      "cpu_start_loop mm hw ap entry n (i + 1) (stack - KB4 * 2) t = Some (Inr m')"
      using Suc.prems(1) False by (auto simp: Let_def oebind_Inr_iff bind_eq_Some_conv)
    moreover have "machine_typed (put_lapic la (m\<lparr>mc_proc := p\<rparr>))" using Suc.prems(2) by simp
    ultimately show ?thesis using Suc.IH cpu_wait_started_typed assms by blast
  qed
qed simp

lemma cpu_common_main_typed:
  assumes "cpu_common_main mm hw idt_ptr_addr m = Inr m'" and "machine_typed m"
  shows "machine_typed m'"
proof -
  let ?m = "m\<lparr>mc_idt := idt_enable idt_ptr_addr (mc_idt m), mc_proc := (mc_proc m)\<lparr>cpu := (cpu (mc_proc m))\<lparr>cpu_started := 1\<rparr>\<rparr>\<rparr>"
  obtain id m1 where id: "machine_cpuid mm ?m = (id, m1)" by fastforce
  then obtain d where "m1 = ?m\<lparr>mc_mmio := d\<rparr>" using machine_cpuid_proc [of mm ?m] by auto
  then have "machine_typed m1" using assms(2) by (simp add: machine_typed_def idt_enable_def)
  then show ?thesis using assms(1) id by (auto simp: cpu_common_main_def Let_def ebind_Inr_iff)
qed

lemma kmain_run_typed:
  assumes "kmain_run mm hw ap e stack k = Some (Inr k')" and "kernel_typed k"
    and "\<And>i m. machine_typed m \<Longrightarrow> machine_typed (ap i m)"
  shows "kernel_typed k'"
proof -
  obtain p t m where m: "cpu_start_loop mm hw ap (be_cpu_ap_enter e) (nat (mc_num_cpus (k_machine k))) 0 KERNEL_STACK_TOP
      ((k_machine k)\<lparr>mc_proc := p\<rparr>) = Some (Inr t)" "cpu_common_main mm hw (be_idt_ptr e) t = Inr m" "k' = k\<lparr>k_machine := m\<rparr>"
    using assms(1) by (auto simp: kmain_run_def cpu_start_aps_def oebind_Inr_iff)
  have "machine_typed ((k_machine k)\<lparr>mc_proc := p\<rparr>)" using assms(2) by (simp add: kernel_typed_def)
  from cpu_start_loop_typed [OF assms(3) m(1) this] have "machine_typed m" by (rule cpu_common_main_typed [OF m(2)])
  then show ?thesis using assms(2) by (simp add: m(3) kernel_typed_def)
qed

text \<open>All of \<^verbatim>\<open>kmain\<close>, for every boot information, firmware and device.\<close>

lemma kmain_typed:
  assumes "kmain mm hw ap e mb mem_start mem_end stack k = Some (Inr k')" and "kernel_typed k" and "k_channel_status k < 0x8000"
    and "\<And>i m. machine_typed m \<Longrightarrow> machine_typed (ap i m)"
  shows "kernel_typed k'"
proof -
  obtain k1 k2 k3 k4 where *: "(if be_TEST_KERNEL e then test_main hw e mb k else Some (Inr k)) = Some (Inr k1)"
    "kmain_memory e mb mem_start mem_end k1 = Some (Inr k2)" "kmain_apic mm e k2 = Some (Inr k3)" "kmain_tables mm hw e k3 = Inr k4"
    "kmain_run mm hw ap e stack k4 = Some (Inr k')"
    using assms(1) by (auto simp: kmain_def oebind_Inr_iff split: if_split_asm)
  have "kernel_typed k1 \<and> k_channel_status k1 = k_channel_status k"
    using *(1) test_main_typed [of hw e mb k k1] assms(2) by (cases "be_TEST_KERNEL e") auto
  then have k2: "kernel_typed k2" "k_channel_status k2 < 0x8000" using kmain_memory_typed [OF *(2)] assms(3) by auto
  have "kernel_typed k3" "k_channel_status k3 < 0x8000" using kmain_apic_typed [OF *(3) k2(1)] k2(2) by auto
  then have "kernel_typed k4" using kmain_tables_typed [OF *(4)] by blast
  then show ?thesis using kmain_run_typed [OF *(5)] assms(4) by blast
qed

end
