(* ===== verification/Reports.thy ===== *)
theory Reports
  imports Multiboot Pmm_Init Printf Isr Gdt
begin

text \<open>
  The functions that report to the console: \<^verbatim>\<open>print_mb_info\<close> of
  \<^verbatim>\<open>src/sys/multiboot1.c\<close> with its table of printers, \<^verbatim>\<open>print_regs\<close> of
  \<^verbatim>\<open>src/sys/kernel.c\<close> and \<^verbatim>\<open>cpu_print_all\<close> of \<^verbatim>\<open>src/sys/cpu.c\<close>. Where the
  compiler puts a string is the parameter \<open>lit\<close>. A walk through the memory map that never
  ends is \<^const>\<open>None\<close>.
\<close>

section \<open>Strings of the program\<close>

definition bytes :: "string \<Rightarrow> u8 list" where
  "bytes s = map of_char s"

abbreviation NL :: string where "NL \<equiv> [CHR 0x0A]"
abbreviation TAB :: string where "TAB \<equiv> [CHR 0x09]"

type_synonym placement = "u8 list \<Rightarrow> u32"

text \<open>The variable arguments.\<close>

definition va :: "u32 list \<Rightarrow> nat \<Rightarrow> u32" where
  "va xs i = (if i < length xs then xs ! i else 0)"

text \<open>Calls whose result is not used.\<close>

definition say :: "'d device \<Rightarrow> placement \<Rightarrow> string \<Rightarrow> u32 list \<Rightarrow> 'd console \<Rightarrow> 'd console option" where
  "say hw lit fmt args c = map_option snd (printf hw (lit (bytes fmt)) (va args) c)"

definition ksay :: "'d device \<Rightarrow> placement \<Rightarrow> KM_Level \<Rightarrow> string \<Rightarrow> u32 list \<Rightarrow> 'd console \<Rightarrow> 'd console option" where
  "ksay hw lit kl fmt args c = map_option snd (kprintf hw kl (lit (bytes fmt)) (va args) c)"

section \<open>The boot information\<close>

definition NUM_FLAGS_BITS :: nat where "NUM_FLAGS_BITS = 12"

definition mb_mem_lower :: "mem \<Rightarrow> u32 \<Rightarrow> u32" where "mb_mem_lower m p = load32 m (p + 4)"
definition mb_mem_upper :: "mem \<Rightarrow> u32 \<Rightarrow> u32" where "mb_mem_upper m p = load32 m (p + 8)"
definition mb_boot_device :: "mem \<Rightarrow> u32 \<Rightarrow> u32" where "mb_boot_device m p = load32 m (p + 12)"
definition mb_cmdline :: "mem \<Rightarrow> u32 \<Rightarrow> u32" where "mb_cmdline m p = load32 m (p + 16)"
definition elf_num :: "mem \<Rightarrow> u32 \<Rightarrow> u32" where "elf_num m p = load32 m (p + 28)"
definition elf_size :: "mem \<Rightarrow> u32 \<Rightarrow> u32" where "elf_size m p = load32 m (p + 32)"
definition elf_addr :: "mem \<Rightarrow> u32 \<Rightarrow> u32" where "elf_addr m p = load32 m (p + 36)"
definition elf_shndx :: "mem \<Rightarrow> u32 \<Rightarrow> u32" where "elf_shndx m p = load32 m (p + 40)"
definition mb_drives_length :: "mem \<Rightarrow> u32 \<Rightarrow> u32" where "mb_drives_length m p = load32 m (p + 52)"
definition mb_drives_addr :: "mem \<Rightarrow> u32 \<Rightarrow> u32" where "mb_drives_addr m p = load32 m (p + 56)"
definition mb_config_table :: "mem \<Rightarrow> u32 \<Rightarrow> u32" where "mb_config_table m p = load32 m (p + 60)"
definition mb_boot_loader_name :: "mem \<Rightarrow> u32 \<Rightarrow> u32" where "mb_boot_loader_name m p = load32 m (p + 64)"
definition mb_apm_table :: "mem \<Rightarrow> u32 \<Rightarrow> u32" where "mb_apm_table m p = load32 m (p + 68)"
definition mb_vbe_control_info :: "mem \<Rightarrow> u32 \<Rightarrow> u32" where "mb_vbe_control_info m p = load32 m (p + 72)"
definition mb_vbe_mode_info :: "mem \<Rightarrow> u32 \<Rightarrow> u32" where "mb_vbe_mode_info m p = load32 m (p + 76)"
definition mb_vbe_mode :: "mem \<Rightarrow> u32 \<Rightarrow> u32" where "mb_vbe_mode m p = load32 m (p + 80)"
definition mmap_base_addr_h :: "mem \<Rightarrow> u32 \<Rightarrow> u32" where "mmap_base_addr_h m p = load32 m (p + 8)"
definition mmap_length_h :: "mem \<Rightarrow> u32 \<Rightarrow> u32" where "mmap_length_h m p = load32 m (p + 16)"

definition flags_int :: "u32 list" where
  "flags_int = [0x1, 0x2, 0x4, 0x8, 0x10, 0x20, 0x40, 0x80, 0x100, 0x200, 0x400, 0x800]"

definition flags_str :: "string list" where
  "flags_str = [''MEM'', ''BOOT_DEV'', ''CMDLINE'', ''MODS'', ''AOUT'', ''ELF'', ''MMAP'', ''DRIVES'', ''CONFIG'',
     ''BOOT_NAME'', ''APM'', ''VBE'']"

definition mem_type_str :: "string list" where
  "mem_type_str = [''unknown'', ''available'', ''reserved'', ''acpi'', ''reserve preserve'', ''defective'']"

definition mem_units :: "string list" where
  "mem_units = [''KB'', ''MB'', ''GB'']"

text \<open>The loop that divides by 1024 at most twice.\<close>

function mb_scale :: "u32 \<Rightarrow> nat \<Rightarrow> u32 \<times> nat" where
  "mb_scale low l = (if low > 1024 \<and> l < 2 then mb_scale (low div 1024) (l + 1) else (low, l))"
  by pat_completeness auto
termination
  by (relation "measure (\<lambda>(low, l). 2 - l)") auto

declare mb_scale.simps [simp del]

definition print_mb_memory :: "'d device \<Rightarrow> placement \<Rightarrow> u32 \<Rightarrow> 'd console \<Rightarrow> 'd console option" where
  "print_mb_memory hw lit p c =
     (let (low, l) = mb_scale (mb_mem_lower (fst c) p) 0; (upper, h) = mb_scale (mb_mem_upper (fst c) p) 0
      in say hw lit (''Memory:'' @ NL @ TAB @ ''Start: %i %s'' @ NL @ TAB @ ''Upper: %i %s'' @ NL)
           [low, lit (bytes (mem_units ! l)), upper, lit (bytes (mem_units ! h))] c)"

definition print_mb_boot_device :: "'d device \<Rightarrow> placement \<Rightarrow> u32 \<Rightarrow> 'd console \<Rightarrow> 'd console option" where
  "print_mb_boot_device hw lit p c =
     (let d = mb_boot_device (fst c) p
      in say hw lit (''Boot dev:'' @ NL @ TAB @ ''Part3: %i, Part2: %i, Part1: %i, Drive: %i'' @ NL)
           [d AND 0xff, drop_bit 8 (d AND 0xff00), drop_bit 16 (d AND 0xff0000), drop_bit 24 (d AND 0xff000000)] c)"

definition print_mb_cmdline :: "'d device \<Rightarrow> placement \<Rightarrow> u32 \<Rightarrow> 'd console \<Rightarrow> 'd console option" where
  "print_mb_cmdline hw lit p c =
     say hw lit (''CMD line(0x%p): %s'' @ NL) [mb_cmdline (fst c) p, mb_cmdline (fst c) p] c"

text \<open>The loop over \<open>n\<close> modules that are left, from number \<open>i\<close> on.\<close>

fun print_modules_loop :: "'d device \<Rightarrow> placement \<Rightarrow> nat \<Rightarrow> u32 \<Rightarrow> u32 \<Rightarrow> 'd console \<Rightarrow> 'd console option" where
  "print_modules_loop hw lit 0 i mm c = Some c"
| "print_modules_loop hw lit (Suc n) i mm c =
     Option.bind (ksay hw lit K_BOCHS_OUT (TAB @ ''Module %i loaded at: %p'' @ NL) [i, mm] c) (\<lambda>c.
     Option.bind (ksay hw lit K_BOCHS_OUT (TAB @ TAB @ ''%s: %x -> %x'' @ NL)
       [mod_name (fst c) mm, mod_start (fst c) mm, mod_end (fst c) mm] c) (\<lambda>c.
     print_modules_loop hw lit n (i + 1) (mm + sizeof_multiboot_module) c))"

definition print_mb_modules :: "'d device \<Rightarrow> placement \<Rightarrow> u32 \<Rightarrow> 'd console \<Rightarrow> 'd console option" where
  "print_mb_modules hw lit p c =
     Option.bind (say hw lit (''Modules loaded: %i'' @ NL) [mb_mods_count (fst c) p] c) (\<lambda>c.
     print_modules_loop hw lit (unat (mb_mods_count (fst c) p)) 0 (mb_mods_addr (fst c) p) c)"

definition print_mb_sym_aout :: "'d device \<Rightarrow> placement \<Rightarrow> u32 \<Rightarrow> 'd console \<Rightarrow> 'd console option" where
  "print_mb_sym_aout hw lit p c = Some c"

definition print_mb_sym_elf :: "'d device \<Rightarrow> placement \<Rightarrow> u32 \<Rightarrow> 'd console \<Rightarrow> 'd console option" where
  "print_mb_sym_elf hw lit p c =
     say hw lit (''ELF kernel section header'' @ NL @ TAB @ ''Num: %i, Size: %i, Addr: 0x%X, Shndx: %i'' @ NL)
       [elf_num (fst c) p, elf_size (fst c) p, elf_addr (fst c) p, elf_shndx (fst c) p] c"

definition print_mmap_entry :: "'d device \<Rightarrow> placement \<Rightarrow> u32 \<Rightarrow> 'd console \<Rightarrow> 'd console option" where
  "print_mmap_entry hw lit mmap c =
     Option.bind (say hw lit (TAB @ ''Map @0x%X+0x%X, Len: %X+%X, Type: 0x%X '')
       [mmap_base_addr_h (fst c) mmap, mmap_base_addr_l (fst c) mmap, mmap_length_h (fst c) mmap,
        mmap_length_l (fst c) mmap, mmap_type (fst c) mmap] c) (\<lambda>c.
     if mmap_type (fst c) mmap < 6
     then say hw lit (''(%s)'' @ NL) [lit (bytes (mem_type_str ! unat (mmap_type (fst c) mmap)))] c
     else say hw lit (''(unknown)'' @ NL) [] c)"

partial_function (option) print_mmap_loop :: "'d device \<Rightarrow> placement \<Rightarrow> u32 \<Rightarrow> u32 \<Rightarrow> 'd console \<Rightarrow> 'd console option" where
  "print_mmap_loop hw lit p mmap c =
     (if mmap < mb_mmap_addr (fst c) p + mb_mmap_length (fst c) p
      then Option.bind (print_mmap_entry hw lit mmap c) (\<lambda>c. print_mmap_loop hw lit p (mmap_next (fst c) mmap) c)
      else Some c)"

definition print_mb_mmap :: "'d device \<Rightarrow> placement \<Rightarrow> u32 \<Rightarrow> 'd console \<Rightarrow> 'd console option" where
  "print_mb_mmap hw lit p c =
     Option.bind (say hw lit (''Mmap @0x%X, length = %i'' @ NL) [mb_mmap_addr (fst c) p, mb_mmap_length (fst c) p] c) (\<lambda>c.
     print_mmap_loop hw lit p (mb_mmap_addr (fst c) p) c)"

definition print_mb_drives :: "'d device \<Rightarrow> placement \<Rightarrow> u32 \<Rightarrow> 'd console \<Rightarrow> 'd console option" where
  "print_mb_drives hw lit p c =
     say hw lit (''Drive @0x%X, length = %i'' @ NL) [mb_drives_addr (fst c) p, mb_drives_length (fst c) p] c"

definition print_mb_config :: "'d device \<Rightarrow> placement \<Rightarrow> u32 \<Rightarrow> 'd console \<Rightarrow> 'd console option" where
  "print_mb_config hw lit p c = say hw lit (''Config table @0x%X'' @ NL) [mb_config_table (fst c) p] c"

definition print_mb_boot_name :: "'d device \<Rightarrow> placement \<Rightarrow> u32 \<Rightarrow> 'd console \<Rightarrow> 'd console option" where
  "print_mb_boot_name hw lit p c = say hw lit (''Boot loader name: %s'' @ NL) [mb_boot_loader_name (fst c) p] c"

definition print_mb_apm :: "'d device \<Rightarrow> placement \<Rightarrow> u32 \<Rightarrow> 'd console \<Rightarrow> 'd console option" where
  "print_mb_apm hw lit p c = say hw lit (''APM table @0x%X'' @ NL) [mb_apm_table (fst c) p] c"

definition print_mb_vbe :: "'d device \<Rightarrow> placement \<Rightarrow> u32 \<Rightarrow> 'd console \<Rightarrow> 'd console option" where
  "print_mb_vbe hw lit p c =
     say hw lit (''VBE control @0x%X, VBE mode @0x%X'' @ NL @ TAB @ ''Video mode: 0x%X'' @ NL)
       [mb_vbe_control_info (fst c) p, mb_vbe_mode_info (fst c) p, mb_vbe_mode (fst c) p] c"

definition funcs :: "('d device \<Rightarrow> placement \<Rightarrow> u32 \<Rightarrow> 'd console \<Rightarrow> 'd console option) list" where
  "funcs = [print_mb_memory, print_mb_boot_device, print_mb_cmdline, print_mb_modules, print_mb_sym_aout, print_mb_sym_elf,
     print_mb_mmap, print_mb_drives, print_mb_config, print_mb_boot_name, print_mb_apm, print_mb_vbe]"

text \<open>A loop over the flags from \<open>i\<close> on that calls \<open>f\<close> for each one that is set.\<close>

fun for_flags :: "u32 \<Rightarrow> (nat \<Rightarrow> 'd console \<Rightarrow> 'd console option) \<Rightarrow> nat list \<Rightarrow> 'd console \<Rightarrow> 'd console option" where
  "for_flags p f [] c = Some c"
| "for_flags p f (i # is) c =
     Option.bind (if mb_flags (fst c) p AND flags_int ! i \<noteq> 0 then f i c else Some c) (for_flags p f is)"

definition print_mb_info :: "'d device \<Rightarrow> placement \<Rightarrow> u32 \<Rightarrow> 'd console \<Rightarrow> 'd console option" where
  "print_mb_info hw lit p c =
     Option.bind (say hw lit ''Flags set: '' [] c) (\<lambda>c.
     Option.bind (for_flags p (\<lambda>i. say hw lit ''%s '' [lit (bytes (flags_str ! i))]) [0..<NUM_FLAGS_BITS] c) (\<lambda>c.
     Option.bind (say hw lit NL [] c) (\<lambda>c.
     for_flags p (\<lambda>i. (funcs ! i) hw lit p) [0..<NUM_FLAGS_BITS] c)))"

section \<open>Registers and processors\<close>

definition print_regs :: "'d device \<Rightarrow> placement \<Rightarrow> Registers \<Rightarrow> KM_Level \<Rightarrow> 'd console \<Rightarrow> 'd console option" where
  "print_regs hw lit regs lev c =
     Option.bind (ksay hw lit lev (''ES: 0x%x | DS: 0x%x | EDI: 0x%x'' @ NL) [es regs, ds regs, edi regs] c) (\<lambda>c.
     Option.bind (ksay hw lit lev (''GS: 0x%x | FS: 0x%x'' @ NL) [gs regs, fs regs] c) (\<lambda>c.
     Option.bind (ksay hw lit lev (''ESI: 0x%x | EBP: 0x%x | t_esp: 0x%x'' @ NL) [esi regs, ebp regs, tampered_esp regs] c) (\<lambda>c.
     Option.bind (ksay hw lit lev (''EBX: 0x%x | EDX: 0x%x | ECX: 0x%x'' @ NL) [ebx regs, edx regs, ecx regs] c) (\<lambda>c.
     Option.bind (ksay hw lit lev (''EAX: 0x%x | int_no: 0x%x | err_code: 0x%x'' @ NL) [eax regs, int_no regs, err_code regs] c) (\<lambda>c.
     ksay hw lit lev (''EIP: 0x%x | CS: 0x%x | EFLAGS: 0x%x'' @ NL) [eip regs, cs regs, eflags regs] c)))))"

definition cpu_print_info :: "'d device \<Rightarrow> placement \<Rightarrow> cpu_info \<Rightarrow> 'd console \<Rightarrow> 'd console option" where
  "cpu_print_info hw lit i c =
     ksay hw lit K_LOW_INFO (TAB @ ''ID: %i | started: %i | CLI: %i'' @ NL)
       [ucast (cpu_id i), cpu_started i, of_int (cpu_num_cli i)] c"

text \<open>The first \<open>num_cpus\<close> entries of \<^verbatim>\<open>cpus\<close>.\<close>

definition cpu_print_all :: "'d device \<Rightarrow> placement \<Rightarrow> nat \<Rightarrow> cpu_info list \<Rightarrow> 'd console \<Rightarrow> 'd console option" where
  "cpu_print_all hw lit num_cpus cpus c =
     fold (\<lambda>i r. Option.bind r (cpu_print_info hw lit (cpus ! i))) [0..<num_cpus] (Some c)"

section \<open>Formats as pieces\<close>

text \<open>A format with its arguments: text, signed numbers, upper and lower case hexadecimal
  numbers, and strings with their addresses.\<close>

datatype piece = Text string | Dec u32 | HexU u32 | Hex u32 | Addr u32 | Str u32 "u8 list"

fun piece_dirs :: "piece \<Rightarrow> directive list" where
  "piece_dirs (Text s) = map Lit (bytes s)"
| "piece_dirs (Dec v) = [Conv False False [] [] 0x69]"
| "piece_dirs (HexU v) = [Conv False False [] [] 0x58]"
| "piece_dirs (Hex v) = [Conv False False [] [] 0x78]"
| "piece_dirs (Addr v) = [Conv False False [] [] 0x70]"
| "piece_dirs (Str a xs) = [Conv False False [] [] 0x73]"

fun piece_args :: "piece \<Rightarrow> (u32 \<times> u8 list) list" where
  "piece_args (Text s) = []"
| "piece_args (Dec v) = [(v, [])]" | "piece_args (HexU v) = [(v, [])]" | "piece_args (Hex v) = [(v, [])]"
| "piece_args (Addr v) = [(v, [])]" | "piece_args (Str a xs) = [(a, xs)]"

fun piece_text :: "piece \<Rightarrow> u8 list" where
  "piece_text (Text s) = bytes s"
| "piece_text (Dec v) = (if sint v < 0 then 0x2D # pf_digits 0 R10 (- v) [] else pf_digits 0 R10 v [])"
| "piece_text (HexU v) = pf_digits PR_CA R16 v []"
| "piece_text (Hex v) = pf_digits 0 R16 v []" | "piece_text (Addr v) = pf_digits 0 R16 v []"
| "piece_text (Str a xs) = xs"

fun piece_ok :: "mem \<Rightarrow> piece \<Rightarrow> bool" where
  "piece_ok m (Text s) \<longleftrightarrow> (\<forall>b \<in> set (bytes s). b \<noteq> 0 \<and> b \<noteq> 0x25)"
| "piece_ok m (Str a xs) \<longleftrightarrow> a \<noteq> 0 \<and> c_string m a xs"
| "piece_ok m _ \<longleftrightarrow> True"

abbreviation dirs :: "piece list \<Rightarrow> directive list" where "dirs ps \<equiv> concat (map piece_dirs ps)"
abbreviation args :: "piece list \<Rightarrow> (u32 \<times> u8 list) list" where "args ps \<equiv> concat (map piece_args ps)"
abbreviation fmt_of :: "piece list \<Rightarrow> u8 list" where "fmt_of ps \<equiv> concat (map dir_text (dirs ps))"
abbreviation text_of :: "piece list \<Rightarrow> u8 list" where "text_of ps \<equiv> concat (map piece_text ps)"

lemma lits_out: "format_out v st i (map Lit bs @ dl) = bs @ format_out v st i dl"
  "strings_ok m v st i (map Lit bs @ dl) = strings_ok m v st i dl"
  by (induction bs) simp_all

text \<open>The arguments from number \<open>i\<close> on are those of the pieces.\<close>

definition given :: "(nat \<Rightarrow> u32) \<Rightarrow> (nat \<Rightarrow> u8 list) \<Rightarrow> nat \<Rightarrow> (u32 \<times> u8 list) list \<Rightarrow> bool" where
  "given v st i as \<longleftrightarrow> (\<forall>j < length as. v (i + j) = fst (as ! j) \<and> st (i + j) = snd (as ! j))"

lemma given_Cons: "given v st i (a # as) \<longleftrightarrow> v i = fst a \<and> st i = snd a \<and> given v st (Suc i) as"
  by (auto simp: given_def All_less_Suc2)

lemma pieces_out:
  assumes "given v st i (args ps)"
  shows "format_out v st i (dirs ps) = text_of ps \<and> (list_all (piece_ok m) ps \<longrightarrow> strings_ok m v st i (dirs ps))"
  using assms
proof (induction ps arbitrary: i)
  case (Cons a ps)
  show ?case using Cons.prems Cons.IH [of i] Cons.IH [of "Suc i"]
    by (cases a) (auto simp: lits_out given_Cons conv_out_def justify_def conv_radix_def Let_def)
qed simp

lemma dirs_ok: "list_all (piece_ok m) ps \<Longrightarrow> list_all dir_ok (dirs ps)"
proof (induction ps)
  case (Cons a ps)
  then show ?case by (cases a) (auto simp: list_all_iff conversions_def)
qed simp

text \<open>What the console looks like after a text.\<close>

definition shown :: "'d device \<Rightarrow> u8 list \<Rightarrow> 'd console \<Rightarrow> 'd console" where
  "shown hw t c = (fst c, fold (vga_putc hw) t (snd c))"

lemma shown_simps [simp]:
  "fst (shown hw t c) = fst c" "shown hw u (shown hw t c) = shown hw (t @ u) c" "shown hw [] c = c"
  by (simp_all add: shown_def)

definition placed :: "placement \<Rightarrow> mem \<Rightarrow> u8 list \<Rightarrow> bool" where
  "placed lit m s \<longleftrightarrow> lit s \<noteq> 0 \<and> c_string m (lit s) s"

lemma say_pieces:
  assumes "bytes fmt = fmt_of ps" and "al = map fst (args ps)" and "placed lit (fst c) (bytes fmt)" and "list_all (piece_ok (fst c)) ps"
  shows "say hw lit fmt al c = Some (shown hw (text_of ps) c)"
proof -
  define st where "st j = (if j < length (args ps) then snd (args ps ! j) else [])" for j
  have g: "given (va al) st 0 (args ps)" by (simp add: given_def va_def st_def assms(2))
  have "do_printf fst (vprintf_help hw) (va al) (lit (bytes fmt)) c
      = Some (of_nat (length (text_of ps)), fold (\<lambda>b. vprintf_help hw (ucast b)) (text_of ps) c)"
    using console_sink.do_printf_text [of c "lit (bytes fmt)" "dirs ps" "va al" st hw] pieces_out [OF g, of "fst c"] assms dirs_ok [OF assms(4)]
    by (simp add: placed_def)
  moreover have "fold (\<lambda>b. vprintf_help hw (ucast b)) (text_of ps) c = shown hw (text_of ps) c"
    using fold_vprintf_help [where m = "fst c" and sd = "snd c"] by (simp add: shown_def)
  ultimately show ?thesis by (simp add: say_def printf_def vprintf_def)
qed

lemma ksay_pieces:
  assumes "bytes fmt = fmt_of ps" and "al = map fst (args ps)" and "placed lit (fst c) (bytes fmt)" and "list_all (piece_ok (fst c)) ps"
  shows "ksay hw lit kl fmt al c = Some (if DEBUG \<le> level_code kl then shown hw (text_of ps) c else c)"
proof (cases "DEBUG \<le> level_code kl")
  case True
  then have "kl \<noteq> K_BOCHS_OUT" by (auto simp: DEBUG_def)
  then show ?thesis using say_pieces [OF assms, of hw] True by (simp add: ksay_def kprintf_def say_def printf_def vprintf_def)
qed (simp add: ksay_def kprintf_def)

section \<open>What the reports show\<close>

lemma bytes_simps: "bytes [] = []" "bytes (a # s) = of_char a # bytes s" "bytes (s @ t) = bytes s @ bytes t"
  by (simp_all add: bytes_def)

lemma lit_texts [simp]: "concat (map (dir_text \<circ> Lit) bs) = bs"
  by (induction bs) simp_all

text \<open>The strings of the program.\<close>

definition mb_strings :: "string list" where
  "mb_strings = [''Flags set: '', ''%s '', NL, ''Memory:'' @ NL @ TAB @ ''Start: %i %s'' @ NL @ TAB @ ''Upper: %i %s'' @ NL,
     ''Boot dev:'' @ NL @ TAB @ ''Part3: %i, Part2: %i, Part1: %i, Drive: %i'' @ NL, ''CMD line(0x%p): %s'' @ NL,
     ''Modules loaded: %i'' @ NL,
     ''ELF kernel section header'' @ NL @ TAB @ ''Num: %i, Size: %i, Addr: 0x%X, Shndx: %i'' @ NL,
     ''Mmap @0x%X, length = %i'' @ NL, TAB @ ''Map @0x%X+0x%X, Len: %X+%X, Type: 0x%X '', ''(%s)'' @ NL, ''(unknown)'' @ NL,
     ''Drive @0x%X, length = %i'' @ NL, ''Config table @0x%X'' @ NL, ''Boot loader name: %s'' @ NL, ''APM table @0x%X'' @ NL,
     ''VBE control @0x%X, VBE mode @0x%X'' @ NL @ TAB @ ''Video mode: 0x%X'' @ NL]
     @ flags_str @ mem_type_str @ mem_units"

definition strings_placed :: "placement \<Rightarrow> mem \<Rightarrow> bool" where
  "strings_placed lit m \<longleftrightarrow> (\<forall>s \<in> set mb_strings. placed lit m (bytes s))"

lemma strings_placedD: "strings_placed lit m \<Longrightarrow> s \<in> set mb_strings \<Longrightarrow> placed lit m (bytes s)"
  by (simp add: strings_placed_def)

text \<open>A string of the program as a piece.\<close>

definition own :: "placement \<Rightarrow> string \<Rightarrow> piece" where
  "own lit s = Str (lit (bytes s)) (bytes s)"

lemma own_simps [simp]:
  "piece_dirs (own lit s) = [Conv False False [] [] 0x73]" "piece_args (own lit s) = [(lit (bytes s), bytes s)]"
  "piece_text (own lit s) = bytes s" "piece_ok m (own lit s) = placed lit m (bytes s)"
  by (simp_all add: own_def placed_def)

definition memory_report :: "placement \<Rightarrow> mem \<Rightarrow> u32 \<Rightarrow> piece list" where
  "memory_report lit m p =
     (let (low, l) = mb_scale (mb_mem_lower m p) 0; (upper, h) = mb_scale (mb_mem_upper m p) 0
      in [Text (''Memory:'' @ NL @ TAB @ ''Start: ''), Dec low, Text '' '', own lit (mem_units ! l),
          Text (NL @ TAB @ ''Upper: ''), Dec upper, Text '' '', own lit (mem_units ! h), Text NL])"

definition mmap_type_report :: "placement \<Rightarrow> mem \<Rightarrow> u32 \<Rightarrow> piece list" where
  "mmap_type_report lit m e =
     (if mmap_type m e < 6 then [Text ''('', own lit (mem_type_str ! unat (mmap_type m e)), Text ('')'' @ NL)]
      else [Text (''(unknown)'' @ NL)])"

definition mmap_range_report :: "mem \<Rightarrow> u32 \<Rightarrow> piece list" where
  "mmap_range_report m e =
     [Text (TAB @ ''Map @0x''), HexU (mmap_base_addr_h m e), Text ''+0x'', HexU (mmap_base_addr_l m e), Text '', Len: '',
      HexU (mmap_length_h m e), Text ''+'', HexU (mmap_length_l m e), Text '', Type: 0x'', HexU (mmap_type m e), Text '' '']"

definition mmap_entry_report :: "placement \<Rightarrow> mem \<Rightarrow> u32 \<Rightarrow> piece list" where
  "mmap_entry_report lit m e = mmap_range_report m e @ mmap_type_report lit m e"

definition mmap_report :: "mem \<Rightarrow> u32 \<Rightarrow> piece list" where
  "mmap_report m p =
     [Text ''Mmap @0x'', HexU (mb_mmap_addr m p), Text '', length = '', Dec (mb_mmap_length m p), Text NL]"

text \<open>The report behind each flag; \<open>cmd\<close> and \<open>name\<close> are the strings of the boot loader,
  \<open>el\<close> the entries of its memory map.\<close>

definition reports :: "placement \<Rightarrow> mem \<Rightarrow> u32 \<Rightarrow> u8 list \<Rightarrow> u8 list \<Rightarrow> u32 list \<Rightarrow> piece list list" where
  "reports lit m p cmd name el =
     [memory_report lit m p,
      (let d = mb_boot_device m p in
       [Text (''Boot dev:'' @ NL @ TAB @ ''Part3: ''), Dec (d AND 0xff), Text '', Part2: '', Dec (drop_bit 8 (d AND 0xff00)),
        Text '', Part1: '', Dec (drop_bit 16 (d AND 0xff0000)), Text '', Drive: '', Dec (drop_bit 24 (d AND 0xff000000)), Text NL]),
      [Text ''CMD line(0x'', Addr (mb_cmdline m p), Text ''): '', Str (mb_cmdline m p) cmd, Text NL],
      [Text ''Modules loaded: '', Dec (mb_mods_count m p), Text NL],
      [],
      [Text (''ELF kernel section header'' @ NL @ TAB @ ''Num: ''), Dec (elf_num m p), Text '', Size: '', Dec (elf_size m p),
       Text '', Addr: 0x'', HexU (elf_addr m p), Text '', Shndx: '', Dec (elf_shndx m p), Text NL],
      mmap_report m p @ concat (map (mmap_entry_report lit m) el),
      [Text ''Drive @0x'', HexU (mb_drives_addr m p), Text '', length = '', Dec (mb_drives_length m p), Text NL],
      [Text ''Config table @0x'', HexU (mb_config_table m p), Text NL],
      [Text ''Boot loader name: '', Str (mb_boot_loader_name m p) name, Text NL],
      [Text ''APM table @0x'', HexU (mb_apm_table m p), Text NL],
      [Text ''VBE control @0x'', HexU (mb_vbe_control_info m p), Text '', VBE mode @0x'', HexU (mb_vbe_mode_info m p),
       Text (NL @ TAB @ ''Video mode: 0x''), HexU (mb_vbe_mode m p), Text NL]]"

definition flag_set :: "mem \<Rightarrow> u32 \<Rightarrow> nat \<Rightarrow> bool" where
  "flag_set m p i \<longleftrightarrow> mb_flags m p AND flags_int ! i \<noteq> 0"

definition mb_ready :: "placement \<Rightarrow> mem \<Rightarrow> u32 \<Rightarrow> u8 list \<Rightarrow> u8 list \<Rightarrow> u32 list \<Rightarrow> bool" where
  "mb_ready lit m p cmd name el \<longleftrightarrow> strings_placed lit m
     \<and> (flag_set m p 2 \<longrightarrow> mb_cmdline m p \<noteq> 0 \<and> c_string m (mb_cmdline m p) cmd)
     \<and> (flag_set m p 6 \<longrightarrow> mmap_entries m (mb_mmap_addr m p + mb_mmap_length m p) (mb_mmap_addr m p) el)
     \<and> (flag_set m p 9 \<longrightarrow> mb_boot_loader_name m p \<noteq> 0 \<and> c_string m (mb_boot_loader_name m p) name)"

definition mb_info_text :: "placement \<Rightarrow> mem \<Rightarrow> u32 \<Rightarrow> u8 list \<Rightarrow> u8 list \<Rightarrow> u32 list \<Rightarrow> u8 list" where
  "mb_info_text lit m p cmd name el =
     (let set_flags = filter (flag_set m p) [0..<12]
      in bytes ''Flags set: '' @ concat (map (\<lambda>i. bytes (flags_str ! i) @ bytes '' '') set_flags) @ bytes NL
         @ concat (map (\<lambda>i. text_of (reports lit m p cmd name el ! i)) set_flags))"

lemma say_report:
  assumes "strings_placed lit (fst c)" and "fmt \<in> set mb_strings" and "bytes fmt = fmt_of ps" and "al = map fst (args ps)"
    and "list_all (piece_ok (fst c)) ps"
  shows "say hw lit fmt al c = Some (shown hw (text_of ps) c)"
  using assms strings_placedD [OF assms(1,2)] by (intro say_pieces)

lemmas report_simps = bytes_simps mb_strings_def

lemma mb_scale_bound: "l \<le> 2 \<Longrightarrow> snd (mb_scale low l) \<le> 2"
  by (induction low l rule: mb_scale.induct) (subst mb_scale.simps, auto)

lemma units_placed: "strings_placed lit m \<Longrightarrow> placed lit m (bytes (mem_units ! snd (mb_scale low 0)))"
proof -
  assume "strings_placed lit m"
  moreover have "mem_units ! snd (mb_scale low 0) \<in> set mem_units"
    using mb_scale_bound [of 0 low] by (intro nth_mem) (simp add: mem_units_def)
  ultimately show ?thesis by (auto simp: strings_placed_def mb_strings_def)
qed

lemma print_mb_memory_shows:
  assumes "strings_placed lit (fst c)"
  shows "print_mb_memory hw lit p c = Some (shown hw (text_of (memory_report lit (fst c) p)) c)"
  unfolding print_mb_memory_def memory_report_def case_prod_beta Let_def
  by (rule say_report [OF assms]) (simp_all add: report_simps units_placed [OF assms])

text \<open>Below the debug level nothing is shown: the registers a handler dumps with
  \<^verbatim>\<open>K_BOCHS_OUT\<close>, the processors, the modules.\<close>

lemma ksay_quiet: "level_code kl < DEBUG \<Longrightarrow> ksay hw lit kl fmt al c = Some c"
  by (simp add: ksay_def kprintf_def)

lemma print_regs_quiet: "print_regs hw lit regs K_BOCHS_OUT c = Some c"
  by (simp add: print_regs_def ksay_quiet DEBUG_def)

lemma cpu_print_all_quiet: "cpu_print_all hw lit n cl c = Some c"
  unfolding cpu_print_all_def by (induction n) (simp_all add: cpu_print_info_def ksay_quiet DEBUG_def)

lemma print_modules_quiet: "print_modules_loop hw lit n i mm c = Some c"
  by (induction n arbitrary: i mm) (simp_all add: ksay_quiet DEBUG_def)

lemma mem_type_placed: "strings_placed lit m \<Longrightarrow> t < 6 \<Longrightarrow> placed lit m (bytes (mem_type_str ! unat t))" for t :: u32
proof -
  assume "strings_placed lit m" "t < 6"
  moreover from this(2) have "unat t < 6" by (simp add: word_less_nat_alt)
  then have "mem_type_str ! unat t \<in> set mem_type_str" by (intro nth_mem) (simp add: mem_type_str_def)
  ultimately show ?thesis by (auto simp: strings_placed_def mb_strings_def)
qed

lemma print_mmap_entry_shows:
  assumes "strings_placed lit (fst c)"
  shows "print_mmap_entry hw lit e c = Some (shown hw (text_of (mmap_entry_report lit (fst c) e)) c)"
proof -
  have second: "(if mmap_type (fst d) e < 6 then say hw lit (''(%s)'' @ NL) [lit (bytes (mem_type_str ! unat (mmap_type (fst d) e)))] d
      else say hw lit (''(unknown)'' @ NL) [] d) = Some (shown hw (text_of (mmap_type_report lit (fst d) e)) d)"
    if d: "strings_placed lit (fst d)" for d
  proof (cases "mmap_type (fst d) e < 6")
    case True
    then show ?thesis unfolding if_P [OF True] mmap_type_report_def
      by (intro say_report [OF d]) (simp_all add: report_simps mem_type_placed [OF d])
  next
    case False
    then show ?thesis unfolding if_not_P [OF False] mmap_type_report_def
      by (intro say_report [OF d]) (simp_all add: report_simps)
  qed
  have first: "say hw lit (TAB @ ''Map @0x%X+0x%X, Len: %X+%X, Type: 0x%X '')
       [mmap_base_addr_h (fst c) e, mmap_base_addr_l (fst c) e, mmap_length_h (fst c) e, mmap_length_l (fst c) e, mmap_type (fst c) e] c
     = Some (shown hw (text_of (mmap_range_report (fst c) e)) c)"
    by (rule say_report [OF assms]) (simp_all add: report_simps mmap_range_report_def)
  show ?thesis
    using second [of "shown hw (text_of (mmap_range_report (fst c) e)) c"] assms
    unfolding print_mmap_entry_def first mmap_entry_report_def
    by (simp only: bind.simps shown_simps map_append concat_append)
qed

lemma print_mmap_entries:
  assumes "strings_placed lit (fst c)" and "mmap_entries (fst c) (mb_mmap_addr (fst c) p + mb_mmap_length (fst c) p) a el"
  shows "print_mmap_loop hw lit p a c = Some (shown hw (text_of (concat (map (mmap_entry_report lit (fst c)) el))) c)"
  using assms
proof (induction el arbitrary: a c)
  case (Cons e el)
  let ?c = "shown hw (text_of (mmap_entry_report lit (fst c) a)) c"
  have "print_mmap_loop hw lit p a c = print_mmap_loop hw lit p (mmap_next (fst c) a) ?c"
    using print_mmap_entry_shows [OF Cons.prems(1)] Cons.prems(2) by (subst print_mmap_loop.simps) simp
  then show ?case using Cons.IH [of ?c "mmap_next (fst c) a"] Cons.prems by simp
next
  case Nil
  then have "\<not> a < mb_mmap_addr (fst c) p + mb_mmap_length (fst c) p" by (simp add: not_less)
  then show ?case by (subst print_mmap_loop.simps) simp
qed

lemma for_flags_shows:
  assumes "\<And>i c. i \<in> set is \<Longrightarrow> flag_set m p i \<Longrightarrow> fst c = m \<Longrightarrow> f i c = Some (shown hw (t i) c)" and "fst c = m"
  shows "for_flags p f is c = Some (shown hw (concat (map t (filter (flag_set m p) is))) c)"
  using assms
proof (induction "is" arbitrary: c)
  case (Cons i js)
  have "for_flags p f (i # js) c = for_flags p f js (if flag_set m p i then shown hw (t i) c else c)"
    using Cons.prems(1) [of i c] Cons.prems(2) by (simp add: flag_set_def)
  also have "\<dots> = Some (shown hw (concat (map t (filter (flag_set m p) js))) (if flag_set m p i then shown hw (t i) c else c))"
    using Cons.prems by (intro Cons.IH) auto
  finally show ?case by simp
qed simp

lemma funcs_show:
  assumes "mb_ready lit (fst c) p cmd name el" and "i < 12" and "flag_set (fst c) p i"
  shows "(funcs ! i) hw lit p c = Some (shown hw (text_of (reports lit (fst c) p cmd name el ! i)) c)"
proof -
  have pl: "strings_placed lit (fst c)" using assms(1) by (simp add: mb_ready_def)
  note r = say_report [OF pl]
  have "print_mb_boot_device hw lit p c = Some (shown hw (text_of (reports lit (fst c) p cmd name el ! 1)) c)"
    unfolding print_mb_boot_device_def Let_def by (rule r) (simp_all add: report_simps reports_def Let_def)
  moreover have "flag_set (fst c) p 2 \<Longrightarrow> print_mb_cmdline hw lit p c = Some (shown hw (text_of (reports lit (fst c) p cmd name el ! 2)) c)"
    using assms(1) unfolding print_mb_cmdline_def by (intro r) (simp_all add: report_simps reports_def mb_ready_def)
  moreover have "print_mb_modules hw lit p c = Some (shown hw (text_of (reports lit (fst c) p cmd name el ! 3)) c)"
    unfolding print_mb_modules_def
    by (subst r [where ps = "reports lit (fst c) p cmd name el ! 3"]) (simp_all add: report_simps reports_def print_modules_quiet)
  moreover have "print_mb_sym_elf hw lit p c = Some (shown hw (text_of (reports lit (fst c) p cmd name el ! 5)) c)"
    unfolding print_mb_sym_elf_def by (rule r) (simp_all add: report_simps reports_def)
  moreover have "flag_set (fst c) p 6 \<Longrightarrow> print_mb_mmap hw lit p c = Some (shown hw (text_of (reports lit (fst c) p cmd name el ! 6)) c)"
  proof -
    assume "flag_set (fst c) p 6"
    then have me: "mmap_entries (fst c) (mb_mmap_addr (fst c) p + mb_mmap_length (fst c) p) (mb_mmap_addr (fst c) p) el"
      using assms(1) by (simp add: mb_ready_def)
    have "say hw lit (''Mmap @0x%X, length = %i'' @ NL) [mb_mmap_addr (fst c) p, mb_mmap_length (fst c) p] c
        = Some (shown hw (text_of (mmap_report (fst c) p)) c)"
      by (rule r) (simp_all add: report_simps mmap_report_def)
    then show ?thesis
      using print_mmap_entries [of lit "shown hw (text_of (mmap_report (fst c) p)) c" p "mb_mmap_addr (fst c) p" el hw] pl me
      by (simp add: print_mb_mmap_def reports_def)
  qed
  moreover have "print_mb_drives hw lit p c = Some (shown hw (text_of (reports lit (fst c) p cmd name el ! 7)) c)"
    "print_mb_config hw lit p c = Some (shown hw (text_of (reports lit (fst c) p cmd name el ! 8)) c)"
    "print_mb_apm hw lit p c = Some (shown hw (text_of (reports lit (fst c) p cmd name el ! 10)) c)"
    "print_mb_vbe hw lit p c = Some (shown hw (text_of (reports lit (fst c) p cmd name el ! 11)) c)"
    unfolding print_mb_drives_def print_mb_config_def print_mb_apm_def print_mb_vbe_def
    by (rule r; simp add: report_simps reports_def)+
  moreover have "flag_set (fst c) p 9 \<Longrightarrow> print_mb_boot_name hw lit p c = Some (shown hw (text_of (reports lit (fst c) p cmd name el ! 9)) c)"
    using assms(1) unfolding print_mb_boot_name_def by (intro r) (simp_all add: report_simps reports_def mb_ready_def)
  moreover have "print_mb_memory hw lit p c = Some (shown hw (text_of (reports lit (fst c) p cmd name el ! 0)) c)"
    using print_mb_memory_shows [OF pl] by (simp add: reports_def)
  moreover have "print_mb_sym_aout hw lit p c = Some (shown hw (text_of (reports lit (fst c) p cmd name el ! 4)) c)"
    by (simp add: print_mb_sym_aout_def reports_def)
  moreover have "i \<in> {0, 1, 2, 3, 4, 5, 6, 7, 8, 9, 10, 11}" using assms(2) by (simp, presburger)
  ultimately show ?thesis using assms(3) unfolding funcs_def by (elim insertE) (simp_all del: One_nat_def)
qed

lemma flags_str_placed: "strings_placed lit m \<Longrightarrow> i < 12 \<Longrightarrow> placed lit m (bytes (flags_str ! i))"
proof -
  assume "strings_placed lit m" "i < 12"
  moreover from this(2) have "flags_str ! i \<in> set flags_str" by (intro nth_mem) (simp add: flags_str_def)
  ultimately show ?thesis by (auto simp: strings_placed_def mb_strings_def)
qed

section \<open>Properties\<close>

text \<open>C34: \<^verbatim>\<open>print_mb_info\<close> ends and shows on the console exactly the names of the flags that
  are set and, in the order of the flags, the report behind each of them, for every boot
  information whose strings are terminated and whose memory map ends. Memory stays as it is.\<close>

theorem print_mb_info_shows:
  assumes "mb_ready lit m p cmd name el"
  shows "print_mb_info hw lit p (m, sd) = Some (m, fold (vga_putc hw) (mb_info_text lit m p cmd name el) sd)"
proof -
  have pl: "strings_placed lit m" using assms by (simp add: mb_ready_def)
  let ?c0 = "(m, sd)" and ?t = "\<lambda>i. bytes (flags_str ! i) @ bytes '' ''"
  let ?on = "filter (flag_set m p) [0..<12]"
  have s1: "say hw lit ''Flags set: '' [] ?c0 = Some (shown hw (bytes ''Flags set: '') ?c0)"
    using say_report [of lit ?c0 "''Flags set: ''" "[Text ''Flags set: '']" "[]" hw] pl by (simp add: report_simps)
  have name: "say hw lit ''%s '' [lit (bytes (flags_str ! i))] c = Some (shown hw (?t i) c)" if "i < 12" "fst c = m" for i c
    using say_report [of lit c "''%s ''" "[own lit (flags_str ! i), Text '' '']" _ hw] pl that flags_str_placed [OF pl, of i]
    by (simp add: report_simps)
  have s2: "for_flags p (\<lambda>i. say hw lit ''%s '' [lit (bytes (flags_str ! i))]) [0..<12] c
      = Some (shown hw (concat (map ?t ?on)) c)" if "fst c = m" for c
    by (rule for_flags_shows) (use name that in auto)
  have s3: "say hw lit NL [] c = Some (shown hw (bytes NL) c)" if "fst c = m" for c
    using say_report [of lit c NL "[Text NL]" "[]" hw] pl that by (simp add: report_simps)
  have s4: "for_flags p (\<lambda>i. (funcs ! i) hw lit p) [0..<12] c
      = Some (shown hw (concat (map (\<lambda>i. text_of (reports lit m p cmd name el ! i)) ?on)) c)" if "fst c = m" for c
    by (rule for_flags_shows) (use funcs_show [of lit _ p cmd name el _ hw] assms that in auto)
  show ?thesis
    unfolding print_mb_info_def NUM_FLAGS_BITS_def s1 bind.simps
    by (simp add: s2 s3 s4 mb_info_text_def Let_def del: bytes_simps upt_Suc) (simp add: shown_def)
qed

text \<open>A string pool: the strings one after the other, each with its NUL.\<close>

definition pool :: "u8 list list \<Rightarrow> u8 list" where
  "pool ss = concat (map (\<lambda>s. s @ [0]) ss)"

fun pool_at :: "u8 list list \<Rightarrow> u8 list \<Rightarrow> nat" where
  "pool_at [] s = 0"
| "pool_at (x # xs) s = (if x = s then 0 else length x + 1 + pool_at xs s)"

lemma pool_split: "s \<in> set ss \<Longrightarrow> \<exists>u v. pool ss = u @ s @ 0 # v \<and> length u = pool_at ss s"
proof (induction ss)
  case (Cons x ss)
  show ?case
  proof (cases "x = s")
    case False
    with Cons obtain u v where "pool ss = u @ s @ 0 # v" "length u = pool_at ss s" by auto
    then show ?thesis using False by (intro exI [of _ "x @ 0 # u"] exI [of _ v]) (simp add: pool_def)
  qed (simp add: pool_def)
qed simp

lemma pool_string:
  assumes "s \<in> set ss" and "0 \<notin> set s" and "length (pool ss) < 2 ^ 32" and "\<And>k. k < length (pool ss) \<Longrightarrow> m (base + of_nat k) = pool ss ! k"
  shows "c_string m (base + of_nat (pool_at ss s)) s"
proof -
  obtain u v where uv: "pool ss = u @ s @ 0 # v" "length u = pool_at ss s" using pool_split [OF assms(1)] by blast
  have at: "m (base + of_nat (length u) + of_nat j) = (s @ [0]) ! j" if "j \<le> length s" for j
    using assms(4) [of "length u + j"] that by (simp add: uv(1) nth_append add.assoc)
  show ?thesis unfolding uv(2) [symmetric]
  proof (rule c_stringI)
    fix j :: u32 assume "j < of_nat (length s)"
    then have "unat j < length s" using assms(3) by (simp add: uv(1) word_less_nat_alt unat_of_nat)
    then show "m (base + of_nat (length u) + j) = s ! unat j" using at [of "unat j"] by (simp add: nth_append)
  qed (use assms(2,3) at [of "length s"] uv(1) in simp_all)
qed

definition mb_pool :: "u8 list" where "mb_pool = pool (map bytes mb_strings)"
definition mb_lit :: placement where "mb_lit s = 0x1000 + of_nat (pool_at (map bytes mb_strings) s)"

definition mb_example :: mem where
  "mb_example a = (if 0x1000 \<le> a \<and> unat (a - 0x1000) < length mb_pool then mb_pool ! unat (a - 0x1000)
     else ((\<lambda>_. 0)(0x100 := 0x40, 0x101 := 0x02, 0x12C := 24, 0x131 := 0x03, 0x141 := 0x02, 0x200 := 0x47, 0x201 := 0x52,
       0x300 := 20, 0x30E := 0x0A, 0x314 := 1)) a)"

lemma mb_pool_length: "length mb_pool < 0x1000"
  by (simp add: mb_pool_def pool_def mb_strings_def flags_str_def mem_type_str_def mem_units_def bytes_def)

lemma mb_example_placed: "strings_placed mb_lit mb_example"
  unfolding strings_placed_def
proof
  fix s assume s: "s \<in> set mb_strings"
  have "c_string mb_example (0x1000 + of_nat (pool_at (map bytes mb_strings) (bytes s))) (bytes s)"
  proof (rule pool_string)
    show "0 \<notin> set (bytes s)"
      using s by (auto simp: mb_strings_def flags_str_def mem_type_str_def mem_units_def bytes_simps)
    fix k assume "k < length (pool (map bytes mb_strings))"
    then have "k < length mb_pool" by (simp add: mb_pool_def)
    moreover from this mb_pool_length have "unat (of_nat k :: u32) = k" "(0x1000 :: u32) \<le> 0x1000 + of_nat k"
      by (simp_all add: unat_of_nat word_le_nat_alt unat_word_ariths)
    ultimately show "mb_example (0x1000 + of_nat k) = pool (map bytes mb_strings) ! k"
      by (simp add: mb_example_def mb_pool_def)
  qed (use s mb_pool_length in \<open>simp_all add: mb_pool_def\<close>)
  moreover have "unat (mb_lit (bytes s)) = 0x1000 + pool_at (map bytes mb_strings) (bytes s)"
    using pool_split [of "bytes s" "map bytes mb_strings"] s mb_pool_length
    by (auto simp: mb_lit_def mb_pool_def unat_of_nat unat_word_ariths)
  then have "mb_lit (bytes s) \<noteq> 0" by auto
  ultimately show "placed mb_lit mb_example (bytes s)" by (simp add: placed_def mb_lit_def)
qed

lemma mb_example_loads:
  "a < 0xFFD \<Longrightarrow> load32 mb_example a = load32 ((\<lambda>_. 0)(0x100 := 0x40, 0x101 := 0x02, 0x12C := 24, 0x131 := 0x03, 0x141 := 0x02,
     0x200 := 0x47, 0x201 := 0x52, 0x300 := 20, 0x30E := 0x0A, 0x314 := 1)) a"
proof -
  assume "a < 0xFFD"
  then have "\<not> 0x1000 \<le> a" "\<not> 0x1000 \<le> a + 1" "\<not> 0x1000 \<le> a + 2" "\<not> 0x1000 \<le> a + 3"
    by (simp_all add: word_less_nat_alt word_le_nat_alt unat_word_ariths)
  then show ?thesis by (simp add: load32_def mb_example_def)
qed

lemmas mb_fields = mb_flags_def mb_mmap_addr_def mb_mmap_length_def mb_boot_loader_name_def mmap_next_def mmap_size_def
  mmap_base_addr_h_def mmap_base_addr_l_def mmap_length_h_def mmap_length_l_def mmap_type_def mb_cmdline_def

lemma mb_example_flags: "filter (flag_set mb_example 0x100) [0..<12] = [6, 9]"
  by (simp add: flag_set_def mb_fields mb_example_loads flags_int_def upt_rec [of _ 12]) (simp add: load32_def)

lemma mb_example_words:
  "mb_flags mb_example 0x100 = 0x240" "mb_mmap_addr mb_example 0x100 = 0x300" "mb_mmap_length mb_example 0x100 = 24"
  "mb_boot_loader_name mb_example 0x100 = 0x200" "mmap_next mb_example 0x300 = 0x318"
  "mmap_base_addr_h mb_example 0x300 = 0" "mmap_base_addr_l mb_example 0x300 = 0" "mmap_length_h mb_example 0x300 = 0"
  "mmap_length_l mb_example 0x300 = 0xA0000" "mmap_type mb_example 0x300 = 1"
  by (simp_all add: mb_fields mb_example_loads) (simp_all add: load32_def)

lemma mb_example_name: "c_string mb_example 0x200 [0x47, 0x52]"
  by (simp add: c_string_def bytes_at_def mb_example_def)

lemma mb_example_ready: "mb_ready mb_lit mb_example 0x100 [] [0x47, 0x52] [0x300]"
  unfolding mb_ready_def using mb_example_placed mb_example_name
  by (simp add: mb_example_words flag_set_def flags_int_def)

lemma mb_example_text:
  "mb_info_text mb_lit mb_example 0x100 [] [0x47, 0x52] [0x300]
     = bytes (''Flags set: MMAP BOOT_NAME '' @ NL @ ''Mmap @0x300, length = 24'' @ NL
            @ TAB @ ''Map @0x0+0x0, Len: 0+A0000, Type: 0x1 (available)'' @ NL @ ''Boot loader name: GR'' @ NL)"
  unfolding mb_info_text_def mb_example_flags
  by (simp add: flags_str_def reports_def mmap_report_def mmap_entry_report_def mmap_range_report_def mmap_type_report_def
      mb_example_words mem_type_str_def bytes_simps) (simp add: pf_digits.simps digit_char_def PR_CA_def)

theorem print_mb_info_shows_witness:
  "print_mb_info (recorder (\<lambda>_. 0)) mb_lit 0x100 (mb_example, vga_example, [])
     = Some (mb_example, fold (vga_putc (recorder (\<lambda>_. 0)))
         (bytes (''Flags set: MMAP BOOT_NAME '' @ NL @ ''Mmap @0x300, length = 24'' @ NL
            @ TAB @ ''Map @0x0+0x0, Len: 0+A0000, Type: 0x1 (available)'' @ NL @ ''Boot loader name: GR'' @ NL)) (vga_example, []))"
  using print_mb_info_shows [OF mb_example_ready] unfolding mb_example_text .

end
