(* ===== verification/Ctype.thy ===== *)
theory Ctype
  imports Frod_Prelude
begin

text \<open>
  The macros of \<^verbatim>\<open>src/include/lib/ctype.h\<close>, on an argument of type \<^verbatim>\<open>int\<close>. The
  macro \<^verbatim>\<open>ispunct\<close> contains the token \<^verbatim>\<open>2f\<close>, which is no C number, and has no model.
\<close>

section \<open>Operations\<close>

definition isalpha :: "int \<Rightarrow> bool" where
  "isalpha c \<longleftrightarrow> (0x41 \<le> c \<and> c \<le> 0x5A) \<or> (0x61 \<le> c \<and> c \<le> 0x7A)"

definition isalnum :: "int \<Rightarrow> bool" where
  "isalnum c \<longleftrightarrow> (0x41 \<le> c \<and> c \<le> 0x5A) \<or> (0x61 \<le> c \<and> c \<le> 0x7A) \<or> (0x30 \<le> c \<and> c \<le> 0x39)"

definition iscntrl :: "int \<Rightarrow> bool" where
  "iscntrl c \<longleftrightarrow> (0x00 \<le> c \<and> c \<le> 0x1f) \<or> c = 0x7f"

definition isdigit :: "int \<Rightarrow> bool" where "isdigit c \<longleftrightarrow> 0x30 \<le> c \<and> c \<le> 0x39"
definition isgraph :: "int \<Rightarrow> bool" where "isgraph c \<longleftrightarrow> 0x21 \<le> c \<and> c \<le> 0x7e"
definition islower :: "int \<Rightarrow> bool" where "islower c \<longleftrightarrow> 0x61 \<le> c \<and> c \<le> 0x7A"
definition isprint :: "int \<Rightarrow> bool" where "isprint c \<longleftrightarrow> 0x20 \<le> c \<and> c \<le> 0x7E"
definition isspace :: "int \<Rightarrow> bool" where "isspace c \<longleftrightarrow> (0x09 \<le> c \<and> c \<le> 0x0d) \<or> c = 0x20"
definition isupper :: "int \<Rightarrow> bool" where "isupper c \<longleftrightarrow> 0x41 \<le> c \<and> c \<le> 0x5A"

definition isxdigit :: "int \<Rightarrow> bool" where
  "isxdigit c \<longleftrightarrow> (0 \<le> c \<and> c \<le> 0x39) \<or> (0x41 \<le> c \<and> c \<le> 0x46) \<or> (0x61 \<le> c \<and> c \<le> 0x66)"

definition isascii :: "int \<Rightarrow> bool" where "isascii c \<longleftrightarrow> (of_int c :: u32) \<le> 0x7F"
definition toascii :: "int \<Rightarrow> u32" where "toascii c = of_int c AND 0x7F"
definition tolower :: "int \<Rightarrow> int" where "tolower c = (if isupper c then c + 0x61 - 0x41 else c)"
definition toupper :: "int \<Rightarrow> int" where "toupper c = (if islower c then c + 0x41 - 0x61 else c)"

lemmas ctype_defs = isalpha_def isalnum_def iscntrl_def isdigit_def isgraph_def islower_def isprint_def isspace_def
  isupper_def isxdigit_def tolower_def toupper_def

section \<open>Properties\<close>

text \<open>The classes fit together: letters are upper or lower case but not both, letters and digits
  are the alphanumeric characters, a printable character is a visible one or a space, and every
  ASCII character is either printable or a control character.\<close>

lemma ctype_classes:
  "isalpha c \<longleftrightarrow> isupper c \<or> islower c" "\<not> (isupper c \<and> islower c)" "isalnum c \<longleftrightarrow> isalpha c \<or> isdigit c"
  "isprint c \<longleftrightarrow> isgraph c \<or> c = 0x20" "0 \<le> c \<and> c \<le> 0x7F \<Longrightarrow> iscntrl c \<longleftrightarrow> \<not> isprint c"
  by (auto simp: ctype_defs)

lemma isascii_iff: "isascii c \<longleftrightarrow> 0 \<le> c \<and> c \<le> 0x7F" if "- (2 ^ 31) \<le> c" "c < 2 ^ 31"
proof (cases "0 \<le> c")
  case True
  then show ?thesis using that by (simp add: isascii_def word_le_def uint_word_of_int_eq take_bit_eq_mod)
next
  case False
  then have "(c + 2 ^ 32) mod 2 ^ 32 = c + 2 ^ 32" using that by (intro mod_pos_pos_trivial) auto
  then have "c mod 2 ^ 32 = c + 2 ^ 32" by simp
  then show ?thesis using False that by (simp add: isascii_def word_le_def uint_word_of_int_eq take_bit_eq_mod)
qed

text \<open>Changing the case of a letter and back.\<close>

lemma case_roundtrip: "islower c \<Longrightarrow> tolower (toupper c) = c" "isupper c \<Longrightarrow> toupper (tolower c) = c"
  "islower c \<Longrightarrow> isupper (toupper c)" "isupper c \<Longrightarrow> islower (tolower c)" "\<not> isalpha c \<Longrightarrow> toupper c = c \<and> tolower c = c"
  by (auto simp: ctype_defs)

text \<open>\<^verbatim>\<open>isxdigit\<close> compares with 0 instead of \<open>'0'\<close>: a blank counts as a hexadecimal
  digit.\<close>

lemma isxdigit_blank: "isxdigit 0x20" "\<not> isdigit 0x20" "\<not> isalpha 0x20"
  by (simp_all add: ctype_defs)

end
