(* ===== verification/Dllist.thy ===== *)
theory Dllist
  imports Heap
begin

text \<open>
  The linked list, \<^verbatim>\<open>src/sys/dllist.c\<close>. List heads and elements are stores from
  addresses to records; a field the code has not written keeps what was there. The two
  comparison functions of a list are fields of its head. A walk that never ends is
  \<^const>\<open>None\<close>.
\<close>

section \<open>State and operations\<close>

record dllist_element =
  el_element :: u32
  el_prev :: u32
  el_next :: u32

record dllist_head =
  dl_lessthan :: "u32 \<Rightarrow> u32 \<Rightarrow> u8"
  dl_lessthan_find :: "u32 \<Rightarrow> u32 \<Rightarrow> u8"
  dl_elem :: u32
  dl_elements :: u32

record dl_state = heap_state +
  dl_nodes :: "u32 \<Rightarrow> dllist_element"
  dl_heads :: "u32 \<Rightarrow> dllist_head"

definition sizeof_dllist_element :: u32 where "sizeof_dllist_element = 12"
definition sizeof_dllist_head :: u32 where "sizeof_dllist_head = 16"

definition el_upd :: "u32 \<Rightarrow> (dllist_element \<Rightarrow> dllist_element) \<Rightarrow> dl_state \<Rightarrow> dl_state" where
  "el_upd a f s = s\<lparr>dl_nodes := (dl_nodes s)(a := f (dl_nodes s a))\<rparr>"

definition hd_upd :: "u32 \<Rightarrow> (dllist_head \<Rightarrow> dllist_head) \<Rightarrow> dl_state \<Rightarrow> dl_state" where
  "hd_upd a f s = s\<lparr>dl_heads := (dl_heads s)(a := f (dl_heads s a))\<rparr>"

definition dllist_init ::
  "u32 \<Rightarrow> (u32 \<Rightarrow> u32 \<Rightarrow> u8) \<Rightarrow> (u32 \<Rightarrow> u32 \<Rightarrow> u8) \<Rightarrow> dl_state \<Rightarrow> (kerror + (u32 \<times> dl_state)) option" where
  "dllist_init el f1 f2 s =
     oebind (heap_malloc sizeof_dllist_head s) (\<lambda>(ret, s).
     oebind (heap_malloc sizeof_dllist_element s) (\<lambda>(elem, s).
     let s = el_upd elem (\<lambda>e. e\<lparr>el_element := el\<rparr>) s;
         s = hd_upd ret (\<lambda>h. h\<lparr>dl_elem := elem\<rparr>) s;
         s = el_upd elem (\<lambda>e. e\<lparr>el_prev := elem, el_next := elem\<rparr>) s;
         s = hd_upd ret (\<lambda>h. h\<lparr>dl_lessthan := f1, dl_lessthan_find := f2, dl_elements := (if el = 0 then 0 else 1)\<rparr>) s
     in Some (Inr (ret, s))))"

definition dllist_insert_location :: "u32 \<Rightarrow> u32 \<Rightarrow> dl_state \<Rightarrow> (kerror + dl_state) option" where
  "dllist_insert_location bef el s =
     oebind (heap_malloc sizeof_dllist_element s) (\<lambda>(elem, s).
     let s = el_upd elem (\<lambda>e. e\<lparr>el_element := el\<rparr>) s;
         s = el_upd elem (\<lambda>e. e\<lparr>el_next := el_next (dl_nodes s bef)\<rparr>) s;
         s = el_upd bef (\<lambda>e. e\<lparr>el_next := elem\<rparr>) s;
         s = el_upd elem (\<lambda>e. e\<lparr>el_prev := bef\<rparr>) s
     in Some (Inr s))"

text \<open>The walk of \<^verbatim>\<open>dllist_insert\<close>: where it stops, and whether the new element belongs
  before the element there.\<close>

partial_function (option) dllist_insert_loop ::
  "(u32 \<Rightarrow> dllist_element) \<Rightarrow> (u32 \<Rightarrow> u32 \<Rightarrow> u8) \<Rightarrow> u32 \<Rightarrow> u32 \<Rightarrow> u32 \<Rightarrow> (bool \<times> u32) option" where
  "dllist_insert_loop ns lt first el cur =
     (if sint (lt el (el_element (ns cur))) > 0 then Some (True, cur)
      else let cur = el_next (ns cur) in
        if first \<noteq> cur then dllist_insert_loop ns lt first el cur else Some (False, cur))"

definition dllist_insert :: "u32 \<Rightarrow> u32 \<Rightarrow> dl_state \<Rightarrow> (kerror + dl_state) option" where
  "dllist_insert l el s =
     (let cur = dl_elem (dl_heads s l); s = hd_upd l (\<lambda>h. h\<lparr>dl_elements := dl_elements h + 1\<rparr>) s in
      if cur = 0 then
        oebind (heap_malloc sizeof_dllist_element s) (\<lambda>(elem, s).
        let s = hd_upd l (\<lambda>h. h\<lparr>dl_elem := elem\<rparr>) s in Some (Inr (el_upd elem (\<lambda>e. e\<lparr>el_element := el\<rparr>) s)))
      else
        Option.bind (dllist_insert_loop (dl_nodes s) (dl_lessthan (dl_heads s l)) cur el cur) (\<lambda>(before, cur).
        let prev = el_prev (dl_nodes s cur) in
        oebind (dllist_insert_location prev el s) (\<lambda>s.
        Some (Inr (if before \<and> dl_elem (dl_heads s l) = cur then hd_upd l (\<lambda>h. h\<lparr>dl_elem := prev\<rparr>) s else s)))))"

definition dllist_insert_end :: "u32 \<Rightarrow> u32 \<Rightarrow> dl_state \<Rightarrow> (kerror + dl_state) option" where
  "dllist_insert_end l el s =
     (let cur = dl_elem (dl_heads s l) in
      oebind (heap_malloc sizeof_dllist_element s) (\<lambda>(n, s).
      let s = el_upd n (\<lambda>e. e\<lparr>el_element := el\<rparr>) s;
          s = hd_upd l (\<lambda>h. h\<lparr>dl_elements := dl_elements h + 1\<rparr>) s
      in if cur = 0 then Some (Inr (el_upd (dl_elem (dl_heads s l)) (\<lambda>e. e\<lparr>el_element := el\<rparr>) s))
         else
           let cur = el_prev (dl_nodes s cur);
               s = el_upd n (\<lambda>e. e\<lparr>el_next := el_next (dl_nodes s cur)\<rparr>) s
           in Some (Inr (el_upd cur (\<lambda>e. e\<lparr>el_next := n\<rparr>) s))))"

partial_function (option) dllist_find_loop ::
  "(u32 \<Rightarrow> dllist_element) \<Rightarrow> (u32 \<Rightarrow> u32 \<Rightarrow> u8) \<Rightarrow> u32 \<Rightarrow> u32 \<Rightarrow> u32 option" where
  "dllist_find_loop ns lt val cur =
     (let cmp = sint (lt (el_element (ns cur)) val) in
      if cmp = 0 then Some (el_element (ns cur))
      else if cmp \<le> 0 then dllist_find_loop ns lt val (el_next (ns cur)) else Some 0)"

definition dllist_find :: "u32 \<Rightarrow> u32 \<Rightarrow> dl_state \<Rightarrow> u32 option" where
  "dllist_find l val s =
     (let cur = dl_elem (dl_heads s l) in
      if cur = 0 then Some 0 else dllist_find_loop (dl_nodes s) (dl_lessthan_find (dl_heads s l)) val cur)"

text \<open>\<^verbatim>\<open>dllist_remove\<close> uses the data pointer \<^verbatim>\<open>dllist_find\<close> returns as if it were
  the address of the list element.\<close>

definition dllist_remove :: "u32 \<Rightarrow> u32 \<Rightarrow> dl_state \<Rightarrow> (kerror + (u32 \<times> dl_state)) option" where
  "dllist_remove l val s =
     Option.bind (dllist_find l val s) (\<lambda>elem.
     if elem = 0 then Some (Inr (0, s))
     else
       let s = el_upd (el_prev (dl_nodes s elem)) (\<lambda>e. e\<lparr>el_next := el_next (dl_nodes s elem)\<rparr>) s;
           ret = el_element (dl_nodes s elem);
           s = (if dl_elem (dl_heads s l) = elem then hd_upd l (\<lambda>h. h\<lparr>dl_elem := 0\<rparr>) s else s)
       in Some (ebind (heap_free elem s) (\<lambda>s. Inr (ret, s))))"

section \<open>Rings\<close>

fun walk :: "(u32 \<Rightarrow> dllist_element) \<Rightarrow> u32 list \<Rightarrow> u32 \<Rightarrow> u32 \<Rightarrow> bool" where
  "walk ns [] a b \<longleftrightarrow> a = b"
| "walk ns (x # xs) a b \<longleftrightarrow> x = a \<and> walk ns xs (el_next (ns a)) b"

text \<open>\<open>ring ns a xs\<close>: following the next pointers from \<open>a\<close> visits \<open>xs\<close>
  and comes back; previous pointers stay among these elements.\<close>

definition ring :: "(u32 \<Rightarrow> dllist_element) \<Rightarrow> u32 \<Rightarrow> u32 list \<Rightarrow> bool" where
  "ring ns a xs \<longleftrightarrow> xs \<noteq> [] \<and> distinct xs \<and> 0 \<notin> set xs \<and> walk ns xs a a \<and> (\<forall>x \<in> set xs. el_prev (ns x) \<in> set xs)"

lemma walk_append: "walk ns (xs @ ys) a b \<longleftrightarrow> (\<exists>c. walk ns xs a c \<and> walk ns ys c b)"
  by (induction xs arbitrary: a) auto

lemma walk_cong: "(\<And>x. x \<in> set xs \<Longrightarrow> el_next (ns x) = el_next (ms x)) \<Longrightarrow> walk ns xs a b = walk ms xs a b"
  by (induction xs arbitrary: a) auto

lemma ring_hd: "ring ns a xs \<Longrightarrow> hd xs = a \<and> a \<in> set xs \<and> a \<noteq> 0"
  by (cases xs) (auto simp: ring_def)

lemma ring_rotate:
  assumes "ring ns a xs" and "b \<in> set xs"
  obtains ys where "ring ns b ys" "set ys = set xs"
proof -
  obtain ps qs where xs: "xs = ps @ b # qs" using assms(2) by (auto simp: in_set_conv_decomp)
  then have "walk ns ps a b" "walk ns qs (el_next (ns b)) a" using assms(1) by (auto simp: ring_def walk_append)
  then have "walk ns (b # qs @ ps) b b" by (auto simp: walk_append)
  with assms(1) show thesis by (intro that [of "b # qs @ ps"]) (auto simp: ring_def xs)
qed

lemma ring_insert:
  assumes r: "ring ns a xs" and b: "b \<in> set xs" and e: "e \<notin> set xs" "e \<noteq> 0"
    and ms: "ms = (\<lambda>x. if x = e then \<lparr>el_element = el, el_prev = b, el_next = el_next (ns b)\<rparr>
                   else if x = b then (ns b)\<lparr>el_next := e\<rparr> else ns x)"
  obtains ys where "ring ms a ys" "set ys = insert e (set xs)"
proof -
  obtain ps qs where xs: "xs = ps @ b # qs" using b by (auto simp: in_set_conv_decomp)
  have w: "walk ns ps a b" "walk ns qs (el_next (ns b)) a" using r by (auto simp: ring_def walk_append xs)
  have same: "el_next (ns x) = el_next (ms x)" if "x \<in> set ps \<union> set qs" for x
    using that r e by (auto simp: ms ring_def xs)
  have "walk ms ps a b" "walk ms qs (el_next (ns b)) a"
    using w walk_cong [of ps ns ms] walk_cong [of qs ns ms] same by auto
  then have "walk ms (ps @ b # e # qs) a a" using e b by (auto simp: walk_append ms xs)
  moreover have "\<forall>x \<in> set (ps @ b # e # qs). el_prev (ms x) \<in> set (ps @ b # e # qs)"
    using r by (auto simp: ms ring_def xs)
  ultimately show thesis
    using r e by (intro that [of "ps @ b # e # qs"]) (auto simp: ring_def xs)
qed

lemma insert_loop_stops:
  assumes "walk ns xs cur first" and "xs \<noteq> []" and "first \<notin> set (tl xs)" and "set xs \<subseteq> A" and "first \<in> A"
  shows "\<exists>c before. dllist_insert_loop ns lt first el cur = Some (before, c) \<and> c \<in> A"
  using assms
proof (induction xs arbitrary: cur)
  case (Cons x xs)
  show ?case
  proof (cases "xs = []")
    case False
    then have "el_next (ns cur) \<noteq> first" "first \<notin> set (tl xs)"
      using Cons.prems by (cases xs; auto)+
    then show ?thesis
      using Cons False by (auto simp: dllist_insert_loop.simps [of ns lt first el cur] Let_def)
  qed (use Cons.prems in \<open>auto simp: dllist_insert_loop.simps [of ns lt first el cur] Let_def\<close>)
qed simp

lemma find_loop_walk:
  assumes "walk ns xs cur b"
  shows "dllist_find_loop ns lt val cur = (case find (\<lambda>x. 0 \<le> sint (lt (el_element (ns x)) val)) xs of
     Some x \<Rightarrow> Some (if sint (lt (el_element (ns x)) val) = 0 then el_element (ns x) else 0)
   | None \<Rightarrow> dllist_find_loop ns lt val b)"
  using assms
proof (induction xs arbitrary: cur)
  case (Cons x xs)
  then show ?case by (auto simp: dllist_find_loop.simps [of ns lt val cur] Let_def)
qed simp

lemma find_loop_forever:
  assumes "dllist_find_loop ns lt val cur = Some r" and "\<And>x. x \<in> A \<Longrightarrow> sint (lt (el_element (ns x)) val) < 0 \<and> el_next (ns x) \<in> A"
  shows "cur \<notin> A"
proof -
  have "ns = ns \<and> lt = lt \<and> val = val \<longrightarrow> cur \<notin> A"
  proof (rule dllist_find_loop.raw_induct [of "\<lambda>ns' lt' v c r. ns' = ns \<and> lt' = lt \<and> v = val \<longrightarrow> c \<notin> A", OF _ assms(1)], intro impI notI)
    fix loop ns' lt' v c r
    assume IH: "\<And>ns' lt' v c r. loop ns' lt' v c = Some r \<Longrightarrow> ns' = ns \<and> lt' = lt \<and> v = val \<longrightarrow> c \<notin> A"
      and body: "(let cmp = sint (lt' (el_element (ns' c)) v) in if cmp = 0 then Some (el_element (ns' c))
         else if cmp \<le> 0 then loop ns' lt' v (el_next (ns' c)) else Some 0) = Some r"
      and eq: "ns' = ns \<and> lt' = lt \<and> v = val" and c: "c \<in> A"
    then show False using IH [of ns lt val "el_next (ns c)" r] assms(2) [OF c] by (auto simp: Let_def)
  qed
  then show ?thesis by simp
qed

section \<open>Lists in the heap\<close>

text \<open>\<open>dl_list s l xs\<close>: the list with head \<open>l\<close> is the ring \<open>xs\<close>, and its
  elements are memory the heap has given out.\<close>

definition dl_list :: "dl_state \<Rightarrow> u32 \<Rightarrow> u32 list \<Rightarrow> bool" where
  "dl_list s l xs \<longleftrightarrow> heap_wf s \<and> ring (dl_nodes s) (dl_elem (dl_heads s l)) xs \<and> (\<forall>x \<in> set xs. heap_owned s x)"

lemma dl_rest: "heap_state.more s' = heap_state.more s \<Longrightarrow> dl_nodes s' = dl_nodes s \<and> dl_heads s' = dl_heads s"
  for s s' :: dl_state
  by (cases s; cases s') simp

lemma heap_views_upd [simp]:
  "heap_wf (el_upd a f s) = heap_wf s" "heap_wf (hd_upd a g s) = heap_wf s"
  "heap_owned (el_upd a f s) = heap_owned s" "heap_owned (hd_upd a g s) = heap_owned s"
  "heap_fits sz (hd_upd a g s) = heap_fits sz s"
  by (simp_all add: heap_wf_def heap_owned_def heap_fits_def heap_ok_def heap_limit_def el_upd_def hd_upd_def fun_eq_iff)

lemma insert_location_ring:
  assumes "dl_list s l xs" and "b \<in> set xs" and "heap_fits sizeof_dllist_element s"
  obtains e s' ys where "dllist_insert_location b el s = Some (Inr s')" "dl_list s' l ys" "set ys = insert e (set xs)" "e \<notin> set xs"
    "el_element (dl_nodes s' e) = el" "\<forall>x \<in> set xs. el_element (dl_nodes s' x) = el_element (dl_nodes s x)"
    "dl_heads s' = dl_heads s" "el_next (dl_nodes s' b) = e" "el_next (dl_nodes s' e) = el_next (dl_nodes s b)"
proof -
  have inv: "heap_wf s" "ring (dl_nodes s) (dl_elem (dl_heads s l)) xs" "\<forall>x \<in> set xs. heap_owned s x"
    using assms(1) by (simp_all add: dl_list_def)
  obtain e s1 where m: "heap_malloc sizeof_dllist_element s = Some (Inr (e, s1))" "heap_wf s1" "e \<noteq> 0" "e \<notin> set xs"
    "\<forall>x \<in> insert e (set xs). heap_owned s1 x" "heap_state.more s1 = heap_state.more s"
    by (rule kheap.malloc_obtains [OF inv(1) assms(3) inv(3)])
  have eb: "e \<noteq> b" using m(4) assms(2) by auto
  note rest = dl_rest [OF m(6)]
  define ms where "ms = (\<lambda>x. if x = e then \<lparr>el_element = el, el_prev = b, el_next = el_next (dl_nodes s b)\<rparr>
                   else if x = b then (dl_nodes s b)\<lparr>el_next := e\<rparr> else dl_nodes s x)"
  define s' where "s' = s1\<lparr>dl_nodes := ms\<rparr>"
  have run: "dllist_insert_location b el s = Some (Inr s')"
    using m(1) eb rest by (auto simp: dllist_insert_location_def Let_def el_upd_def s'_def ms_def fun_eq_iff intro!: dl_state.equality)
  obtain ys where ys: "ring ms (dl_elem (dl_heads s l)) ys" "set ys = insert e (set xs)"
    by (rule ring_insert [OF inv(2) assms(2) m(4,3) ms_def])
  have "heap_wf s' = heap_wf s1" "heap_owned s' = heap_owned s1"
    by (simp_all add: s'_def heap_wf_def heap_owned_def heap_ok_def heap_limit_def fun_eq_iff)
  then have "dl_list s' l ys" using ys m(2,5) rest by (simp add: dl_list_def) (simp add: s'_def)
  then show thesis
    using m(4) eb assms(2) rest ys(2) by (intro that [OF run]) (auto simp: s'_def ms_def)
qed

section \<open>Properties\<close>


text \<open>A list with one element, the data pointer 5, in a heap with a free block behind it.\<close>

definition dl_example :: dl_state where
  "dl_example = \<lparr>pmem = (\<lambda>_. 0), pmm_bitmap = 0x1000, pmm_bitmap_sz = 16,
     kernel_dir = 0x3000, current_dir = 0x3000, cr3 = 0x3000, paging = True, local_apic = 0,
     interrupt_handlers = (\<lambda>_. Null_isr), kheap_lock = lock_example, kern_heap = 0x20000000,
     blocks_allocked = 1024,
     nodes = (\<lambda>_. \<lparr>ll_next = 0, ll_prev = 0, ll_size = 0, ll_used = 0, ll_magic1 = 0, ll_magic2 = 0\<rparr>)
       (0x20000000 := \<lparr>ll_next = 0x2000001C, ll_prev = 0x20000000, ll_size = 12, ll_used = 1, ll_magic1 = 0xabcd, ll_magic2 = 0xef\<rparr>,
        0x2000001C := \<lparr>ll_next = 0x20000000, ll_prev = 0x20000000, ll_size = 0x3FFFD4, ll_used = 0, ll_magic1 = 0, ll_magic2 = 0\<rparr>),
     dl_nodes = (\<lambda>_. \<lparr>el_element = 5, el_prev = 0x20000010, el_next = 0x20000010\<rparr>),
     dl_heads = (\<lambda>_. \<lparr>dl_lessthan = (\<lambda>a b. if a < b then 1 else if a = b then 0 else -1), dl_lessthan_find = (\<lambda>a b. if a < b then -1 else if a = b then 0 else 1), dl_elem = 0x20000010, dl_elements = 1\<rparr>)\<rparr>"

lemma dl_example_ok: "dl_list dl_example l [0x20000010]" "heap_fits sizeof_dllist_element dl_example"
proof -
  have ok: "heap_ok dl_example [0x20000000, 0x2000001C]"
    by (simp add: heap_ok_def dl_example_def heap_limit_def layout_defs block_bytes_def)
  then have "heap_wf dl_example" "heap_owned dl_example 0x20000010"
    unfolding heap_wf_def heap_owned_def
    by (auto intro!: exI [of _ "[0x20000000, 0x2000001C]"] simp: sizeof_LLMalloc_def dl_example_def)
  then show "dl_list dl_example l [0x20000010]"
    by (simp add: dl_list_def ring_def) (simp add: dl_example_def)
  have "block_fits (heap_align 12) (nodes dl_example 0x2000001C)"
    by (simp add: block_fits_def heap_align_def dl_example_def)
  then show "heap_fits sizeof_dllist_element dl_example"
    using ok unfolding heap_fits_def sizeof_dllist_element_def
    by (auto intro!: exI [of _ "[0x20000000, 0x2000001C]"] simp: sizeof_LLMalloc_def heap_align_def)
qed


text \<open>C31: \<^verbatim>\<open>dllist_find\<close> gives the data of the first element that compares as equal,
  or NULL when an element that compares as greater comes before it; when every element compares
  as less, it runs forever.\<close>

theorem dllist_find_outcome:
  assumes "dl_list s l xs"
  shows "dllist_find l val s = (case find (\<lambda>x. 0 \<le> sint (dl_lessthan_find (dl_heads s l) (el_element (dl_nodes s x)) val)) xs of
     Some x \<Rightarrow> Some (if sint (dl_lessthan_find (dl_heads s l) (el_element (dl_nodes s x)) val) = 0 then el_element (dl_nodes s x) else 0)
   | None \<Rightarrow> None)"
proof -
  let ?a = "dl_elem (dl_heads s l)" and ?lt = "dl_lessthan_find (dl_heads s l)" and ?ns = "dl_nodes s"
  have r: "ring ?ns ?a xs" using assms by (simp add: dl_list_def)
  then have w: "walk ?ns xs ?a ?a" by (simp add: ring_def)
  have "dllist_find_loop ?ns ?lt val ?a = None" if none: "find (\<lambda>x. 0 \<le> sint (?lt (el_element (?ns x)) val)) xs = None"
  proof (rule ccontr)
    assume "dllist_find_loop ?ns ?lt val ?a \<noteq> None"
    then obtain v where v: "dllist_find_loop ?ns ?lt val ?a = Some v" by auto
    have "el_next (?ns x) \<in> set xs" if x: "x \<in> set xs" for x
    proof -
      obtain ps qs where "xs = ps @ x # qs" using x by (auto simp: in_set_conv_decomp)
      then show ?thesis using w ring_hd [OF r] by (cases qs) (auto simp: walk_append)
    qed
    then show False
      using find_loop_forever [OF v, of "set xs"] none ring_hd [OF r] by (auto simp: find_None_iff not_le)
  qed
  then show ?thesis
    using find_loop_walk [OF w, of ?lt val] ring_hd [OF r]
    by (auto simp: dllist_find_def Let_def split: option.splits)
qed

theorem dllist_find_outcome_witness:
  "dllist_find 0x100 5 dl_example = Some 5 \<and> dllist_find 0x100 9 dl_example = None"
  using dllist_find_outcome [OF dl_example_ok(1), of "0x100" 5] dllist_find_outcome [OF dl_example_ok(1), of "0x100" 9]
  by (simp add: dl_example_def)

section \<open>Where the code departs from what it promises\<close>

text \<open>An element that belongs before the only element of a list ends up behind it.\<close>

lemma dllist_insert_front_goes_last:
  assumes "dl_list s l [a]" and "heap_fits sizeof_dllist_element s"
    and "sint (dl_lessthan (dl_heads s l) el (el_element (dl_nodes s a))) > 0"
  shows "\<exists>e s'. dllist_insert l el s = Some (Inr s') \<and> dl_elem (dl_heads s' l) = a \<and> el_next (dl_nodes s' a) = e
     \<and> e \<noteq> a \<and> el_element (dl_nodes s' e) = el"
proof -
  let ?s = "hd_upd l (\<lambda>h. h\<lparr>dl_elements := dl_elements h + 1\<rparr>) s"
  have a: "dl_elem (dl_heads s l) = a" "el_prev (dl_nodes s a) = a" "a \<noteq> 0"
    using assms(1) ring_hd [of "dl_nodes s" "dl_elem (dl_heads s l)" "[a]"] by (auto simp: dl_list_def ring_def)
  have hd: "dl_nodes ?s = dl_nodes s" "dl_elem (dl_heads ?s l) = a" "dl_lessthan (dl_heads ?s l) = dl_lessthan (dl_heads s l)"
    using a by (simp_all add: hd_upd_def)
  have l: "dl_list ?s l [a]" using assms(1) hd a by (simp add: dl_list_def)
  obtain e s1 ys where I: "dllist_insert_location a el ?s = Some (Inr s1)" "e \<notin> set [a]" "el_element (dl_nodes s1 e) = el"
    "dl_heads s1 = dl_heads ?s" "el_next (dl_nodes s1 a) = e"
    by (rule insert_location_ring [OF l, of a el]) (use assms(2) in simp_all)
  have "dllist_insert l el s = Some (Inr (hd_upd l (\<lambda>h. h\<lparr>dl_elem := a\<rparr>) s1))"
    using assms(3) a hd I(1,4) by (simp add: dllist_insert_def Let_def dllist_insert_loop.simps [of _ _ a el a])
  then show ?thesis using I by (auto simp: hd_upd_def)
qed

end
