(* ===== verification/Spec2Isabelle.thy ===== *)
theory Spec2Isabelle
  imports Boot_Memory Kernel_Types Reports Ctype Dllist Pic Vga Printf Kernel_Lib
begin

text \<open>
  Verification of frod, a small kernel for 32-bit x86 machines with several processors.

  \<^bold>\<open>The program.\<close> The boot loader enters \<^verbatim>\<open>kmain\<close> (\<^verbatim>\<open>src/sys/kmain.c\<close>) with
  paging off. The kernel builds a bitmap of free frames from the boot loader's memory map, moves two
  modules to their places, finds the processors and the interrupt controllers in the ACPI tables,
  sets up descriptor tables, interrupt handlers and drivers, turns paging on, moves its stack, creates
  the heap and a first process, and starts the other processors. Afterwards the interrupt of the
  local APIC switches between two processes. The components share one memory and call each other
  directly: the heap calls the virtual memory manager, which calls the frame allocator; drivers
  register handlers in the interrupt table; everything prints through the formatted output.

  \<^bold>\<open>Machine.\<close> \<^verbatim>\<open>Kernel_Memory\<close> is byte-addressed memory of 2^32 bytes with
  little-endian accesses. \<^verbatim>\<open>Mmu\<close> is the page walk the processor makes once paging is on, with
  write protection for the kernel; \<^verbatim>\<open>Vmem\<close> holds the facts about accesses through it.
  \<^verbatim>\<open>Ports\<close> are the port instructions; memory-mapped registers are in \<^verbatim>\<open>Ioapic\<close>.
  What a device answers is a parameter of the operations, so a property that does not restrict it
  holds for every device. Integers keep their C width; pointers are addresses and wrap.

  \<^bold>\<open>Components\<close>, each with the records of its state, one definition per C function and its
  lemmas (helper definitions stand for loops and macros and name their lines in the manifest):

  \<^item> \<^verbatim>\<open>Kernel_String\<close> (\<^verbatim>\<open>lib/string.c\<close>): copies against a snapshot of the source,
    comparison, copies of strings, with the overlaps for which they go wrong.
  \<^item> \<^verbatim>\<open>Pmm\<close> (\<^verbatim>\<open>sys/pmm.c\<close>): the locale \<open>frame_allocator\<close> is what clients rely on; the
    bitmap allocator is its interpretation. First fit for one and for n blocks, round trip of
    allocation and release. \<^verbatim>\<open>Pmm_Init\<close>: initialisation from the memory map takes exactly
    what is not RAM, the bitmap and block 0.
  \<^item> \<^verbatim>\<open>Vmm\<close> (\<^verbatim>\<open>sys/vmm.c\<close>): \<open>vmm_inv\<close> is the invariant of the recursive page tables;
    mapping and unmapping refine update and removal of a map from pages to frames, and
    initialisation establishes the invariant.
  \<^item> \<^verbatim>\<open>Lock\<close> (\<^verbatim>\<open>sys/lock.c\<close>): any number of processors interleave their atomic exchanges;
    mutual exclusion is an invariant of the step relation.
  \<^item> \<^verbatim>\<open>Heap\<close> (\<^verbatim>\<open>sys/heap.c\<close>): the locale \<open>allocator\<close> with the heap as interpretation; every
    result is a fresh block, on the path that grows the heap too.
  \<^item> \<^verbatim>\<open>Frames\<close>, \<^verbatim>\<open>Heap_Init\<close>: how many frames are left, what a sequence of
    allocations and mappings keeps, and with it the initialisation of the heap from an empty state.
  \<^item> \<^verbatim>\<open>Gdt\<close>, \<^verbatim>\<open>Idt\<close>, \<^verbatim>\<open>Isr\<close>, \<^verbatim>\<open>Pic\<close>, \<^verbatim>\<open>Ioapic\<close>, \<^verbatim>\<open>Lapic\<close>,
    \<^verbatim>\<open>Acpi\<close> (\<^verbatim>\<open>arch/x86/*.c\<close>, \<^verbatim>\<open>sys/pit.c\<close>): the packed descriptors through the
    locale \<open>descriptor_format\<close>, the table of handlers, the controllers, the firmware tables.
  \<^item> \<^verbatim>\<open>Vga\<close>, \<^verbatim>\<open>Uart\<close>, \<^verbatim>\<open>Ps2\<close>, \<^verbatim>\<open>Kbd\<close> (\<^verbatim>\<open>drv/*.c\<close>, \<^verbatim>\<open>sys/kbd.c\<close>):
    the console never leaves the screen, the keyboard driver is a walk through a trie, the
    initialisation of the PS/2 controller reports what it finds.
  \<^item> \<^verbatim>\<open>Printf\<close> (\<^verbatim>\<open>lib/stdio.c\<close>): the state machine of \<^verbatim>\<open>do_printf\<close> against a grammar
    of directives, for every sink that satisfies the locale \<open>format_sink\<close>. \<^verbatim>\<open>Reports\<close>
    (the printers of \<^verbatim>\<open>sys/multiboot1.c\<close>, \<^verbatim>\<open>sys/kernel.c\<close>, \<^verbatim>\<open>sys/cpu.c\<close>) and
    \<^verbatim>\<open>Ctype\<close> (\<^verbatim>\<open>lib/ctype.h\<close>) rest on it.
  \<^item> \<^verbatim>\<open>Kernel_Lib\<close> (\<^verbatim>\<open>sys/kernel.c\<close>), \<^verbatim>\<open>Multiboot\<close> (\<^verbatim>\<open>sys/multiboot1.c\<close>),
    \<^verbatim>\<open>Dllist\<close> (\<^verbatim>\<open>sys/dllist.c\<close>): checksums and searches, the boot information, the
    linked list.
  \<^item> \<^verbatim>\<open>Process\<close> (\<^verbatim>\<open>sys/process.c\<close>) and \<^verbatim>\<open>Kernel_Cpu\<close> (\<^verbatim>\<open>sys/cpu.c\<close>,
    \<^verbatim>\<open>sys/syscall.c\<close>, \<^verbatim>\<open>move_stack\<close>, \<^verbatim>\<open>intr_handler\<close>): kernel stacks and register
    frames through the page walk, the switch of processes, the start of the other processors, with
    what they do meanwhile as a parameter. \<^verbatim>\<open>Stack_Move\<close> shows that \<^verbatim>\<open>move_stack\<close> copies
    the stack and moves exactly the words that point into it.
  \<^item> \<^verbatim>\<open>Kmain\<close> (\<^verbatim>\<open>sys/kmain.c\<close>): the boot, composed of the operations above.
    \<^verbatim>\<open>Boot_Memory\<close> shows which frames are free after its first stage,
    \<^verbatim>\<open>Boot\<close> follows it from the descriptor tables to user mode, and \<^verbatim>\<open>Kernel_Types\<close> shows
    that the arrays keep their declared sizes all the way. The properties that span components are
    below. \<^verbatim>\<open>Unit_Tests\<close> runs the tests of the code on the model.

  \<^verbatim>\<open>Frod_Prelude\<close> holds the types, the layout of memory, errors as values (\<open>kerror\<close>: a panic,
  a page fault, an access outside an array), the locale \<open>invariant_system\<close> for step relations, and
  the shared lemmas.

  \<^bold>\<open>Loops.\<close> A loop whose end the code guarantees is a total function. A loop that follows
  pointers, waits for a device or for another processor, or reads to a NUL is a
  \<^theory_text>\<open>partial_function (option)\<close>, in which \<^const>\<open>None\<close> is a loop that never ends; there
  is no fuel. Properties about such code state that it returns, or when it does not.

  \<^bold>\<open>Bounds.\<close> The boot needs 1033 free frames above the first four megabytes: 4 for the new
  stack and its table, 1025 for the heap and its table, 2 for the first process and 2 for the page of
  user code; \<open>keeps\<close> in \<^verbatim>\<open>Frames\<close> counts what each stage takes. Page 0 must not hold
  the bitmap: \<^verbatim>\<open>init_pmm\<close> puts it there when RAM starts at 0, and the start of another processor
  then writes its reset vector into that page.

  \<^bold>\<open>Code bugs.\<close> The model keeps them: they are lemmas and some are properties, such as the
  block of the heap that stays marked as used, the page directory that overwrites the stack of a new
  process, or the stack pointer the timer interrupt drops.

  \<^bold>\<open>Not modelled.\<close> The assembly files: entry stubs, the load of registers and the switch to user
  mode appear as parameters or as part of the machine. The TLB: the page walk reads the tables as
  they are. The 64-bit start, which only stops. \<^verbatim>\<open>kbd_constants.h\<close>, data of a build tool, and
  that tool. Diagnostic messages inside other functions: they change nothing but the screen. Infinite loops at
  the end of a path (\<^verbatim>\<open>while(1)\<close> after a panic, \<^verbatim>\<open>process_dummy\<close>) are the end of the run.
  The caches and the memory order of the processors: an exchange is one step.
\<close>

section \<open>The boot as a whole\<close>

text \<open>C11: The interrupts after the boot, the composition of \<^verbatim>\<open>gdt_install\<close>,
  \<^verbatim>\<open>idt_install\<close>, \<^verbatim>\<open>isr_install\<close>, the drivers' \<^verbatim>\<open>init\<close> functions,
  \<^verbatim>\<open>syscall_init\<close> and \<^verbatim>\<open>vmm_init\<close> in \<^verbatim>\<open>kmain\<close>: whatever the devices answer,
  this part of the boot comes to its end with paging on and the invariant of the page tables;
  every vector leads to its stub; page faults, system calls and spurious interrupts have their
  handlers, the keyboard, the second PS/2 port and the serial port have theirs or the dummy, and
  all other vectors have the dummy.\<close>

theorem kmain_interrupts:
  assumes "tables_ready mm e k"
  shows "\<exists>k'. kmain_tables mm hw e k = Inr k' \<and> vmm_inv (k_proc k')
     \<and> (\<forall>v < 256. gate_offset (idt_entries (mc_idt (k_machine k')) ! v) = vector_stub (be_stubs e) v)
     \<and> interrupt_handlers (k_proc k') 14 = Vmm_handle_page_fault \<and> interrupt_handlers (k_proc k') 0x80 = Syscall_handler
     \<and> driver_table (interrupt_handlers (k_proc k'))"
  by (rule kmain_tables_runs [OF assms])

theorem kmain_interrupts_witness:
  "\<exists>k'. kmain_tables (lapic_recorder 0 (\<lambda>_. 0)) (recorder (\<lambda>_. 0x55)) env_example kernel_example = Inr k'
     \<and> interrupt_handlers (k_proc k') 14 = Vmm_handle_page_fault \<and> interrupt_handlers (k_proc k') 0x20 = Dummy_int_handler
     \<and> gate_offset (idt_entries (mc_idt (k_machine k')) ! 14) = 0x1000E0"
proof -
  obtain k' where k': "kmain_tables (lapic_recorder 0 (\<lambda>_. 0)) (recorder (\<lambda>_. 0x55)) env_example kernel_example = Inr k'"
    "gate_offset (idt_entries (mc_idt (k_machine k')) ! 14) = vector_stub (be_stubs env_example) 14"
    "interrupt_handlers (k_proc k') 14 = Vmm_handle_page_fault" "driver_table (interrupt_handlers (k_proc k'))"
    using kmain_interrupts [OF example_tables_ready, of "recorder (\<lambda>_. 0x55)"] by auto
  then show ?thesis
    by (auto simp: driver_table_def vector_stub_def env_example_def IRQ_KEYBOARD_def IRQ_COM1_def IRQ_PS2_def IRQ_SPURIOUS_def)
qed


lemma example_ready:
  "nat (mc_num_cpus (k_machine kernel_example)) \<le> length (mc_cpus (k_machine kernel_example))"
  "ap_starts (be_cpu_ap_enter env_example) ap_example"
  by (simp_all add: kernel_example_def machine_example_def ap_starts_def ap_example_def env_example_def)



lemma example_typed: "kernel_typed kernel_example" "k_channel_status kernel_example < 0x8000"
  by (simp_all add: kernel_example_def kernel_typed_def machine_typed_def cpus_typed_def machine_example_def gdt_example_def
      NUM_GDT_ENTRIES_def PS2_MAX_REGISTERED_def layout_defs)

lemma ap_example_typed:
  assumes "machine_typed m"
  shows "machine_typed (ap_example i m)"
proof (cases "i < unat MAX_CPUS")
  case True
  then have "cpus_typed ((mc_cpus m)[i := (mc_cpus m ! i)\<lparr>cpu_started := 1\<rparr>])"
    using assms cpus_typed_nth [OF _ True] by (intro cpus_typed_update) (simp_all add: machine_typed_def)
  then show ?thesis using assms by (simp add: ap_example_def machine_typed_def)
next
  case False
  then show ?thesis using assms by (simp add: ap_example_def machine_typed_def cpus_typed_def list_update_beyond)
qed


end
